(* ===== verification/Mahi_Prelude.thy ===== *)
theory Mahi_Prelude
  imports Main "HOL-Library.Word" "HOL-Library.Sublist"
begin

text \<open>
  What every component of the model shares: machine integers by width, the values that
  stand for C++ failures, sequencing of fallible steps, and the clock.

  \<^item> \<open>u8\<close> ... \<open>u64\<close> are \<open>uint8_t\<close> ... \<open>uint64_t\<close>; a C++ \<open>int\<close> is also a \<open>32 word\<close>,
    read with \<open>sint\<close> where the code compares or divides it as a signed value.
  \<^item> \<open>exn\<close> has one constructor per way in which the code stops: the exceptions it throws
    (with the text of their message), a failed \<open>assert\<close>, and behaviour C++ leaves
    undefined.  A fallible operation returns \<open>'a res = exn + 'a\<close>.
  \<^item> \<open>clock\<close> is the sequence of values that successive calls of \<open>timestamp()\<close>
    (\<open>src/util/timestamp.cc\<close>) return.  Nothing is assumed of it: CLOCK_REALTIME may jump.
\<close>

section \<open>Machine integers\<close>

type_synonym u8 = "8 word"
type_synonym u16 = "16 word"
type_synonym u32 = "32 word"
type_synonym u64 = "64 word"

section \<open>Failures as values\<close>

datatype exn =
    Runtime_error string        \<comment> \<open>\<open>throw runtime_error( ... )\<close>\<close>
  | Unix_error string           \<comment> \<open>\<open>throw unix_error( ... )\<close>, \<open>SystemCall\<close>\<close>
  | Ssl_error string            \<comment> \<open>\<open>throw ssl_error( ... )\<close>\<close>
  | Assert_failed               \<comment> \<open>a false \<open>assert( ... )\<close>: the process aborts\<close>
  | Out_of_range                \<comment> \<open>\<open>std::out_of_range\<close>, from \<open>at\<close> and \<open>substr\<close>\<close>
  | Invalid_argument            \<comment> \<open>\<open>std::invalid_argument\<close>, from \<open>stoi\<close>\<close>
  | Thrown_pointer string       \<comment> \<open>\<open>throw new runtime_error( ... )\<close>: no handler of the code catches it\<close>
  | Undefined_behaviour string

type_synonym 'a res = "exn + 'a"

definition bindR :: "'a res \<Rightarrow> ('a \<Rightarrow> 'b res) \<Rightarrow> 'b res" where
  "bindR m f = (case m of Inl e \<Rightarrow> Inl e | Inr x \<Rightarrow> f x)"

definition assertR :: "bool \<Rightarrow> 'a res \<Rightarrow> 'a res" where
  "assertR b m = (if b then m else Inl Assert_failed)"

named_theorems res_simps "rewriting sequences of fallible steps"

lemma bindR_simps [simp]:
  "bindR (Inl e) f = Inl e"
  "bindR (Inr x) f = f x"
  by (simp_all add: bindR_def)

lemma bindR_cong [fundef_cong]:
  "m = m' \<Longrightarrow> (\<And>x. m' = Inr x \<Longrightarrow> f x = f' x) \<Longrightarrow> bindR m f = bindR m' f'"
  by (auto simp: bindR_def split: sum.splits)

lemma bindR_eq_Inr [res_simps]: "bindR m f = Inr y \<longleftrightarrow> (\<exists>x. m = Inr x \<and> f x = Inr y)"
  by (auto simp: bindR_def split: sum.splits)

lemma bindR_eq_Inl [res_simps]:
  "bindR m f = Inl e \<longleftrightarrow> m = Inl e \<or> (\<exists>x. m = Inr x \<and> f x = Inl e)"
  by (auto simp: bindR_def split: sum.splits)

lemma bindR_assoc: "bindR (bindR m f) g = bindR m (\<lambda>x. bindR (f x) g)"
  by (simp add: bindR_def split: sum.split)

lemma assertR_simps [simp]:
  "assertR True m = m"
  "assertR False m = Inl Assert_failed"
  by (simp_all add: assertR_def)

lemma assertR_cong [fundef_cong]:
  "b = b' \<Longrightarrow> (b' \<Longrightarrow> m = m') \<Longrightarrow> assertR b m = assertR b' m'"
  by (simp add: assertR_def)

lemma assertR_eq_Inr [res_simps]: "assertR b m = Inr y \<longleftrightarrow> b \<and> m = Inr y"
  by (simp add: assertR_def)

lemma assertR_eq_Inl [res_simps]:
  "assertR b m = Inl e \<longleftrightarrow> (if b then m = Inl e else e = Assert_failed)"
  by (auto simp: assertR_def)

text \<open>A \<open>for\<close> loop over a container: the first failure ends it.\<close>

primrec fold_res :: "('a \<Rightarrow> 's \<Rightarrow> 's res) \<Rightarrow> 'a list \<Rightarrow> 's \<Rightarrow> 's res" where
  "fold_res f [] s = Inr s"
| "fold_res f (x # xs) s = bindR (f x s) (fold_res f xs)"

lemma fold_res_append [simp]: "fold_res f (xs @ ys) s = bindR (fold_res f xs s) (fold_res f ys)"
proof (induction xs arbitrary: s)
  case (Cons x xs)
  then show ?case by (cases "f x s") simp_all
qed simp

lemma fold_res_preserves:
  assumes "fold_res f xs s = Inr s'" "P s"
    and "\<And>x s s'. x \<in> set xs \<Longrightarrow> P s \<Longrightarrow> f x s = Inr s' \<Longrightarrow> P s'"
  shows "P s'"
  using assms by (induction xs arbitrary: s) (auto simp: bindR_eq_Inr)

lemma fold_res_total:
  assumes "P s" and "\<And>x s. x \<in> set xs \<Longrightarrow> P s \<Longrightarrow> \<exists>s'. f x s = Inr s' \<and> P s'"
  shows "\<exists>s'. fold_res f xs s = Inr s' \<and> P s'"
  using assms
proof (induction xs arbitrary: s)
  case (Cons x xs)
  from Cons.prems(2) [of x s] Cons.prems(1) obtain s1 where "f x s = Inr s1" "P s1" by auto
  with Cons.IH [of s1] Cons.prems(2) show ?case by auto
qed simp

text \<open>The failures that C++ leaves undefined, and results that are none of them.\<close>

definition undefined_exn :: "exn \<Rightarrow> bool" where
  "undefined_exn e = (case e of Undefined_behaviour _ \<Rightarrow> True | _ \<Rightarrow> False)"

lemma undefined_exn_simps [simp]:
  "undefined_exn (Undefined_behaviour t)" "\<not> undefined_exn (Runtime_error t)" "\<not> undefined_exn (Unix_error t)"
  "\<not> undefined_exn Assert_failed" "\<not> undefined_exn Out_of_range" "\<not> undefined_exn Invalid_argument"
  "\<not> undefined_exn (Thrown_pointer t)" "\<not> undefined_exn (Ssl_error t)"
  by (simp_all add: undefined_exn_def)

definition well_defined :: "'a res \<Rightarrow> bool" where
  "well_defined m \<longleftrightarrow> (\<forall>e. m = Inl e \<longrightarrow> \<not> undefined_exn e)"

named_theorems well_defined_intros "steps whose failures are exceptions or assertions"

lemma well_defined_Inr [simp, well_defined_intros]: "well_defined (Inr x)"
  by (simp add: well_defined_def)

lemma well_defined_Inl [simp]: "well_defined (Inl e) \<longleftrightarrow> \<not> undefined_exn e"
  by (simp add: well_defined_def)

lemma well_defined_bindR [well_defined_intros]:
  "well_defined m \<Longrightarrow> (\<And>x. m = Inr x \<Longrightarrow> well_defined (f x)) \<Longrightarrow> well_defined (bindR m f)"
  by (cases m) simp_all

lemma well_defined_assertR [well_defined_intros]:
  "(b \<Longrightarrow> well_defined m) \<Longrightarrow> well_defined (assertR b m)"
  by (simp add: assertR_def)

lemma well_defined_if [well_defined_intros]:
  "(b \<Longrightarrow> well_defined m) \<Longrightarrow> (\<not> b \<Longrightarrow> well_defined n) \<Longrightarrow> well_defined (if b then m else n)"
  by simp

lemma well_defined_prod [well_defined_intros]:
  "(\<And>a b. x = (a, b) \<Longrightarrow> well_defined (f a b)) \<Longrightarrow> well_defined (case x of (a, b) \<Rightarrow> f a b)"
  by (cases x) simp

lemma well_defined_option [well_defined_intros]:
  "(x = None \<Longrightarrow> well_defined m) \<Longrightarrow> (\<And>y. x = Some y \<Longrightarrow> well_defined (f y)) \<Longrightarrow>
   well_defined (case x of None \<Rightarrow> m | Some y \<Rightarrow> f y)"
  by (cases x) simp_all

section \<open>The clock\<close>

type_synonym clock = "nat \<Rightarrow> u64"

text \<open>
  \<open>raw_timestamp\<close> computes milliseconds from the \<open>timespec\<close> that \<open>clock_gettime\<close> fills in;
  \<open>timestamp\<close> subtracts the first value read, in unsigned 64-bit arithmetic.
\<close>

record timespec =
  tv_sec :: int
  tv_nsec :: int

definition raw_timestamp :: "timespec \<Rightarrow> u64" where
  "raw_timestamp ts = word_of_int (tv_nsec ts div 1000000) + word_of_int (tv_sec ts) * 1000"

definition timestamp_since :: "timespec \<Rightarrow> timespec \<Rightarrow> u64" where
  "timestamp_since initial_value ts = raw_timestamp ts - raw_timestamp initial_value"

definition timestamp :: "clock \<Rightarrow> u64 \<times> clock" where
  "timestamp c = (c 0, \<lambda>n. c (Suc n))"

lemma timestamp_simps [simp]:
  "fst (timestamp c) = c 0"
  "snd (timestamp c) = (\<lambda>n. c (Suc n))"
  by (simp_all add: timestamp_def)

section \<open>Lemmas on words\<close>

lemma unat_of_nat_less: "n < 2 ^ LENGTH('a) \<Longrightarrow> unat (of_nat n :: 'a::len word) = n"
  by (simp add: unat_of_nat)

lemma unat_u32_bound: "unat (w :: u32) < 2 ^ 32"
  using unsigned_less [of w] by simp

lemma unat_u64_bound: "unat (w :: u64) < 2 ^ 64"
  using unsigned_less [of w] by simp

lemma unat_suc:
  assumes "b < (n :: 'a::len word)"
  shows "unat (b + 1) = unat b + 1"
proof -
  have "unat b < unat n" using assms by (simp add: word_less_nat_alt)
  also have "(unat n :: nat) < 2 ^ LENGTH('a)" by (rule unsigned_less)
  finally have "unat b + 1 < 2 ^ LENGTH('a)" using \<open>unat b < unat n\<close> \<open>unat n < 2 ^ LENGTH('a)\<close>
    by linarith
  then show ?thesis by (simp add: unat_word_ariths)
qed

lemma unat_of_nat_small: "n < 2 ^ 32 \<Longrightarrow> unat (of_nat n :: u32) = n"
  by (rule unat_of_nat_less) simp

lemma sint_of_nat_small:
  assumes "n < 2 ^ 31"
  shows "sint (of_nat n :: u32) = int n"
proof -
  have "int n < 2 ^ 31" using assms by simp
  then show ?thesis
    by (simp add: signed_of_nat signed_take_bit_int_eq_self)
qed

lemma of_nat_le_word_iff:
  assumes "m < 2 ^ LENGTH('a)" "n < 2 ^ LENGTH('a)"
  shows "(of_nat m :: 'a::len word) \<le> of_nat n \<longleftrightarrow> m \<le> n"
  using assms by (simp add: word_le_nat_alt unat_of_nat_less)

section \<open>Lemmas on lists\<close>

lemma subseq_tail: "subseq xs (x # xs)"
  by (rule list_emb_Cons) simp

lemma subseq_set_mono: "subseq xs ys \<Longrightarrow> set xs \<subseteq> set ys"
  by (induction xs ys rule: list_emb.induct) auto

lemma subseq_sum_list_le:
  "subseq xs ys \<Longrightarrow> sum_list (map f xs) \<le> (sum_list (map f ys) :: nat)"
  by (induction xs ys rule: list_emb.induct) auto

lemma suffix_imp_subseq_tl: "suffix xs (tl ys) \<Longrightarrow> subseq xs (tl ys)"
  by (auto simp: suffix_def)

end
