(* ===== verification/Cpp_String.thy ===== *)
theory Cpp_String
  imports Mahi_Prelude
begin

text \<open>
  The operations of \<open>std::string\<close> and of the C library that the code uses on text, and
  \<open>myatoi\<close> of \<open>src/util/ezio.cc\<close> on top of them.  A \<open>std::string\<close> is a list of bytes
  (\<open>string\<close>); a position is a \<open>nat\<close>, and \<open>string::npos\<close> is \<open>None\<close>.
\<close>

section \<open>Searching\<close>

text \<open>\<open>h.find( pat )\<close> and \<open>h.find( pat, pos )\<close>.\<close>

fun str_find :: "string \<Rightarrow> string \<Rightarrow> nat option" where
  "str_find [] pat = (if pat = [] then Some 0 else None)"
| "str_find (c # cs) pat =
     (if prefix pat (c # cs) then Some 0 else map_option Suc (str_find cs pat))"

definition str_find_from :: "string \<Rightarrow> string \<Rightarrow> nat \<Rightarrow> nat option" where
  "str_find_from h pat pos =
     (if pos \<le> length h then map_option ((+) pos) (str_find (drop pos h) pat) else None)"

text \<open>\<open>s.find_first_not_of( chars )\<close>.\<close>

fun find_first_not_of :: "string \<Rightarrow> string \<Rightarrow> nat option" where
  "find_first_not_of [] chars = None"
| "find_first_not_of (c # cs) chars =
     (if c \<in> set chars then map_option Suc (find_first_not_of cs chars) else Some 0)"

text \<open>\<open>s.substr( pos, n )\<close> and \<open>s.substr( pos )\<close>, which throw when \<open>pos\<close> is past the end.\<close>

definition substr :: "string \<Rightarrow> nat \<Rightarrow> nat \<Rightarrow> string res" where
  "substr s pos n = (if pos \<le> length s then Inr (take n (drop pos s)) else Inl Out_of_range)"

definition substr_from :: "string \<Rightarrow> nat \<Rightarrow> string res" where
  "substr_from s pos = (if pos \<le> length s then Inr (drop pos s) else Inl Out_of_range)"

lemma str_find_Some_prefix:
  "str_find h pat = Some i \<Longrightarrow> prefix pat (drop i h) \<and> i + length pat \<le> length h"
proof (induction h arbitrary: i)
  case (Cons c cs)
  then show ?case
    by (auto split: if_splits dest: prefix_length_le)
qed (auto split: if_splits)

lemma str_find_Some_take:
  "str_find h pat = Some i \<Longrightarrow> h = take i h @ pat @ drop (i + length pat) h"
  using str_find_Some_prefix [of h pat i]
  by (auto simp: prefix_def add.commute)
    (metis append_take_drop_id append_eq_conv_conj drop_drop add.commute)

lemma str_find_Some_length: "str_find h pat = Some i \<Longrightarrow> i + length pat \<le> length h"
  by (simp add: str_find_Some_prefix)

text \<open>The position found is the first one.\<close>

lemma str_find_Some_first: "str_find h pat = Some i \<Longrightarrow> j < i \<Longrightarrow> \<not> prefix pat (drop j h)"
proof (induction h arbitrary: i j)
  case (Cons c cs)
  then show ?case by (cases j) (auto split: if_splits)
qed (auto split: if_splits)

lemma str_find_None: "str_find h pat = None \<longleftrightarrow> (\<forall>j \<le> length h. \<not> prefix pat (drop j h))"
proof (induction h)
  case Nil
  then show ?case by auto
next
  case (Cons c cs)
  have "(\<forall>j \<le> length (c # cs). \<not> prefix pat (drop j (c # cs))) \<longleftrightarrow>
    \<not> prefix pat (c # cs) \<and> (\<forall>j \<le> length cs. \<not> prefix pat (drop j cs))"
  proof (intro iffI conjI allI impI)
    fix j
    assume h: "\<not> prefix pat (c # cs) \<and> (\<forall>j \<le> length cs. \<not> prefix pat (drop j cs))"
      and j: "j \<le> length (c # cs)"
    show "\<not> prefix pat (drop j (c # cs))"
      using h j by (cases j) auto
  next
    assume h: "\<forall>j \<le> length (c # cs). \<not> prefix pat (drop j (c # cs))"
    show "\<not> prefix pat (c # cs)" using h [rule_format, of 0] by simp
    fix j
    assume "j \<le> length cs"
    then show "\<not> prefix pat (drop j cs)" using h [rule_format, of "Suc j"] by simp
  qed
  with Cons show ?case by auto
qed

text \<open>Text appended after a match does not move it.\<close>

lemma str_find_append: "str_find h pat = Some i \<Longrightarrow> str_find (h @ x) pat = Some i"
proof (induction h arbitrary: i)
  case Nil
  then show ?case by (cases x) (auto split: if_splits)
next
  case (Cons c cs)
  show ?case
  proof (cases "prefix pat (c # cs)")
    case True
    then have "prefix pat ((c # cs) @ x)" by (rule prefix_prefix)
    with True Cons.prems show ?thesis by simp
  next
    case False
    with Cons.prems obtain j where j: "str_find cs pat = Some j" "i = Suc j" by auto
    have "\<not> prefix pat (c # cs @ x)"
    proof
      assume "prefix pat (c # cs @ x)"
      moreover have "length pat \<le> length (c # cs)"
        using str_find_Some_length [OF j(1)] by simp
      ultimately have "prefix pat (c # cs)"
        using prefix_length_prefix [of pat "(c # cs) @ x" "c # cs"] by simp
      with False show False ..
    qed
    with Cons.IH [OF j(1)] j(2) show ?thesis by simp
  qed
qed

text \<open>A match cannot start inside a prefix that lacks the pattern's first character.\<close>

lemma str_find_skip:
  "c \<notin> set w \<Longrightarrow> str_find (w @ h) (c # pat) = map_option ((+) (length w)) (str_find h (c # pat))"
  by (cases "str_find h (c # pat)"; induction w) auto

lemma find_first_not_of_Some:
  "find_first_not_of s cs = Some i \<Longrightarrow>
   i < length s \<and> set (take i s) \<subseteq> set cs \<and> s ! i \<notin> set cs"
  by (induction s arbitrary: i) (fastforce split: if_splits)+

lemma find_first_not_of_None: "find_first_not_of s cs = None \<longleftrightarrow> set s \<subseteq> set cs"
  by (induction s) auto

lemma find_first_not_of_append:
  "set w \<subseteq> set cs \<Longrightarrow>
   find_first_not_of (w @ h) cs = map_option ((+) (length w)) (find_first_not_of h cs)"
  by (cases "find_first_not_of h cs"; induction w) auto

section \<open>Splitting\<close>

text \<open>The lines that \<open>getline\<close> returns: a last line without a newline counts if not empty.\<close>

fun getlines :: "string \<Rightarrow> string \<Rightarrow> string list" where
  "getlines acc [] = (if acc = [] then [] else [acc])"
| "getlines acc (c # cs) = (if c = CHR 0x0A then acc # getlines [] cs else getlines (acc @ [c]) cs)"

text \<open>
  The words between white space: what \<open>istream_iterator<string>\<close> yields.  \<open>isspace\<close> of the C
  locale is space, tab, newline, vertical tab, form feed or return.
\<close>

definition c_isspace :: "char \<Rightarrow> bool" where
  "c_isspace c = (of_char c \<in> {32, 9, 10, 11, 12, 13 :: nat})"

fun split_words :: "string \<Rightarrow> string \<Rightarrow> string list" where
  "split_words acc [] = (if acc = [] then [] else [acc])"
| "split_words acc (c # cs) =
     (if c_isspace c then (if acc = [] then [] else [acc]) @ split_words [] cs
      else split_words (acc @ [c]) cs)"

lemma getlines_line:
  "CHR 0x0A \<notin> set w \<Longrightarrow> getlines acc (w @ CHR 0x0A # rest) = (acc @ w) # getlines [] rest"
  by (induction w arbitrary: acc) auto

text \<open>Splitting at every occurrence of a character.\<close>

fun split_char :: "char \<Rightarrow> string \<Rightarrow> string \<Rightarrow> string list" where
  "split_char sep acc [] = [acc]"
| "split_char sep acc (c # cs) =
     (if c = sep then acc # split_char sep [] cs else split_char sep (acc @ [c]) cs)"

lemma split_char_word:
  "sep \<notin> set w \<Longrightarrow> split_char sep acc (w @ sep # rest) = (acc @ w) # split_char sep [] rest"
  "sep \<notin> set w \<Longrightarrow> split_char sep acc w = [acc @ w]"
  by (induction w arbitrary: acc) auto

section \<open>Decimal numerals: \<open>to_string\<close>\<close>

definition decimal_digits :: string where
  "decimal_digits = ''0123456789''"

definition digit_char :: "nat \<Rightarrow> char" where
  "digit_char d = decimal_digits ! d"

fun dec :: "nat \<Rightarrow> string" where
  "dec n = (if n < 10 then [digit_char n] else dec (n div 10) @ [digit_char (n mod 10)])"

declare dec.simps [simp del]

lemma digit_char_in_digits: "d < 10 \<Longrightarrow> digit_char d \<in> set decimal_digits"
  unfolding digit_char_def by (rule nth_mem) (simp add: decimal_digits_def)

lemma set_dec: "set (dec n) \<subseteq> set decimal_digits"
proof (induction n rule: dec.induct)
  case (1 n)
  then show ?case
    by (subst dec.simps) (auto simp: digit_char_in_digits)
qed

lemma dec_nonempty [simp]: "dec n \<noteq> []"
  by (subst dec.simps) simp

section \<open>\<open>strtol\<close> and \<open>myatoi\<close>\<close>

text \<open>
  The value of a character as a digit in the given base (at most 36).
\<close>

definition digit_val :: "nat \<Rightarrow> char \<Rightarrow> nat option" where
  "digit_val base c =
     (let n = of_char c :: nat;
          v = (if 48 \<le> n \<and> n \<le> 57 then Some (n - 48)
               else if 97 \<le> n \<and> n \<le> 122 then Some (n - 87)
               else if 65 \<le> n \<and> n \<le> 90 then Some (n - 55)
               else None)
      in case v of None \<Rightarrow> None | Some d \<Rightarrow> if d < base then Some d else None)"

fun scan_digits :: "nat \<Rightarrow> string \<Rightarrow> nat \<Rightarrow> nat \<times> string" where
  "scan_digits base [] acc = (acc, [])"
| "scan_digits base (c # cs) acc =
     (case digit_val base c of None \<Rightarrow> (acc, c # cs) | Some d \<Rightarrow> scan_digits base cs (acc * base + d))"

text \<open>
  \<open>strtol( s, &end, base )\<close> for a 64-bit \<open>long\<close>: the value (clamped to the range of \<open>long\<close>
  when the digits exceed it), the text from \<open>end\<close> on, and whether \<open>errno\<close> was set to
  ERANGE.  With no digits at all, \<open>end\<close> is the start of the string.
\<close>

definition long_max :: int where "long_max = 2 ^ 63 - 1"
definition long_min :: int where "long_min = - (2 ^ 63)"

definition strip_0x :: "nat \<Rightarrow> string \<Rightarrow> string" where
  "strip_0x base s =
     (case s of
        z # x # h # _ \<Rightarrow>
          if base = 16 \<and> z = CHR ''0'' \<and> (x = CHR ''x'' \<or> x = CHR ''X'') \<and> digit_val 16 h \<noteq> None
          then drop 2 s else s
      | _ \<Rightarrow> s)"

definition strtol :: "string \<Rightarrow> nat \<Rightarrow> int \<times> string \<times> bool" where
  "strtol s base =
     (let s1 = dropWhile c_isspace s;
          neg = (s1 \<noteq> [] \<and> hd s1 = CHR ''-'');
          s2 = (if s1 \<noteq> [] \<and> (hd s1 = CHR ''-'' \<or> hd s1 = CHR ''+'') then tl s1 else s1);
          s3 = strip_0x base s2
      in if s3 = [] \<or> digit_val base (hd s3) = None then (0, s, False)
         else (let (n, rest) = scan_digits base s3 0;
                   v = (if neg then - int n else int n)
               in if v > long_max then (long_max, rest, True)
                  else if v < long_min then (long_min, rest, True)
                  else (v, rest, False)))"

definition myatoi :: "string \<Rightarrow> nat \<Rightarrow> int res" where
  "myatoi str base =
     (if str = [] then Inl (Runtime_error ''Invalid integer string: empty'')
      else (let (v, rest, erange) = strtol str base
            in if erange then Inl (Unix_error ''strtol'')
               else if rest \<noteq> [] then Inl (Runtime_error (''Invalid integer: '' @ str))
               else Inr v))"

text \<open>The value of \<open>atoi\<close> (a cast of \<open>strtol\<close> to \<open>int\<close>) and of \<open>atol\<close>: junk is ignored.\<close>

definition atoi :: "string \<Rightarrow> u32" where
  "atoi s = word_of_int (fst (strtol s 10))"

definition atol :: "string \<Rightarrow> u64" where
  "atol s = word_of_int (fst (strtol s 10))"

subsection \<open>Decimal numerals read back\<close>

lemma digit_val_digit_char: "d < 10 \<Longrightarrow> digit_val 10 (digit_char d) = Some d"
proof -
  assume "d < 10"
  then have "d \<in> {0, 1, 2, 3, 4, 5, 6, 7, 8, 9}" by auto
  then show ?thesis
    by (auto simp: digit_val_def digit_char_def decimal_digits_def Let_def)
qed

lemma scan_digits_dec:
  "scan_digits 10 (dec n @ rest) acc = scan_digits 10 rest (acc * 10 ^ length (dec n) + n)"
proof (induction n arbitrary: rest acc rule: dec.induct)
  case (1 n)
  show ?case
  proof (cases "n < 10")
    case True
    then show ?thesis by (simp add: dec.simps [of n] digit_val_digit_char)
  next
    case False
    have IH: "scan_digits 10 (dec (n div 10) @ r) a =
      scan_digits 10 r (a * 10 ^ length (dec (n div 10)) + n div 10)" for r a
      using False by (rule "1.IH")
    have e: "(acc * 10 ^ length (dec (n div 10)) + n div 10) * 10 + n mod 10 =
      acc * 10 ^ length (dec n) + n"
      using False by (simp add: dec.simps [of n] algebra_simps)
    have "scan_digits 10 (dec n @ rest) acc =
      scan_digits 10 rest ((acc * 10 ^ length (dec (n div 10)) + n div 10) * 10 + n mod 10)"
      using False by (simp add: dec.simps [of n] IH digit_val_digit_char)
    then show ?thesis by (simp only: e)
  qed
qed

lemma digits_not_space: "c \<in> set decimal_digits \<Longrightarrow> \<not> c_isspace c"
  by (auto simp: decimal_digits_def c_isspace_def)

lemma digits_not_sign: "c \<in> set decimal_digits \<Longrightarrow> c \<noteq> CHR ''-'' \<and> c \<noteq> CHR ''+''"
  by (auto simp: decimal_digits_def)

lemma digits_have_val: "c \<in> set decimal_digits \<Longrightarrow> digit_val 10 c \<noteq> None"
  by (auto simp: decimal_digits_def digit_val_def Let_def)

lemma strtol_dec:
  assumes "n < 2 ^ 63"
  shows "strtol (dec n) 10 = (int n, [], False)"
proof -
  obtain c cs where d: "dec n = c # cs" by (cases "dec n") auto
  then have c: "c \<in> set decimal_digits" using set_dec [of n] by auto
  have v: "scan_digits 10 (c # cs) 0 = (n, [])"
    using scan_digits_dec [of n "[]" 0] by (simp add: d)
  have n: "int n \<le> long_max" using assms by (simp add: long_max_def)
  have s3: "strip_0x 10 s = s" for s
    by (simp add: strip_0x_def split: list.split)
  show ?thesis
    using digits_not_space [OF c] digits_not_sign [OF c] digits_have_val [OF c] n
    by (simp add: strtol_def Let_def d s3 v long_min_def del: scan_digits.simps)
qed

text \<open>\<open>myatoi\<close> reads back what \<open>to_string\<close> prints.\<close>

lemma myatoi_dec: "n < 2 ^ 63 \<Longrightarrow> myatoi (dec n) 10 = Inr (int n)"
  by (simp add: myatoi_def strtol_dec)

text \<open>A result of \<open>myatoi\<close> is in the range of \<open>long\<close>.\<close>

lemma myatoi_range: "myatoi s base = Inr v \<Longrightarrow> long_min \<le> v \<and> v \<le> long_max"
  by (auto simp: myatoi_def strtol_def Let_def long_min_def long_max_def
      split: if_splits prod.splits)

end
