(* ===== verification/Packet_Queue.thy ===== *)
theory Packet_Queue
  imports Cpp_String
begin

text \<open>
  \<open>src/packet/queued_packet.hh\<close>, \<open>abstract_packet_queue.hh\<close> and \<open>infinite_packet_queue.hh\<close>.

  The virtual functions of \<open>AbstractPacketQueue\<close> are a record of operations, as a vtable
  is.  The locale \<open>packet_queue\<close> states what a client (the emulated link) relies on, in
  terms of the packets the queue holds; every queue discipline interprets it on its own
  operations.
\<close>

section \<open>Packets\<close>

record queued_packet =
  arrival_time :: u64
  contents :: string

definition pkt_bytes :: "queued_packet \<Rightarrow> nat" where
  "pkt_bytes p = length (contents p)"

definition total_bytes :: "queued_packet list \<Rightarrow> nat" where
  "total_bytes ps = sum_list (map pkt_bytes ps)"

text \<open>Both counters of a queue are C++ \<open>int\<close>s: the sizes they can hold.\<close>

definition countable :: "queued_packet list \<Rightarrow> bool" where
  "countable ps \<longleftrightarrow> total_bytes ps < 2 ^ 31 \<and> length ps < 2 ^ 31"

lemma total_bytes_simps [simp]:
  "total_bytes [] = 0"
  "total_bytes (p # ps) = pkt_bytes p + total_bytes ps"
  "total_bytes (ps @ qs) = total_bytes ps + total_bytes qs"
  by (simp_all add: total_bytes_def)

lemma subseq_total_bytes: "subseq ps qs \<Longrightarrow> total_bytes ps \<le> total_bytes qs"
  by (simp add: total_bytes_def subseq_sum_list_le)

lemma subseq_countable_app:
  "subseq ps qs \<Longrightarrow> countable (qs @ xs) \<Longrightarrow> countable (ps @ xs)"
  using subseq_total_bytes [of ps qs] list_emb_length [of "(=)" ps qs]
  by (auto simp: countable_def)

lemma countable_tail: "countable (p # ps) \<Longrightarrow> countable ps"
  by (simp add: countable_def)

lemma subseq_countable: "subseq ps qs \<Longrightarrow> countable qs \<Longrightarrow> countable ps"
  using subseq_total_bytes [of ps qs] list_emb_length [of "(=)" ps qs]
  by (auto simp: countable_def)

section \<open>The interface\<close>

record 'q queue_ops =
  q_enqueue :: "clock \<Rightarrow> 'q \<Rightarrow> queued_packet \<Rightarrow> ('q \<times> clock) res"
  q_dequeue :: "clock \<Rightarrow> 'q \<Rightarrow> (queued_packet \<times> 'q \<times> clock) res"
  q_empty :: "'q \<Rightarrow> bool"
  q_to_string :: "'q \<Rightarrow> string"
  q_size_bytes :: "'q \<Rightarrow> u32 res"
  q_size_packets :: "'q \<Rightarrow> u32 res"

text \<open>
  The contract.  A queue serves its packets in order of arrival; a discipline may discard
  packets when one is added and when one is taken, but never invents, reorders or
  duplicates them, and its counters are exact.  Taking a packet from a queue that is not
  empty always returns the head.  \<open>room\<close> says when the machine integers of a queue can
  still count one more packet.
\<close>

locale packet_queue =
  fixes ops :: "'q queue_ops"
    and pkts :: "'q \<Rightarrow> queued_packet list"
    and inv :: "'q \<Rightarrow> bool"
    and room :: "'q \<Rightarrow> queued_packet \<Rightarrow> bool"
  assumes inv_countable: "inv q \<Longrightarrow> countable (pkts q)"
    and room_countable: "room q p \<Longrightarrow> countable (pkts q @ [p])"
    and empty_iff: "inv q \<Longrightarrow> q_empty ops q \<longleftrightarrow> pkts q = []"
    and size_bytes_eq: "inv q \<Longrightarrow> q_size_bytes ops q = Inr (of_nat (total_bytes (pkts q)))"
    and size_packets_eq: "inv q \<Longrightarrow> q_size_packets ops q = Inr (of_nat (length (pkts q)))"
    and dequeue_ok: "inv q \<Longrightarrow> pkts q = p # rest \<Longrightarrow>
      \<exists>q' c'. q_dequeue ops c q = Inr (p, q', c') \<and> inv q' \<and> subseq (pkts q') rest \<and>
        (\<forall>x. room q x \<longrightarrow> room q' x)"
    and enqueue_ok: "inv q \<Longrightarrow> room q p \<Longrightarrow>
      q_enqueue ops c q p = Inr (q', c') \<Longrightarrow> inv q' \<and> subseq (pkts q') (pkts q @ [p])"
begin

lemma dequeue_nonempty:
  assumes "inv q" "\<not> q_empty ops q"
  obtains p q' c' where "q_dequeue ops c q = Inr (p, q', c')" "inv q'"
    "subseq (p # pkts q') (pkts q)" "\<forall>x. room q x \<longrightarrow> room q' x"
proof -
  from assms obtain p rest where p: "pkts q = p # rest"
    by (cases "pkts q") (auto simp: empty_iff)
  from dequeue_ok [OF assms(1) p, of c] obtain q' c' where
    "q_dequeue ops c q = Inr (p, q', c')" "inv q'" "subseq (pkts q') rest"
    "\<forall>x. room q x \<longrightarrow> room q' x" by blast
  with p show ?thesis by (intro that [of p q' c']) simp_all
qed

lemma dequeue_empties:
  assumes "inv q" "\<not> q_empty ops q" "q_dequeue ops c q = Inr (p, q', c')"
  shows "inv q' \<and> subseq (p # pkts q') (pkts q) \<and> length (pkts q') < length (pkts q)"
proof -
  obtain p1 q1 c1 where
    1: "q_dequeue ops c q = Inr (p1, q1, c1)" "inv q1" "subseq (p1 # pkts q1) (pkts q)"
    using assms(1,2) by (rule dequeue_nonempty [where c = c])
  with assms(3) have eq: "p1 = p" "q1 = q'" by simp_all
  have "length (p1 # pkts q1) \<le> length (pkts q)" using 1(3) by (rule list_emb_length)
  with 1 eq show ?thesis by simp
qed

text \<open>The two checks that the link makes after each \<open>enqueue\<close> cannot fail.\<close>

lemma enqueue_sizes:
  assumes "inv q" "room q p" "q_enqueue ops c q p = Inr (q', c')"
  shows "length (pkts q') \<le> length (pkts q) + 1"
    and "total_bytes (pkts q') \<le> total_bytes (pkts q) + pkt_bytes p"
  using enqueue_ok [OF assms] list_emb_length [of "(=)" "pkts q'" "pkts q @ [p]"]
    subseq_total_bytes [of "pkts q'" "pkts q @ [p]"]
  by auto

end

text \<open>A discipline whose \<open>enqueue\<close> never stops the program.\<close>

locale reliable_packet_queue = packet_queue +
  assumes enqueue_total: "inv q \<Longrightarrow> room q p \<Longrightarrow>
    \<exists>q' c'. q_enqueue ops c q p = Inr (q', c')"
begin

lemma enqueue_obtain:
  assumes "inv q" "room q p"
  obtains q' c' where "q_enqueue ops c q p = Inr (q', c')" "inv q'"
    "subseq (pkts q') (pkts q @ [p])"
  using enqueue_total [OF assms] enqueue_ok [OF assms] by blast

end

section \<open>A counted first-in first-out queue\<close>

text \<open>
  \<open>InfinitePacketQueue\<close> and \<open>DroppingPacketQueue\<close> declare the same three members: two
  \<open>int\<close> counters and a \<open>std::queue\<close>.  \<open>queue_size_in_bytes_ += p.contents.size()\<close>
  is computed in \<open>size_t\<close> and converted back to \<open>int\<close>, that is modulo \<open>2 ^ 32\<close>; an
  \<open>int\<close> at its maximum is undefined to increment in C++, and wraps here.
\<close>

record fifo_state =
  queue_size_in_bytes :: "32 word"
  queue_size_in_packets :: "32 word"
  internal_queue :: "queued_packet list"

definition size_bytes :: "'a fifo_state_scheme \<Rightarrow> u32 res" where
  "size_bytes q = assertR (0 \<le> sint (queue_size_in_bytes q)) (Inr (queue_size_in_bytes q))"

definition size_packets :: "'a fifo_state_scheme \<Rightarrow> u32 res" where
  "size_packets q = assertR (0 \<le> sint (queue_size_in_packets q)) (Inr (queue_size_in_packets q))"

definition queue_empty :: "'a fifo_state_scheme \<Rightarrow> bool" where
  "queue_empty q \<longleftrightarrow> internal_queue q = []"

definition fifo_push :: "'a fifo_state_scheme \<Rightarrow> queued_packet \<Rightarrow> 'a fifo_state_scheme" where
  "fifo_push q p =
     q\<lparr>queue_size_in_bytes := queue_size_in_bytes q + of_nat (length (contents p)),
       queue_size_in_packets := queue_size_in_packets q + 1,
       internal_queue := internal_queue q @ [p]\<rparr>"

definition fifo_pop :: "'a fifo_state_scheme \<Rightarrow> (queued_packet \<times> 'a fifo_state_scheme) res" where
  "fifo_pop q =
     (case internal_queue q of
        [] \<Rightarrow> Inl Assert_failed
      | p # rest \<Rightarrow>
          Inr (p, q\<lparr>internal_queue := rest,
                    queue_size_in_bytes := queue_size_in_bytes q - of_nat (length (contents p)),
                    queue_size_in_packets := queue_size_in_packets q - 1\<rparr>))"

text \<open>The counters agree with the packets held.\<close>

definition counters_ok :: "'a fifo_state_scheme \<Rightarrow> bool" where
  "counters_ok q \<longleftrightarrow>
     queue_size_in_bytes q = of_nat (total_bytes (internal_queue q)) \<and>
     queue_size_in_packets q = of_nat (length (internal_queue q)) \<and>
     countable (internal_queue q)"

abbreviation fifo_room :: "'a fifo_state_scheme \<Rightarrow> queued_packet \<Rightarrow> bool" where
  "fifo_room q p \<equiv> countable (internal_queue q @ [p])"

lemma counters_countable: "counters_ok q \<Longrightarrow> countable (internal_queue q)"
  by (simp add: counters_ok_def)

lemma counters_size_bytes:
  "counters_ok q \<Longrightarrow> size_bytes q = Inr (of_nat (total_bytes (internal_queue q)))"
  by (simp add: counters_ok_def size_bytes_def countable_def sint_of_nat_small)

lemma counters_size_packets:
  "counters_ok q \<Longrightarrow> size_packets q = Inr (of_nat (length (internal_queue q)))"
  by (simp add: counters_ok_def size_packets_def countable_def sint_of_nat_small)

lemma counters_push:
  "counters_ok q \<Longrightarrow> countable (internal_queue q @ [p]) \<Longrightarrow> counters_ok (fifo_push q p)"
  by (simp add: counters_ok_def fifo_push_def pkt_bytes_def)

lemma push_queue [simp]: "internal_queue (fifo_push q p) = internal_queue q @ [p]"
  by (simp add: fifo_push_def)

lemma counters_pop:
  assumes "counters_ok q" "internal_queue q = p # rest"
  obtains q' where "fifo_pop q = Inr (p, q')" "counters_ok q'" "internal_queue q' = rest"
    "fifo_state.more q' = fifo_state.more q"
proof -
  let ?q' = "q\<lparr>internal_queue := rest,
    queue_size_in_bytes := queue_size_in_bytes q - of_nat (length (contents p)),
    queue_size_in_packets := queue_size_in_packets q - 1\<rparr>"
  have "counters_ok ?q'"
    using assms by (simp add: counters_ok_def countable_def pkt_bytes_def)
  moreover have "fifo_pop q = Inr (p, ?q')"
    using assms(2) by (simp add: fifo_pop_def)
  ultimately show ?thesis by (intro that [of ?q']) simp_all
qed

lemma fifo_pop_length: "fifo_pop q = Inr (p, q') \<Longrightarrow> internal_queue q = p # internal_queue q'"
  by (auto simp: fifo_pop_def split: list.splits)

end
