(* ===== verification/Floating.thy ===== *)
theory Floating
  imports Mahi_Prelude "HOL-Library.Log_Nat"
begin

text \<open>
  Binary floating point.  A finite \<open>double\<close> or \<open>float\<close> is the rational number it denotes,
  and every operation of the code is the exact operation followed by \<open>fl\<close>, the IEEE 754
  rounding to nearest with ties to even, at the format's precision and least exponent
  (so gradual underflow is part of the model).  Overflow to an infinity is not: no value
  in the components that use this theory comes near the largest \<open>double\<close>.
\<close>

section \<open>The binary exponent\<close>

definition flog2 :: "rat \<Rightarrow> int" where
  "flog2 x =
     (let (p, q) = quotient_of x; e = bitlen p - bitlen q
      in if 2 powi e \<le> x then e else e - 1)"

lemma bitlen_powi:
  assumes "0 < n"
  shows "(2::rat) powi (bitlen n - 1) \<le> of_int n" "of_int n < (2::rat) powi (bitlen n)"
proof -
  have pos: "0 < bitlen n"
    using assms by (metis bitlen_eq_zero_iff bitlen_nonneg le_neq_trans less_le_not_le)
  have b: "2 ^ nat (bitlen n - 1) \<le> n" "n < 2 ^ nat (bitlen n)"
    using bitlen_bounds [OF assms] by simp_all
  have "(2::rat) powi (bitlen n - 1) = of_int (2 ^ nat (bitlen n - 1))"
    using pos by (simp add: power_int_def)
  also have "\<dots> \<le> of_int n" using b(1) by (simp only: of_int_le_iff)
  finally show "(2::rat) powi (bitlen n - 1) \<le> of_int n" .
  have "of_int n < (of_int (2 ^ nat (bitlen n)) :: rat)" using b(2) by (simp only: of_int_less_iff)
  also have "\<dots> = 2 powi (bitlen n)" using pos by (simp add: power_int_def)
  finally show "of_int n < (2::rat) powi (bitlen n)" .
qed

lemma flog2_bounds:
  assumes "0 < x"
  shows "2 powi flog2 x \<le> x" "x < 2 powi (flog2 x + 1)"
proof -
  obtain p q where pq: "quotient_of x = (p, q)" by fastforce
  have q: "0 < q" using quotient_of_denom_pos [OF pq] .
  have x: "x = of_int p / of_int q" using quotient_of_div [OF pq] .
  have p: "0 < p" using assms q by (simp add: x zero_less_divide_iff)
  let ?e = "bitlen p - bitlen q"
  have "x < 2 powi (bitlen p) / 2 powi (bitlen q - 1)"
    unfolding x using bitlen_powi [OF p] bitlen_powi [OF q] p
    by (intro frac_less) simp_all
  also have "\<dots> = 2 powi (?e + 1)" by (simp add: power_int_diff [symmetric] algebra_simps)
  finally have up: "x < 2 powi (?e + 1)" .
  have "2 powi (bitlen p - 1) / 2 powi (bitlen q) \<le> x"
    unfolding x using bitlen_powi [OF p] bitlen_powi [OF q] p q
    by (intro frac_le) simp_all
  then have low: "2 powi (?e - 1) \<le> x" by (simp add: power_int_diff [symmetric] algebra_simps)
  show "2 powi flog2 x \<le> x" "x < 2 powi (flog2 x + 1)"
    using up low by (auto simp: flog2_def pq Let_def)
qed

section \<open>Rounding\<close>

definition round_even :: "rat \<Rightarrow> int" where
  "round_even x =
     (let f = \<lfloor>x\<rfloor>; d = x - of_int f
      in if d < 1 / 2 then f else if d > 1 / 2 then f + 1 else if even f then f else f + 1)"

definition fl :: "int \<Rightarrow> int \<Rightarrow> rat \<Rightarrow> rat" where
  "fl prec emin x =
     (if x = 0 then 0
      else let k = max (flog2 \<bar>x\<bar> - (prec - 1)) emin
           in of_int (round_even (x / 2 powi k)) * 2 powi k)"

text \<open>\<open>double\<close> is binary64, \<open>float\<close> is binary32.\<close>

definition dbl :: "rat \<Rightarrow> rat" where "dbl = fl 53 (- 1074)"
definition flt :: "rat \<Rightarrow> rat" where "flt = fl 24 (- 149)"

lemma round_even_le: "x \<le> of_int n \<Longrightarrow> round_even x \<le> n"
proof -
  assume le: "x \<le> of_int n"
  show ?thesis
  proof (cases "x = of_int n")
    case True
    then show ?thesis by (simp add: round_even_def)
  next
    case False
    with le have "\<lfloor>x\<rfloor> < n" by (simp add: floor_less_iff)
    then show ?thesis by (auto simp: round_even_def Let_def)
  qed
qed

lemma round_even_ge: "of_int n \<le> x \<Longrightarrow> n \<le> round_even x"
proof -
  assume "of_int n \<le> x"
  then have "n \<le> \<lfloor>x\<rfloor>" by (simp add: le_floor_iff)
  then show ?thesis by (auto simp: round_even_def Let_def)
qed

text \<open>
  Rounding never moves a value across an integer that the format represents: the
  property the bounds of PIE and CoDel need.
\<close>

lemma fl_zero [simp]: "fl prec emin 0 = 0"
  by (simp add: fl_def)

lemma fl_nonzero:
  "x \<noteq> 0 \<Longrightarrow> k = max (flog2 \<bar>x\<bar> - (prec - 1)) emin \<Longrightarrow>
   fl prec emin x = of_int (round_even (x / 2 powi k)) * 2 powi k"
  by (simp add: fl_def Let_def)

lemma fl_nonneg:
  assumes "0 \<le> x"
  shows "0 \<le> fl prec emin x"
proof (cases "x = 0")
  case False
  define k where "k = max (flog2 \<bar>x\<bar> - (prec - 1)) emin"
  have "0 \<le> round_even (x / 2 powi k)"
    using assms by (intro round_even_ge) simp
  then have "0 \<le> of_int (round_even (x / 2 powi k)) * (2::rat) powi k" by simp
  then show ?thesis by (simp only: fl_nonzero [OF False k_def])
qed simp

lemma int_multiple:
  assumes "k \<le> 0"
  obtains m :: int where "of_nat n = of_int m * (2::rat) powi k"
proof -
  have "of_nat n = (of_nat n * 2 powi (- k)) * (2::rat) powi k"
    by (simp add: power_int_minus field_simps)
  also have "of_nat n * (2::rat) powi (- k) = of_int (int n * 2 ^ nat (- k))"
    using assms by (simp add: power_int_def)
  finally show ?thesis by (rule that)
qed

lemma fl_le_nat:
  assumes "0 \<le> x" "x \<le> of_nat n" "n < 2 ^ nat prec" "0 < prec" "emin \<le> 0"
  shows "fl prec emin x \<le> of_nat n"
proof (cases "x = 0")
  case False
  with assms(1) have x: "0 < x" by simp
  define k where "k = max (flog2 \<bar>x\<bar> - (prec - 1)) emin"
  have "2 powi flog2 x < (2::rat) powi prec"
  proof -
    have "2 powi flog2 x \<le> x" using x by (rule flog2_bounds)
    also have "x \<le> of_nat n" by (fact assms(2))
    also have "(of_nat n :: rat) < of_nat (2 ^ nat prec)" using assms(3) by (simp only: of_nat_less_iff)
    also have "\<dots> = 2 powi prec" using assms(4) by (simp add: power_int_def)
    finally show ?thesis .
  qed
  then have "flog2 x < prec"
    by (metis linorder_not_less one_le_numeral power_int_increasing)
  with x assms(5) have k: "k \<le> 0" by (simp add: k_def)
  obtain m where m: "of_nat n = of_int m * (2::rat) powi k" using int_multiple [OF k] .
  have "x / 2 powi k \<le> of_int m" using assms(2) by (simp add: m divide_le_eq)
  then have "round_even (x / 2 powi k) \<le> m" by (rule round_even_le)
  then have "of_int (round_even (x / 2 powi k)) * 2 powi k \<le> of_int m * (2::rat) powi k"
    by (intro mult_right_mono) simp_all
  then show ?thesis by (simp only: fl_nonzero [OF False k_def] m)
qed simp

lemma dbl_zero [simp]: "dbl 0 = 0"
  by (simp add: dbl_def)

lemma dbl_nonneg: "0 \<le> x \<Longrightarrow> 0 \<le> dbl x"
  by (simp add: dbl_def fl_nonneg)

lemma dbl_le_nat: "0 \<le> x \<Longrightarrow> x \<le> of_nat n \<Longrightarrow> n < 2 ^ 53 \<Longrightarrow> dbl x \<le> of_nat n"
  by (simp add: dbl_def fl_le_nat)

lemma dbl_unit: "0 \<le> x \<Longrightarrow> x \<le> 1 \<Longrightarrow> 0 \<le> dbl x \<and> dbl x \<le> 1"
  using dbl_nonneg [of x] dbl_le_nat [of x 1] by simp

lemma dbl_ge_nat:
  assumes "of_nat n \<le> x" "0 < n" "n < 2 ^ 53"
  shows "of_nat n \<le> dbl x"
proof -
  have x: "0 < x" using assms(1,2) by (metis less_le_trans of_nat_0_less_iff)
  then have x0: "x \<noteq> 0" by simp
  define k where "k = max (flog2 \<bar>x\<bar> - (53 - 1)) (- 1074)"
  have eq: "dbl x = of_int (round_even (x / 2 powi k)) * 2 powi k"
    unfolding dbl_def by (rule fl_nonzero [OF x0 k_def])
  show ?thesis
  proof (cases "k \<le> 0")
    case True
    obtain m where m: "of_nat n = of_int m * (2::rat) powi k" using int_multiple [OF True] .
    have "of_int m \<le> x / 2 powi k" using assms(1) by (simp add: m le_divide_eq)
    then have "m \<le> round_even (x / 2 powi k)" by (rule round_even_ge)
    then have "of_int m * (2::rat) powi k \<le> of_int (round_even (x / 2 powi k)) * 2 powi k"
      by (intro mult_right_mono) simp_all
    then show ?thesis by (simp only: eq m)
  next
    case False
    have f: "flog2 x = k + 52" using False x by (simp add: k_def)
    have "(2::rat) powi 52 * 2 powi k \<le> x"
      using flog2_bounds(1) [OF x] by (simp add: f power_int_add algebra_simps)
    then have "of_int (2 ^ 52) \<le> x / 2 powi k" by (simp add: le_divide_eq)
    then have "2 ^ 52 \<le> round_even (x / 2 powi k)" by (rule round_even_ge)
    then have r: "(of_int (2 ^ 52) :: rat) \<le> of_int (round_even (x / 2 powi k))"
      by (simp only: of_int_le_iff)
    have "(of_nat n :: rat) \<le> of_nat (2 ^ 53)" using assms(3) by (simp only: of_nat_le_iff)
    also have "\<dots> = of_int (2 ^ 52) * 2 powi 1" by simp
    also have "\<dots> \<le> of_int (2 ^ 52) * 2 powi k"
      using False by (intro mult_left_mono power_int_increasing) simp_all
    also have "\<dots> \<le> of_int (round_even (x / 2 powi k)) * 2 powi k"
      using r by (intro mult_right_mono) simp_all
    finally show ?thesis by (simp only: eq)
  qed
qed

section \<open>Square root\<close>

text \<open>
  The integer square root, and with it the correctly rounded \<open>sqrt\<close> of a positive 32-bit
  integer.  With \<open>r\<close> the integer root of \<open>n * 4 ^ 60\<close>, the root of \<open>n\<close> lies between
  \<open>r / 2 ^ 60\<close> and \<open>(r + 1) / 2 ^ 60\<close>; no rounding boundary of a \<open>double\<close> above 1 lies
  strictly between the two, so the midpoint rounds as the root does.
\<close>

function isqrt :: "int \<Rightarrow> int" where
  "isqrt n =
     (if n \<le> 0 then 0
      else let r = 2 * isqrt (n div 4) in if (r + 1) * (r + 1) \<le> n then r + 1 else r)"
  by pat_completeness auto
termination
  by (relation "measure nat") auto

declare isqrt.simps [simp del]

lemma isqrt_bounds:
  "0 \<le> n \<Longrightarrow> 0 \<le> isqrt n \<and> isqrt n * isqrt n \<le> n \<and> n < (isqrt n + 1) * (isqrt n + 1)"
proof (induction n rule: isqrt.induct)
  case (1 n)
  show ?case
  proof (cases "n = 0")
    case True
    then show ?thesis by (simp add: isqrt.simps [of 0])
  next
    case False
    with "1.prems" have n: "\<not> n \<le> 0" "0 \<le> n div 4" by simp_all
    define s where "s = isqrt (n div 4)"
    have s: "0 \<le> s" "s * s \<le> n div 4" "n div 4 < (s + 1) * (s + 1)"
      using "1.IH" [OF n] by (simp_all add: s_def)
    have "n div 4 + 1 \<le> (s + 1) * (s + 1)" using s(3) by simp
    then have "n < 4 * ((s + 1) * (s + 1))" by linarith
    moreover have "4 * (s * s) \<le> n" using s(2) by linarith
    ultimately show ?thesis using n(1) s(1)
      by (auto simp: isqrt.simps [of n] Let_def s_def [symmetric] algebra_simps)
  qed
qed

definition sqrt_dbl :: "nat \<Rightarrow> rat" where
  "sqrt_dbl n =
     (let m = int n * 4 ^ 60; r = isqrt m
      in if r * r = m then dbl (of_int r / 2 ^ 60)
         else dbl (of_int (2 * r + 1) / 2 ^ 61))"

lemma sqrt_dbl_ge_1:
  assumes "0 < n"
  shows "1 \<le> sqrt_dbl n"
proof -
  define m where "m = int n * 4 ^ 60"
  define r where "r = isqrt m"
  have m: "4 ^ 60 \<le> m" using assms by (simp add: m_def)
  then have b: "0 \<le> r" "m < (r + 1) * (r + 1)" using isqrt_bounds [of m] by (simp_all add: r_def)
  have r: "2 ^ 60 \<le> r"
  proof (rule ccontr)
    assume "\<not> ?thesis"
    then have "(r + 1) * (r + 1) \<le> 2 ^ 60 * 2 ^ 60" using b(1) by (intro mult_mono) simp_all
    with b(2) m show False by simp
  qed
  have "(of_int (2 ^ 60) :: rat) \<le> of_int r" using r by (simp only: of_int_le_iff)
  then have 1: "1 \<le> (of_int r / 2 ^ 60 :: rat)" by simp
  have "2 ^ 61 \<le> 2 * r + 1" using r by simp
  then have "(of_int (2 ^ 61) :: rat) \<le> of_int (2 * r + 1)" by (simp only: of_int_le_iff)
  then have 2: "1 \<le> (of_int (2 * r + 1) / 2 ^ 61 :: rat)" by simp
  have "1 \<le> dbl x" if "1 \<le> x" for x
    using dbl_ge_nat [of 1 x] that by simp
  with 1 2 show ?thesis
    unfolding sqrt_dbl_def Let_def m_def [symmetric] r_def [symmetric] by auto
qed

end
