(* ===== verification/Live_Graph.thy ===== *)
theory Live_Graph
  imports Floating
begin

text \<open>
  \<open>src/graphing/binned_livegraph.cc\<close>: the bins in which the link and the meter count what
  they plot.  \<open>data_points\<close> is the member of \<open>Graph\<close> (\<open>graph.hh\<close>) that receives the finished
  bins, with its coordinates cut to \<open>float\<close>.  Here the operations run without interruption, as the thread that
  counts sees them; \<open>Graph_Animation\<close> takes them apart and interleaves them with the thread that draws.
\<close>

record live_graph =
  bin_width_ms :: u32
  value_this_bin :: "u32 list"
  current_bin :: u64
  multiplier :: rat
  rate_quantity :: bool
  initialize_new_bin :: "u32 \<Rightarrow> u32 \<Rightarrow> u32"
  data_points :: "(rat \<times> rat) list list"

definition add_data_point :: "nat \<Rightarrow> rat \<Rightarrow> rat \<Rightarrow> live_graph \<Rightarrow> live_graph res" where
  "add_data_point num t y g =
     (if num < length (data_points g)
      then Inr (g\<lparr>data_points := (data_points g)[num := data_points g ! num @ [(flt t, flt y)]]\<rparr>)
      else Inl Out_of_range)"

definition live_graph_new ::
  "clock \<Rightarrow> nat \<Rightarrow> rat \<Rightarrow> bool \<Rightarrow> u32 \<Rightarrow> (u32 \<Rightarrow> u32 \<Rightarrow> u32) \<Rightarrow> (live_graph \<times> clock) res" where
  "live_graph_new c styles mult rate width init =
     (if width = 0 then Inl (Undefined_behaviour ''division by zero'')
      else let (now, c') = timestamp c;
               g = \<lparr>bin_width_ms = width, value_this_bin = replicate styles 0,
                    current_bin = now div ucast width, multiplier = mult, rate_quantity = rate,
                    initialize_new_bin = init, data_points = replicate styles []\<rparr>
           in bindR (fold_res (\<lambda>i. add_data_point i 0 0) [0..<styles] g) (\<lambda>g'. Inr (g', c')))"

text \<open>The point of a bin that is over, and the value with which the next one begins.\<close>

definition plot_value :: "nat \<Rightarrow> live_graph \<Rightarrow> live_graph res" where
  "plot_value i g =
     (let v = value_this_bin g ! i;
          value0 = dbl (of_int (sint v) * multiplier g);
          value = (if rate_quantity g
                   then dbl (value0 / dbl (of_nat (unat (bin_width_ms g)) / 1000)) else value0);
          t = dbl (dbl (of_nat (unat ((current_bin g + 1) * ucast (bin_width_ms g)))) / 1000)
      in add_data_point i t value g)"

definition fresh_value :: "nat \<Rightarrow> live_graph \<Rightarrow> live_graph" where
  "fresh_value i g =
     g\<lparr>value_this_bin :=
         (value_this_bin g)[i := initialize_new_bin g (bin_width_ms g) (value_this_bin g ! i)]\<rparr>"

definition close_value :: "nat \<Rightarrow> live_graph \<Rightarrow> live_graph res" where
  "close_value i g = bindR (plot_value i g) (\<lambda>g'. Inr (fresh_value i g'))"

definition close_bin :: "live_graph \<Rightarrow> live_graph res" where
  "close_bin g =
     bindR (fold_res close_value [0..<length (value_this_bin g)] g) (\<lambda>g'.
       Inr (g'\<lparr>current_bin := current_bin g' + 1\<rparr>))"

text \<open>What closing a value leaves alone.\<close>

definition same_bins :: "live_graph \<Rightarrow> live_graph \<Rightarrow> bool" where
  "same_bins g' g \<longleftrightarrow> current_bin g' = current_bin g \<and> bin_width_ms g' = bin_width_ms g \<and>
     multiplier g' = multiplier g \<and> rate_quantity g' = rate_quantity g \<and>
     initialize_new_bin g' = initialize_new_bin g \<and>
     length (value_this_bin g') = length (value_this_bin g) \<and>
     length (data_points g') = length (data_points g)"

lemma close_value_same: "close_value i g = Inr g' \<Longrightarrow> same_bins g' g"
  by (auto simp: close_value_def plot_value_def fresh_value_def add_data_point_def same_bins_def Let_def bindR_eq_Inr
      split: if_splits)

lemma same_bins_refl: "same_bins g g"
  by (simp add: same_bins_def)

lemma same_bins_trans: "same_bins g3 g2 \<Longrightarrow> same_bins g2 g1 \<Longrightarrow> same_bins g3 g1"
  by (simp add: same_bins_def)

lemma close_values_same: "fold_res close_value is g = Inr g' \<Longrightarrow> same_bins g' g"
  by (erule fold_res_preserves) (blast intro: same_bins_refl same_bins_trans close_value_same)+

lemma close_bin_current: "close_bin g = Inr g' \<Longrightarrow> current_bin g' = current_bin g + 1"
  by (auto simp: close_bin_def bindR_eq_Inr same_bins_def dest: close_values_same)

function close_until :: "u64 \<Rightarrow> live_graph \<Rightarrow> live_graph res" where
  "close_until now_bin g =
     (if current_bin g < now_bin then bindR (close_bin g) (close_until now_bin) else Inr g)"
  by pat_completeness auto
termination
  by (relation "measure (\<lambda>(n, g). unat n - unat (current_bin g))")
    (auto dest!: close_bin_current simp: unat_suc word_less_nat_alt)

declare close_until.simps [simp del]

definition advance :: "clock \<Rightarrow> live_graph \<Rightarrow> (live_graph \<times> clock) res" where
  "advance c g =
     (let (now, c') = timestamp c
      in bindR (close_until (now div ucast (bin_width_ms g)) g) (\<lambda>g'. Inr (g', c')))"

text \<open>What is done to the current bin, under the mutex again.\<close>

definition add_to_bin :: "nat \<Rightarrow> u32 \<Rightarrow> live_graph \<Rightarrow> live_graph res" where
  "add_to_bin num amount g =
     (if length (value_this_bin g) \<le> num then Inl Out_of_range
      else let v = value_this_bin g ! num
           in if sint v < 0
              then Inl (Runtime_error ''BinnedLiveGraph: attempt to add to a default value'')
              else Inr (g\<lparr>value_this_bin := (value_this_bin g)[num := v + amount]\<rparr>))"

definition set_max_in_bin :: "nat \<Rightarrow> u32 \<Rightarrow> live_graph \<Rightarrow> live_graph res" where
  "set_max_in_bin num amount g =
     (if length (value_this_bin g) \<le> num then Inl Out_of_range
      else let v = value_this_bin g ! num
           in Inr (g\<lparr>value_this_bin :=
                (value_this_bin g)[num := if sint v < 0 then amount else max v amount]\<rparr>))"

definition add_value_now :: "clock \<Rightarrow> nat \<Rightarrow> u32 \<Rightarrow> live_graph \<Rightarrow> (live_graph \<times> clock) res" where
  "add_value_now c num amount g =
     bindR (advance c g) (\<lambda>(g1, c'). bindR (add_to_bin num amount g1) (\<lambda>g2. Inr (g2, c')))"

definition set_max_value_now :: "clock \<Rightarrow> nat \<Rightarrow> u32 \<Rightarrow> live_graph \<Rightarrow> (live_graph \<times> clock) res" where
  "set_max_value_now c num amount g =
     bindR (advance c g) (\<lambda>(g1, c'). bindR (set_max_in_bin num amount g1) (\<lambda>g2. Inr (g2, c')))"


section \<open>Closing bins\<close>

definition graph_wf :: "live_graph \<Rightarrow> bool" where
  "graph_wf g \<longleftrightarrow> length (data_points g) = length (value_this_bin g)"

text \<open>\<open>gains g g' k\<close>: every line of the plot has \<open>k\<close> more points.\<close>

definition gains :: "live_graph \<Rightarrow> live_graph \<Rightarrow> nat \<Rightarrow> bool" where
  "gains g g' k \<longleftrightarrow> (\<forall>j < length (data_points g).
     length (data_points g' ! j) = length (data_points g ! j) + k)"

lemma close_values_upto:
  assumes "graph_wf g" "k \<le> length (value_this_bin g)"
  shows "\<exists>g'. fold_res close_value [0..<k] g = Inr g' \<and> same_bins g' g \<and>
    (\<forall>j < length (data_points g).
      length (data_points g' ! j) = length (data_points g ! j) + (if j < k then 1 else 0))"
  using assms(2)
proof (induction k)
  case 0
  then show ?case by (simp add: same_bins_refl)
next
  case (Suc k)
  then obtain g1 where g1: "fold_res close_value [0..<k] g = Inr g1" "same_bins g1 g"
    "\<forall>j < length (data_points g).
      length (data_points g1 ! j) = length (data_points g ! j) + (if j < k then 1 else 0)"
    by auto
  have k: "k < length (data_points g1)" "length (data_points g1) = length (data_points g)"
    using Suc.prems assms(1) g1(2) by (auto simp: graph_wf_def same_bins_def)
  then obtain g2 where g2: "close_value k g1 = Inr g2"
    "\<exists>pt. data_points g2 = (data_points g1)[k := data_points g1 ! k @ [pt]]"
    by (auto simp: close_value_def plot_value_def fresh_value_def add_data_point_def Let_def)
  have "same_bins g2 g" using close_value_same [OF g2(1)] g1(2) by (rule same_bins_trans)
  with g1 g2 k show ?case by (auto simp: nth_list_update less_Suc_eq)
qed

lemma close_bin_ok:
  assumes "graph_wf g"
  obtains g' where "close_bin g = Inr g'" "graph_wf g'" "gains g g' 1"
    "current_bin g' = current_bin g + 1" "bin_width_ms g' = bin_width_ms g"
    "length (value_this_bin g') = length (value_this_bin g)"
proof -
  obtain g1 where "fold_res close_value [0..<length (value_this_bin g)] g = Inr g1" "same_bins g1 g"
    "\<forall>j < length (data_points g). length (data_points g1 ! j) = length (data_points g ! j) +
      (if j < length (value_this_bin g) then 1 else 0)"
    using close_values_upto [OF assms order_refl] by blast
  with assms show ?thesis
    by (intro that [of "g1\<lparr>current_bin := current_bin g1 + 1\<rparr>"])
      (auto simp: close_bin_def graph_wf_def same_bins_def gains_def)
qed

lemma close_until_ok:
  assumes "graph_wf g"
  shows "\<exists>g'. close_until n g = Inr g' \<and> graph_wf g' \<and> bin_width_ms g' = bin_width_ms g \<and>
    length (value_this_bin g') = length (value_this_bin g) \<and>
    current_bin g' = max (current_bin g) n \<and> gains g g' (unat n - unat (current_bin g))"
  using assms
proof (induction n g rule: close_until.induct)
  case (1 n g)
  show ?case
  proof (cases "current_bin g < n")
    case False
    then have "n \<le> current_bin g" by simp
    then have "max (current_bin g) n = current_bin g" "unat n - unat (current_bin g) = 0"
      by (simp_all add: max.absorb1 word_le_nat_alt)
    with False "1.prems" show ?thesis by (simp add: close_until.simps [of n g] gains_def)
  next
    case True
    from "1.prems" obtain g1 where g1: "close_bin g = Inr g1" "graph_wf g1" "gains g g1 1"
      "current_bin g1 = current_bin g + 1" "bin_width_ms g1 = bin_width_ms g"
      "length (value_this_bin g1) = length (value_this_bin g)"
      by (rule close_bin_ok)
    from "1.IH" [OF True g1(1,2)] obtain g2 where g2: "close_until n g1 = Inr g2" "graph_wf g2"
      "bin_width_ms g2 = bin_width_ms g1" "length (value_this_bin g2) = length (value_this_bin g1)"
      "current_bin g2 = max (current_bin g1) n" "gains g1 g2 (unat n - unat (current_bin g1))"
      by blast
    have u: "unat (current_bin g1) = unat (current_bin g) + 1" "unat (current_bin g) < unat n"
      using True g1(4) by (simp_all add: unat_suc word_less_nat_alt)
    then have "current_bin g1 \<le> n" by (simp add: word_le_nat_alt)
    then have m: "max (current_bin g1) n = max (current_bin g) n" 
      using True by (simp add: max.absorb2 less_imp_le)
    have len: "length (data_points g1) = length (data_points g)"
      using "1.prems" g1 by (simp add: graph_wf_def)
    have "gains g g2 (unat n - unat (current_bin g))"
      using g1(3) g2(6) u len by (auto simp: gains_def)
    with True g1 g2 m show ?thesis by (subst close_until.simps) simp
  qed
qed

lemma advance_ok:
  assumes "graph_wf g"
  obtains g' where "advance c g = Inr (g', \<lambda>n. c (Suc n))" "graph_wf g'"
    "bin_width_ms g' = bin_width_ms g" "length (value_this_bin g') = length (value_this_bin g)"
    "current_bin g' = max (current_bin g) (c 0 div ucast (bin_width_ms g))"
    "gains g g' (unat (c 0 div ucast (bin_width_ms g)) - unat (current_bin g))"
  using close_until_ok [OF assms, of "c 0 div ucast (bin_width_ms g)"]
  by (auto simp: advance_def timestamp_def)

lemma set_max_value_now_ok:
  assumes "graph_wf g" "num < length (value_this_bin g)"
  obtains g' where "set_max_value_now c num amount g = Inr (g', \<lambda>n. c (Suc n))" "graph_wf g'"
    "length (value_this_bin g') = length (value_this_bin g)"
    "amount \<le> value_this_bin g' ! num"
proof -
  from assms(1) obtain g1 where "advance c g = Inr (g1, \<lambda>n. c (Suc n))" "graph_wf g1"
    "length (value_this_bin g1) = length (value_this_bin g)"
    by (rule advance_ok)
  with assms(2) show ?thesis
    by (intro that [of "g1\<lparr>value_this_bin := (value_this_bin g1)[num :=
        if sint (value_this_bin g1 ! num) < 0 then amount
        else max (value_this_bin g1 ! num) amount]\<rparr>"])
      (simp_all add: set_max_value_now_def set_max_in_bin_def graph_wf_def)
qed

end
