(* ===== verification/File_Descriptor.thy ===== *)
theory File_Descriptor
  imports Mahi_Prelude
begin

text \<open>
  \<open>src/util/file_descriptor.cc\<close>.  The kernel is a parameter: \<open>writes\<close> is the sequence of
  values that successive \<open>write(2)\<close> calls return, \<open>reads\<close> the sequence of what \<open>read(2)\<close>
  delivers (\<open>None\<close> for an error), in the way \<open>clock\<close> is for the time.  \<open>sent\<close> records the
  chunks that the kernel has accepted, one per call.
\<close>

type_synonym writes = "nat \<Rightarrow> int"
type_synonym reads = "nat \<Rightarrow> string option"

record file_descriptor =
  fd_num :: int
  eof :: bool
  read_count :: u32
  write_count :: u32
  sent :: "string list"

definition buffer_size :: nat where "buffer_size = 1024 * 1024"

definition fd_new :: "int \<Rightarrow> int \<Rightarrow> file_descriptor res" where
  "fd_new fd fcntl_result =
     (if fd \<le> 2 then Inl (Unix_error ''FileDescriptor: fd <= 2'')
      else if fcntl_result < 0 then Inl (Unix_error ''fcntl FD_CLOEXEC'')
      else Inr \<lparr>fd_num = fd, eof = False, read_count = 0, write_count = 0, sent = []\<rparr>)"

text \<open>The move constructor: the new object, and what is left of the old one.\<close>

definition fd_move :: "file_descriptor \<Rightarrow> file_descriptor \<times> file_descriptor" where
  "fd_move other = (other, other\<lparr>fd_num := - 1\<rparr>)"

text \<open>The destructor: the descriptor that is closed, if any.\<close>

definition fd_close :: "file_descriptor \<Rightarrow> int option" where
  "fd_close f = (if fd_num f < 0 then None else Some (fd_num f))"

definition fd_write_some ::
  "writes \<Rightarrow> file_descriptor \<Rightarrow> string \<Rightarrow> (nat \<times> file_descriptor \<times> writes) res" where
  "fd_write_some w f buf =
     (if buf = [] then Inl (Runtime_error ''nothing to write'')
      else let bytes_written = w 0
           in if bytes_written < 0 then Inl (Unix_error ''write'')
              else if bytes_written = 0 then Inl (Runtime_error ''write returned 0'')
              else Inr (nat bytes_written,
                        f\<lparr>write_count := write_count f + 1,
                          sent := sent f @ [take (nat bytes_written) buf]\<rparr>,
                        \<lambda>n. w (Suc n)))"

text \<open>
  \<open>write\<close> with \<open>write_all\<close>: the loop ends when the iterator equals \<open>end\<close>; an iterator past
  \<open>end\<close> makes the next call throw.
\<close>

lemma fd_write_some_shrinks:
  "fd_write_some w f buf = Inr (k, r) \<Longrightarrow> length (drop k buf) < length buf"
  by (auto simp: fd_write_some_def Let_def split: if_splits)

function fd_write :: "writes \<Rightarrow> file_descriptor \<Rightarrow> string \<Rightarrow> (file_descriptor \<times> writes) res" where
  "fd_write w f buf =
     bindR (fd_write_some w f buf) (\<lambda>(k, f', w').
       if k = length buf then Inr (f', w') else fd_write w' f' (drop k buf))"
  by pat_completeness auto
termination
  by (relation "measure (\<lambda>(_, _, buf). length buf)")
    (auto simp del: length_drop dest: fd_write_some_shrinks)

declare fd_write.simps [simp del]

definition fd_read ::
  "reads \<Rightarrow> file_descriptor \<Rightarrow> nat \<Rightarrow> (string \<times> file_descriptor \<times> reads) res" where
  "fd_read r f limit =
     (case r 0 of
        None \<Rightarrow> Inl (Unix_error ''read'')
      | Some s \<Rightarrow>
          let s' = take (min buffer_size limit) s
          in Inr (s', f\<lparr>eof := eof f \<or> s' = [], read_count := read_count f + 1\<rparr>, \<lambda>n. r (Suc n)))"

section \<open>What is written\<close>

text \<open>A successful \<open>write\<close> hands over exactly the buffer, in order, in however many pieces.\<close>

lemma fd_write_sent:
  "fd_write w f buf = Inr (f', w') \<Longrightarrow>
   concat (sent f') = concat (sent f) @ buf \<and> fd_num f' = fd_num f \<and> eof f' = eof f \<and>
   read_count f' = read_count f"
proof (induction w f buf rule: fd_write.induct)
  case (1 w f buf)
  obtain k f1 w1 where s: "fd_write_some w f buf = Inr (k, f1, w1)"
    using "1.prems" by (cases "fd_write_some w f buf") (auto simp: fd_write.simps [of w f buf])
  have f1: "sent f1 = sent f @ [take k buf]" "fd_num f1 = fd_num f" "eof f1 = eof f"
    "read_count f1 = read_count f"
    using s by (auto simp: fd_write_some_def Let_def split: if_splits)
  show ?case
  proof (cases "k = length buf")
    case True
    with s "1.prems" f1 show ?thesis by (simp add: fd_write.simps [of w f buf])
  next
    case False
    with s "1.prems" have "fd_write w1 f1 (drop k buf) = Inr (f', w')"
      by (simp add: fd_write.simps [of w f buf])
    with "1.IH" [OF s refl refl False] f1 show ?thesis by simp
  qed
qed

lemma fd_write_nonempty: "fd_write w f buf = Inr r \<Longrightarrow> buf \<noteq> []"
  by (auto simp: fd_write.simps [of w f buf] fd_write_some_def)

lemma fd_write_whole:
  assumes "buf \<noteq> []" "w 0 = int (length buf)"
  shows "fd_write w f buf =
    Inr (f\<lparr>write_count := write_count f + 1, sent := sent f @ [buf]\<rparr>, \<lambda>n. w (Suc n))"
  using assms by (subst fd_write.simps) (simp add: fd_write_some_def)

section \<open>Every failure is an exception\<close>

lemma well_defined_descriptors [well_defined_intros]:
  "well_defined (fd_read r f n)" "well_defined (fd_write_some w f b)" "well_defined (fd_new i j)"
  by (simp_all add: fd_read_def fd_write_some_def fd_new_def Let_def split: option.split)

lemma well_defined_write [well_defined_intros]: "well_defined (fd_write w f b)"
proof (induction w f b rule: fd_write.induct)
  case (1 w f b)
  then show ?case
    by (subst fd_write.simps) (intro well_defined_intros; simp)
qed

section \<open>Writing a queue of packets\<close>

text \<open>
  The loop that \<open>LinkQueue\<close>, \<open>LossQueue\<close> and \<open>MeterQueue\<close> share: write the front, pop it.
\<close>

fun write_queue ::
  "writes \<Rightarrow> file_descriptor \<Rightarrow> string list \<Rightarrow> (file_descriptor \<times> writes) res" where
  "write_queue w f [] = Inr (f, w)"
| "write_queue w f (p # ps) = bindR (fd_write w f p) (\<lambda>(f', w'). write_queue w' f' ps)"

lemma write_queue_sent:
  "write_queue w f ps = Inr (f', w') \<Longrightarrow> concat (sent f') = concat (sent f) @ concat ps"
  by (induction w f ps rule: write_queue.induct) (fastforce simp: bindR_eq_Inr dest: fd_write_sent)+

text \<open>When every call takes the whole packet, as a TUN device does, packets stay whole.\<close>

fun takes_whole :: "writes \<Rightarrow> string list \<Rightarrow> bool" where
  "takes_whole w [] = True"
| "takes_whole w (p # ps) = (p \<noteq> [] \<and> w 0 = int (length p) \<and> takes_whole (\<lambda>n. w (Suc n)) ps)"

lemma write_queue_whole:
  "takes_whole w ps \<Longrightarrow>
   \<exists>f' w'. write_queue w f ps = Inr (f', w') \<and> sent f' = sent f @ ps"
proof (induction ps arbitrary: w f)
  case (Cons p ps)
  define f1 where "f1 = f\<lparr>write_count := write_count f + 1, sent := sent f @ [p]\<rparr>"
  from Cons.IH [of "\<lambda>n. w (Suc n)" f1] Cons.prems obtain f' w' where
    "write_queue (\<lambda>n. w (Suc n)) f1 ps = Inr (f', w')" "sent f' = sent f1 @ ps" by auto
  with Cons.prems show ?case by (simp add: fd_write_whole f1_def [symmetric]) (simp add: f1_def)
qed simp

end
