(* ===== verification/Link_Queue.thy ===== *)
theory Link_Queue
  imports Packet_Queue Live_Graph File_Descriptor
begin

text \<open>
  \<open>src/frontend/link_queue.cc\<close>: the emulated link.  A trace gives the milliseconds at which
  the link can carry 1504 bytes; \<open>rationalize\<close> uses every delivery opportunity up to a given
  time.  The packet queue is any record of \<open>queue_ops\<close>; its state is \<open>'q\<close>.
\<close>

record 'q link_queue =
  next_delivery :: u32
  schedule :: "u64 list"
  base_timestamp :: u64
  packets :: 'q
  packet_in_transit :: queued_packet
  bytes_left :: u32
  output_queue :: "string list"
  log :: "string list option"
  throughput_graph :: "live_graph option"
  delay_graph :: "live_graph option"
  repeat :: bool
  finished :: bool

definition packet_size :: nat where "packet_size = 1504"

section \<open>The constructor\<close>

definition schedule_line :: "string \<Rightarrow> string \<Rightarrow> u64 list \<Rightarrow> u64 list res" where
  "schedule_line filename line sched =
     (if line = [] then Inl (Runtime_error (filename @ '': invalid empty line''))
      else bindR (myatoi line 10) (\<lambda>v.
        let ms = word_of_int v
        in if sched \<noteq> [] \<and> ms < last sched
           then Inl (Runtime_error (filename @ '': timestamps must be monotonically nondecreasing''))
           else Inr (sched @ [ms])))"

definition load_schedule :: "string \<Rightarrow> string option \<Rightarrow> u64 list res" where
  "load_schedule filename trace =
     (case trace of
        None \<Rightarrow> Inl (Runtime_error (filename @ '': error opening for reading''))
      | Some text \<Rightarrow>
          bindR (fold_res (schedule_line filename) (getlines [] text) []) (\<lambda>sched.
            if sched = [] then Inl (Runtime_error (filename @ '': no valid timestamps found''))
            else if last sched = 0
            then Inl (Runtime_error (filename @ '': trace must last for a nonzero amount of time''))
            else Inr sched))"

definition assert_not_root :: "nat \<Rightarrow> nat \<Rightarrow> unit res" where
  "assert_not_root euid egid =
     (if euid = 0 \<or> egid = 0
      then Inl (Runtime_error ''BUG: privileges not dropped in sensitive region'') else Inr ())"

text \<open>What the constructor reads of its surroundings.\<close>

record link_env =
  env_euid :: nat
  env_egid :: nat
  env_trace :: "string option"
  env_log_opens :: bool
  env_initial_timestamp :: u64
  env_shell_prefix :: "string option"

definition link_log_header ::
  "link_env \<Rightarrow> string \<Rightarrow> string \<Rightarrow> string \<Rightarrow> string \<Rightarrow> string \<Rightarrow> u64 \<Rightarrow> string list" where
  "link_log_header env link_name filename logfile command_line queue_string base =
     [''# mahimahi mm-link ('' @ link_name @ '') ['' @ filename @ ''] > '' @ logfile,
      ''# command line: '' @ command_line,
      ''# queue: '' @ queue_string,
      ''# init timestamp: '' @ dec (unat (env_initial_timestamp env)),
      ''# base timestamp: '' @ dec (unat base)] @
     (case env_shell_prefix env of None \<Rightarrow> [] | Some pre \<Rightarrow> [''# mahimahi config: '' @ pre])"

text \<open>An optional graph: created when it is asked for.\<close>

definition optional_graph ::
  "clock \<Rightarrow> bool \<Rightarrow> (clock \<Rightarrow> (live_graph \<times> clock) res) \<Rightarrow> (live_graph option \<times> clock) res" where
  "optional_graph c wanted new =
     (if wanted then bindR (new c) (\<lambda>(g, c'). Inr (Some g, c')) else Inr (None, c))"

definition link_new ::
  "'q queue_ops \<Rightarrow> link_env \<Rightarrow> clock \<Rightarrow> string \<Rightarrow> string \<Rightarrow> string \<Rightarrow> bool \<Rightarrow> bool \<Rightarrow> bool \<Rightarrow> 'q \<Rightarrow> string \<Rightarrow>
   ('q link_queue \<times> clock) res" where
  "link_new ops env c link_name filename logfile rep graph_throughput graph_delay q command_line =
     (let (base, c1) = timestamp c
      in bindR (assert_not_root (env_euid env) (env_egid env)) (\<lambda>_.
         bindR (load_schedule filename (env_trace env)) (\<lambda>sched.
         bindR (if logfile = [] then Inr None
                else if \<not> env_log_opens env
                then Inl (Runtime_error (logfile @ '': error opening for writing''))
                else Inr (Some (link_log_header env link_name filename logfile command_line
                                  (q_to_string ops q) base))) (\<lambda>lg.
         bindR (optional_graph c1 graph_throughput (\<lambda>c.
                  live_graph_new c 3 (dbl (8 / 1000000)) True 500 (\<lambda>_ _. 0))) (\<lambda>(tg, c2).
         bindR (optional_graph c2 graph_delay (\<lambda>c.
                  live_graph_new c 1 1 False 250 (\<lambda>_ _. - 1))) (\<lambda>(dg, c3).
           Inr (\<lparr>next_delivery = 0, schedule = sched, base_timestamp = base, packets = q,
                 packet_in_transit = \<lparr>arrival_time = 0, contents = []\<rparr>, bytes_left = 0,
                 output_queue = [], log = lg, throughput_graph = tg, delay_graph = dg,
                 repeat = rep, finished = False\<rparr>, c3)))))))"

section \<open>Recording\<close>

definition log_line :: "string \<Rightarrow> 'q link_queue \<Rightarrow> 'q link_queue" where
  "log_line line l = l\<lparr>log := map_option (\<lambda>ls. ls @ [line]) (log l)\<rparr>"

definition meter :: "clock \<Rightarrow> nat \<Rightarrow> nat \<Rightarrow> 'q link_queue \<Rightarrow> ('q link_queue \<times> clock) res" where
  "meter c num amount l =
     (case throughput_graph l of
        None \<Rightarrow> Inr (l, c)
      | Some g \<Rightarrow> bindR (add_value_now c num (of_nat amount) g) (\<lambda>(g', c').
          Inr (l\<lparr>throughput_graph := Some g'\<rparr>, c')))"

definition record_arrival ::
  "clock \<Rightarrow> u64 \<Rightarrow> nat \<Rightarrow> 'q link_queue \<Rightarrow> ('q link_queue \<times> clock) res" where
  "record_arrival c arrival pkt_size l =
     meter c 1 pkt_size (log_line (dec (unat arrival) @ '' + '' @ dec pkt_size) l)"

definition record_drop :: "u64 \<Rightarrow> nat \<Rightarrow> nat \<Rightarrow> 'q link_queue \<Rightarrow> 'q link_queue" where
  "record_drop time pkts_dropped bytes_dropped =
     log_line (dec (unat time) @ '' d '' @ dec pkts_dropped @ '' '' @ dec bytes_dropped)"

definition next_delivery_time :: "'q link_queue \<Rightarrow> u64 res" where
  "next_delivery_time l =
     (if finished l then Inr (- 1)
      else if unat (next_delivery l) < length (schedule l)
      then Inr (schedule l ! unat (next_delivery l) + base_timestamp l)
      else Inl Out_of_range)"

definition record_departure_opportunity ::
  "clock \<Rightarrow> 'q link_queue \<Rightarrow> ('q link_queue \<times> clock) res" where
  "record_departure_opportunity c l =
     bindR (if log l = None then Inr l
            else bindR (next_delivery_time l) (\<lambda>t.
              Inr (log_line (dec (unat t) @ '' # '' @ dec packet_size) l))) (meter c 0 packet_size)"

definition record_departure ::
  "clock \<Rightarrow> u64 \<Rightarrow> queued_packet \<Rightarrow> 'q link_queue \<Rightarrow> ('q link_queue \<times> clock) res" where
  "record_departure c departure p l =
     bindR (meter c 2 (length (contents p))
              (log_line (dec (unat departure) @ '' - '' @ dec (length (contents p)) @ '' '' @
                         dec (unat (departure - arrival_time p))) l)) (\<lambda>(l1, c1).
       case delay_graph l1 of
         None \<Rightarrow> Inr (l1, c1)
       | Some g \<Rightarrow> bindR (set_max_value_now c1 0 (ucast (departure - arrival_time p)) g) (\<lambda>(g', c2).
           Inr (l1\<lparr>delay_graph := Some g'\<rparr>, c2)))"

section \<open>Delivery opportunities\<close>

definition use_a_delivery_opportunity :: "clock \<Rightarrow> 'q link_queue \<Rightarrow> ('q link_queue \<times> clock) res" where
  "use_a_delivery_opportunity c l =
     bindR (record_departure_opportunity c l) (\<lambda>(l1, c1).
       let l2 = l1\<lparr>next_delivery :=
                     of_nat (unat (next_delivery l1 + 1) mod length (schedule l1))\<rparr>
       in Inr (if next_delivery l2 = 0
               then if repeat l2
                    then l2\<lparr>base_timestamp := base_timestamp l2 + last (schedule l2)\<rparr>
                    else l2\<lparr>finished := True\<rparr>
               else l2, c1))"

text \<open>
  The inner loop of \<open>rationalize\<close>: \<open>left\<close> is \<open>bytes_left_in_this_delivery\<close>.  The asserts
  make \<open>amount_to_send\<close> positive, so the loop ends.
\<close>

definition load_packet :: "'q queue_ops \<Rightarrow> clock \<Rightarrow> 'q link_queue \<Rightarrow> ('q link_queue \<times> clock) res" where
  "load_packet ops c l =
     (if bytes_left l = 0 then
        bindR (q_dequeue ops c (packets l)) (\<lambda>(p, q', c').
          Inr (l\<lparr>packets := q', packet_in_transit := p,
                 bytes_left := of_nat (length (contents p))\<rparr>, c'))
      else Inr (l, c))"

definition transit_asserts :: "u64 \<Rightarrow> 'q link_queue \<Rightarrow> bool" where
  "transit_asserts this_delivery_time l \<longleftrightarrow>
     arrival_time (packet_in_transit l) \<le> this_delivery_time \<and>
     bytes_left l \<le> of_nat packet_size \<and> 0 < bytes_left l \<and>
     unat (bytes_left l) \<le> length (contents (packet_in_transit l))"

definition finish_packet :: "clock \<Rightarrow> u64 \<Rightarrow> 'q link_queue \<Rightarrow> ('q link_queue \<times> clock) res" where
  "finish_packet c this_delivery_time l =
     (if bytes_left l = 0 then
        bindR (record_departure c this_delivery_time (packet_in_transit l) l) (\<lambda>(l', c').
          Inr (l'\<lparr>output_queue := output_queue l' @ [contents (packet_in_transit l')]\<rparr>, c'))
      else Inr (l, c))"

function deliver ::
  "'q queue_ops \<Rightarrow> u64 \<Rightarrow> u32 \<Rightarrow> clock \<Rightarrow> 'q link_queue \<Rightarrow> ('q link_queue \<times> clock) res" where
  "deliver ops this_delivery_time left c l =
     (if left = 0 \<or> (bytes_left l = 0 \<and> q_empty ops (packets l)) then Inr (l, c)
      else bindR (load_packet ops c l) (\<lambda>(l1, c1).
        if \<not> transit_asserts this_delivery_time l1 then Inl Assert_failed
        else let amount_to_send = min left (bytes_left l1);
                 l2 = l1\<lparr>bytes_left := bytes_left l1 - amount_to_send\<rparr>
             in bindR (finish_packet c1 this_delivery_time l2) (\<lambda>(l3, c3).
                  deliver ops this_delivery_time (left - amount_to_send) c3 l3)))"
  by pat_completeness auto

lemma left_decreases:
  assumes "left \<noteq> (0 :: u32)" "0 < b"
  shows "unat (left - min left b) < unat left"
proof -
  have "unat (left - min left b) = unat left - unat (min left b)" by (rule unat_sub) simp
  moreover have "0 < unat (min left b)" using assms word_neq_0_conv [of b]
    by (simp add: unat_gt_0 min_def)
  ultimately show ?thesis using assms(1) by (simp add: unat_gt_0 [symmetric])
qed

termination deliver
  by (relation "measure (\<lambda>(_, _, left, _). unat left)")
    (auto simp: transit_asserts_def left_decreases)

declare deliver.simps [simp del]

text \<open>
  The outer loop.  It need not end for every state (a schedule of zeros never gets past
  \<open>now\<close>), so it is a partial function: \<open>None\<close> is a loop that never ends.
\<close>

definition one_delivery :: "'q queue_ops \<Rightarrow> u64 \<Rightarrow> clock \<Rightarrow> 'q link_queue \<Rightarrow> ('q link_queue \<times> clock) res" where
  "one_delivery ops this_delivery_time c l =
     bindR (use_a_delivery_opportunity c l) (\<lambda>(l1, c1).
       deliver ops this_delivery_time (of_nat packet_size) c1 l1)"

partial_function (option) rationalize ::
  "'q queue_ops \<Rightarrow> u64 \<Rightarrow> clock \<Rightarrow> 'q link_queue \<Rightarrow> ('q link_queue \<times> clock) res option" where
  "rationalize ops now c l =
     (case next_delivery_time l of
        Inl e \<Rightarrow> Some (Inl e)
      | Inr t \<Rightarrow>
          if t \<le> now
          then (case one_delivery ops t c l of
                  Inl e \<Rightarrow> Some (Inl e)
                | Inr r \<Rightarrow> rationalize ops now (snd r) (fst r))
          else Some (Inr (l, c)))"

section \<open>The operations of the interface\<close>

text \<open>Sequencing after a loop that may not end.\<close>

definition bindO :: "'a res option \<Rightarrow> ('a \<Rightarrow> 'b res) \<Rightarrow> 'b res option" where
  "bindO m f = map_option (\<lambda>r. bindR r f) m"

definition note_missing :: "u64 \<Rightarrow> u32 \<Rightarrow> u32 \<Rightarrow> 'q link_queue \<Rightarrow> 'q link_queue" where
  "note_missing now missing_packets missing_bytes l =
     (if 0 < missing_packets \<or> 0 < missing_bytes
      then record_drop now (unat missing_packets) (unat missing_bytes) l else l)"

definition enqueue_checked ::
  "'q queue_ops \<Rightarrow> clock \<Rightarrow> u64 \<Rightarrow> string \<Rightarrow> 'q link_queue \<Rightarrow> ('q link_queue \<times> clock) res" where
  "enqueue_checked ops c now cs l =
     bindR (q_size_bytes ops (packets l)) (\<lambda>bytes_before.
     bindR (q_size_packets ops (packets l)) (\<lambda>packets_before.
     bindR (q_enqueue ops c (packets l) \<lparr>arrival_time = now, contents = cs\<rparr>) (\<lambda>(q', c').
     bindR (q_size_packets ops q') (\<lambda>np.
     assertR (np \<le> packets_before + 1) (
     bindR (q_size_bytes ops q') (\<lambda>nb.
     assertR (unat nb \<le> unat bytes_before + length cs) (
       let missing_packets = packets_before + 1 - np;
           missing_bytes = bytes_before + of_nat (length cs) - nb
       in Inr (note_missing now missing_packets missing_bytes (l\<lparr>packets := q'\<rparr>), c'))))))))"

definition link_read_packet ::
  "'q queue_ops \<Rightarrow> clock \<Rightarrow> string \<Rightarrow> 'q link_queue \<Rightarrow> ('q link_queue \<times> clock) res option" where
  "link_read_packet ops c cs l =
     (let (now, c1) = timestamp c
      in if packet_size < length cs
         then Some (Inl (Runtime_error ''packet size is greater than maximum''))
         else bindO (rationalize ops now c1 l) (\<lambda>(l1, c2).
                bindR (record_arrival c2 now (length cs) l1) (\<lambda>(l2, c3).
                  enqueue_checked ops c3 now cs l2)))"

definition link_write_packets ::
  "writes \<Rightarrow> file_descriptor \<Rightarrow> 'q link_queue \<Rightarrow> ('q link_queue \<times> file_descriptor \<times> writes) res" where
  "link_write_packets w f l =
     bindR (write_queue w f (output_queue l)) (\<lambda>(f', w'). Inr (l\<lparr>output_queue := []\<rparr>, f', w'))"

definition link_wait_time ::
  "'q queue_ops \<Rightarrow> clock \<Rightarrow> 'q link_queue \<Rightarrow> (u32 \<times> 'q link_queue \<times> clock) res option" where
  "link_wait_time ops c l =
     (let (now, c1) = timestamp c
      in bindO (rationalize ops now c1 l) (\<lambda>(l1, c2).
           bindR (next_delivery_time l1) (\<lambda>t.
             Inr (if t \<le> now then 0 else ucast (t - now), l1, c2))))"

definition link_pending_output :: "'q link_queue \<Rightarrow> bool" where
  "link_pending_output l \<longleftrightarrow> output_queue l \<noteq> []"


section \<open>What recording leaves alone\<close>

definition same_core :: "'q link_queue \<Rightarrow> 'q link_queue \<Rightarrow> bool" where
  "same_core l' l \<longleftrightarrow>
     next_delivery l' = next_delivery l \<and> schedule l' = schedule l \<and>
     base_timestamp l' = base_timestamp l \<and> packets l' = packets l \<and>
     packet_in_transit l' = packet_in_transit l \<and> bytes_left l' = bytes_left l \<and>
     output_queue l' = output_queue l \<and> repeat l' = repeat l \<and> finished l' = finished l"

definition same_schedule :: "'q link_queue \<Rightarrow> 'q link_queue \<Rightarrow> bool" where
  "same_schedule l' l \<longleftrightarrow>
     next_delivery l' = next_delivery l \<and> schedule l' = schedule l \<and>
     base_timestamp l' = base_timestamp l \<and> repeat l' = repeat l \<and> finished l' = finished l"

text \<open>Links whose recording cannot throw: no throughput graph, and a delay graph with a line.\<close>

definition quiet :: "'q link_queue \<Rightarrow> bool" where
  "quiet l \<longleftrightarrow> throughput_graph l = None \<and>
     (\<forall>g. delay_graph l = Some g \<longrightarrow> graph_wf g \<and> value_this_bin g \<noteq> [])"

lemma same_core_refl: "same_core l l"
  by (simp add: same_core_def)

lemma same_core_trans: "same_core l3 l2 \<Longrightarrow> same_core l2 l1 \<Longrightarrow> same_core l3 l1"
  by (simp add: same_core_def)

lemma same_core_schedule: "same_core l' l \<Longrightarrow> same_schedule l' l"
  by (simp add: same_core_def same_schedule_def)

lemma same_schedule_refl: "same_schedule l l"
  by (simp add: same_schedule_def)

lemma same_schedule_trans: "same_schedule l3 l2 \<Longrightarrow> same_schedule l2 l1 \<Longrightarrow> same_schedule l3 l1"
  by (simp add: same_schedule_def)

lemma same_schedule_time: "same_schedule l' l \<Longrightarrow> next_delivery_time l' = next_delivery_time l"
  by (simp add: same_schedule_def next_delivery_time_def)

lemma log_line_core [simp]: "same_core (log_line t l) l" "quiet (log_line t l) = quiet l"
  by (simp_all add: log_line_def same_core_def quiet_def)

lemma note_missing_core:
  "same_core (note_missing now mp mb l) l" "quiet (note_missing now mp mb l) = quiet l"
  by (simp_all add: note_missing_def record_drop_def same_core_refl)

lemma quiet_packets: "quiet (l\<lparr>packets := q\<rparr>) = quiet l"
  by (simp add: quiet_def)

lemma meter_quiet [simp]: "quiet l \<Longrightarrow> meter c n a l = Inr (l, c)"
  by (simp add: meter_def quiet_def)

lemma record_arrival_ok:
  "quiet l \<Longrightarrow> \<exists>l'. record_arrival c t n l = Inr (l', c) \<and> same_core l' l \<and> quiet l'"
  by (simp add: record_arrival_def)

lemma record_opportunity_ok:
  assumes "quiet l" "next_delivery_time l = Inr t"
  obtains l' where "record_departure_opportunity c l = Inr (l', c)" "same_core l' l" "quiet l'"
proof (cases "log l")
  case None
  with assms show ?thesis
    by (intro that [of l]) (simp_all add: record_departure_opportunity_def same_core_refl)
next
  case (Some ls)
  with assms show ?thesis
    by (intro that [of "log_line (dec (unat t) @ '' # '' @ dec packet_size) l"])
      (simp_all add: record_departure_opportunity_def)
qed

lemma record_departure_ok:
  assumes "quiet l"
  obtains l' c' where "record_departure c t p l = Inr (l', c')" "same_core l' l" "quiet l'"
proof -
  define l1 where "l1 = log_line (dec (unat t) @ '' - '' @ dec (length (contents p)) @ '' '' @
    dec (unat (t - arrival_time p))) l"
  have l1: "same_core l1 l" "quiet l1" using assms by (simp_all add: l1_def)
  have rec: "record_departure c t p l = (case delay_graph l1 of
      None \<Rightarrow> Inr (l1, c)
    | Some g \<Rightarrow> bindR (set_max_value_now c 0 (ucast (t - arrival_time p)) g) (\<lambda>(g', c2).
        Inr (l1\<lparr>delay_graph := Some g'\<rparr>, c2)))"
    unfolding record_departure_def l1_def [symmetric] using l1 by simp
  show ?thesis
  proof (cases "delay_graph l1")
    case None
    with rec l1 show ?thesis by (intro that [of l1 c]) simp_all
  next
    case (Some g)
    then have g: "graph_wf g" "0 < length (value_this_bin g)"
      using l1(2) by (simp_all add: quiet_def)
    then obtain g' where "set_max_value_now c 0 (ucast (t - arrival_time p)) g =
        Inr (g', \<lambda>n. c (Suc n))" "graph_wf g'" "length (value_this_bin g') = length (value_this_bin g)"
      by (rule set_max_value_now_ok [where c = c and amount = "ucast (t - arrival_time p)"])
    with rec Some g l1 show ?thesis
      by (intro that [of "l1\<lparr>delay_graph := Some g'\<rparr>" "\<lambda>n. c (Suc n)"])
        (auto simp: same_core_def quiet_def)
  qed
qed

section \<open>One delivery opportunity\<close>

definition pkt_fits :: "u64 \<Rightarrow> queued_packet \<Rightarrow> bool" where
  "pkt_fits t p \<longleftrightarrow> arrival_time p \<le> t \<and> contents p \<noteq> [] \<and> length (contents p) \<le> packet_size"

text \<open>
  The bytes handed over so far: the packets written out, and the part of the packet in
  transit that has gone.
\<close>

definition in_transit :: "'q link_queue \<Rightarrow> string list" where
  "in_transit l = (if bytes_left l = 0 then [] else [contents (packet_in_transit l)])"

definition sent_bytes :: "'q link_queue \<Rightarrow> nat" where
  "sent_bytes l = length (concat (output_queue l)) +
     (length (concat (in_transit l)) - unat (bytes_left l))"

definition transit_ok :: "u64 \<Rightarrow> 'q link_queue \<Rightarrow> bool" where
  "transit_ok t l \<longleftrightarrow> bytes_left l \<noteq> 0 \<longrightarrow>
     pkt_fits t (packet_in_transit l) \<and> unat (bytes_left l) \<le> length (contents (packet_in_transit l))"

lemma transit_ok_asserts:
  assumes "transit_ok t l" "bytes_left l \<noteq> 0"
  shows "transit_asserts t l"
proof -
  have "unat (bytes_left l) \<le> 1504" "arrival_time (packet_in_transit l) \<le> t"
    "unat (bytes_left l) \<le> length (contents (packet_in_transit l))"
    using assms by (auto simp: transit_ok_def pkt_fits_def packet_size_def)
  then show ?thesis
    using assms(2) by (simp add: transit_asserts_def word_le_nat_alt packet_size_def word_neq_0_conv)
qed

text \<open>One turn of the inner loop after a packet has been loaded.\<close>

lemma transmit_ok:
  assumes "quiet l" "transit_ok t l" "bytes_left l \<noteq> 0" "left \<noteq> 0"
  defines "n \<equiv> min left (bytes_left l)"
  obtains l' c' where "finish_packet c t (l\<lparr>bytes_left := bytes_left l - n\<rparr>) = Inr (l', c')"
    "quiet l'" "transit_ok t l'" "same_schedule l' l" "packets l' = packets l"
    "output_queue l' @ in_transit l' = output_queue l @ in_transit l"
    "sent_bytes l' = sent_bytes l + unat n"
proof -
  let ?l = "l\<lparr>bytes_left := bytes_left l - n\<rparr>"
  have n: "n \<le> bytes_left l" "n \<le> left" by (simp_all add: n_def)
  have sub: "unat (bytes_left l - n) = unat (bytes_left l) - unat n"
    using n(1) by (rule unat_sub)
  have len: "unat (bytes_left l) \<le> length (contents (packet_in_transit l))"
    using assms(2,3) by (simp add: transit_ok_def)
  have nb: "unat n \<le> unat (bytes_left l)" using n(1) by (simp add: word_le_nat_alt)
  have q: "quiet ?l" using assms(1) by (simp add: quiet_def)
  show ?thesis
  proof (cases "bytes_left l - n = 0")
    case True
    then have eq: "unat n = unat (bytes_left l)" by simp
    obtain l1 c1 where l1: "record_departure c t (packet_in_transit l) ?l = Inr (l1, c1)"
      "same_core l1 ?l" "quiet l1" using q by (rule record_departure_ok)
    have f: "finish_packet c t ?l =
        Inr (l1\<lparr>output_queue := output_queue l @ [contents (packet_in_transit l)]\<rparr>, c1)"
      using True l1 by (simp add: finish_packet_def same_core_def)
    show ?thesis
      by (rule that [OF f]) (use l1 assms(3) True eq len in \<open>simp_all add: same_core_def quiet_def
        transit_ok_def same_schedule_def in_transit_def sent_bytes_def\<close>)
  next
    case False
    show ?thesis
      by (rule that [of ?l c]) (use q assms(2,3) False sub len nb in \<open>simp_all add: finish_packet_def
        transit_ok_def same_schedule_def in_transit_def sent_bytes_def\<close>)
  qed
qed


text \<open>
  What the link relies on between two steps: the discipline's invariant, and that every
  packet held fits in an opportunity and arrived no later than the next one (\<open>t\<close>).
\<close>

definition link_ok ::
  "('q \<Rightarrow> queued_packet list) \<Rightarrow> ('q \<Rightarrow> bool) \<Rightarrow> u64 \<Rightarrow> 'q link_queue \<Rightarrow> bool" where
  "link_ok pkts ok t l \<longleftrightarrow> ok (packets l) \<and> (\<forall>p \<in> set (pkts (packets l)). pkt_fits t p) \<and>
     transit_ok t l \<and> quiet l"

text \<open>Everything in the link, in the order in which it will come out.\<close>

definition flow :: "('q \<Rightarrow> queued_packet list) \<Rightarrow> 'q link_queue \<Rightarrow> string list" where
  "flow pkts l = output_queue l @ in_transit l @ map contents (pkts (packets l))"

text \<open>Nothing is in transit and nothing is queued.\<close>

definition idle :: "('q \<Rightarrow> queued_packet list) \<Rightarrow> 'q link_queue \<Rightarrow> bool" where
  "idle pkts l \<longleftrightarrow> bytes_left l = 0 \<and> pkts (packets l) = []"

text \<open>A discipline that discards nothing when a packet is taken.\<close>

definition exact_dequeue ::
  "'q queue_ops \<Rightarrow> ('q \<Rightarrow> queued_packet list) \<Rightarrow> ('q \<Rightarrow> bool) \<Rightarrow> bool" where
  "exact_dequeue ops pkts ok \<longleftrightarrow> (\<forall>c q p q' c'.
     ok q \<longrightarrow> q_dequeue ops c q = Inr (p, q', c') \<longrightarrow> pkts q = p # pkts q')"

context packet_queue
begin

lemma load_packet_ok:
  assumes "link_ok pkts inv t l" "\<not> (bytes_left l = 0 \<and> q_empty ops (packets l))"
  obtains l' c' where "load_packet ops c l = Inr (l', c')" "link_ok pkts inv t l'" "bytes_left l' \<noteq> 0"
    "same_schedule l' l" "subseq (flow pkts l') (flow pkts l)"
    "exact_dequeue ops pkts inv \<Longrightarrow> flow pkts l' = flow pkts l"
    "sent_bytes l' = sent_bytes l" "room (packets l) x \<longrightarrow> room (packets l') x"
proof (cases "bytes_left l = 0")
  case False
  with assms(1) show ?thesis
    by (intro that [of l c]) (simp_all add: load_packet_def same_schedule_refl)
next
  case True
  have inv: "inv (packets l)" using assms(1) by (simp add: link_ok_def)
  moreover have ne: "\<not> q_empty ops (packets l)" using assms(2) True by simp
  ultimately obtain p q' c' where d: "q_dequeue ops c (packets l) = Inr (p, q', c')" "inv q'"
    "subseq (p # pkts q') (pkts (packets l))" "\<forall>x. room (packets l) x \<longrightarrow> room q' x"
    by (rule dequeue_nonempty [where c = c])
  let ?l = "l\<lparr>packets := q', packet_in_transit := p, bytes_left := of_nat (length (contents p))\<rparr>"
  have fits: "pkt_fits t x" if "x \<in> set (p # pkts q')" for x
    using subseq_set_mono [OF d(3)] assms(1) that by (auto simp: link_ok_def)
  then have len: "contents p \<noteq> []" "length (contents p) \<le> 1504"
    by (simp_all add: pkt_fits_def packet_size_def)
  then have u: "unat (of_nat (length (contents p)) :: u32) = length (contents p)"
    by (intro unat_of_nat_small) simp
  then have nz: "bytes_left ?l \<noteq> 0" using len(1) by auto
  have fl: "flow pkts ?l = output_queue l @ map contents (p # pkts q')"
    using nz by (simp add: flow_def in_transit_def)
  show ?thesis
  proof (rule that [of ?l c'])
    show "load_packet ops c l = Inr (?l, c')" using True d by (simp add: load_packet_def)
    show "link_ok pkts inv t ?l"
      using d(2) fits u nz assms(1) by (auto simp: link_ok_def transit_ok_def quiet_def)
    show "bytes_left ?l \<noteq> 0" by (fact nz)
    show "same_schedule ?l l" by (simp add: same_schedule_def)
    show "subseq (flow pkts ?l) (flow pkts l)"
      unfolding fl using True subseq_map [OF d(3), of contents]
      by (simp add: flow_def in_transit_def subseq_append')
    show "flow pkts ?l = flow pkts l" if "exact_dequeue ops pkts inv"
    proof -
      have "pkts (packets l) = p # pkts q'"
        using that inv d(1) unfolding exact_dequeue_def by blast
      with True show ?thesis unfolding fl by (simp add: flow_def in_transit_def)
    qed
    show "room (packets l) x \<longrightarrow> room (packets ?l) x" using d(4) by simp
    show "sent_bytes ?l = sent_bytes l"
      using nz u True by (simp add: sent_bytes_def in_transit_def)
  qed
qed

lemma deliver_ok:
  assumes "link_ok pkts inv t l"
  shows "\<exists>l' c'. deliver ops t left c l = Inr (l', c') \<and> link_ok pkts inv t l' \<and> same_schedule l' l \<and>
    subseq (flow pkts l') (flow pkts l) \<and> (exact_dequeue ops pkts inv \<longrightarrow> flow pkts l' = flow pkts l) \<and>
    sent_bytes l \<le> sent_bytes l' \<and> sent_bytes l' \<le> sent_bytes l + unat left \<and>
    (sent_bytes l' = sent_bytes l + unat left \<or> idle pkts l') \<and>
    (room (packets l) x \<longrightarrow> room (packets l') x)"
  using assms
proof (induction "unat left" arbitrary: left c l rule: less_induct)
  case less
  show ?case
  proof (cases "left = 0 \<or> (bytes_left l = 0 \<and> q_empty ops (packets l))")
    case True
    then have "left = 0 \<or> idle pkts l"
      using less.prems by (auto simp: idle_def link_ok_def empty_iff)
    moreover have "deliver ops t left c l = Inr (l, c)"
      using True by (simp add: deliver.simps [of ops t left c l])
    ultimately show ?thesis using less.prems by (auto simp: same_schedule_refl)
  next
    case False
    then have ne: "\<not> (bytes_left l = 0 \<and> q_empty ops (packets l))" and left: "left \<noteq> 0" by simp_all
    from less.prems ne obtain l1 c1 where l1: "load_packet ops c l = Inr (l1, c1)" "link_ok pkts inv t l1"
      "bytes_left l1 \<noteq> 0" "same_schedule l1 l" "subseq (flow pkts l1) (flow pkts l)"
      "exact_dequeue ops pkts inv \<Longrightarrow> flow pkts l1 = flow pkts l"
      "sent_bytes l1 = sent_bytes l" "room (packets l) x \<longrightarrow> room (packets l1) x"
      by (rule load_packet_ok [where c = c and x = x]) blast
    have ok1: "quiet l1" "transit_ok t l1" using l1(2) by (simp_all add: link_ok_def)
    define n where "n = min left (bytes_left l1)"
    from ok1 l1(3) left obtain l2 c2 where
      l2: "finish_packet c1 t (l1\<lparr>bytes_left := bytes_left l1 - n\<rparr>) = Inr (l2, c2)"
        "quiet l2" "transit_ok t l2" "same_schedule l2 l1" "packets l2 = packets l1"
        "output_queue l2 @ in_transit l2 = output_queue l1 @ in_transit l1"
        "sent_bytes l2 = sent_bytes l1 + unat n"
      unfolding n_def by (rule transmit_ok [where c = c1])
    have step: "deliver ops t left c l = deliver ops t (left - n) c2 l2"
      using False l1(1) l2(1) transit_ok_asserts [OF ok1(2) l1(3)]
      by (subst deliver.simps) (simp only: if_False, simp add: n_def Let_def)
    have fl: "flow pkts l2 = flow pkts l1" using l2(5,6) by (simp add: flow_def)
    have ok2: "link_ok pkts inv t l2" using l1(2) l2(2,3,5) by (simp add: link_ok_def)
    have lt: "unat (left - n) < unat left"
      unfolding n_def using left l1(3) by (intro left_decreases) (simp_all add: word_neq_0_conv)
    have sum: "unat (left - n) = unat left - unat n" "unat n \<le> unat left"
      by (simp_all add: n_def unat_sub flip: word_le_nat_alt)
    from less.hyps [OF lt ok2, of c2] obtain l3 c3 where
      l3: "deliver ops t (left - n) c2 l2 = Inr (l3, c3)" "link_ok pkts inv t l3" "same_schedule l3 l2"
        "subseq (flow pkts l3) (flow pkts l2)"
        "exact_dequeue ops pkts inv \<longrightarrow> flow pkts l3 = flow pkts l2"
        "sent_bytes l2 \<le> sent_bytes l3" "sent_bytes l3 \<le> sent_bytes l2 + unat (left - n)"
        "sent_bytes l3 = sent_bytes l2 + unat (left - n) \<or> idle pkts l3"
        "room (packets l2) x \<longrightarrow> room (packets l3) x"
      by blast
    have "same_schedule l3 l" using l3(3) l2(4) l1(4) by (blast intro: same_schedule_trans)
    moreover have "subseq (flow pkts l3) (flow pkts l)"
      using l3(4) l1(5) unfolding fl by (rule subseq_order.trans)
    moreover have "exact_dequeue ops pkts inv \<longrightarrow> flow pkts l3 = flow pkts l" using l3(5) l1(6) fl by simp
    ultimately show ?thesis
      using step l3 l1(7,8) l2(5,7) sum by (intro exI [of _ l3] exI [of _ c3]) auto
  qed
qed

end


section \<open>The sequence of opportunities\<close>

text \<open>
  What a trace means: the time of the \<open>k\<close>-th delivery opportunity, counted from the link's
  start at \<open>b\<close>, as an unbounded number.  Each pass over the trace lasts as long as its last
  entry.
\<close>

definition opportunity :: "u64 list \<Rightarrow> nat \<Rightarrow> nat \<Rightarrow> nat" where
  "opportunity sched b k =
     b + (k div length sched) * unat (last sched) + unat (sched ! (k mod length sched))"

definition trace_ok :: "u64 list \<Rightarrow> bool" where
  "trace_ok sched \<longleftrightarrow> sched \<noteq> [] \<and> sorted sched \<and> last sched \<noteq> 0 \<and> length sched < 2 ^ 32"

text \<open>The link is about to use opportunity \<open>k\<close>; without \<open>repeat_\<close> it is finished after one pass.\<close>

definition at_opportunity :: "u64 list \<Rightarrow> nat \<Rightarrow> nat \<Rightarrow> 'q link_queue \<Rightarrow> bool" where
  "at_opportunity sched b k l \<longleftrightarrow>
     schedule l = sched \<and> unat (next_delivery l) = k mod length sched \<and>
     (if repeat l then unat (base_timestamp l) = b + (k div length sched) * unat (last sched) \<and> \<not> finished l
      else unat (base_timestamp l) = b \<and> k \<le> length sched \<and> (finished l \<longleftrightarrow> k = length sched))"

lemma trace_le_last: "trace_ok sched \<Longrightarrow> i < length sched \<Longrightarrow> unat (sched ! i) \<le> unat (last sched)"
  by (auto simp: trace_ok_def last_conv_nth word_le_nat_alt [symmetric] intro: sorted_nth_mono)

lemma at_opportunity_base:
  "at_opportunity sched b k l \<Longrightarrow> trace_ok sched \<Longrightarrow> \<not> finished l \<Longrightarrow>
   unat (base_timestamp l) = b + (k div length sched) * unat (last sched)"
  by (auto simp: at_opportunity_def split: if_splits)

lemma at_opportunity_time:
  assumes "at_opportunity sched b k l" "trace_ok sched" "\<not> finished l"
    "opportunity sched b k < 2 ^ 64"
  obtains t where "next_delivery_time l = Inr t" "unat t = opportunity sched b k"
proof -
  have n: "unat (next_delivery l) = k mod length sched" "schedule l = sched" "0 < length sched"
    using assms by (simp_all add: at_opportunity_def trace_ok_def)
  have b: "unat (base_timestamp l) = b + (k div length sched) * unat (last sched)"
    using assms(1-3) by (rule at_opportunity_base)
  have "unat (sched ! (k mod length sched) + base_timestamp l) =
      (unat (sched ! (k mod length sched)) + unat (base_timestamp l)) mod 2 ^ 64"
    by (simp add: unat_word_ariths)
  also have "\<dots> = opportunity sched b k"
    using assms(4) by (simp add: opportunity_def b add.commute)
  finally show ?thesis
    using n assms(3) by (intro that) (auto simp: next_delivery_time_def)
qed

lemma div_mod_Suc:
  assumes "0 < n"
  shows "Suc k mod n = (if k mod n = n - 1 then 0 else Suc (k mod n))"
    "Suc k div n = (if k mod n = n - 1 then Suc (k div n) else k div n)"
  using assms by (auto simp: mod_Suc div_Suc)

lemma opportunity_Suc:
  assumes "trace_ok sched"
  shows "opportunity sched b k \<le> opportunity sched b (Suc k)"
    "opportunity sched b (Suc k) \<le> opportunity sched b k + unat (last sched)"
proof -
  let ?n = "length sched" and ?m = "k mod length sched"
  have n: "0 < ?n" using assms by (simp add: trace_ok_def)
  have m: "?m < ?n" using n by simp
  show "opportunity sched b k \<le> opportunity sched b (Suc k)"
    "opportunity sched b (Suc k) \<le> opportunity sched b k + unat (last sched)"
  proof -
    show "opportunity sched b k \<le> opportunity sched b (Suc k)"
    proof (cases "?m = ?n - 1")
      case True
      then show ?thesis
        using trace_le_last [OF assms m] by (simp add: opportunity_def div_mod_Suc [OF n])
    next
      case False
      with m have "Suc ?m < ?n" by linarith
      then have "sched ! ?m \<le> sched ! Suc ?m"
        using assms by (intro sorted_nth_mono) (simp_all add: trace_ok_def)
      with False show ?thesis by (simp add: opportunity_def div_mod_Suc [OF n] word_le_nat_alt)
    qed
    show "opportunity sched b (Suc k) \<le> opportunity sched b k + unat (last sched)"
    proof (cases "?m = ?n - 1")
      case True
      then have "sched ! ?m = last sched" using n by (simp add: last_conv_nth)
      moreover have "unat (sched ! 0) \<le> unat (last sched)" using trace_le_last [OF assms n] .
      ultimately show ?thesis using True by (simp add: opportunity_def div_mod_Suc [OF n])
    next
      case False
      with m have "Suc ?m < ?n" by simp
      from trace_le_last [OF assms this] False show ?thesis
        by (simp add: opportunity_def div_mod_Suc [OF n])
    qed
  qed
qed

lemma opportunity_mono: "trace_ok sched \<Longrightarrow> i \<le> j \<Longrightarrow> opportunity sched b i \<le> opportunity sched b j"
  by (rule lift_Suc_mono_le [of "opportunity sched b"]) (auto intro: opportunity_Suc)

text \<open>The opportunities up to a given time are finitely many.\<close>

lemma opportunity_unbounded:
  assumes "trace_ok sched" "opportunity sched b k \<le> t"
  shows "k < (t + 1) * length sched"
proof -
  have "1 \<le> unat (last sched)" using assms(1) by (simp add: trace_ok_def unat_gt_0 Suc_le_eq)
  then have "k div length sched * 1 \<le> k div length sched * unat (last sched)"
    by (rule mult_le_mono2)
  also have "\<dots> \<le> t" using assms(2) by (simp add: opportunity_def)
  finally have "k div length sched < t + 1" by simp
  then show ?thesis
    using assms(1) by (simp add: trace_ok_def div_less_iff_less_mult)
qed


lemma use_opportunity_ok:
  assumes "at_opportunity sched b k l" "trace_ok sched" "\<not> finished l" "quiet l"
    "opportunity sched b k < 2 ^ 64"
  obtains l' where "use_a_delivery_opportunity c l = Inr (l', c)"
    "at_opportunity sched b (Suc k) l'" "quiet l'" "packets l' = packets l"
    "packet_in_transit l' = packet_in_transit l" "bytes_left l' = bytes_left l"
    "output_queue l' = output_queue l" "repeat l' = repeat l"
proof -
  let ?n = "length sched"
  have n: "0 < ?n" "?n < 2 ^ 32" using assms(2) by (simp_all add: trace_ok_def)
  obtain t where "next_delivery_time l = Inr t"
    using assms(1-3,5) by (rule at_opportunity_time)
  with assms(4) obtain l1 where l1: "record_departure_opportunity c l = Inr (l1, c)"
    "same_core l1 l" "quiet l1" by (rule record_opportunity_ok)
  have f: "schedule l1 = sched" "unat (next_delivery l1) = k mod ?n" "repeat l1 = repeat l"
    "base_timestamp l1 = base_timestamp l" "\<not> finished l1"
    using l1(2) assms(1,3) by (auto simp: same_core_def at_opportunity_def)
  define l2 where "l2 = l1\<lparr>next_delivery := of_nat (unat (next_delivery l1 + 1) mod ?n)\<rparr>"
  have "unat (next_delivery l1 + 1) = k mod ?n + 1"
  proof -
    have "k mod ?n < ?n" using n(1) by simp
    then have "k mod ?n + 1 < 2 ^ 32" using n(2) by linarith
    then show ?thesis using f(2) by (simp add: unat_word_ariths)
  qed
  then have e: "unat (next_delivery l1 + 1) mod ?n = Suc k mod ?n" by (simp add: mod_Suc_eq)
  have "Suc k mod ?n < ?n" using n(1) by simp
  then have "Suc k mod ?n < 2 ^ 32" using n(2) by linarith
  then have u: "unat (of_nat (unat (next_delivery l1 + 1) mod ?n) :: u32) = Suc k mod ?n"
    unfolding e by (rule unat_of_nat_small)
  then have u2: "unat (next_delivery l2) = Suc k mod ?n" by (simp add: l2_def)
  have zero: "next_delivery l2 = 0 \<longleftrightarrow> k mod ?n = ?n - 1"
    using u2 div_mod_Suc(1) [OF n(1), of k] by (metis unat_eq_zero old.nat.distinct(1))
  define l3 where "l3 = (if next_delivery l2 = 0
      then if repeat l2 then l2\<lparr>base_timestamp := base_timestamp l2 + last (schedule l2)\<rparr>
           else l2\<lparr>finished := True\<rparr>
      else l2)"
  have use: "use_a_delivery_opportunity c l = Inr (l3, c)"
    using l1(1) f(1) by (simp add: use_a_delivery_opportunity_def l3_def l2_def)
  have b: "unat (base_timestamp l) = b + (k div ?n) * unat (last sched)"
    using assms(1-3) by (rule at_opportunity_base)
  have wrap: "unat (base_timestamp l + last sched) = b + (k div ?n) * unat (last sched) + unat (last sched)"
    if "k mod ?n = ?n - 1"
  proof -
    have "sched ! (k mod ?n) = last sched" using that n by (simp add: last_conv_nth)
    then have "b + (k div ?n) * unat (last sched) + unat (last sched) < 2 ^ 64"
      using assms(5) by (simp add: opportunity_def)
    then show ?thesis using b by (simp add: unat_word_ariths)
  qed
  have at: "at_opportunity sched b (Suc k) l3"
  proof (cases "k mod ?n = ?n - 1")
    case True
    then have z: "next_delivery l2 = 0" "Suc k div ?n = Suc (k div ?n)" "Suc k mod ?n = 0"
      using zero div_mod_Suc [OF n(1), of k] by simp_all
    show ?thesis
    proof (cases "repeat l")
      case True
      then show ?thesis
        using z f u2 wrap [OF \<open>k mod ?n = ?n - 1\<close>]
        by (simp add: at_opportunity_def l3_def l2_def)
    next
      case False
      then have "k < ?n" "unat (base_timestamp l) = b"
        using assms(1,3) by (auto simp: at_opportunity_def)
      moreover have "Suc k = ?n" using \<open>k < ?n\<close> True n(1) by simp
      ultimately show ?thesis
        using z f u2 False by (simp add: at_opportunity_def l3_def l2_def)
    qed
  next
    case False
    have "Suc k < ?n" if "k < ?n"
      using that False by (cases "Suc k = ?n") auto
    moreover have "k < ?n" if "\<not> repeat l" using assms(1,3) that by (auto simp: at_opportunity_def)
    ultimately show ?thesis
      using False zero f u2 assms(1) div_mod_Suc [OF n(1), of k]
      by (auto simp: at_opportunity_def l3_def l2_def)
  qed
  show ?thesis
    by (rule that [OF use at]) (use l1 f in \<open>auto simp: l3_def l2_def same_core_def quiet_def\<close>)
qed


lemma same_schedule_opportunity:
  "same_schedule l' l \<Longrightarrow> at_opportunity sched b k l' = at_opportunity sched b k l"
  by (simp add: same_schedule_def at_opportunity_def)

lemma pkt_fits_mono: "pkt_fits t p \<Longrightarrow> t \<le> t' \<Longrightarrow> pkt_fits t' p"
  by (auto simp: pkt_fits_def intro: order_trans)

lemma link_ok_mono: "link_ok pkts ok t l \<Longrightarrow> t \<le> t' \<Longrightarrow> link_ok pkts ok t' l"
  by (auto simp: link_ok_def transit_ok_def intro: pkt_fits_mono)

text \<open>
  \<open>progress\<close>: what \<open>n\<close> opportunities do to a link.  Packets come out in the order in which
  they went in; each opportunity carries at most 1504 bytes, and exactly that while there
  is something to send.
\<close>

definition progress ::
  "'q queue_ops \<Rightarrow> ('q \<Rightarrow> queued_packet list) \<Rightarrow> ('q \<Rightarrow> bool) \<Rightarrow> nat \<Rightarrow> 'q link_queue \<Rightarrow> 'q link_queue \<Rightarrow> bool"
  where
  "progress ops pkts ok n l l' \<longleftrightarrow>
     subseq (flow pkts l') (flow pkts l) \<and>
     (exact_dequeue ops pkts ok \<longrightarrow> flow pkts l' = flow pkts l) \<and>
     sent_bytes l \<le> sent_bytes l' \<and> sent_bytes l' \<le> sent_bytes l + n * packet_size \<and>
     (sent_bytes l' = sent_bytes l + n * packet_size \<or> idle pkts l')"

lemma progress_refl: "progress ops pkts ok 0 l l"
  by (simp add: progress_def)

context packet_queue
begin

lemma deliver_idle:
  assumes "link_ok pkts inv t l" "idle pkts l"
  shows "deliver ops t left c l = Inr (l, c)"
  using assms by (subst deliver.simps) (simp add: idle_def link_ok_def empty_iff)

lemma one_delivery_ok:
  assumes "at_opportunity sched b k l" "trace_ok sched" "\<not> finished l" "link_ok pkts inv t l"
    "opportunity sched b k < 2 ^ 64"
  shows "\<exists>l' c'. one_delivery ops t c l = Inr (l', c') \<and> at_opportunity sched b (Suc k) l' \<and>
    link_ok pkts inv t l' \<and> progress ops pkts inv 1 l l' \<and> (idle pkts l \<longrightarrow> idle pkts l') \<and>
    repeat l' = repeat l \<and> (room (packets l) x \<longrightarrow> room (packets l') x)"
proof -
  have "quiet l" using assms(4) by (simp add: link_ok_def)
  from assms(1-3) this assms(5) obtain l1 where l1: "use_a_delivery_opportunity c l = Inr (l1, c)"
    "at_opportunity sched b (Suc k) l1" "quiet l1" "packets l1 = packets l"
    "packet_in_transit l1 = packet_in_transit l" "bytes_left l1 = bytes_left l"
    "output_queue l1 = output_queue l" "repeat l1 = repeat l"
    by (rule use_opportunity_ok)
  have eqs: "flow pkts l1 = flow pkts l" "sent_bytes l1 = sent_bytes l" "idle pkts l1 = idle pkts l"
    "link_ok pkts inv t l1"
    using l1 assms(4)
    by (simp_all add: flow_def sent_bytes_def in_transit_def idle_def link_ok_def transit_ok_def)
  have ps: "unat (of_nat packet_size :: u32) = packet_size" by (simp add: packet_size_def)
  obtain l2 c2 where l2: "deliver ops t (of_nat packet_size) c l1 = Inr (l2, c2)"
    "link_ok pkts inv t l2" "same_schedule l2 l1" "subseq (flow pkts l2) (flow pkts l1)"
    "exact_dequeue ops pkts inv \<longrightarrow> flow pkts l2 = flow pkts l1"
    "sent_bytes l1 \<le> sent_bytes l2" "sent_bytes l2 \<le> sent_bytes l1 + packet_size"
    "sent_bytes l2 = sent_bytes l1 + packet_size \<or> idle pkts l2"
    "room (packets l1) x \<longrightarrow> room (packets l2) x"
    using deliver_ok [OF eqs(4), of "of_nat packet_size" c] unfolding ps by blast
  have "idle pkts l \<longrightarrow> idle pkts l2"
    using deliver_idle [OF eqs(4)] eqs(3) l2(1) by auto
  moreover have "at_opportunity sched b (Suc k) l2"
    using l1(2) l2(3) by (simp add: same_schedule_opportunity)
  moreover have "repeat l2 = repeat l" using l1(8) l2(3) by (simp add: same_schedule_def)
  ultimately show ?thesis
    using l1(1,4) l2 eqs(1,2) by (auto simp: one_delivery_def progress_def)
qed

text \<open>
  \<open>rationalize\<close> returns, without a failed assert, having used exactly the opportunities up
  to \<open>now\<close>.
\<close>

lemma rationalize_ok:
  assumes "at_opportunity sched b k l" "trace_ok sched" "next_delivery_time l = Inr t"
    "link_ok pkts inv t l" "\<not> finished l \<Longrightarrow> opportunity sched b k < 2 ^ 64"
    "unat now + unat (last sched) < 2 ^ 64"
  shows "\<exists>l' c' k' t'. rationalize ops now c l = Some (Inr (l', c')) \<and> k \<le> k' \<and>
    at_opportunity sched b k' l' \<and> next_delivery_time l' = Inr t' \<and> now < t' \<and> t \<le> t' \<and>
    (\<not> finished l' \<longrightarrow> unat t' = opportunity sched b k') \<and>
    (\<forall>j. k \<le> j \<and> j < k' \<longrightarrow> opportunity sched b j \<le> unat now) \<and>
    link_ok pkts inv t' l' \<and> progress ops pkts inv (k' - k) l l' \<and>
    (idle pkts l \<longrightarrow> idle pkts l') \<and> (room (packets l) x \<longrightarrow> room (packets l') x)"
  using assms(1,3,4,5)
proof (induction "(unat now + 1) * length sched - k" arbitrary: k l c t rule: less_induct)
  case less
  have unat_time: "unat t = opportunity sched b k" if "\<not> finished l"
    using at_opportunity_time [OF less.prems(1) assms(2) that less.prems(4) [OF that]]
      less.prems(2) by auto
  show ?case
  proof (cases "t \<le> now")
    case False
    then have "rationalize ops now c l = Some (Inr (l, c))"
      using less.prems(2) by (simp add: rationalize.simps [of ops now c l])
    moreover have "now < t" using False by simp
    ultimately show ?thesis
      using less.prems(1-3) unat_time
      by (intro exI [of _ l] exI [of _ c] exI [of _ k] exI [of _ t]) (simp add: progress_refl)
  next
    case True
    have nf: "\<not> finished l"
    proof
      assume "finished l"
      then have "t = - 1" using less.prems(2) by (simp add: next_delivery_time_def)
      with True have "now = - 1" by (simp add: word_order.extremum_unique)
      moreover have "0 < unat (last sched)" using assms(2) by (simp add: trace_ok_def unat_gt_0)
      moreover have "unat (- 1 :: u64) = 2 ^ 64 - 1"
        by (simp add: unsigned_minus_1_eq_mask mask_eq_exp_minus_1)
      ultimately show False using assms(6) by simp
    qed
    note k64 = less.prems(4) [OF nf] and ut = unat_time [OF nf]
    have le: "opportunity sched b k \<le> unat now" using True ut by (simp add: word_le_nat_alt)
    obtain l1 c1 where l1: "one_delivery ops t c l = Inr (l1, c1)"
      "at_opportunity sched b (Suc k) l1" "link_ok pkts inv t l1" "progress ops pkts inv 1 l l1"
      "idle pkts l \<longrightarrow> idle pkts l1" "room (packets l) x \<longrightarrow> room (packets l1) x"
      using one_delivery_ok [OF less.prems(1) assms(2) nf less.prems(3) k64] by blast
    have suc64: "opportunity sched b (Suc k) < 2 ^ 64"
      using opportunity_Suc(2) [OF assms(2), of b k] le assms(6) by linarith
    obtain t1 where t1: "next_delivery_time l1 = Inr t1" "t \<le> t1"
    proof (cases "finished l1")
      case True
      then show ?thesis by (intro that [of "- 1"]) (simp_all add: next_delivery_time_def)
    next
      case False
      from l1(2) assms(2) False suc64 obtain t1 where "next_delivery_time l1 = Inr t1"
        "unat t1 = opportunity sched b (Suc k)" by (rule at_opportunity_time)
      then show ?thesis
        using opportunity_Suc(1) [OF assms(2), of b k] ut
        by (intro that [of t1]) (simp_all add: word_le_nat_alt)
    qed
    have fewer: "(unat now + 1) * length sched - Suc k < (unat now + 1) * length sched - k"
      using opportunity_unbounded [OF assms(2) le] by (rule diff_less_mono2 [OF lessI])
    from less.hyps [OF fewer l1(2) t1(1) link_ok_mono [OF l1(3) t1(2)] suc64, of c1]
    obtain l2 c2 k2 t2 where l2: "rationalize ops now c1 l1 = Some (Inr (l2, c2))" "Suc k \<le> k2"
      "at_opportunity sched b k2 l2" "next_delivery_time l2 = Inr t2" "now < t2" "t1 \<le> t2"
      "\<not> finished l2 \<longrightarrow> unat t2 = opportunity sched b k2"
      "\<forall>j. Suc k \<le> j \<and> j < k2 \<longrightarrow> opportunity sched b j \<le> unat now"
      "link_ok pkts inv t2 l2" "progress ops pkts inv (k2 - Suc k) l1 l2"
      "idle pkts l1 \<longrightarrow> idle pkts l2" "room (packets l1) x \<longrightarrow> room (packets l2) x"
      by blast
    have r: "rationalize ops now c l = Some (Inr (l2, c2))"
      using less.prems(2) True l1(1) l2(1) by (simp add: rationalize.simps [of ops now c l])
    have p: "progress ops pkts inv (k2 - k) l l2"
    proof -
      have n: "k2 - k = Suc (k2 - Suc k)" using l2(2) by simp
      have "subseq (flow pkts l2) (flow pkts l)"
        using l2(10) l1(4) by (auto simp: progress_def intro: subseq_order.trans)
      then show ?thesis
        using l1(4) l2(10,11) unfolding n progress_def by auto
    qed
    have "\<forall>j. k \<le> j \<and> j < k2 \<longrightarrow> opportunity sched b j \<le> unat now"
      using l2(8) le by (metis Suc_le_eq le_neq_implies_less)
    moreover have "t \<le> t2" using t1(2) l2(6) by (rule order_trans)
    ultimately show ?thesis
      using r p l2 l1(5,6) by (intro exI [of _ l2] exI [of _ c2] exI [of _ k2] exI [of _ t2]) auto
  qed
qed

end


section \<open>Reading a packet and waiting\<close>

text \<open>The invariant of a link: it has used \<open>k\<close> opportunities of the trace \<open>sched\<close> since \<open>b\<close>.\<close>

definition link_inv ::
  "('q \<Rightarrow> queued_packet list) \<Rightarrow> ('q \<Rightarrow> bool) \<Rightarrow> u64 list \<Rightarrow> nat \<Rightarrow> nat \<Rightarrow> 'q link_queue \<Rightarrow> bool" where
  "link_inv pkts ok sched b k l \<longleftrightarrow>
     trace_ok sched \<and> at_opportunity sched b k l \<and>
     (\<not> finished l \<longrightarrow> opportunity sched b k < 2 ^ 64) \<and>
     (case next_delivery_time l of Inl e \<Rightarrow> False | Inr t \<Rightarrow> link_ok pkts ok t l)"

text \<open>\<open>k'\<close> is the first opportunity at or after \<open>k\<close> that lies beyond \<open>now\<close>.\<close>

definition catches_up :: "u64 list \<Rightarrow> nat \<Rightarrow> u64 \<Rightarrow> nat \<Rightarrow> nat \<Rightarrow> 'q link_queue \<Rightarrow> bool" where
  "catches_up sched b now k k' l' \<longleftrightarrow> k \<le> k' \<and>
     (\<forall>j. k \<le> j \<and> j < k' \<longrightarrow> opportunity sched b j \<le> unat now) \<and>
     (finished l' \<or> unat now < opportunity sched b k')"

context packet_queue
begin

lemma rationalize_inv:
  assumes "link_inv pkts inv sched b k l" "unat now + unat (last sched) < 2 ^ 64"
  obtains l' c' k' t' where "rationalize ops now c l = Some (Inr (l', c'))"
    "link_inv pkts inv sched b k' l'" "catches_up sched b now k k' l'"
    "next_delivery_time l' = Inr t'" "now < t'" "link_ok pkts inv t' l'"
    "progress ops pkts inv (k' - k) l l'" "room (packets l) x \<longrightarrow> room (packets l') x"
proof -
  obtain t where t: "next_delivery_time l = Inr t" "link_ok pkts inv t l" "trace_ok sched"
    "at_opportunity sched b k l" "\<not> finished l \<Longrightarrow> opportunity sched b k < 2 ^ 64"
    using assms(1) by (auto simp: link_inv_def split: sum.splits)
  from rationalize_ok [OF t(4,3,1,2,5) assms(2), of c x] obtain l' c' k' t' where
    r: "rationalize ops now c l = Some (Inr (l', c'))" "k \<le> k'" "at_opportunity sched b k' l'"
      "next_delivery_time l' = Inr t'" "now < t'"
      "\<not> finished l' \<longrightarrow> unat t' = opportunity sched b k'"
      "\<forall>j. k \<le> j \<and> j < k' \<longrightarrow> opportunity sched b j \<le> unat now"
      "link_ok pkts inv t' l'" "progress ops pkts inv (k' - k) l l'"
      "room (packets l) x \<longrightarrow> room (packets l') x"
    by blast
  have "\<not> finished l' \<longrightarrow> opportunity sched b k' < 2 ^ 64 \<and> unat now < opportunity sched b k'"
    using r(5,6) unat_u64_bound [of t'] by (auto simp: word_less_nat_alt)
  with r t(3) show ?thesis
    by (intro that [of l' c' k' t']) (auto simp: link_inv_def catches_up_def)
qed

lemma enqueue_checked_ok:
  assumes "inv (packets l)" "room (packets l) p" "p = \<lparr>arrival_time = now, contents = cs\<rparr>"
    "q_enqueue ops c (packets l) p = Inr (q', c')" "quiet l"
  obtains l' where "enqueue_checked ops c now cs l = Inr (l', c')" "same_core l' (l\<lparr>packets := q'\<rparr>)"
    "quiet l'" "inv q'" "subseq (pkts q') (pkts (packets l) @ [p])"
proof -
  have q': "inv q'" "subseq (pkts q') (pkts (packets l) @ [p])"
    using enqueue_ok [OF assms(1,2,4)] by simp_all
  note le = enqueue_sizes [OF assms(1,2,4)]
  have c: "countable (pkts (packets l) @ [p])" using assms(2) by (rule room_countable)
  have "(of_nat (length (pkts q')) :: u32) \<le> of_nat (length (pkts (packets l)) + 1)"
    using le(1) c by (subst of_nat_le_word_iff) (simp_all add: countable_def)
  moreover have "unat (of_nat (total_bytes (pkts q')) :: u32) \<le>
      unat (of_nat (total_bytes (pkts (packets l))) :: u32) + length cs"
    using le(2) c assms(3) by (simp add: unat_of_nat_small countable_def pkt_bytes_def)
  ultimately show ?thesis
    using assms(3-5) q'
    by (intro that [of "note_missing now (of_nat (length (pkts (packets l))) + 1 - of_nat (length (pkts q')))
        (of_nat (total_bytes (pkts (packets l))) + of_nat (length cs) - of_nat (total_bytes (pkts q')))
        (l\<lparr>packets := q'\<rparr>)"])
    (simp_all add: enqueue_checked_def size_bytes_eq size_packets_eq assms(1) note_missing_core
      quiet_packets add.commute)
qed

end


lemma same_core_flow:
  "same_core l' l \<Longrightarrow> flow pkts l' = flow pkts l \<and> next_delivery_time l' = next_delivery_time l \<and>
   at_opportunity sched b k l' = at_opportunity sched b k l \<and> finished l' = finished l \<and>
   packets l' = packets l \<and> transit_ok t l' = transit_ok t l \<and> sent_bytes l' = sent_bytes l"
  by (simp add: same_core_def flow_def in_transit_def next_delivery_time_def at_opportunity_def
      transit_ok_def sent_bytes_def)

context packet_queue
begin

text \<open>
  \<open>wait_time\<close>: the milliseconds to the next opportunity, cut to an \<open>unsigned int\<close>.
\<close>

lemma link_wait_time_inv:
  assumes "link_inv pkts inv sched b k l" "unat (c 0) + unat (last sched) < 2 ^ 64"
  shows "\<exists>w l' c' k' (t' :: u64). link_wait_time ops c l = Some (Inr (w, l', c')) \<and>
    link_inv pkts inv sched b k' l' \<and> catches_up sched b (c 0) k k' l' \<and>
    progress ops pkts inv (k' - k) l l' \<and> w = of_nat (unat t' - unat (c 0)) \<and>
    unat (c 0) < unat t' \<and> (\<not> finished l' \<longrightarrow> unat t' = opportunity sched b k')"
proof -
  obtain l1 c1 k' t where l1: "rationalize ops (c 0) (\<lambda>n. c (Suc n)) l = Some (Inr (l1, c1))"
    "link_inv pkts inv sched b k' l1" "catches_up sched b (c 0) k k' l1"
    "next_delivery_time l1 = Inr t" "c 0 < t" "progress ops pkts inv (k' - k) l l1"
    using assms by (rule rationalize_inv [where c = "\<lambda>n. c (Suc n)"]) blast
  have "unat t - unat (c 0) = unat (t - c 0)" using l1(5) by (simp add: unat_sub)
  then have "(of_nat (unat t - unat (c 0)) :: u32) = of_nat (unat (t - c 0))" by (rule arg_cong)
  then have u: "ucast (t - c 0) = (of_nat (unat t - unat (c 0)) :: u32)" by (simp only: of_nat_unat)
  have not_early: "(t \<le> c 0) = False" using l1(5) by auto
  have w: "link_wait_time ops c l = Some (Inr (of_nat (unat t - unat (c 0)), l1, c1))"
    using l1(1,4) not_early unfolding u [symmetric]
    by (simp add: link_wait_time_def timestamp_def bindO_def)
  have "\<not> finished l1 \<longrightarrow> unat t = opportunity sched b k'"
    using l1(2,4) at_opportunity_time [of sched b k' l1] by (auto simp: link_inv_def)
  moreover have "unat (c 0) < unat t" using l1(5) by (simp add: word_less_nat_alt)
  ultimately show ?thesis
    using w l1 by (intro exI [of _ "of_nat (unat t - unat (c 0)) :: u32"] exI [of _ l1] exI [of _ c1]
        exI [of _ k'] exI [of _ t]) simp
qed

end

context reliable_packet_queue
begin

text \<open>
  A packet of 1 to 1504 bytes is always accepted: the discipline may discard packets, but
  what is left comes out in order, after everything already in the link.
\<close>

lemma link_read_packet_inv:
  assumes "link_inv pkts inv sched b k l" "unat (c 0) + unat (last sched) < 2 ^ 64"
    "cs \<noteq> []" "length cs \<le> packet_size" "room (packets l) \<lparr>arrival_time = c 0, contents = cs\<rparr>"
  shows "\<exists>l' c' k'. link_read_packet ops c cs l = Some (Inr (l', c')) \<and>
    link_inv pkts inv sched b k' l' \<and> catches_up sched b (c 0) k k' l' \<and>
    subseq (flow pkts l') (flow pkts l @ [cs])"
proof -
  define p where "p = \<lparr>arrival_time = c 0, contents = cs\<rparr>"
  obtain l1 c1 k' t where l1: "rationalize ops (c 0) (\<lambda>n. c (Suc n)) l = Some (Inr (l1, c1))"
    "link_inv pkts inv sched b k' l1" "catches_up sched b (c 0) k k' l1"
    "next_delivery_time l1 = Inr t" "c 0 < t" "link_ok pkts inv t l1"
    "progress ops pkts inv (k' - k) l l1" "room (packets l) p \<longrightarrow> room (packets l1) p"
    using assms(1,2) by (rule rationalize_inv [where c = "\<lambda>n. c (Suc n)" and x = p])
  have ok1: "inv (packets l1)" "quiet l1" "room (packets l1) p"
    using l1(6,8) assms(5) by (simp_all add: link_ok_def p_def)
  obtain l2 where l2: "record_arrival c1 (c 0) (length cs) l1 = Inr (l2, c1)" "same_core l2 l1" "quiet l2"
    using record_arrival_ok [OF ok1(2)] by blast
  have p2: "packets l2 = packets l1" using l2(2) by (simp add: same_core_def)
  obtain q' c2 where e: "q_enqueue ops c1 (packets l2) p = Inr (q', c2)"
    using enqueue_total [OF ok1(1,3), of c1] p2 by auto
  obtain l3 where l3: "enqueue_checked ops c1 (c 0) cs l2 = Inr (l3, c2)"
    "same_core l3 (l2\<lparr>packets := q'\<rparr>)" "quiet l3" "inv q'" "subseq (pkts q') (pkts (packets l2) @ [p])"
    using ok1(1,3) p2 e l2(3) by (auto intro: enqueue_checked_ok [OF _ _ p_def e])
  note c2 = same_core_flow [OF l2(2), of pkts sched b k' t]
  note c3 = same_core_flow [OF l3(2), of pkts sched b k' t]
  have frame: "next_delivery_time (l2\<lparr>packets := q'\<rparr>) = next_delivery_time l2"
    "at_opportunity sched b k' (l2\<lparr>packets := q'\<rparr>) = at_opportunity sched b k' l2"
    "transit_ok t (l2\<lparr>packets := q'\<rparr>) = transit_ok t l2"
    by (simp_all add: next_delivery_time_def at_opportunity_def transit_ok_def)
  have "pkt_fits t p" using assms(3,4) l1(5) by (simp add: p_def pkt_fits_def)
  then have "\<forall>x \<in> set (pkts q'). pkt_fits t x"
    using subseq_set_mono [OF l3(5)] l1(6) p2 by (auto simp: link_ok_def)
  then have ok3: "link_ok pkts inv t l3"
    using l1(6) l3(3,4) c2 c3 frame by (simp add: link_ok_def)
  have inv3: "link_inv pkts inv sched b k' l3"
    using l1(2,4) c2 c3 frame ok3 by (simp add: link_inv_def)
  have "subseq (flow pkts l3) (flow pkts l2 @ [cs])"
  proof -
    have "flow pkts l3 = (output_queue l2 @ in_transit l2) @ map contents (pkts q')"
      using l3(2) by (simp add: same_core_def flow_def in_transit_def)
    moreover have "flow pkts l2 @ [cs] =
        (output_queue l2 @ in_transit l2) @ map contents (pkts (packets l2) @ [p])"
      by (simp add: flow_def p_def)
    ultimately show ?thesis
      using subseq_map [OF l3(5), of contents] by (simp only: subseq_append')
  qed
  moreover have "subseq (flow pkts l2 @ [cs]) (flow pkts l @ [cs])"
    using l1(7) c2 by (simp add: progress_def)
  ultimately have "subseq (flow pkts l3) (flow pkts l @ [cs])" by (rule subseq_order.trans)
  moreover have "link_read_packet ops c cs l = Some (Inr (l3, c2))"
    using l1(1) l2(1) l3(1) assms(4) by (simp add: link_read_packet_def timestamp_def bindO_def)
  moreover have "catches_up sched b (c 0) k k' l3"
    using l1(3) c2 c3 by (simp add: catches_up_def)
  ultimately show ?thesis using inv3 by blast
qed

end


section \<open>The constructor\<close>

lemma schedule_line_sorted:
  assumes "sorted sched" "schedule_line filename line sched = Inr sched'"
  shows "sorted sched' \<and> sched' \<noteq> []"
proof -
  obtain ms where ms: "sched' = sched @ [ms]" "sched = [] \<or> last sched \<le> ms"
    using assms(2) by (auto simp: schedule_line_def bindR_eq_Inr Let_def not_less split: if_splits)
  have "x \<le> ms" if x: "x \<in> set sched" for x
  proof -
    have ne: "sched \<noteq> []" using x by auto
    obtain i where "i < length sched" "sched ! i = x" using x by (auto simp: in_set_conv_nth)
    then have "x \<le> last sched"
      using assms(1) ne by (auto simp: last_conv_nth intro: sorted_nth_mono)
    with ms(2) ne show ?thesis by auto
  qed
  with ms(1) assms(1) show ?thesis by (simp add: sorted_append)
qed

lemma load_schedule_trace_ok:
  assumes "load_schedule filename trace = Inr sched" "length sched < 2 ^ 32"
  shows "trace_ok sched"
proof -
  obtain lines where t: "fold_res (schedule_line filename) lines [] = Inr sched"
    "sched \<noteq> []" "last sched \<noteq> 0"
    using assms(1) by (auto simp: load_schedule_def bindR_eq_Inr split: option.splits if_splits)
  have "sorted sched"
    using t(1) by (rule fold_res_preserves) (auto dest: schedule_line_sorted)
  with t assms(2) show ?thesis by (simp add: trace_ok_def)
qed

lemma graph_init_wf:
  assumes "live_graph_new c (Suc n) m r w f = Inr (g, c')"
  shows "graph_wf g \<and> value_this_bin g \<noteq> []"
proof -
  define g0 where "g0 = \<lparr>bin_width_ms = w, value_this_bin = replicate (Suc n) 0,
    current_bin = c 0 div ucast w, multiplier = m, rate_quantity = r,
    initialize_new_bin = f, data_points = replicate (Suc n) ([] :: (rat \<times> rat) list)\<rparr>"
  have "fold_res (\<lambda>i. add_data_point i 0 0) [0..<Suc n] g0 = Inr g"
    using assms by (simp add: live_graph_new_def timestamp_def g0_def bindR_eq_Inr split: if_splits
        del: replicate_Suc upt_Suc)
  then have "length (data_points g) = Suc n \<and> length (value_this_bin g) = Suc n"
    by (rule fold_res_preserves)
      (auto simp: g0_def add_data_point_def split: if_splits)
  then show ?thesis by (auto simp: graph_wf_def)
qed

lemma optional_graph_wf:
  assumes "optional_graph c w (\<lambda>c. live_graph_new c (Suc n) m r v f) = Inr (g, c')" "g = Some g'"
  shows "graph_wf g' \<and> value_this_bin g' \<noteq> []"
  using assms by (auto simp: optional_graph_def bindR_eq_Inr dest: graph_init_wf split: if_splits)

context packet_queue
begin

lemma link_new_inv:
  assumes "link_new ops env c name filename logfile rep False gd q cmd = Inr (l, c')"
    "inv q" "pkts q = []" "length (schedule l) < 2 ^ 32"
    "unat (base_timestamp l) + unat (hd (schedule l)) < 2 ^ 64"
  shows "link_inv pkts inv (schedule l) (unat (base_timestamp l)) 0 l \<and> flow pkts l = []"
proof -
  obtain sched lg dg where l: "load_schedule filename (env_trace env) = Inr sched"
    "optional_graph (\<lambda>n. c (Suc n)) gd (\<lambda>c. live_graph_new c 1 1 False 250 (\<lambda>_ _. - 1)) = Inr (dg, c')"
    "l = \<lparr>next_delivery = 0, schedule = sched, base_timestamp = c 0, packets = q,
       packet_in_transit = \<lparr>arrival_time = 0, contents = []\<rparr>, bytes_left = 0,
       output_queue = [], log = lg, throughput_graph = None, delay_graph = dg,
       repeat = rep, finished = False\<rparr>"
    using assms(1)
    by (auto simp: link_new_def timestamp_def bindR_eq_Inr optional_graph_def [of _ False])
  have q: "quiet l"
    using optional_graph_wf [of _ gd 0 1 False 250] l(2,3) by (fastforce simp: quiet_def)
  have t: "trace_ok sched" using l(1,3) assms(4) by (intro load_schedule_trace_ok) simp_all
  then have ne: "sched \<noteq> []" by (simp add: trace_ok_def)
  then have "opportunity sched (unat (c 0)) 0 < 2 ^ 64"
    using assms(5) l(3) by (simp add: opportunity_def hd_conv_nth)
  with t ne q l(3) assms(2,3) show ?thesis
    by (simp add: link_inv_def at_opportunity_def next_delivery_time_def link_ok_def transit_ok_def
        flow_def in_transit_def)
qed

end

end
