(* ===== verification/Float_Facts.thy ===== *)
theory Float_Facts
  imports Floating
begin

text \<open>
  Two general facts about rounding: it leaves alone what the format represents, and it is monotone
  on the numbers that are not negative.
\<close>

lemma round_even_int [simp]: "round_even (of_int m) = m"
  by (simp add: round_even_def)

lemma fl_unfold:
  assumes "0 < x"
  obtains k where "k = max (flog2 x - (prec - 1)) emin" "fl prec emin x = of_int (round_even (x / 2 powi k)) * 2 powi k"
  using assms by (intro that [OF refl]) (simp add: fl_def Let_def)

lemma flog2_less:
  assumes "0 < x" "x < 2 powi n"
  shows "flog2 x < n"
proof (rule ccontr)
  assume "\<not> ?thesis"
  then have "(2 :: rat) powi n \<le> 2 powi flog2 x" by (intro power_int_increasing) simp_all
  with flog2_bounds(1) [OF assms(1)] assms(2) show False by simp
qed

lemma pow2_nat: "0 \<le> j \<Longrightarrow> of_int (2 ^ nat j) = (2 :: rat) powi j"
  by (simp add: power_int_def)

lemma fl_exact:
  assumes "x = of_int m * 2 powi j" "\<bar>m\<bar> < 2 ^ nat prec" "0 < prec" "emin \<le> j"
  shows "fl prec emin x = x"
proof (cases "m = 0")
  case False
  then have x: "x \<noteq> 0" by (simp add: assms(1))
  define k where "k = max (flog2 \<bar>x\<bar> - (prec - 1)) emin"
  have "(of_int \<bar>m\<bar> :: rat) < of_int (2 ^ nat prec)" using assms(2) by (simp only: of_int_less_iff)
  then have "\<bar>x\<bar> < 2 powi prec * 2 powi j"
    using assms(3) by (simp add: assms(1) power_int_def abs_mult)
  then have "flog2 \<bar>x\<bar> < prec + j" using x by (intro flog2_less) (simp_all add: power_int_add)
  with assms(4) have kj: "k \<le> j" by (simp add: k_def)
  have "x / 2 powi k = of_int m * 2 powi (j - k)" by (simp add: assms(1) power_int_diff)
  also have "\<dots> = of_int (m * 2 ^ nat (j - k))" using kj by (simp add: power_int_def)
  finally have "of_int (round_even (x / 2 powi k)) = x / 2 powi k" by (simp only: round_even_int)
  then show ?thesis by (simp add: fl_nonzero [OF x k_def])
qed (simp add: assms(1))

lemma fl_nonpos:
  assumes "x \<le> 0"
  shows "fl prec emin x \<le> 0"
proof (cases "x = 0")
  case False
  define k where "k = max (flog2 \<bar>x\<bar> - (prec - 1)) emin"
  have "round_even (x / 2 powi k) \<le> 0" using assms by (intro round_even_le) (simp add: divide_le_0_iff)
  then have "of_int (round_even (x / 2 powi k)) * (2 :: rat) powi k \<le> 0" by (simp add: mult_le_0_iff)
  then show ?thesis by (simp only: fl_nonzero [OF False k_def])
qed simp

lemma round_even_mono: "x \<le> y \<Longrightarrow> round_even x \<le> round_even y"
proof -
  assume le: "x \<le> y"
  show ?thesis
  proof (cases "\<lfloor>x\<rfloor> = \<lfloor>y\<rfloor>")
    case True
    with le show ?thesis by (auto simp: round_even_def Let_def)
  next
    case False
    with le have "\<lfloor>x\<rfloor> + 1 \<le> \<lfloor>y\<rfloor>" using floor_mono [OF le] by simp
    moreover have "round_even x \<le> \<lfloor>x\<rfloor> + 1" "\<lfloor>y\<rfloor> \<le> round_even y" by (simp_all add: round_even_def Let_def)
    ultimately show ?thesis by simp
  qed
qed

lemma fl_mono:
  assumes "0 \<le> x" "x \<le> y" "0 < prec"
  shows "fl prec emin x \<le> fl prec emin y"
proof (cases "x = 0")
  case True
  then show ?thesis using fl_nonneg [of y prec emin] assms by simp
next
  case False
  with assms have x: "0 < x" and y: "0 < y" by simp_all
  obtain k where k: "k = max (flog2 x - (prec - 1)) emin" "fl prec emin x = of_int (round_even (x / 2 powi k)) * 2 powi k"
    using fl_unfold [OF x] .
  obtain l where l: "l = max (flog2 y - (prec - 1)) emin" "fl prec emin y = of_int (round_even (y / 2 powi l)) * 2 powi l"
    using fl_unfold [OF y] .
  have e: "flog2 x \<le> flog2 y"
  proof -
    have "x < 2 powi (flog2 y + 1)" using flog2_bounds(2) [OF y] assms(2) by simp
    from flog2_less [OF x this] show ?thesis by simp
  qed
  show ?thesis
  proof (cases "k = l")
    case True
    have "round_even (x / 2 powi k) \<le> round_even (y / 2 powi k)"
      using assms(2) by (intro round_even_mono divide_right_mono) simp_all
    then have "(of_int (round_even (x / 2 powi k)) :: rat) \<le> of_int (round_even (y / 2 powi k))" by (simp only: of_int_le_iff)
    then show ?thesis unfolding k(2) l(2) True [symmetric] by (intro mult_right_mono) simp_all
  next
    case False
    with k(1) l(1) e have kl: "k < l" "l = flog2 y - (prec - 1)" by auto
    let ?m = "2 ^ nat (flog2 y - k)"
    have ky: "k \<le> flog2 y" using kl assms(3) by simp
    have step: "flog2 x < flog2 y" using k(1) kl by (auto simp: max_def split: if_splits)
    have "x < 2 powi (flog2 x + 1)" by (rule flog2_bounds(2) [OF x])
    also have "(2 :: rat) powi (flog2 x + 1) \<le> 2 powi flog2 y" using step by (intro power_int_increasing) simp_all
    finally have "x / 2 powi k \<le> 2 powi flog2 y / 2 powi k" by (intro divide_right_mono) simp_all
    also have "\<dots> = of_int ?m" using ky by (simp only: pow2_nat) (simp add: power_int_diff)
    finally have "round_even (x / 2 powi k) \<le> ?m" by (rule round_even_le)
    then have "(of_int (round_even (x / 2 powi k)) :: rat) \<le> of_int ?m" by (simp only: of_int_le_iff)
    then have "fl prec emin x \<le> of_int ?m * 2 powi k" unfolding k(2) by (intro mult_right_mono) simp_all
    also have "\<dots> = 2 powi flog2 y" using ky by (simp only: pow2_nat) (simp add: power_int_diff)
    also have "\<dots> = 2 powi (prec - 1) * 2 powi l" by (simp add: kl(2) power_int_add [symmetric])
    also have "\<dots> = of_int (2 ^ nat (prec - 1)) * 2 powi l" using assms(3) by (simp only: pow2_nat)
    also have "\<dots> \<le> fl prec emin y"
    proof -
      have "(2 :: rat) powi (prec - 1) * 2 powi l = 2 powi flog2 y" by (simp add: kl(2) power_int_add [symmetric])
      then have "of_int (2 ^ nat (prec - 1)) \<le> y / 2 powi l"
        using flog2_bounds(1) [OF y] assms(3) by (simp only: pow2_nat) (simp add: le_divide_eq)
      then have "2 ^ nat (prec - 1) \<le> round_even (y / 2 powi l)" by (rule round_even_ge)
      then have "(of_int (2 ^ nat (prec - 1)) :: rat) \<le> of_int (round_even (y / 2 powi l))" by (simp only: of_int_le_iff)
      then show ?thesis unfolding l(2) by (intro mult_right_mono) simp_all
    qed
    finally show ?thesis .
  qed
qed

lemma dbl_mono: "0 \<le> x \<Longrightarrow> x \<le> y \<Longrightarrow> dbl x \<le> dbl y"
  by (simp add: dbl_def fl_mono)

lemma flt_mono: "0 \<le> x \<Longrightarrow> x \<le> y \<Longrightarrow> flt x \<le> flt y"
  by (simp add: flt_def fl_mono)

end
