(* ===== verification/Double_Values.thy ===== *)
theory Double_Values
  imports Float_Facts
begin

text \<open>
  A \<open>double\<close> with its values that are not finite, for the command lines and for the loss queues, where they
  occur.  The two zeros are one value, so the reciprocal of a zero is the positive infinity.
\<close>

datatype double = Finite rat | Infinity bool | Not_a_number

fun nonnegative :: "double \<Rightarrow> bool" where
  "nonnegative (Finite q) \<longleftrightarrow> 0 \<le> q"
| "nonnegative (Infinity positive) \<longleftrightarrow> positive"
| "nonnegative Not_a_number \<longleftrightarrow> False"

fun at_most_one :: "double \<Rightarrow> bool" where
  "at_most_one (Finite q) \<longleftrightarrow> q \<le> 1"
| "at_most_one (Infinity positive) \<longleftrightarrow> \<not> positive"
| "at_most_one Not_a_number \<longleftrightarrow> False"

fun at_least_one :: "double \<Rightarrow> bool" where
  "at_least_one (Finite q) \<longleftrightarrow> 1 \<le> q"
| "at_least_one (Infinity positive) \<longleftrightarrow> positive"
| "at_least_one Not_a_number \<longleftrightarrow> False"

text \<open>\<open>numeric_limits<double>::max()\<close>.\<close>

definition double_max :: double where
  "double_max = Finite ((2 ^ 53 - 1) * 2 ^ 971)"

text \<open>An exact result that is rounded: from \<open>2 ^ 1024\<close> on it is infinite.\<close>

definition to_double :: "rat \<Rightarrow> double" where
  "to_double x = (let y = dbl x in if 2 ^ 1024 \<le> \<bar>y\<bar> then Infinity (0 < y) else Finite y)"

fun scaled :: "rat \<Rightarrow> double \<Rightarrow> double" where
  "scaled k (Finite q) = to_double (k * q)"
| "scaled k (Infinity positive) = Infinity positive"
| "scaled k Not_a_number = Not_a_number"

fun reciprocal :: "double \<Rightarrow> double" where
  "reciprocal (Finite q) = (if q = 0 then Infinity True else to_double (1 / q))"
| "reciprocal (Infinity positive) = Finite 0"
| "reciprocal Not_a_number = Not_a_number"

lemma reciprocal_of_max: "reciprocal (scaled 1000 double_max) = Finite 0"
proof -
  let ?x = "1000 * ((2 ^ 53 - 1) * 2 ^ 971) :: rat"
  have "dbl (2 ^ 1024) = 2 ^ 1024"
    unfolding dbl_def by (rule fl_exact [of _ 1 1024]) (simp_all add: power_int_def)
  moreover have "(2 :: rat) ^ 1024 = 2 ^ 53 * 2 ^ 971" by (simp only: power_add [symmetric]) simp
  then have "2 ^ 1024 \<le> ?x" by (simp only: mult.assoc [symmetric] mult_le_cancel_right) simp
  then have "dbl (2 ^ 1024) \<le> dbl ?x" by (intro dbl_mono) simp_all
  ultimately have "2 ^ 1024 \<le> dbl ?x" by simp
  then show ?thesis by (simp add: double_max_def to_double_def Let_def)
qed

lemma reciprocal_of_zero: "reciprocal (scaled 1000 (Finite 0)) = Infinity True"
  by (simp add: to_double_def)

end
