(* ===== verification/Ferry_Queues.thy ===== *)
theory Ferry_Queues
  imports Live_Graph File_Descriptor Double_Values
begin

text \<open>
  The queues that \<open>PacketShell\<close> ferries packets through, other than the link:
  \<open>src/frontend/delay_queue.cc\<close>, \<open>loss_queue.cc\<close> and \<open>meter_queue.cc\<close>; and the ferry of
  \<open>src/packet/packetshell.cc\<close> itself, a client of their common interface.
\<close>

section \<open>The interface of a ferry queue\<close>

text \<open>
  \<open>f_read\<close> and \<open>f_wait\<close> return an option because an operation may contain a loop that does
  not end.  \<open>f_pending\<close> may read the clock.
\<close>

record 's ferry_ops =
  f_read :: "clock \<Rightarrow> string \<Rightarrow> 's \<Rightarrow> ('s \<times> clock) res option"
  f_write :: "clock \<Rightarrow> writes \<Rightarrow> file_descriptor \<Rightarrow> 's \<Rightarrow>
    ('s \<times> file_descriptor \<times> writes \<times> clock) res"
  f_wait :: "clock \<Rightarrow> 's \<Rightarrow> (u32 \<times> 's \<times> clock) res option"
  f_pending :: "clock \<Rightarrow> 's \<Rightarrow> bool"
  f_finished :: "'s \<Rightarrow> bool"

text \<open>
  The contract, in terms of the packets held, in the order in which they will be written:
  reading adds at most the new packet, at the end; writing takes packets from the front;
  waiting may only lose packets.  \<open>fits\<close> is what a queue asks of a packet and of the clock.
\<close>

locale ferry_queue =
  fixes ops :: "'s ferry_ops"
    and held :: "'s \<Rightarrow> string list"
    and inv :: "'s \<Rightarrow> bool"
    and fits :: "clock \<Rightarrow> string \<Rightarrow> 's \<Rightarrow> bool"
    and awake :: "clock \<Rightarrow> 's \<Rightarrow> bool"
  assumes read_ok: "inv s \<Longrightarrow> fits c p s \<Longrightarrow> f_read ops c p s = Some (Inr (s', c')) \<Longrightarrow>
      inv s' \<and> subseq (held s') (held s @ [p])"
    and write_ok: "inv s \<Longrightarrow> f_write ops c w f s = Inr (s', f', w', c') \<Longrightarrow>
      inv s' \<and> (\<exists>out. held s = out @ held s' \<and> concat (sent f') = concat (sent f) @ concat out)"
    and wait_ok: "inv s \<Longrightarrow> awake c s \<Longrightarrow> f_wait ops c s = Some (Inr (ms, s', c')) \<Longrightarrow>
      inv s' \<and> subseq (held s') (held s)"

section \<open>The ferry\<close>

text \<open>
  One turn of the ferry's event loop calls \<open>wait_time\<close> and then the handler of each ready
  descriptor: a datagram from the TUN device is read and queued, a writable sibling takes
  the packets that are due.  When \<open>finished\<close>, the loop ends with status 77.
\<close>

datatype ferry_event =
    Wait_time
  | Datagram string
  | Writable

type_synonym 's ferry_state = "'s \<times> file_descriptor \<times> writes \<times> clock"

definition ferry_step :: "'s ferry_ops \<Rightarrow> ferry_event \<Rightarrow> 's ferry_state \<Rightarrow> 's ferry_state res option" where
  "ferry_step ops ev st =
     (case st of (s, f, w, c) \<Rightarrow>
        (case ev of
           Wait_time \<Rightarrow> map_option (\<lambda>r. bindR r (\<lambda>(ms, s', c'). Inr (s', f, w, c'))) (f_wait ops c s)
         | Datagram p \<Rightarrow> map_option (\<lambda>r. bindR r (\<lambda>(s', c'). Inr (s', f, w, c'))) (f_read ops c p s)
         | Writable \<Rightarrow>
             Some (if f_pending ops c s
                   then bindR (f_write ops c w f s) (\<lambda>(s', f', w', c'). Inr (s', f', w', c'))
                   else Inr (s, f, w, c))))"

fun ferry_run :: "'s ferry_ops \<Rightarrow> ferry_event list \<Rightarrow> 's ferry_state \<Rightarrow> 's ferry_state res option" where
  "ferry_run ops [] st = Some (Inr st)"
| "ferry_run ops (ev # evs) st =
     (case ferry_step ops ev st of
        None \<Rightarrow> None
      | Some (Inl e) \<Rightarrow> Some (Inl e)
      | Some (Inr st') \<Rightarrow> ferry_run ops evs st')"

fun datagrams :: "ferry_event list \<Rightarrow> string list" where
  "datagrams [] = []"
| "datagrams (Datagram p # evs) = p # datagrams evs"
| "datagrams (_ # evs) = datagrams evs"

text \<open>Every event of a run meets what the queue asks for, in the state it finds.\<close>

definition event_fits ::
  "(clock \<Rightarrow> string \<Rightarrow> 's \<Rightarrow> bool) \<Rightarrow> (clock \<Rightarrow> 's \<Rightarrow> bool) \<Rightarrow> ferry_event \<Rightarrow> 's ferry_state \<Rightarrow> bool" where
  "event_fits fits awake ev st =
     (case st of (s, f, w, c) \<Rightarrow>
        (case ev of Datagram p \<Rightarrow> fits c p s | Wait_time \<Rightarrow> awake c s | Writable \<Rightarrow> True))"

fun run_fits ::
  "'s ferry_ops \<Rightarrow> (clock \<Rightarrow> string \<Rightarrow> 's \<Rightarrow> bool) \<Rightarrow> (clock \<Rightarrow> 's \<Rightarrow> bool) \<Rightarrow> ferry_event list \<Rightarrow>
   's ferry_state \<Rightarrow> bool" where
  "run_fits ops fits awake [] st = True"
| "run_fits ops fits awake (ev # evs) st =
     (event_fits fits awake ev st \<and>
      (case ferry_step ops ev st of
         Some (Inr st') \<Rightarrow> run_fits ops fits awake evs st' | _ \<Rightarrow> True))"

context ferry_queue
begin

lemma ferry_step_ok:
  assumes "inv s" "event_fits fits awake ev (s, f, w, c)"
    "ferry_step ops ev (s, f, w, c) = Some (Inr (s', f', w', c'))"
  shows "inv s' \<and> (\<exists>out. concat (sent f') = concat (sent f) @ concat out \<and>
    subseq (out @ held s') (held s @ datagrams [ev]))"
proof (cases ev)
  case Wait_time
  then obtain ms where "f_wait ops c s = Some (Inr (ms, s', c'))" "f' = f"
    using assms(3) by (auto simp: ferry_step_def bindR_eq_Inr)
  with Wait_time assms wait_ok [of s c ms s' c'] show ?thesis
    by (auto simp: event_fits_def intro: exI [of _ "[]"])
next
  case (Datagram p)
  then have "f_read ops c p s = Some (Inr (s', c'))" "f' = f"
    using assms(3) by (auto simp: ferry_step_def bindR_eq_Inr)
  with Datagram assms read_ok [of s c p s' c'] show ?thesis
    by (auto simp: event_fits_def intro: exI [of _ "[]"])
next
  case Writable
  show ?thesis
  proof (cases "f_pending ops c s")
    case True
    with Writable have "f_write ops c w f s = Inr (s', f', w', c')"
      using assms(3) by (auto simp: ferry_step_def bindR_eq_Inr)
    with Writable assms(1) write_ok [of s c w f s' f' w' c'] show ?thesis by fastforce
  next
    case False
    with Writable assms(1,3) show ?thesis
      by (auto simp: ferry_step_def intro: exI [of _ "[]"])
  qed
qed

text \<open>
  Whatever the order of events, what reaches the sibling is, byte for byte, a subsequence
  of the datagrams in the order in which they were read.
\<close>

lemma ferry_run_fifo:
  assumes "inv s" "run_fits ops fits awake evs (s, f, w, c)"
    "ferry_run ops evs (s, f, w, c) = Some (Inr (s', f', w', c'))"
  shows "inv s' \<and> (\<exists>out. concat (sent f') = concat (sent f) @ concat out \<and>
    subseq (out @ held s') (held s @ datagrams evs))"
  using assms
proof (induction evs arbitrary: s f w c)
  case Nil
  then show ?case by (auto intro: exI [of _ "[]"])
next
  case (Cons ev evs)
  from Cons.prems(3) obtain s1 f1 w1 c1 where
    1: "ferry_step ops ev (s, f, w, c) = Some (Inr (s1, f1, w1, c1))"
    by (auto split: option.splits sum.splits)
  with Cons.prems have fit: "event_fits fits awake ev (s, f, w, c)"
    and rest: "run_fits ops fits awake evs (s1, f1, w1, c1)"
      "ferry_run ops evs (s1, f1, w1, c1) = Some (Inr (s', f', w', c'))" by simp_all
  from ferry_step_ok [OF Cons.prems(1) fit 1] obtain out1 where
    o1: "inv s1" "concat (sent f1) = concat (sent f) @ concat out1"
      "subseq (out1 @ held s1) (held s @ datagrams [ev])" by blast
  from Cons.IH [OF o1(1) rest] obtain out2 where
    o2: "inv s'" "concat (sent f') = concat (sent f1) @ concat out2"
      "subseq (out2 @ held s') (held s1 @ datagrams evs)" by blast
  have "subseq (out1 @ out2 @ held s') (out1 @ held s1 @ datagrams evs)"
    using o2(3) by (simp add: subseq_append')
  also have "subseq \<dots> ((held s @ datagrams [ev]) @ datagrams evs)"
    using o1(3) by (metis append.assoc list_emb_append_mono subseq_order.order_refl)
  also have "(held s @ datagrams [ev]) @ datagrams evs = held s @ datagrams (ev # evs)"
    by (cases ev) simp_all
  finally have "subseq ((out1 @ out2) @ held s') (held s @ datagrams (ev # evs))" by simp
  moreover have "concat (sent f') = concat (sent f) @ concat (out1 @ out2)"
    using o1(2) o2(2) by simp
  ultimately show ?case using o2(1) by blast
qed

end


section \<open>The delay queue\<close>

record delay_queue =
  delay_ms :: u64
  delayed :: "(u64 \<times> string) list"        \<comment> \<open>release timestamp, contents\<close>

definition uint16_max :: u32 where "uint16_max = 65535"

definition delay_new :: "u64 \<Rightarrow> delay_queue" where
  "delay_new ms = \<lparr>delay_ms = ms, delayed = []\<rparr>"

definition delay_read_packet :: "clock \<Rightarrow> string \<Rightarrow> delay_queue \<Rightarrow> delay_queue \<times> clock" where
  "delay_read_packet c p q =
     (let (now, c') = timestamp c in (q\<lparr>delayed := delayed q @ [(now + delay_ms q, p)]\<rparr>, c'))"

text \<open>The clock is read again for every packet that is looked at.\<close>

fun delay_flush ::
  "clock \<Rightarrow> writes \<Rightarrow> file_descriptor \<Rightarrow> (u64 \<times> string) list \<Rightarrow>
   ((u64 \<times> string) list \<times> file_descriptor \<times> writes \<times> clock) res" where
  "delay_flush c w f [] = Inr ([], f, w, c)"
| "delay_flush c w f ((release, p) # rest) =
     (let (now, c') = timestamp c
      in if release \<le> now
         then bindR (fd_write w f p) (\<lambda>(f', w'). delay_flush c' w' f' rest)
         else Inr ((release, p) # rest, f, w, c'))"

definition delay_write_packets ::
  "clock \<Rightarrow> writes \<Rightarrow> file_descriptor \<Rightarrow> delay_queue \<Rightarrow>
   (delay_queue \<times> file_descriptor \<times> writes \<times> clock) res" where
  "delay_write_packets c w f q =
     bindR (delay_flush c w f (delayed q)) (\<lambda>(ps, f', w', c'). Inr (q\<lparr>delayed := ps\<rparr>, f', w', c'))"

text \<open>The difference is returned as an \<open>unsigned int\<close>.\<close>

definition delay_wait_time :: "clock \<Rightarrow> delay_queue \<Rightarrow> u32 \<times> clock" where
  "delay_wait_time c q =
     (case delayed q of
        [] \<Rightarrow> (uint16_max, c)
      | (release, _) # _ \<Rightarrow>
          let (now, c') = timestamp c
          in (if release \<le> now then 0 else ucast (release - now), c'))"

definition delay_pending_output :: "clock \<Rightarrow> delay_queue \<Rightarrow> bool" where
  "delay_pending_output c q = (fst (delay_wait_time c q) \<le> 0)"

definition delay_ops :: "delay_queue ferry_ops" where
  "delay_ops =
     \<lparr>f_read = (\<lambda>c p q. Some (Inr (delay_read_packet c p q))),
      f_write = delay_write_packets,
      f_wait = (\<lambda>c q. let (ms, c') = delay_wait_time c q in Some (Inr (ms, q, c'))),
      f_pending = delay_pending_output,
      f_finished = (\<lambda>_. False)\<rparr>"

text \<open>
  Only packets whose release time has come are written, in order, and the loop stops at a
  packet that is not due.
\<close>

lemma delay_flush_ok:
  assumes "delay_flush c w f ps = Inr (ps', f', w', c')"
  obtains out where "ps = out @ ps'" "concat (sent f') = concat (sent f) @ concat (map snd out)"
    "\<forall>i < length out. fst (out ! i) \<le> c i"
    "ps' \<noteq> [] \<Longrightarrow> c (length out) < fst (hd ps')"
  using assms
proof (induction ps arbitrary: c w f thesis)
  case Nil
  then show ?case by simp
next
  case (Cons x ps)
  obtain release p where x: "x = (release, p)" by fastforce
  show ?case
  proof (cases "release \<le> c 0")
    case False
    with Cons.prems(2) x have "ps' = x # ps" "f' = f" by (simp_all add: timestamp_def)
    with False x show ?thesis by (intro Cons.prems(1) [of "[]"]) simp_all
  next
    case True
    with Cons.prems(2) x obtain f1 w1 where
      1: "fd_write w f p = Inr (f1, w1)" "delay_flush (\<lambda>n. c (Suc n)) w1 f1 ps = Inr (ps', f', w', c')"
      by (auto simp: timestamp_def bindR_eq_Inr)
    from 1(2) obtain out where
      o: "ps = out @ ps'" "concat (sent f') = concat (sent f1) @ concat (map snd out)"
      "\<forall>i < length out. fst (out ! i) \<le> c (Suc i)"
      "ps' \<noteq> [] \<Longrightarrow> c (Suc (length out)) < fst (hd ps')"
      by (rule Cons.IH [rotated]) blast
    have "\<forall>i < length (x # out). fst ((x # out) ! i) \<le> c i"
      using True x o(3) by (auto simp: nth_Cons split: nat.split)
    moreover have "concat (sent f1) = concat (sent f) @ p"
      using fd_write_sent [OF 1(1)] by simp
    ultimately show ?thesis
      using o x by (intro Cons.prems(1) [of "x # out"]) simp_all
  qed
qed

interpretation delay: ferry_queue delay_ops "\<lambda>q. map snd (delayed q)" "\<lambda>_. True" "\<lambda>_ _ _. True" "\<lambda>_ _. True"
proof unfold_locales
  fix c w f and s s' :: delay_queue and f' w' c'
  assume "f_write delay_ops c w f s = Inr (s', f', w', c')"
  then obtain ps where ps: "delay_flush c w f (delayed s) = Inr (ps, f', w', c')"
    "s' = s\<lparr>delayed := ps\<rparr>"
    by (auto simp: delay_ops_def delay_write_packets_def bindR_eq_Inr)
  from ps(1) obtain out where "delayed s = out @ ps"
    "concat (sent f') = concat (sent f) @ concat (map snd out)"
    by (rule delay_flush_ok)
  with ps(2) show "True \<and> (\<exists>out. map snd (delayed s) = out @ map snd (delayed s') \<and>
      concat (sent f') = concat (sent f) @ concat out)"
    by (auto intro: exI [of _ "map snd out"])
qed (auto simp: delay_ops_def delay_read_packet_def timestamp_def Let_def split: prod.splits)

section \<open>The loss queues\<close>

text \<open>
  The random engine is a state \<open>'g\<close>; \<open>bernoulli\<close> and \<open>exponential\<close> draw from the
  distributions of the standard library, and are parameters.
\<close>

record 'g loss_queue =
  loss_packets :: "string list"
  loss_prng :: 'g

text \<open>\<open>drop_packet\<close> is the virtual function: its verdict, and the queue after the draw.\<close>

definition loss_read_packet ::
  "(('g, 'a) loss_queue_scheme \<Rightarrow> bool \<times> ('g, 'a) loss_queue_scheme) \<Rightarrow> string \<Rightarrow>
   ('g, 'a) loss_queue_scheme \<Rightarrow> ('g, 'a) loss_queue_scheme" where
  "loss_read_packet drop_packet p q =
     (let (drops, q') = drop_packet q
      in if \<not> drops then q'\<lparr>loss_packets := loss_packets q' @ [p]\<rparr> else q')"

definition loss_write_packets ::
  "writes \<Rightarrow> file_descriptor \<Rightarrow> ('g, 'a) loss_queue_scheme \<Rightarrow>
   (('g, 'a) loss_queue_scheme \<times> file_descriptor \<times> writes) res" where
  "loss_write_packets w f q =
     bindR (write_queue w f (loss_packets q)) (\<lambda>(f', w'). Inr (q\<lparr>loss_packets := []\<rparr>, f', w'))"

definition loss_wait_time :: "('g, 'a) loss_queue_scheme \<Rightarrow> u32" where
  "loss_wait_time q = (if loss_packets q = [] then uint16_max else 0)"

definition loss_pending_output :: "('g, 'a) loss_queue_scheme \<Rightarrow> bool" where
  "loss_pending_output q \<longleftrightarrow> loss_packets q \<noteq> []"

definition iid_drop_packet ::
  "('g \<Rightarrow> bool \<times> 'g) \<Rightarrow> 'g loss_queue \<Rightarrow> bool \<times> 'g loss_queue" where
  "iid_drop_packet bernoulli q =
     (let (drops, g) = bernoulli (loss_prng q) in (drops, q\<lparr>loss_prng := g\<rparr>))"

definition iid_ops :: "('g \<Rightarrow> bool \<times> 'g) \<Rightarrow> 'g loss_queue ferry_ops" where
  "iid_ops bernoulli =
     \<lparr>f_read = (\<lambda>c p q. Some (Inr (loss_read_packet (iid_drop_packet bernoulli) p q, c))),
      f_write = (\<lambda>c w f q. bindR (loss_write_packets w f q) (\<lambda>(q', f', w'). Inr (q', f', w', c))),
      f_wait = (\<lambda>c q. Some (Inr (loss_wait_time q, q, c))),
      f_pending = (\<lambda>_. loss_pending_output),
      f_finished = (\<lambda>_. False)\<rparr>"

subsection \<open>The switching link\<close>

text \<open>
  The rates in 1/ms of the two exponential distributions.  The constructor divides whatever the mean time: a
  mean time of 0 gives an infinite rate, and one that overflows when it is converted to milliseconds the rate 0, which the
  standard does not allow for the distribution (lemma \<open>always_on_rate\<close>).  What the distribution draws for any rate,
  and the state of the engine afterwards, is the parameter \<open>exponential\<close>.
\<close>

record 'g switching_link = "'g loss_queue" +
  link_is_on :: bool
  on_rate :: double
  off_rate :: double
  next_switch_time :: u64

definition rate_of_mean :: "double \<Rightarrow> double" where
  "rate_of_mean mean = reciprocal (scaled 1000 mean)"

definition switching_new :: "'g \<Rightarrow> clock \<Rightarrow> double \<Rightarrow> double \<Rightarrow> 'g switching_link \<times> clock" where
  "switching_new seed c mean_on_time mean_off_time =
     (let (now, c') = timestamp c
      in (\<lparr>loss_packets = [], loss_prng = seed, link_is_on = False,
           on_rate = rate_of_mean mean_off_time, off_rate = rate_of_mean mean_on_time,
           next_switch_time = now\<rparr>, c'))"

text \<open>
  A duration is truncated to whole milliseconds and is at most \<open>2 ^ 30\<close>; a negative one and one that is not a
  number cannot be converted.
\<close>

definition bound :: "double \<Rightarrow> u64 res" where
  "bound x =
     (case x of
        Finite q \<Rightarrow>
          if 2 ^ 30 < q then Inr (2 ^ 30)
          else if q \<le> - 1 then Inl (Undefined_behaviour ''conversion of a negative double to uint64_t'')
          else Inr (word_of_int (if q < 0 then 0 else \<lfloor>q\<rfloor>))
      | Infinity True \<Rightarrow> Inr (2 ^ 30)
      | _ \<Rightarrow> Inl (Undefined_behaviour ''conversion of a double that is not finite to uint64_t''))"

definition switch_once ::
  "(double \<Rightarrow> 'g \<Rightarrow> double \<times> 'g) \<Rightarrow> 'g switching_link \<Rightarrow> 'g switching_link res" where
  "switch_once exponential q =
     (let on = (\<not> link_is_on q);
          (x, g) = exponential (if on then off_rate q else on_rate q) (loss_prng q)
      in bindR (bound x) (\<lambda>ms.
           Inr (q\<lparr>link_is_on := on, loss_prng := g, next_switch_time := next_switch_time q + ms\<rparr>)))"

partial_function (option) switch_until ::
  "(double \<Rightarrow> 'g \<Rightarrow> double \<times> 'g) \<Rightarrow> u64 \<Rightarrow> 'g switching_link \<Rightarrow> 'g switching_link res option" where
  "switch_until exponential now q =
     (if next_switch_time q \<le> now
      then (case switch_once exponential q of Inl e \<Rightarrow> Some (Inl e) | Inr q' \<Rightarrow> switch_until exponential now q')
      else Some (Inr q))"

definition switching_wait_time ::
  "(double \<Rightarrow> 'g \<Rightarrow> double \<times> 'g) \<Rightarrow> clock \<Rightarrow> 'g switching_link \<Rightarrow>
   (u32 \<times> 'g switching_link \<times> clock) res option" where
  "switching_wait_time exponential c q =
     (let (now, c') = timestamp c
      in map_option (\<lambda>r. bindR r (\<lambda>q'. Inr
           (if loss_wait_time q' = 0 then 0
            else if ucast uint16_max < next_switch_time q' - now then uint16_max
            else ucast (next_switch_time q' - now), q', c')))
         (switch_until exponential now q))"

definition switching_drop_packet :: "'g switching_link \<Rightarrow> bool \<times> 'g switching_link" where
  "switching_drop_packet q = (\<not> link_is_on q, q)"

definition switching_ops :: "(double \<Rightarrow> 'g \<Rightarrow> double \<times> 'g) \<Rightarrow> 'g switching_link ferry_ops" where
  "switching_ops exponential =
     \<lparr>f_read = (\<lambda>c p q. Some (Inr (loss_read_packet switching_drop_packet p q, c))),
      f_write = (\<lambda>c w f q. bindR (loss_write_packets w f q) (\<lambda>(q', f', w'). Inr (q', f', w', c))),
      f_wait = switching_wait_time exponential,
      f_pending = (\<lambda>_. loss_pending_output),
      f_finished = (\<lambda>_. False)\<rparr>"

lemma loss_write_law:
  assumes "loss_write_packets w f q = Inr (q', f', w')"
  shows "loss_packets q' = [] \<and> concat (sent f') = concat (sent f) @ concat (loss_packets q)"
  using assms by (auto simp: loss_write_packets_def bindR_eq_Inr dest: write_queue_sent)

text \<open>The rate of the direction that the program for outages leaves always on.\<close>

lemma always_on_rate:
  "off_rate (fst (switching_new seed c double_max (Finite 0))) = Finite 0"
  "on_rate (fst (switching_new seed c double_max (Finite 0))) = Infinity True"
proof -
  have "rate_of_mean double_max = Finite 0" "rate_of_mean (Finite 0) = Infinity True"
    unfolding rate_of_mean_def by (rule reciprocal_of_max, rule reciprocal_of_zero)
  then show "off_rate (fst (switching_new seed c double_max (Finite 0))) = Finite 0"
    "on_rate (fst (switching_new seed c double_max (Finite 0))) = Infinity True"
    by (simp_all add: switching_new_def timestamp_def)
qed

lemma switch_once_packets: "switch_once ex q = Inr q' \<Longrightarrow> loss_packets q' = loss_packets q"
  by (auto simp: switch_once_def Let_def res_simps split: prod.splits)

lemma switch_until_post:
  assumes "switch_until ex now q = Some r" "r = Inr q'"
  shows "loss_packets q' = loss_packets q \<and> now < next_switch_time q'"
proof -
  have "\<forall>q'. r = Inr q' \<longrightarrow> loss_packets q' = loss_packets q \<and> now < next_switch_time q'"
  proof (rule switch_until.raw_induct [OF _ assms(1),
        where P = "\<lambda>ex now q r. \<forall>q'. r = Inr q' \<longrightarrow> loss_packets q' = loss_packets q \<and> now < next_switch_time q'"])
    fix sw :: "(double \<Rightarrow> 'a \<Rightarrow> double \<times> 'a) \<Rightarrow> u64 \<Rightarrow> 'a switching_link \<Rightarrow> 'a switching_link res option"
      and ex now q r
    assume IH: "\<And>ex now q r. sw ex now q = Some r \<Longrightarrow>
        \<forall>q'. r = Inr q' \<longrightarrow> loss_packets q' = loss_packets q \<and> now < next_switch_time q'"
      and r: "(if next_switch_time q \<le> now
            then (case switch_once ex q of Inl e \<Rightarrow> Some (Inl e) | Inr q' \<Rightarrow> sw ex now q')
            else Some (Inr q)) = Some r"
    show "\<forall>q'. r = Inr q' \<longrightarrow> loss_packets q' = loss_packets q \<and> now < next_switch_time q'"
    proof (cases "next_switch_time q \<le> now")
      case True
      show ?thesis
      proof (cases "switch_once ex q")
        case (Inr q1)
        with True r have "sw ex now q1 = Some r" by simp
        note * = IH [OF this]
        show ?thesis
        proof (intro allI impI)
          fix q' assume "r = Inr q'"
          with * have "loss_packets q' = loss_packets q1 \<and> now < next_switch_time q'" by blast
          with switch_once_packets [OF Inr] show "loss_packets q' = loss_packets q \<and> now < next_switch_time q'" by simp
        qed
      qed (use True r in auto)
    qed (use r in auto)
  qed
  with assms(2) show ?thesis by blast
qed

text \<open>The durations that successive switches draw: from the two distributions in turn.\<close>

fun draws :: "(double \<Rightarrow> 'g \<Rightarrow> double \<times> 'g) \<Rightarrow> double \<Rightarrow> double \<Rightarrow> 'g \<Rightarrow> nat \<Rightarrow> double" where
  "draws ex rate other g 0 = fst (ex rate g)"
| "draws ex rate other g (Suc n) = draws ex other rate (snd (ex rate g)) n"

definition switch_draws :: "(double \<Rightarrow> 'g \<Rightarrow> double \<times> 'g) \<Rightarrow> 'g switching_link \<Rightarrow> nat \<Rightarrow> double" where
  "switch_draws ex q =
     (if link_is_on q then draws ex (on_rate q) (off_rate q) (loss_prng q)
      else draws ex (off_rate q) (on_rate q) (loss_prng q))"

lemma bound_range:
  assumes "nonnegative x"
  shows "\<exists>ms. bound x = Inr ms \<and> unat ms \<le> 2 ^ 30 \<and> (at_least_one x \<longrightarrow> 1 \<le> unat ms)"
proof (cases x)
  case (Finite q)
  then have q: "0 \<le> q" using assms by simp
  show ?thesis
  proof (cases "2 ^ 30 < q")
    case False
    define y where "y = \<lfloor>q\<rfloor>"
    have y: "0 \<le> y" "y \<le> 2 ^ 30" "1 \<le> q \<longrightarrow> 1 \<le> y"
      using q False by (simp_all add: y_def le_floor_iff floor_le_iff)
    then have "unat (word_of_int y :: u64) = nat y"
      by (simp add: unat_eq_nat_uint uint_word_of_int)
    with y q False show ?thesis by (simp add: Finite bound_def y_def [symmetric] nat_le_iff le_nat_iff)
  qed (simp add: Finite bound_def)
qed (use assms in \<open>auto simp: bound_def\<close>)

lemma switch_once_draws:
  assumes "nonnegative (switch_draws ex q 0)"
  shows "\<exists>q' ms. switch_once ex q = Inr q' \<and> next_switch_time q' = next_switch_time q + ms \<and> unat ms \<le> 2 ^ 30 \<and>
    (at_least_one (switch_draws ex q 0) \<longrightarrow> 1 \<le> unat ms) \<and> (\<forall>n. switch_draws ex q' n = switch_draws ex q (Suc n))"
proof -
  obtain x g where x: "ex (if \<not> link_is_on q then off_rate q else on_rate q) (loss_prng q) = (x, g)" by fastforce
  then have xs: "fst (ex (if \<not> link_is_on q then off_rate q else on_rate q) (loss_prng q)) = x"
    "snd (ex (if \<not> link_is_on q then off_rate q else on_rate q) (loss_prng q)) = g" by simp_all
  then have d: "switch_draws ex q 0 = x" by (auto simp: switch_draws_def)
  from bound_range [of x] assms obtain ms where "bound x = Inr ms" "unat ms \<le> 2 ^ 30" "at_least_one x \<longrightarrow> 1 \<le> unat ms"
    by (auto simp: d)
  with x xs d show ?thesis
    by (cases "link_is_on q";
        intro exI [of _ "q\<lparr>link_is_on := \<not> link_is_on q, loss_prng := g, next_switch_time := next_switch_time q + ms\<rparr>"] exI [of _ ms];
        simp add: switch_once_def Let_def switch_draws_def)
qed

text \<open>
  The loop ends when no duration is negative, there is always one more of at least a millisecond
  to come, and the clock is not within \<open>2 ^ 30\<close> of its largest value.
\<close>

lemma switch_until_total:
  assumes "\<And>n. nonnegative (switch_draws ex q n)" "\<And>m. \<exists>n \<ge> m. at_least_one (switch_draws ex q n)"
    "unat now + 2 ^ 30 < 2 ^ 64"
  shows "\<exists>q'. switch_until ex now q = Some (Inr q')"
  using assms(1,2)
proof (induction "(unat now + 1 - unat (next_switch_time q), LEAST n. at_least_one (switch_draws ex q n))" arbitrary: q
    rule: wf_induct_rule [OF wf_lex_prod [OF wf_less_than wf_less_than]])
  case (1 q)
  show ?case
  proof (cases "next_switch_time q \<le> now")
    case True
    obtain q' ms where s: "switch_once ex q = Inr q'" "next_switch_time q' = next_switch_time q + ms" "unat ms \<le> 2 ^ 30"
      "at_least_one (switch_draws ex q 0) \<longrightarrow> 1 \<le> unat ms" "\<And>n. switch_draws ex q' n = switch_draws ex q (Suc n)"
      using switch_once_draws [OF "1.prems"(1)] by blast
    have le: "unat (next_switch_time q) \<le> unat now" using True by (simp add: word_le_nat_alt)
    have n: "unat (next_switch_time q') = unat (next_switch_time q) + unat ms"
      unfolding s(2) using s(3) le assms(3) by (simp add: unat_word_ariths)
    have "((unat now + 1 - unat (next_switch_time q'), LEAST n. at_least_one (switch_draws ex q' n)),
        (unat now + 1 - unat (next_switch_time q), LEAST n. at_least_one (switch_draws ex q n))) \<in> less_than <*lex*> less_than"
    proof (cases "unat ms = 0")
      case zero: True
      then have "\<not> at_least_one (switch_draws ex q 0)" using s(4) by simp
      moreover obtain n where "at_least_one (switch_draws ex q n)" using "1.prems"(2) by blast
      ultimately have "(LEAST n. at_least_one (switch_draws ex q n)) = Suc (LEAST n. at_least_one (switch_draws ex q (Suc n)))"
        by (intro Least_Suc)
      with n zero show ?thesis by (simp add: s(5))
    next
      case False
      with n le have "unat now + 1 - unat (next_switch_time q') < unat now + 1 - unat (next_switch_time q)" by linarith
      then show ?thesis by simp
    qed
    moreover have "\<exists>n \<ge> m. at_least_one (switch_draws ex q' n)" for m
    proof -
      obtain n where "Suc m \<le> n" "at_least_one (switch_draws ex q n)" using "1.prems"(2) by blast
      then show ?thesis by (cases n) (auto simp: s(5))
    qed
    ultimately have "\<exists>r. switch_until ex now q' = Some (Inr r)"
      using "1.prems"(1) by (intro "1.hyps") (simp_all add: s(5))
    with True s(1) show ?thesis by (simp add: switch_until.simps [of ex now q])
  qed (simp add: switch_until.simps [of ex now q])
qed

interpretation iid: ferry_queue "iid_ops bernoulli" loss_packets "\<lambda>_. True" "\<lambda>_ _ _. True" "\<lambda>_ _. True"
  for bernoulli
  by unfold_locales
    (auto simp: iid_ops_def loss_read_packet_def iid_drop_packet_def bindR_eq_Inr
      dest: loss_write_law split: prod.splits if_splits)

interpretation switching: ferry_queue "switching_ops exponential" loss_packets "\<lambda>_. True"
  "\<lambda>_ _ _. True" "\<lambda>_ _. True" for exponential
  by unfold_locales
    (auto simp: switching_ops_def loss_read_packet_def switching_drop_packet_def bindR_eq_Inr
      switching_wait_time_def timestamp_def dest: loss_write_law switch_until_post
      split: prod.splits if_splits)

section \<open>The meter queue\<close>

record meter_queue =
  meter_packets :: "string list"
  meter_graph :: "live_graph option"

definition meter_read_packet :: "clock \<Rightarrow> string \<Rightarrow> meter_queue \<Rightarrow> (meter_queue \<times> clock) res" where
  "meter_read_packet c p q =
     (let q1 = q\<lparr>meter_packets := meter_packets q @ [p]\<rparr>
      in case meter_graph q1 of
           None \<Rightarrow> Inr (q1, c)
         | Some g \<Rightarrow> bindR (add_value_now c 0 (of_nat (length p)) g) (\<lambda>(g', c').
             Inr (q1\<lparr>meter_graph := Some g'\<rparr>, c')))"

definition meter_write_packets ::
  "writes \<Rightarrow> file_descriptor \<Rightarrow> meter_queue \<Rightarrow> (meter_queue \<times> file_descriptor \<times> writes) res" where
  "meter_write_packets w f q =
     bindR (write_queue w f (meter_packets q)) (\<lambda>(f', w'). Inr (q\<lparr>meter_packets := []\<rparr>, f', w'))"

definition meter_wait_time :: "meter_queue \<Rightarrow> u32" where
  "meter_wait_time q = (if meter_packets q = [] then uint16_max else 0)"

definition meter_pending_output :: "meter_queue \<Rightarrow> bool" where
  "meter_pending_output q \<longleftrightarrow> meter_packets q \<noteq> []"

definition meter_ops :: "meter_queue ferry_ops" where
  "meter_ops =
     \<lparr>f_read = (\<lambda>c p q. Some (meter_read_packet c p q)),
      f_write = (\<lambda>c w f q. bindR (meter_write_packets w f q) (\<lambda>(q', f', w'). Inr (q', f', w', c))),
      f_wait = (\<lambda>c q. Some (Inr (meter_wait_time q, q, c))),
      f_pending = (\<lambda>_. meter_pending_output),
      f_finished = (\<lambda>_. False)\<rparr>"

lemma meter_write_law:
  assumes "meter_write_packets w f q = Inr (q', f', w')"
  shows "meter_packets q' = [] \<and> concat (sent f') = concat (sent f) @ concat (meter_packets q)"
  using assms by (auto simp: meter_write_packets_def bindR_eq_Inr dest: write_queue_sent)

interpretation meter_q: ferry_queue meter_ops meter_packets "\<lambda>_. True" "\<lambda>_ _ _. True" "\<lambda>_ _. True"
  by unfold_locales
    (auto simp: meter_ops_def meter_read_packet_def Let_def bindR_eq_Inr dest: meter_write_law
      split: option.splits)

end
