(* ===== verification/Link_Ferry.thy ===== *)
theory Link_Ferry
  imports Link_Queue Ferry_Queues
begin

text \<open>
  The emulated link as a ferry queue: a link over any reliable packet queue keeps the
  ferry's contract, so every discipline gives a ferry that preserves order.
\<close>

definition link_ferry :: "'q queue_ops \<Rightarrow> 'q link_queue ferry_ops" where
  "link_ferry ops =
     \<lparr>f_read = link_read_packet ops,
      f_write = (\<lambda>c w f l. bindR (link_write_packets w f l) (\<lambda>(l', f', w'). Inr (l', f', w', c))),
      f_wait = link_wait_time ops,
      f_pending = (\<lambda>_. link_pending_output),
      f_finished = finished\<rparr>"

text \<open>The clock is far enough from its largest value for one more pass over the trace.\<close>

definition link_awake :: "clock \<Rightarrow> 'q link_queue \<Rightarrow> bool" where
  "link_awake c l \<longleftrightarrow> unat (c 0) + unat (last (schedule l)) < 2 ^ 64"

definition link_fits ::
  "('q \<Rightarrow> queued_packet \<Rightarrow> bool) \<Rightarrow> clock \<Rightarrow> string \<Rightarrow> 'q link_queue \<Rightarrow> bool" where
  "link_fits room c p l \<longleftrightarrow> link_awake c l \<and> p \<noteq> [] \<and> length p \<le> packet_size \<and>
     room (packets l) \<lparr>arrival_time = c 0, contents = p\<rparr>"

definition link_valid :: "('q \<Rightarrow> queued_packet list) \<Rightarrow> ('q \<Rightarrow> bool) \<Rightarrow> 'q link_queue \<Rightarrow> bool" where
  "link_valid pkts ok l \<longleftrightarrow> (\<exists>b k. link_inv pkts ok (schedule l) b k l)"

lemma link_inv_valid: "link_inv pkts ok sched b k l \<Longrightarrow> link_valid pkts ok l \<and> schedule l = sched"
proof -
  assume l: "link_inv pkts ok sched b k l"
  then have "schedule l = sched" by (simp add: link_inv_def at_opportunity_def)
  with l show ?thesis unfolding link_valid_def by blast
qed

lemma link_write_law:
  assumes "link_valid pkts ok l" "link_write_packets w f l = Inr (l', f', w')"
  shows "link_valid pkts ok l' \<and> flow pkts l = output_queue l @ flow pkts l' \<and>
    concat (sent f') = concat (sent f) @ concat (output_queue l)"
proof -
  have l': "write_queue w f (output_queue l) = Inr (f', w')" "l' = l\<lparr>output_queue := []\<rparr>"
    using assms(2) by (auto simp: link_write_packets_def bindR_eq_Inr)
  have "link_inv pkts ok sched b k (l\<lparr>output_queue := []\<rparr>) = link_inv pkts ok sched b k l" for sched b k
    by (simp add: link_inv_def at_opportunity_def next_delivery_time_def link_ok_def transit_ok_def
        quiet_def)
  with assms(1) l' write_queue_sent [OF l'(1)] show ?thesis
    by (simp add: link_valid_def flow_def in_transit_def)
qed

sublocale reliable_packet_queue \<subseteq> ferry: ferry_queue "link_ferry ops" "flow pkts"
  "link_valid pkts inv" "link_fits room" link_awake
proof unfold_locales
  fix l l' :: "'a link_queue" and c p c'
  assume l: "link_valid pkts inv l" "link_fits room c p l"
    and r: "f_read (link_ferry ops) c p l = Some (Inr (l', c'))"
  from l(1) obtain b k where i: "link_inv pkts inv (schedule l) b k l" by (auto simp: link_valid_def)
  from l(2) obtain l1 c1 k1 where "link_read_packet ops c p l = Some (Inr (l1, c1))"
    "link_inv pkts inv (schedule l) b k1 l1" "subseq (flow pkts l1) (flow pkts l @ [p])"
    using link_read_packet_inv [OF i, of c p] unfolding link_fits_def link_awake_def by blast
  moreover from this(1) r have "l1 = l'" by (simp add: link_ferry_def)
  ultimately show "link_valid pkts inv l' \<and> subseq (flow pkts l') (flow pkts l @ [p])"
    using link_inv_valid by blast
next
  fix l l' :: "'a link_queue" and c w f f' w' c'
  assume l: "link_valid pkts inv l" and "f_write (link_ferry ops) c w f l = Inr (l', f', w', c')"
  then have "link_write_packets w f l = Inr (l', f', w')"
    by (auto simp: link_ferry_def bindR_eq_Inr)
  from link_write_law [OF l this] show "link_valid pkts inv l' \<and> (\<exists>out. flow pkts l = out @ flow pkts l' \<and>
      concat (sent f') = concat (sent f) @ concat out)"
    by blast
next
  fix l l' :: "'a link_queue" and c ms c'
  assume l: "link_valid pkts inv l" "link_awake c l"
    and r: "f_wait (link_ferry ops) c l = Some (Inr (ms, l', c'))"
  from l(1) obtain b k where i: "link_inv pkts inv (schedule l) b k l" by (auto simp: link_valid_def)
  from link_wait_time_inv [OF i, of c] l(2) obtain w1 l1 c1 k1 where
    "link_wait_time ops c l = Some (Inr (w1, l1, c1))" "link_inv pkts inv (schedule l) b k1 l1"
    "progress ops pkts inv (k1 - k) l l1"
    unfolding link_awake_def by blast
  moreover from this(1) r have "l1 = l'" by (simp add: link_ferry_def)
  ultimately show "link_valid pkts inv l' \<and> subseq (flow pkts l') (flow pkts l)"
    using link_inv_valid unfolding progress_def by blast
qed

section \<open>Nothing stops the link but a failing write\<close>

definition write_error :: "exn \<Rightarrow> bool" where
  "write_error e \<longleftrightarrow>
     e \<in> {Runtime_error ''nothing to write'', Unix_error ''write'', Runtime_error ''write returned 0''}"

lemma fd_write_error: "fd_write w f buf = Inl e \<Longrightarrow> write_error e"
proof (induction w f buf rule: fd_write.induct)
  case (1 w f buf)
  show ?case
  proof (cases "fd_write_some w f buf")
    case (Inl e')
    with "1.prems" have "e' = e" by (simp add: fd_write.simps [of w f buf])
    with Inl show ?thesis by (auto simp: fd_write_some_def Let_def write_error_def split: if_splits)
  next
    case (Inr r)
    obtain k f' w' where r: "r = (k, f', w')" by (cases r) auto
    show ?thesis
    proof (cases "k = length buf")
      case True
      with Inr r "1.prems" show ?thesis by (simp add: fd_write.simps [of w f buf])
    next
      case False
      with Inr r "1.prems" have "fd_write w' f' (drop k buf) = Inl e"
        by (simp add: fd_write.simps [of w f buf])
      with "1.IH" [OF Inr, of k "(f', w')" f' w'] r False show ?thesis by simp
    qed
  qed
qed

lemma write_queue_error: "write_queue w f ps = Inl e \<Longrightarrow> write_error e"
  by (induction w f ps rule: write_queue.induct) (auto simp: res_simps dest: fd_write_error)

context reliable_packet_queue
begin

lemma link_step_total:
  assumes "link_valid pkts inv l" "event_fits (link_fits room) link_awake ev (l, f, w, c)"
  shows "\<exists>r. ferry_step (link_ferry ops) ev (l, f, w, c) = Some r \<and> (\<forall>e. r = Inl e \<longrightarrow> write_error e)"
proof -
  from assms(1) obtain b k where i: "link_inv pkts inv (schedule l) b k l" by (auto simp: link_valid_def)
  show ?thesis
  proof (cases ev)
    case Wait_time
    with assms(2) have "unat (c 0) + unat (last (schedule l)) < 2 ^ 64"
      by (simp add: event_fits_def link_awake_def)
    from link_wait_time_inv [OF i, of c, OF this] obtain ms l' c' where "link_wait_time ops c l = Some (Inr (ms, l', c'))"
      by blast
    with Wait_time show ?thesis by (simp add: ferry_step_def link_ferry_def)
  next
    case (Datagram p)
    with assms(2) have "unat (c 0) + unat (last (schedule l)) < 2 ^ 64" "p \<noteq> []" "length p \<le> packet_size"
      "room (packets l) \<lparr>arrival_time = c 0, contents = p\<rparr>"
      by (simp_all add: event_fits_def link_fits_def link_awake_def)
    from link_read_packet_inv [OF i, of c p, OF this] obtain l' c' where "link_read_packet ops c p l = Some (Inr (l', c'))"
      by blast
    with Datagram show ?thesis by (simp add: ferry_step_def link_ferry_def)
  next
    case Writable
    show ?thesis
    proof (cases "link_pending_output l")
      case True
      with Writable show ?thesis
        by (auto simp: ferry_step_def link_ferry_def link_write_packets_def res_simps dest: write_queue_error)
    next
      case False
      with Writable show ?thesis by (simp add: ferry_step_def link_ferry_def)
    qed
  qed
qed

lemma link_run_total:
  assumes "link_valid pkts inv l" "run_fits (link_ferry ops) (link_fits room) link_awake evs (l, f, w, c)"
  shows "\<exists>r. ferry_run (link_ferry ops) evs (l, f, w, c) = Some r \<and> (\<forall>e. r = Inl e \<longrightarrow> write_error e)"
  using assms
proof (induction evs arbitrary: l f w c)
  case (Cons ev evs)
  have fit: "event_fits (link_fits room) link_awake ev (l, f, w, c)" using Cons.prems(2) by simp
  from link_step_total [OF Cons.prems(1) fit] obtain r where
    r: "ferry_step (link_ferry ops) ev (l, f, w, c) = Some r" "\<forall>e. r = Inl e \<longrightarrow> write_error e" by blast
  show ?case
  proof (cases r)
    case (Inl e)
    with r show ?thesis by simp
  next
    case (Inr st)
    obtain l1 f1 w1 c1 where st: "st = (l1, f1, w1, c1)" by (cases st) auto
    have "link_valid pkts inv l1" using ferry.ferry_step_ok [OF Cons.prems(1) fit, of l1 f1 w1 c1] r(1) Inr st by simp
    moreover have "run_fits (link_ferry ops) (link_fits room) link_awake evs (l1, f1, w1, c1)"
      using Cons.prems(2) r(1) Inr st by simp
    ultimately show ?thesis using Cons.IH r(1) Inr st by simp
  qed
qed simp

end

end
