(* ===== verification/Infinite_Queue.thy ===== *)
theory Infinite_Queue
  imports Link_Ferry
begin

text \<open>
  \<open>src/packet/infinite_packet_queue.hh\<close>: the queue without limits, the first provider of the
  packet-queue contract.
\<close>

section \<open>The infinite queue\<close>

definition infinite_new :: "string \<Rightarrow> fifo_state res" where
  "infinite_new args =
     (if args \<noteq> [] then Inl (Runtime_error ''InfinitePacketQueue does not take arguments.'')
      else Inr \<lparr>queue_size_in_bytes = 0, queue_size_in_packets = 0, internal_queue = []\<rparr>)"

definition infinite_enqueue :: "fifo_state \<Rightarrow> queued_packet \<Rightarrow> fifo_state" where
  "infinite_enqueue q p = fifo_push q p"

definition infinite_dequeue :: "fifo_state \<Rightarrow> (queued_packet \<times> fifo_state) res" where
  "infinite_dequeue q = fifo_pop q"

definition infinite_ops :: "fifo_state queue_ops" where
  "infinite_ops =
     \<lparr>q_enqueue = (\<lambda>c q p. Inr (infinite_enqueue q p, c)),
      q_dequeue = (\<lambda>c q. bindR (infinite_dequeue q) (\<lambda>(p, q'). Inr (p, q', c))),
      q_empty = queue_empty,
      q_to_string = (\<lambda>_. ''infinite''),
      q_size_bytes = size_bytes,
      q_size_packets = size_packets\<rparr>"

interpretation infinite: reliable_packet_queue infinite_ops internal_queue counters_ok fifo_room
proof unfold_locales
  fix q :: fifo_state and p rest c
  assume "counters_ok q" "internal_queue q = p # rest"
  then obtain q' where "fifo_pop q = Inr (p, q')" "counters_ok q'" "internal_queue q' = rest"
    by (rule counters_pop)
  moreover have "subseq rest (internal_queue q)"
    using \<open>internal_queue q = p # rest\<close> by (simp add: subseq_tail)
  ultimately show "\<exists>q' c'. q_dequeue infinite_ops c q = Inr (p, q', c') \<and> counters_ok q' \<and>
      subseq (internal_queue q') rest \<and> (\<forall>x. fifo_room q x \<longrightarrow> fifo_room q' x)"
    by (auto simp: infinite_ops_def infinite_dequeue_def intro: subseq_countable_app)
qed (auto simp: infinite_ops_def infinite_enqueue_def queue_empty_def counters_countable
    counters_size_bytes counters_size_packets counters_push)

lemma infinite_new_ok: "infinite_new args = Inr q \<Longrightarrow> counters_ok q \<and> internal_queue q = []"
  by (auto simp: infinite_new_def counters_ok_def countable_def split: if_splits)

end
