(* ===== verification/Dropping_Queue.thy ===== *)
theory Dropping_Queue
  imports Link_Ferry
begin

text \<open>
  \<open>src/packet/dropping_packet_queue.cc\<close>, \<open>drop_tail_packet_queue.hh\<close> and
  \<open>drop_head_packet_queue.hh\<close>: queues with a byte or a packet limit.  The record extends
  \<open>fifo_state\<close> as the class adds its two limits, so CoDel and PIE inherit every operation
  on \<open>'a dropping_queue_scheme\<close>.
\<close>

record dropping_queue = fifo_state +
  packet_limit :: u32
  byte_limit :: u32

section \<open>Parsing the arguments\<close>

text \<open>
  \<open>get_arg\<close>: the number after the first occurrence of \<open>name=\<close>; 0 when the name does not
  occur.  The \<open>long\<close> from \<open>myatoi\<close> is converted to \<open>unsigned int\<close>.
\<close>

definition get_arg :: "string \<Rightarrow> string \<Rightarrow> u32 res" where
  "get_arg args name =
     (case str_find args name of
        None \<Rightarrow> Inr 0
      | Some pos \<Rightarrow>
          let offset = pos + length name
          in bindR (substr args offset 1) (\<lambda>next_char.
             if next_char \<noteq> ''='' then Inl (Runtime_error (''could not parse queue arguments: '' @ args))
             else bindR (substr_from args (offset + 1)) (\<lambda>tail.
               let digit_string = (case find_first_not_of tail decimal_digits of
                                     None \<Rightarrow> tail | Some offset2 \<Rightarrow> take offset2 tail)
               in if digit_string = []
                  then Inl (Runtime_error (''could not parse queue arguments: '' @ args))
                  else bindR (myatoi digit_string 10) (\<lambda>v. Inr (word_of_int v)))))"

definition dropping_new :: "string \<Rightarrow> dropping_queue res" where
  "dropping_new args =
     bindR (get_arg args ''packets'') (\<lambda>pl.
     bindR (get_arg args ''bytes'') (\<lambda>bl.
       if pl = 0 \<and> bl = 0
       then Inl (Runtime_error ''Dropping queue must have a byte or packet limit.'')
       else Inr \<lparr>queue_size_in_bytes = 0, queue_size_in_packets = 0, internal_queue = [],
                 packet_limit = pl, byte_limit = bl\<rparr>))"

definition dropping_to_string :: "string \<Rightarrow> 'a dropping_queue_scheme \<Rightarrow> string" where
  "dropping_to_string type q =
     type @ '' ['' @
     (if byte_limit q \<noteq> 0 then ''bytes='' @ dec (unat (byte_limit q)) else []) @
     (if packet_limit q \<noteq> 0
      then (if byte_limit q \<noteq> 0 then '', '' else []) @ ''packets='' @ dec (unat (packet_limit q))
      else []) @
     '']''"

section \<open>The operations of the base class\<close>

definition good_with :: "'a dropping_queue_scheme \<Rightarrow> u32 \<Rightarrow> u32 \<Rightarrow> bool" where
  "good_with q size_in_bytes size_in_packets \<longleftrightarrow>
     (if byte_limit q \<noteq> 0 then size_in_bytes \<le> byte_limit q else True) \<and>
     (if packet_limit q \<noteq> 0 then size_in_packets \<le> packet_limit q else True)"

definition good :: "'a dropping_queue_scheme \<Rightarrow> bool res" where
  "good q = bindR (size_bytes q) (\<lambda>b. bindR (size_packets q) (\<lambda>n. Inr (good_with q b n)))"

definition accept :: "'a dropping_queue_scheme \<Rightarrow> queued_packet \<Rightarrow> 'a dropping_queue_scheme" where
  "accept q p = fifo_push q p"

definition dropping_dequeue ::
  "'a dropping_queue_scheme \<Rightarrow> (queued_packet \<times> 'a dropping_queue_scheme) res" where
  "dropping_dequeue q =
     bindR (fifo_pop q) (\<lambda>(ret, q').
     bindR (good q') (\<lambda>g. assertR g (Inr (ret, q'))))"

text \<open>
  The check and the \<open>accept\<close> that drop-tail, CoDel and PIE share: the sum of sizes is
  converted to \<open>unsigned int\<close> when it is passed to \<open>good_with\<close>.
\<close>

definition room_for :: "'a dropping_queue_scheme \<Rightarrow> queued_packet \<Rightarrow> bool res" where
  "room_for q p =
     bindR (size_bytes q) (\<lambda>b. bindR (size_packets q) (\<lambda>n.
       Inr (good_with q (b + of_nat (length (contents p))) (n + 1))))"

section \<open>Drop tail\<close>

definition drop_tail_enqueue ::
  "'a dropping_queue_scheme \<Rightarrow> queued_packet \<Rightarrow> 'a dropping_queue_scheme res" where
  "drop_tail_enqueue q p =
     bindR (room_for q p) (\<lambda>room.
       let q' = (if room then accept q p else q)
       in bindR (good q') (\<lambda>g. assertR g (Inr q')))"

section \<open>Drop head\<close>

function drop_until_good :: "'a dropping_queue_scheme \<Rightarrow> 'a dropping_queue_scheme res" where
  "drop_until_good q =
     bindR (good q) (\<lambda>g.
       if g then Inr q
       else bindR (dropping_dequeue q) (\<lambda>(_, q'). drop_until_good q'))"
  by pat_completeness auto
termination
  by (relation "measure (\<lambda>q. length (internal_queue q))")
    (auto simp: dropping_dequeue_def res_simps dest: fifo_pop_length)

declare drop_until_good.simps [simp del]

definition drop_head_enqueue ::
  "'a dropping_queue_scheme \<Rightarrow> queued_packet \<Rightarrow> 'a dropping_queue_scheme res" where
  "drop_head_enqueue q p = drop_until_good (accept q p)"

definition drop_tail_ops :: "dropping_queue queue_ops" where
  "drop_tail_ops =
     \<lparr>q_enqueue = (\<lambda>c q p. bindR (drop_tail_enqueue q p) (\<lambda>q'. Inr (q', c))),
      q_dequeue = (\<lambda>c q. bindR (dropping_dequeue q) (\<lambda>(p, q'). Inr (p, q', c))),
      q_empty = queue_empty,
      q_to_string = dropping_to_string ''droptail'',
      q_size_bytes = size_bytes,
      q_size_packets = size_packets\<rparr>"

definition drop_head_ops :: "dropping_queue queue_ops" where
  "drop_head_ops =
     \<lparr>q_enqueue = (\<lambda>c q p. bindR (drop_head_enqueue q p) (\<lambda>q'. Inr (q', c))),
      q_dequeue = (\<lambda>c q. bindR (dropping_dequeue q) (\<lambda>(p, q'). Inr (p, q', c))),
      q_empty = queue_empty,
      q_to_string = dropping_to_string ''drophead'',
      q_size_bytes = size_bytes,
      q_size_packets = size_packets\<rparr>"

section \<open>The invariant\<close>

text \<open>The limits, on the packets rather than on the counters.\<close>

definition within_limits :: "'a dropping_queue_scheme \<Rightarrow> queued_packet list \<Rightarrow> bool" where
  "within_limits q ps \<longleftrightarrow>
     (byte_limit q \<noteq> 0 \<longrightarrow> total_bytes ps \<le> unat (byte_limit q)) \<and>
     (packet_limit q \<noteq> 0 \<longrightarrow> length ps \<le> unat (packet_limit q))"

definition dropping_inv :: "'a dropping_queue_scheme \<Rightarrow> bool" where
  "dropping_inv q \<longleftrightarrow> counters_ok q \<and> within_limits q (internal_queue q)"

lemma within_limits_subseq: "subseq ps qs \<Longrightarrow> within_limits q qs \<Longrightarrow> within_limits q ps"
  using subseq_total_bytes [of ps qs] list_emb_length [of "(=)" ps qs]
  by (auto simp: within_limits_def)

lemma good_with_limits:
  assumes "countable ps"
  shows "good_with q (of_nat (total_bytes ps)) (of_nat (length ps)) \<longleftrightarrow> within_limits q ps"
proof -
  have "total_bytes ps < 2 ^ 32" "length ps < 2 ^ 32"
    using assms by (simp_all add: countable_def)
  then show ?thesis
    by (simp add: good_with_def within_limits_def word_le_nat_alt unat_of_nat_small)
qed

lemma good_eq: "counters_ok q \<Longrightarrow> good q = Inr (within_limits q (internal_queue q))"
  by (simp add: good_def counters_size_bytes counters_size_packets good_with_limits
      counters_countable)

lemma room_for_eq:
  assumes "counters_ok q" "countable (internal_queue q @ [p])"
  shows "room_for q p = Inr (within_limits q (internal_queue q @ [p]))"
proof -
  have "good_with q (of_nat (total_bytes (internal_queue q @ [p])))
    (of_nat (length (internal_queue q @ [p]))) = within_limits q (internal_queue q @ [p])"
    using assms(2) by (rule good_with_limits)
  then show ?thesis
    by (simp add: room_for_def counters_size_bytes [OF assms(1)] counters_size_packets [OF assms(1)]
        pkt_bytes_def add.commute)
qed

lemma push_limits [simp]:
  "byte_limit (accept q p) = byte_limit q"
  "packet_limit (accept q p) = packet_limit q"
  "internal_queue (accept q p) = internal_queue q @ [p]"
  by (simp_all add: accept_def fifo_push_def)

lemma within_limits_cong:
  "byte_limit q' = byte_limit q \<Longrightarrow> packet_limit q' = packet_limit q \<Longrightarrow>
   within_limits q' = within_limits q"
  by (simp add: within_limits_def fun_eq_iff)

lemma within_limits_accept [simp]: "within_limits (accept q p) = within_limits q"
  by (rule within_limits_cong) simp_all

lemma more_limits:
  assumes "fifo_state.more q' = fifo_state.more q"
  shows "byte_limit q' = byte_limit q" "packet_limit q' = packet_limit q"
    "dropping_queue.more q' = dropping_queue.more q"
  using assms by (cases q; cases q'; simp)+

text \<open>Taking a packet: with exact counters, the only failure is the limit check.\<close>

lemma dropping_dequeue_eq:
  assumes "counters_ok q" "internal_queue q = p # rest"
  obtains q' where "counters_ok q'" "internal_queue q' = rest"
    "fifo_state.more q' = fifo_state.more q" "within_limits q' = within_limits q"
    "dropping_dequeue q = (if within_limits q rest then Inr (p, q') else Inl Assert_failed)"
proof -
  from assms obtain q' where q': "fifo_pop q = Inr (p, q')" "counters_ok q'"
    "internal_queue q' = rest" "fifo_state.more q' = fifo_state.more q"
    by (rule counters_pop)
  have "within_limits q' = within_limits q"
    using more_limits [OF q'(4)] by (intro within_limits_cong)
  with q' show ?thesis
    by (intro that [of q']) (simp_all add: dropping_dequeue_def good_eq assertR_def)
qed

lemma dropping_dequeue_inv:
  assumes "dropping_inv q" "internal_queue q = p # rest"
  obtains q' where "dropping_dequeue q = Inr (p, q')" "dropping_inv q'"
    "internal_queue q' = rest" "fifo_state.more q' = fifo_state.more q"
proof -
  have q: "counters_ok q" "within_limits q rest"
    using assms within_limits_subseq [of rest "p # rest" q] by (auto simp: dropping_inv_def)
  from q(1) assms(2) obtain q' where "counters_ok q'" "internal_queue q' = rest"
    "fifo_state.more q' = fifo_state.more q" "within_limits q' = within_limits q"
    "dropping_dequeue q = (if within_limits q rest then Inr (p, q') else Inl Assert_failed)"
    by (rule dropping_dequeue_eq)
  with q show ?thesis by (intro that [of q']) (simp_all add: dropping_inv_def)
qed

lemma dropping_dequeue_length:
  "dropping_dequeue q = Inr (p, q') \<Longrightarrow> internal_queue q = p # internal_queue q'"
  by (auto simp: dropping_dequeue_def res_simps dest: fifo_pop_length)

lemma dropping_dequeue_empty: "internal_queue q = [] \<Longrightarrow> dropping_dequeue q = Inl Assert_failed"
  by (simp add: dropping_dequeue_def fifo_pop_def)

lemma dropping_new_inv: "dropping_new args = Inr q \<Longrightarrow> dropping_inv q \<and> internal_queue q = []"
  by (auto simp: dropping_new_def res_simps dropping_inv_def counters_ok_def within_limits_def
      countable_def split: if_splits)

section \<open>Drop tail\<close>

text \<open>The packet is kept exactly when the limits allow it, and nothing else changes.\<close>

lemma drop_tail_enqueue_eq:
  assumes "dropping_inv q" "countable (internal_queue q @ [p])"
  shows "drop_tail_enqueue q p =
    Inr (if within_limits q (internal_queue q @ [p]) then accept q p else q)"
proof -
  have q: "counters_ok q" "within_limits q (internal_queue q)"
    using assms(1) by (simp_all add: dropping_inv_def)
  have "counters_ok (accept q p)"
    using q(1) assms(2) by (simp add: accept_def counters_push)
  with q show ?thesis
    by (simp add: drop_tail_enqueue_def room_for_eq [OF q(1) assms(2)] good_eq)
qed

lemma accept_inv:
  "dropping_inv q \<Longrightarrow> countable (internal_queue q @ [p]) \<Longrightarrow>
   within_limits q (internal_queue q @ [p]) \<Longrightarrow> dropping_inv (accept q p)"
  by (simp add: dropping_inv_def accept_def counters_push)
    (simp add: within_limits_accept [unfolded accept_def])

lemma drop_tail_enqueue_inv:
  assumes "dropping_inv q" "countable (internal_queue q @ [p])" "drop_tail_enqueue q p = Inr q'"
  shows "dropping_inv q' \<and> subseq (internal_queue q') (internal_queue q @ [p])"
  using assms by (auto simp: drop_tail_enqueue_eq accept_inv split: if_splits)

lemma dropping_dequeue_law:
  assumes "dropping_inv q" "internal_queue q = p # rest"
  shows "\<exists>q'. dropping_dequeue q = Inr (p, q') \<and> dropping_inv q' \<and>
    subseq (internal_queue q') rest \<and> (\<forall>x. fifo_room q x \<longrightarrow> fifo_room q' x)"
proof -
  from assms obtain q' where "dropping_dequeue q = Inr (p, q')" "dropping_inv q'"
    "internal_queue q' = rest"
    by (rule dropping_dequeue_inv)
  with assms(2) subseq_tail [of rest p] show ?thesis
    by (auto intro: subseq_countable_app)
qed

lemma dropping_laws:
  assumes "dropping_inv q"
  shows "countable (internal_queue q)"
    and "queue_empty q \<longleftrightarrow> internal_queue q = []"
    and "size_bytes q = Inr (of_nat (total_bytes (internal_queue q)))"
    and "size_packets q = Inr (of_nat (length (internal_queue q)))"
  using assms
  by (simp_all add: dropping_inv_def counters_countable counters_size_bytes counters_size_packets
      queue_empty_def)

interpretation drop_tail: reliable_packet_queue drop_tail_ops internal_queue dropping_inv fifo_room
proof unfold_locales
  fix q q' :: dropping_queue and p c c'
  assume "dropping_inv q" "countable (internal_queue q @ [p])"
    "q_enqueue drop_tail_ops c q p = Inr (q', c')"
  then show "dropping_inv q' \<and> subseq (internal_queue q') (internal_queue q @ [p])"
    using drop_tail_enqueue_inv [of q p q'] by (auto simp: drop_tail_ops_def res_simps)
qed (auto simp: drop_tail_ops_def dropping_laws res_simps drop_tail_enqueue_eq
    dest: dropping_dequeue_law)

section \<open>Drop head\<close>

text \<open>
  The loop of \<open>DropHeadPacketQueue::enqueue\<close> calls \<open>dequeue\<close>, which itself asserts that the
  limits hold after one packet has gone.  So the loop never runs twice: either dropping
  the head is enough, or the process aborts.
\<close>

lemma drop_until_good_limits:
  "counters_ok q \<Longrightarrow> within_limits q (internal_queue q) \<Longrightarrow> drop_until_good q = Inr q"
  by (subst drop_until_good.simps) (simp add: good_eq)

lemma drop_until_good_eq:
  assumes "counters_ok q" "\<not> within_limits q (internal_queue q)"
  shows "if within_limits q (tl (internal_queue q))
    then \<exists>q'. drop_until_good q = Inr q' \<and> internal_queue q' = tl (internal_queue q) \<and>
      dropping_inv q' \<and> fifo_state.more q' = fifo_state.more q
    else drop_until_good q = Inl Assert_failed"
proof -
  obtain p rest where p: "internal_queue q = p # rest"
    using assms(2) by (cases "internal_queue q") (auto simp: within_limits_def)
  from assms(1) p obtain q' where q': "counters_ok q'" "internal_queue q' = rest"
    "fifo_state.more q' = fifo_state.more q" "within_limits q' = within_limits q"
    "dropping_dequeue q = (if within_limits q rest then Inr (p, q') else Inl Assert_failed)"
    by (rule dropping_dequeue_eq)
  have step: "drop_until_good q = bindR (dropping_dequeue q) (\<lambda>(_, q'). drop_until_good q')"
    using assms by (subst drop_until_good.simps) (simp add: good_eq)
  show ?thesis
  proof (cases "within_limits q rest")
    case True
    with q' have "drop_until_good q' = Inr q'" by (intro drop_until_good_limits) simp_all
    with True q' p step show ?thesis by (auto simp: dropping_inv_def)
  next
    case False
    with q'(5) p step show ?thesis by simp
  qed
qed

lemma counters_accept:
  "dropping_inv q \<Longrightarrow> countable (internal_queue q @ [p]) \<Longrightarrow> counters_ok (accept q p)"
  by (simp add: dropping_inv_def accept_def counters_push)

lemma drop_head_accepts:
  "dropping_inv q \<Longrightarrow> countable (internal_queue q @ [p]) \<Longrightarrow>
   within_limits q (internal_queue q @ [p]) \<Longrightarrow> drop_head_enqueue q p = Inr (accept q p)"
  by (simp add: drop_head_enqueue_def drop_until_good_limits counters_accept)

lemma drop_head_drops_one:
  assumes "dropping_inv q" "countable (internal_queue q @ [p])"
    "\<not> within_limits q (internal_queue q @ [p])"
    "within_limits q (tl (internal_queue q @ [p]))"
  obtains q' where "drop_head_enqueue q p = Inr q'" "dropping_inv q'"
    "internal_queue q' = tl (internal_queue q @ [p])"
  using drop_until_good_eq [OF counters_accept [OF assms(1,2)]] assms(3,4)
  by (auto simp: drop_head_enqueue_def)

lemma drop_head_aborts:
  assumes "dropping_inv q" "countable (internal_queue q @ [p])"
    "\<not> within_limits q (internal_queue q @ [p])"
    "\<not> within_limits q (tl (internal_queue q @ [p]))"
  shows "drop_head_enqueue q p = Inl Assert_failed"
  using drop_until_good_eq [OF counters_accept [OF assms(1,2)]] assms(3,4)
  by (simp add: drop_head_enqueue_def)

lemma drop_head_enqueue_inv:
  assumes "dropping_inv q" "countable (internal_queue q @ [p])" "drop_head_enqueue q p = Inr q'"
  shows "dropping_inv q' \<and> subseq (internal_queue q') (internal_queue q @ [p])"
proof -
  consider "within_limits q (internal_queue q @ [p])"
    | "\<not> within_limits q (internal_queue q @ [p])" "within_limits q (tl (internal_queue q @ [p]))"
    | "\<not> within_limits q (internal_queue q @ [p])" "\<not> within_limits q (tl (internal_queue q @ [p]))"
    by blast
  then show ?thesis
  proof cases
    case 1
    with assms have "q' = accept q p" by (simp add: drop_head_accepts)
    with 1 assms show ?thesis by (simp add: accept_inv)
  next
    case 2
    have "subseq (tl (internal_queue q @ [p])) (internal_queue q @ [p])"
      by (cases "internal_queue q") auto
    moreover obtain q1 where "drop_head_enqueue q p = Inr q1" "dropping_inv q1"
      "internal_queue q1 = tl (internal_queue q @ [p])"
      using drop_head_drops_one [OF assms(1,2) 2] by blast
    ultimately show ?thesis using assms(3) by simp
  next
    case 3
    with drop_head_aborts [OF assms(1,2)] assms(3) show ?thesis by simp
  qed
qed

interpretation drop_head: packet_queue drop_head_ops internal_queue dropping_inv fifo_room
proof unfold_locales
  fix q q' :: dropping_queue and p c c'
  assume "dropping_inv q" "countable (internal_queue q @ [p])"
    "q_enqueue drop_head_ops c q p = Inr (q', c')"
  then show "dropping_inv q' \<and> subseq (internal_queue q') (internal_queue q @ [p])"
    using drop_head_enqueue_inv [of q p q'] by (auto simp: drop_head_ops_def res_simps)
qed (auto simp: drop_head_ops_def dropping_laws res_simps dest: dropping_dequeue_law)

section \<open>The arguments and their printed form\<close>

lemma take_digits:
  "set w \<subseteq> set decimal_digits \<Longrightarrow> c \<notin> set decimal_digits \<Longrightarrow>
   (case find_first_not_of (w @ c # rest) decimal_digits of
      None \<Rightarrow> w @ c # rest | Some k \<Rightarrow> take k (w @ c # rest)) = w"
  by (simp add: find_first_not_of_append)

lemma get_arg_found:
  assumes "str_find args name = Some pos"
    and "drop (pos + length name) args = ''='' @ dec n @ c # rest"
    and "c \<notin> set decimal_digits" "n < 2 ^ 32"
  shows "get_arg args name = Inr (of_nat n)"
proof -
  have len: "pos + length name + 1 \<le> length args"
  proof (rule ccontr)
    assume "\<not> ?thesis"
    then have "drop (pos + length name) args = []" by simp
    with assms(2) show False by simp
  qed
  have "drop (Suc (pos + length name)) args = drop 1 (drop (pos + length name) args)" by simp
  also have "\<dots> = dec n @ c # rest" by (simp only: assms(2)) simp
  finally have tail: "drop (Suc (pos + length name)) args = dec n @ c # rest" .
  have tail2: "substr_from args (pos + length name + 1) = Inr (dec n @ c # rest)"
    using len tail by (simp add: substr_from_def)
  have "n < 2 ^ 63" using assms(4) by simp
  then have "myatoi (dec n) 10 = Inr (int n)" by (rule myatoi_dec)
  moreover have "take 1 (drop (pos + length name) args) = ''=''" using assms(2) by simp
  ultimately show ?thesis
    using len tail2 take_digits [OF set_dec assms(3), of n rest]
    by (simp add: get_arg_def assms(1) substr_def Let_def)
qed

lemma get_arg_absent: "str_find args name = None \<Longrightarrow> get_arg args name = Inr 0"
  by (simp add: get_arg_def)

lemma dec_no: "c \<notin> set decimal_digits \<Longrightarrow> c \<notin> set (dec n)"
  using set_dec [of n] by auto

lemma find_in_printed:
  "str_find (dec n @ h) (CHR ''b'' # pat) = map_option ((+) (length (dec n))) (str_find h (CHR ''b'' # pat))"
  "str_find (dec n @ h) (CHR ''p'' # pat) = map_option ((+) (length (dec n))) (str_find h (CHR ''p'' # pat))"
  by (rule str_find_skip, rule dec_no, simp add: decimal_digits_def)+

text \<open>
  What \<open>to_string\<close> prints for a drop-tail or drop-head queue, \<open>get_arg\<close> reads back.
\<close>

lemma get_arg_bytes_printed:
  assumes "type \<in> {''droptail'', ''drophead''}"
  shows "get_arg (dropping_to_string type q) ''bytes'' = Inr (byte_limit q)"
proof (cases "byte_limit q = 0")
  case True
  show ?thesis
    by (rule get_arg_absent [THEN trans])
      (use assms True in \<open>auto simp: dropping_to_string_def find_in_printed\<close>)
next
  case False
  define rest where "rest = (if packet_limit q \<noteq> 0
    then '', packets='' @ dec (unat (packet_limit q)) else []) @ '']''"
  have "hd rest \<notin> set decimal_digits \<and> rest \<noteq> []"
    by (simp add: rest_def decimal_digits_def)
  then obtain c r where r: "rest = c # r" "c \<notin> set decimal_digits"
    by (cases rest) simp_all
  have "get_arg (dropping_to_string type q) ''bytes'' = Inr (of_nat (unat (byte_limit q)))"
    by (rule get_arg_found [where pos = 10, OF _ _ r(2) unat_u32_bound])
      (use assms False r(1) in \<open>auto simp: dropping_to_string_def rest_def\<close>)
  then show ?thesis by simp
qed

lemma get_arg_packets_printed:
  assumes "type \<in> {''droptail'', ''drophead''}"
  shows "get_arg (dropping_to_string type q) ''packets'' = Inr (packet_limit q)"
proof (cases "packet_limit q = 0")
  case True
  show ?thesis
    by (rule get_arg_absent [THEN trans])
      (use assms True in \<open>auto simp: dropping_to_string_def find_in_printed\<close>)
next
  case False
  define pre where "pre = type @ '' ['' @
    (if byte_limit q \<noteq> 0 then ''bytes='' @ dec (unat (byte_limit q)) @ '', '' else [])"
  have printed: "dropping_to_string type q = pre @ ''packets='' @ dec (unat (packet_limit q)) @ '']''"
    using False by (simp add: dropping_to_string_def pre_def)
  have "str_find (dropping_to_string type q) ''packets'' = Some (length pre)"
    using assms by (auto simp: printed pre_def find_in_printed)
  then have "get_arg (dropping_to_string type q) ''packets'' = Inr (of_nat (unat (packet_limit q)))"
    by (rule get_arg_found [where c = "CHR '']''" and rest = "[]", OF _ _ _ unat_u32_bound])
      (simp_all add: printed decimal_digits_def)
  then show ?thesis by simp
qed

end
