(* ===== verification/CoDel_Queue.thy ===== *)
theory CoDel_Queue
  imports Dropping_Queue
begin

text \<open>
  \<open>src/packet/codel_packet_queue.cc\<close>: the Controlled Delay queue.  It drops at the head,
  when packets are taken; \<open>enqueue\<close> is that of drop-tail.
\<close>

record codel_queue = dropping_queue +
  target :: u32
  interval :: u32
  first_above_time :: u64
  drop_next :: u64
  codel_count :: u32
  lastcount :: u32
  dropping :: bool

section \<open>The operations\<close>

definition codel_packet_size :: u32 where "codel_packet_size = 1504"

definition codel_new :: "string \<Rightarrow> codel_queue res" where
  "codel_new args =
     bindR (dropping_new args) (\<lambda>q.
     bindR (get_arg args ''target'') (\<lambda>tg.
     bindR (get_arg args ''interval'') (\<lambda>iv.
       if tg = 0 \<or> iv = 0
       then Inl (Runtime_error ''CoDel queue must have target and interval arguments.'')
       else Inr (dropping_queue.extend q
              \<lparr>target = tg, interval = iv, first_above_time = 0, drop_next = 0,
               codel_count = 0, lastcount = 0, dropping = False\<rparr>))))"

text \<open>
  \<open>dodequeue\<close>: the packet taken, whether it may be dropped, and the new state.  The
  condition \<open>sojourn_time < target_ || size_bytes() <= PACKET_SIZE\<close> calls \<open>size_bytes\<close>
  only when its first half is false.
\<close>

definition dodequeue :: "u64 \<Rightarrow> codel_queue \<Rightarrow> (queued_packet \<times> bool \<times> codel_queue) res" where
  "dodequeue now q =
     bindR (dropping_dequeue q) (\<lambda>(p, q1).
       if queue_empty q1 then Inr (p, False, q1\<lparr>first_above_time := 0\<rparr>)
       else
         let sojourn_time = now - arrival_time p
         in bindR (if sojourn_time < ucast (target q1) then Inr True
                   else bindR (size_bytes q1) (\<lambda>b. Inr (b \<le> codel_packet_size))) (\<lambda>below.
              if below then Inr (p, False, q1\<lparr>first_above_time := 0\<rparr>)
              else if first_above_time q1 = 0
              then Inr (p, False, q1\<lparr>first_above_time := now + ucast (interval q1)\<rparr>)
              else Inr (p, first_above_time q1 \<le> now, q1)))"

text \<open>
  \<open>control_law\<close>: for \<open>count = 0\<close> the quotient is an infinity, and converting it to
  \<open>uint64_t\<close> is undefined.
\<close>

definition control_law :: "u32 \<Rightarrow> u64 \<Rightarrow> u32 \<Rightarrow> u64 res" where
  "control_law iv t count =
     (if count = 0 then Inl (Undefined_behaviour ''conversion of an infinite double'')
      else let d = dbl (of_nat (unat iv) / sqrt_dbl (unat count))
           in Inr (t + word_of_int \<lfloor>d\<rfloor>))"

lemma dodequeue_shortens:
  "dodequeue now q = Inr (p, ok, q') \<Longrightarrow> length (internal_queue q') < length (internal_queue q)"
  by (cases "dropping_dequeue q"; cases "queue_empty (snd (projr (dropping_dequeue q)))")
    (auto simp: dodequeue_def Let_def bindR_eq_Inr dest!: dropping_dequeue_length split: if_splits)

function codel_drop_loop :: "u64 \<Rightarrow> codel_queue \<Rightarrow> codel_queue res" where
  "codel_drop_loop now q =
     (if drop_next q \<le> now \<and> dropping q then
        bindR (dodequeue now q) (\<lambda>(_, ok, q1).
          let q2 = q1\<lparr>codel_count := codel_count q1 + 1\<rparr>
          in if \<not> ok then codel_drop_loop now (q2\<lparr>dropping := False\<rparr>)
             else bindR (control_law (interval q2) (drop_next q2) (codel_count q2)) (\<lambda>t.
                    codel_drop_loop now (q2\<lparr>drop_next := t\<rparr>)))
      else Inr q)"
  by pat_completeness auto
termination
  by (relation "measure (\<lambda>(_, q). length (internal_queue q))") (auto dest: dodequeue_shortens)

declare codel_drop_loop.simps [simp del]

text \<open>
  The \<open>r\<close> declared inside the loop and inside the last branch shadows the outer one, so
  the packet returned is always the first one taken; the packets discarded are the ones
  after it.  \<open>16 * interval_\<close> is computed in 32 bits.
\<close>

definition codel_dequeue :: "clock \<Rightarrow> codel_queue \<Rightarrow> (queued_packet \<times> codel_queue \<times> clock) res" where
  "codel_dequeue c q =
     (let (now, c') = timestamp c
      in bindR (dodequeue now q) (\<lambda>(p, ok, q1).
           if dropping q1 then
             bindR (codel_drop_loop now (if \<not> ok then q1\<lparr>dropping := False\<rparr> else q1)) (\<lambda>q2.
               Inr (p, q2, c'))
           else if ok then
             bindR (dodequeue now q1) (\<lambda>(_, _, q2).
               let delta = codel_count q2 - lastcount q2;
                   cnt = (if 1 < delta \<and> now - drop_next q2 < ucast (16 * interval q2) then delta else 1)
               in bindR (control_law (interval q2) now cnt) (\<lambda>t.
                    Inr (p, q2\<lparr>dropping := True, codel_count := cnt, drop_next := t, lastcount := cnt\<rparr>, c')))
           else Inr (p, q1, c')))"

definition codel_enqueue :: "codel_queue \<Rightarrow> queued_packet \<Rightarrow> codel_queue res" where
  "codel_enqueue q p =
     bindR (room_for q p) (\<lambda>room.
       let q' = (if room then accept q p else q)
       in bindR (good q') (\<lambda>g. assertR g (Inr q')))"

definition codel_ops :: "codel_queue queue_ops" where
  "codel_ops =
     \<lparr>q_enqueue = (\<lambda>c q p. bindR (codel_enqueue q p) (\<lambda>q'. Inr (q', c))),
      q_dequeue = codel_dequeue,
      q_empty = queue_empty,
      q_to_string = dropping_to_string ''codel'',
      q_size_bytes = size_bytes,
      q_size_packets = size_packets\<rparr>"

section \<open>The invariant\<close>

text \<open>
  \<open>count_\<close> is at least \<open>lastcount_\<close>, and grows by at most one for each packet discarded:
  while fewer than \<open>2 ^ 32\<close> packets are counted or queued it never wraps to 0, where
  \<open>control_law\<close> is undefined.
\<close>

definition codel_inv :: "codel_queue \<Rightarrow> bool" where
  "codel_inv q \<longleftrightarrow> dropping_inv q \<and> lastcount q \<le> codel_count q \<and>
     unat (codel_count q) + length (internal_queue q) < 2 ^ 32"

definition codel_room :: "codel_queue \<Rightarrow> queued_packet \<Rightarrow> bool" where
  "codel_room q p \<longleftrightarrow> countable (internal_queue q @ [p]) \<and>
     unat (codel_count q) + length (internal_queue q) + 1 < 2 ^ 32"

lemma control_law_total: "count \<noteq> 0 \<Longrightarrow> \<exists>t'. control_law iv t count = Inr t'"
  by (simp add: control_law_def Let_def)

lemma codel_fields:
  assumes "fifo_state.more q' = fifo_state.more (q :: codel_queue)"
  shows "target q' = target q" "interval q' = interval q" "drop_next q' = drop_next q"
    "first_above_time q' = first_above_time q" "codel_count q' = codel_count q"
    "lastcount q' = lastcount q" "dropping q' = dropping q"
  using assms by (cases q; cases q'; simp)+

lemma dropping_inv_update [simp]:
  "dropping_inv (q\<lparr>first_above_time := t\<rparr>) = dropping_inv (q :: codel_queue)"
  "dropping_inv (q\<lparr>codel_count := n\<rparr>) = dropping_inv (q :: codel_queue)"
  "dropping_inv (q\<lparr>lastcount := n\<rparr>) = dropping_inv (q :: codel_queue)"
  "dropping_inv (q\<lparr>drop_next := t\<rparr>) = dropping_inv (q :: codel_queue)"
  "dropping_inv (q\<lparr>dropping := d\<rparr>) = dropping_inv (q :: codel_queue)"
  by (simp_all add: dropping_inv_def counters_ok_def within_limits_def)

text \<open>Whether the head must go unpunished: the test of \<open>dodequeue\<close> on the packets.\<close>

definition below_target :: "u64 \<Rightarrow> codel_queue \<Rightarrow> queued_packet \<Rightarrow> queued_packet list \<Rightarrow> bool" where
  "below_target now q p rest \<longleftrightarrow>
     rest = [] \<or> now - arrival_time p < ucast (target q) \<or> total_bytes rest \<le> 1504"

lemma dodequeue_eq:
  assumes "dropping_inv q" "internal_queue q = p # rest"
  obtains q' where "dropping_inv q'" "internal_queue q' = rest"
    "target q' = target q" "interval q' = interval q" "drop_next q' = drop_next q"
    "codel_count q' = codel_count q" "lastcount q' = lastcount q" "dropping q' = dropping q"
    "first_above_time q' = (if below_target now q p rest then 0
       else if first_above_time q = 0 then now + ucast (interval q) else first_above_time q)"
    "dodequeue now q = Inr (p, \<not> below_target now q p rest \<and> first_above_time q \<noteq> 0 \<and>
       first_above_time q \<le> now, q')"
proof -
  from assms obtain q1 where q1: "dropping_dequeue q = Inr (p, q1)" "dropping_inv q1"
    "internal_queue q1 = rest" "fifo_state.more q1 = fifo_state.more q"
    by (rule dropping_dequeue_inv)
  note f = codel_fields [OF q1(4)]
  have "total_bytes rest < 2 ^ 31"
    using dropping_laws(1) [OF q1(2)] q1(3) by (simp add: countable_def)
  then have "(of_nat (total_bytes rest) \<le> codel_packet_size) = (total_bytes rest \<le> 1504)"
    by (simp add: codel_packet_size_def word_le_nat_alt unat_of_nat_small)
  moreover have "size_bytes q1 = Inr (of_nat (total_bytes rest))"
    using dropping_laws(3) [OF q1(2)] q1(3) by simp
  moreover have "queue_empty q1 \<longleftrightarrow> rest = []"
    using dropping_laws(2) [OF q1(2)] q1(3) by simp
  ultimately show ?thesis
    using q1 f
    by (intro that [of "if below_target now q p rest then q1\<lparr>first_above_time := 0\<rparr>
        else if first_above_time q = 0 then q1\<lparr>first_above_time := now + ucast (interval q)\<rparr>
        else q1"]) (auto simp: dodequeue_def Let_def below_target_def)
qed

lemma suc_count:
  assumes "unat (n :: u32) + length (p # rest) < 2 ^ 32"
  shows "unat (n + 1) = unat n + 1"
proof -
  have "unat (n + 1) = (unat n + 1) mod 2 ^ 32" by (simp add: unat_word_ariths)
  with assms show ?thesis by simp
qed

text \<open>Packets counted or queued: what \<open>codel_inv\<close> bounds, and what taking packets never increases.\<close>

definition codel_load :: "codel_queue \<Rightarrow> nat" where
  "codel_load q = unat (codel_count q) + length (internal_queue q)"

text \<open>
  The loop of the dropping state ends, never fails, and discards packets from the front.
\<close>

lemma codel_drop_loop_inv:
  assumes "codel_inv q" "dropping q \<Longrightarrow> internal_queue q \<noteq> []"
  shows "\<exists>q'. codel_drop_loop now q = Inr q' \<and> codel_inv q' \<and>
    suffix (internal_queue q') (internal_queue q) \<and> (dropping q' \<longrightarrow> now < drop_next q') \<and>
    codel_load q' \<le> codel_load q"
  using assms
proof (induction now q rule: codel_drop_loop.induct)
  case (1 now q)
  show ?case
  proof (cases "drop_next q \<le> now \<and> dropping q")
    case False
    with 1 show ?thesis by (auto simp: codel_drop_loop.simps [of now q])
  next
    case True
    with "1.prems"(2) obtain p rest where p: "internal_queue q = p # rest"
      by (auto simp: neq_Nil_conv)
    have inv: "dropping_inv q" "lastcount q \<le> codel_count q"
      "unat (codel_count q) + length (p # rest) < 2 ^ 32"
      using "1.prems"(1) p by (simp_all add: codel_inv_def)
    note n = suc_count [OF inv(3)]
    from inv(1) p obtain q1 where q1: "dropping_inv q1" "internal_queue q1 = rest"
      "target q1 = target q" "interval q1 = interval q" "drop_next q1 = drop_next q"
      "codel_count q1 = codel_count q" "lastcount q1 = lastcount q" "dropping q1 = dropping q"
      "dodequeue now q = Inr (p, \<not> below_target now q p rest \<and> first_above_time q \<noteq> 0 \<and>
        first_above_time q \<le> now, q1)"
      by (rule dodequeue_eq [where now = now])
    define ok where "ok \<longleftrightarrow> \<not> below_target now q p rest \<and> first_above_time q \<noteq> 0 \<and>
      first_above_time q \<le> now"
    have d: "dodequeue now q = Inr (p, ok, q1)" using q1(9) by (simp only: ok_def)
    have rest: "rest \<noteq> []" if ok using that by (auto simp: ok_def below_target_def)
    define q2 where "q2 = q1\<lparr>codel_count := codel_count q1 + 1\<rparr>"
    have q2: "codel_inv q2" "internal_queue q2 = rest"
      using q1 n inv(2,3)
      by (simp_all add: codel_inv_def q2_def word_le_nat_alt)
    have load: "codel_load q2 \<le> codel_load q"
      using q1(2,6) n p by (simp add: codel_load_def q2_def)
    have n0: "codel_count q2 \<noteq> 0" using n q1(6) by (auto simp: q2_def)
    have step: "codel_drop_loop now q =
      (if \<not> ok then codel_drop_loop now (q2\<lparr>dropping := False\<rparr>)
       else bindR (control_law (interval q2) (drop_next q2) (codel_count q2)) (\<lambda>t.
         codel_drop_loop now (q2\<lparr>drop_next := t\<rparr>)))"
      by (subst codel_drop_loop.simps) (simp add: True d Let_def q2_def)
    show ?thesis
    proof (cases ok)
      case False
      have "codel_inv (q2\<lparr>dropping := False\<rparr>)" using q2 by (simp add: codel_inv_def)
      then have "\<exists>q'. codel_drop_loop now (q2\<lparr>dropping := False\<rparr>) = Inr q' \<and> codel_inv q' \<and>
        suffix (internal_queue q') rest \<and> (dropping q' \<longrightarrow> now < drop_next q') \<and>
        codel_load q' \<le> codel_load q2"
        using "1.IH"(1) [OF True d refl refl q2_def] False q2(2) by (simp add: codel_load_def)
      with False step p load show ?thesis by (auto intro: suffix_ConsI)
    next
      case True
      obtain t where t: "control_law (interval q2) (drop_next q2) (codel_count q2) = Inr t"
        using control_law_total [OF n0] by blast
      have "codel_inv (q2\<lparr>drop_next := t\<rparr>)" using q2 by (simp add: codel_inv_def)
      then have "\<exists>q'. codel_drop_loop now (q2\<lparr>drop_next := t\<rparr>) = Inr q' \<and> codel_inv q' \<and>
        suffix (internal_queue q') rest \<and> (dropping q' \<longrightarrow> now < drop_next q') \<and>
        codel_load q' \<le> codel_load q2"
        using "1.IH"(2) [OF \<open>drop_next q \<le> now \<and> dropping q\<close> d refl refl q2_def _ t] True q2(2) rest
        by (simp add: codel_load_def)
      with True step p t load show ?thesis by (auto intro: suffix_ConsI)
    qed
  qed
qed


section \<open>Taking a packet\<close>

lemma codel_dequeue_inv:
  assumes "codel_inv q" "internal_queue q = p # rest"
  shows "\<exists>q' c'. codel_dequeue c q = Inr (p, q', c') \<and> codel_inv q' \<and>
    suffix (internal_queue q') rest \<and> codel_load q' \<le> codel_load q"
proof -
  define now where "now = c 0"
  have inv: "dropping_inv q" "lastcount q \<le> codel_count q"
      "unat (codel_count q) + length (p # rest) < 2 ^ 32"
    using assms by (simp_all add: codel_inv_def)
  define ok where "ok \<longleftrightarrow> \<not> below_target now q p rest \<and> first_above_time q \<noteq> 0 \<and>
    first_above_time q \<le> now"
  from inv(1) assms(2) obtain q1 where q1: "dropping_inv q1" "internal_queue q1 = rest"
    "interval q1 = interval q" "drop_next q1 = drop_next q"
    "codel_count q1 = codel_count q" "lastcount q1 = lastcount q" "dropping q1 = dropping q"
    "dodequeue now q = Inr (p, ok, q1)"
    unfolding ok_def by (rule dodequeue_eq [where now = now])
  have q1i: "codel_inv q1" using q1 inv by (simp add: codel_inv_def)
  have rest: "rest \<noteq> []" if ok using that by (auto simp: ok_def below_target_def)
  show ?thesis
  proof (cases "dropping q")
    case True
    define q2 where "q2 = (if \<not> ok then q1\<lparr>dropping := False\<rparr> else q1)"
    have "codel_inv q2" "dropping q2 \<Longrightarrow> internal_queue q2 \<noteq> []" "internal_queue q2 = rest"
      using q1i q1(2) rest by (auto simp: q2_def codel_inv_def split: if_splits)
    moreover have "codel_load q2 \<le> codel_load q"
      using q1(2,5) assms(2) by (simp add: q2_def codel_load_def)
    ultimately obtain q3 where "codel_drop_loop now q2 = Inr q3" "codel_inv q3"
      "suffix (internal_queue q3) rest" "codel_load q3 \<le> codel_load q"
      using codel_drop_loop_inv [of q2 now] by auto
    then show ?thesis
      using True q1(7,8) by (simp add: codel_dequeue_def timestamp_def now_def q2_def)
  next
    case not_dropping: False
    show ?thesis
    proof (cases ok)
      case False
      with not_dropping q1i q1 assms(2) show ?thesis
        by (simp add: codel_dequeue_def timestamp_def now_def codel_load_def)
    next
      case True
      obtain p2 rest2 where p2: "rest = p2 # rest2" using rest [OF True] by (cases rest) auto
      with q1(1,2) obtain q2 where q2: "dropping_inv q2" "internal_queue q2 = rest2"
        "interval q2 = interval q1" "codel_count q2 = codel_count q1" "lastcount q2 = lastcount q1"
        "dodequeue now q1 = Inr (p2, \<not> below_target now q1 p2 rest2 \<and> first_above_time q1 \<noteq> 0 \<and>
          first_above_time q1 \<le> now, q2)"
        using dodequeue_eq [of q1 p2 rest2 now] by metis
      define delta where "delta = codel_count q2 - lastcount q2"
      define cnt where "cnt = (if 1 < delta \<and> now - drop_next q2 < ucast (16 * interval q2)
        then delta else 1)"
      have cnt_eq: "cnt = (if 1 < codel_count q2 - lastcount q2 \<and>
          now - drop_next q2 < ucast (16 * interval q2) then codel_count q2 - lastcount q2 else 1)"
        by (simp only: cnt_def delta_def)
      have "lastcount q2 \<le> codel_count q2" using inv(2) q1 q2 by simp
      then have "unat delta \<le> unat (codel_count q2)"
        by (simp add: delta_def unat_sub)
      then have cnt_le: "unat cnt \<le> unat (codel_count q) + 1"
        using q1(5) q2(4) by (auto simp: cnt_def)
      with \<open>unat delta \<le> unat (codel_count q2)\<close> have cnt: "cnt \<noteq> 0" "unat cnt + length rest2 < 2 ^ 32"
        using inv(3) p2 q1(5) q2(4) by (auto simp: cnt_def)
      obtain t where t: "control_law (interval q2) now cnt = Inr t"
        using control_law_total [OF cnt(1)] by blast
      have "codel_dequeue c q = Inr (p, q2\<lparr>dropping := True, codel_count := cnt, drop_next := t,
          lastcount := cnt\<rparr>, \<lambda>n. c (Suc n))"
        using not_dropping True q1(7,8) q2(6) t
        by (simp add: codel_dequeue_def timestamp_def now_def [symmetric] Let_def
            cnt_eq [symmetric] split del: if_split)
      moreover have "unat cnt + length rest2 \<le> codel_load q"
        using cnt_le p2 assms(2) by (auto simp: codel_load_def)
      ultimately show ?thesis
        using q2 cnt p2 by (auto simp: codel_inv_def codel_load_def intro: suffix_ConsI)
    qed
  qed
qed

text \<open>
  With the head below the target, or the queue nearly empty, nothing is discarded, and the
  dropping state is left.
\<close>

lemma codel_dequeue_below:
  assumes "dropping_inv q" "internal_queue q = p # rest" "below_target (c 0) q p rest"
  shows "\<exists>q' c'. codel_dequeue c q = Inr (p, q', c') \<and> internal_queue q' = rest \<and>
    \<not> dropping q' \<and> first_above_time q' = 0"
proof -
  from assms(1,2) obtain q1 where "internal_queue q1 = rest" "dropping q1 = dropping q"
    "first_above_time q1 = 0" "dodequeue (c 0) q = Inr (p, False, q1)"
    using dodequeue_eq [of q p rest "c 0"] assms(3) by simp metis
  then show ?thesis
    by (auto simp: codel_dequeue_def timestamp_def codel_drop_loop.simps)
qed


section \<open>The control law\<close>

lemma divide_shrinks: "(0::rat) \<le> a \<Longrightarrow> 1 \<le> s \<Longrightarrow> a / s \<le> a"
  using divide_left_mono [of 1 s a] by simp

text \<open>The next drop is scheduled at most one interval after the time given.\<close>

lemma control_law_bounds:
  assumes "control_law iv t count = Inr t'"
  shows "\<exists>k \<le> unat iv. t' = t + of_nat k"
proof -
  define d where "d = dbl (of_nat (unat iv) / sqrt_dbl (unat count))"
  have "count \<noteq> 0" and t': "t' = t + word_of_int \<lfloor>d\<rfloor>"
    using assms by (simp_all add: control_law_def d_def Let_def split: if_splits)
  then have s: "1 \<le> sqrt_dbl (unat count)"
    by (intro sqrt_dbl_ge_1) (simp add: unat_gt_0)
  then have q: "of_nat (unat iv) / sqrt_dbl (unat count) \<le> of_nat (unat iv)"
    by (rule divide_shrinks [OF of_nat_0_le_iff])
  have iv: "unat iv < 2 ^ 53" using unat_u32_bound [of iv] by simp
  have "0 \<le> of_nat (unat iv) / sqrt_dbl (unat count)"
    by (rule divide_nonneg_nonneg [OF of_nat_0_le_iff]) (use s in simp)
  then have d: "0 \<le> d" "d \<le> of_nat (unat iv)"
    unfolding d_def using dbl_nonneg dbl_le_nat [OF _ q iv] by blast+
  have "of_int \<lfloor>d\<rfloor> \<le> d" by (rule of_int_floor_le)
  also have "d \<le> of_int (int (unat iv))" using d(2) by (simp only: of_int_of_nat_eq)
  finally have "\<lfloor>d\<rfloor> \<le> int (unat iv)" by (simp only: of_int_le_iff)
  moreover have "0 \<le> \<lfloor>d\<rfloor>" using d(1) by simp
  ultimately have "t' = t + of_nat (nat \<lfloor>d\<rfloor>)" "nat \<lfloor>d\<rfloor> \<le> unat iv"
    by (simp_all only: t' nat_le_iff) simp
  then show ?thesis by blast
qed

section \<open>The interface\<close>

lemma codel_enqueue_eq:
  assumes "dropping_inv q" "countable (internal_queue q @ [p])"
  shows "codel_enqueue q p =
    Inr (if within_limits q (internal_queue q @ [p]) then accept q p else q)"
  using drop_tail_enqueue_eq [OF assms]
  by (simp add: codel_enqueue_def drop_tail_enqueue_def)

lemma codel_accept_inv:
  assumes "codel_inv q" "codel_room q p" "within_limits q (internal_queue q @ [p])"
  shows "codel_inv (accept q p)"
proof -
  have "fifo_state.more (accept q p) = fifo_state.more q" by (simp add: accept_def fifo_push_def)
  note f = codel_fields [OF this]
  show ?thesis using assms f by (simp add: codel_inv_def codel_room_def accept_inv)
qed

interpretation codel: reliable_packet_queue codel_ops internal_queue codel_inv codel_room
proof unfold_locales
  fix q :: codel_queue and p rest c
  assume "codel_inv q" "internal_queue q = p # rest"
  then show "\<exists>q' c'. q_dequeue codel_ops c q = Inr (p, q', c') \<and> codel_inv q' \<and>
      subseq (internal_queue q') rest \<and> (\<forall>x. codel_room q x \<longrightarrow> codel_room q' x)"
    using codel_dequeue_inv [of q p rest c] subseq_tail [of rest p]
    by (fastforce simp: codel_ops_def codel_room_def codel_load_def
        dest: suffix_imp_subseq intro: subseq_countable_app subseq_order.trans)
next
  fix q q' :: codel_queue and p c c'
  assume "codel_inv q" "codel_room q p" "q_enqueue codel_ops c q p = Inr (q', c')"
  then show "codel_inv q' \<and> subseq (internal_queue q') (internal_queue q @ [p])"
    using codel_accept_inv [of q p]
    by (auto simp: codel_ops_def codel_enqueue_eq codel_inv_def codel_room_def split: if_splits)
qed (auto simp: codel_ops_def codel_inv_def codel_room_def dropping_laws codel_enqueue_eq)

lemma codel_new_inv: "codel_new args = Inr q \<Longrightarrow> codel_inv q \<and> internal_queue q = []"
  by (auto simp: codel_new_def bindR_eq_Inr codel_inv_def dropping_queue.extend_def dropping_inv_def
      counters_ok_def within_limits_def dest!: dropping_new_inv split: if_splits)

end
