(* ===== verification/Pie_Queue.thy ===== *)
theory Pie_Queue
  imports Dropping_Queue
begin

text \<open>
  \<open>src/packet/pie_packet_queue.cc\<close>: the Proportional Integral controller Enhanced queue,
  which drops at random when packets arrive.  The random engine and its
  \<open>uniform_real_distribution\<close> are parameters: a state \<open>'g\<close> and \<open>draw\<close>, which returns a
  sample and the next state.  The members that the constructor sets and nothing changes
  (\<open>alpha_\<close>, \<open>beta_\<close>, \<open>t_update_\<close>, \<open>dq_threshold_\<close>) are constants.
\<close>

record 'g pie_queue = dropping_queue +
  qdelay_ref :: u32
  max_burst :: u32
  drop_prob :: rat
  burst_allowance :: u32
  qdelay_old :: u32
  current_qdelay :: u32
  dq_count :: u32
  dq_tstamp :: u32
  avg_dq_rate :: u32
  prng :: 'g
  last_update :: u64

definition pie_packet_size :: u32 where "pie_packet_size = 1504"
definition alpha :: rat where "alpha = 1 / 8"
definition beta :: rat where "beta = 5 / 4"
definition t_update :: u32 where "t_update = 30"
definition dq_threshold :: u32 where "dq_threshold = 16384"
definition dq_count_invalid :: u32 where "dq_count_invalid = - 1"

definition pie_new :: "'g \<Rightarrow> clock \<Rightarrow> string \<Rightarrow> ('g pie_queue \<times> clock) res" where
  "pie_new seed c args =
     bindR (dropping_new args) (\<lambda>q.
     bindR (get_arg args ''qdelay_ref'') (\<lambda>qr.
     bindR (get_arg args ''max_burst'') (\<lambda>mb.
       let (now, c') = timestamp c
       in if qr = 0 \<or> mb = 0
          then Inl (Runtime_error ''PIE AQM queue must have qdelay_ref and max_burst parameters'')
          else Inr (dropping_queue.extend q
                 \<lparr>qdelay_ref = qr, max_burst = mb, drop_prob = 0, burst_allowance = 0,
                  qdelay_old = 0, current_qdelay = 0, dq_count = dq_count_invalid, dq_tstamp = 0,
                  avg_dq_rate = 0, prng = seed, last_update = now\<rparr>, c'))))"

section \<open>The drop probability\<close>

text \<open>
  One turn of the loop of \<open>calculate_drop_prob\<close>.  Differences of delays are taken in
  \<open>uint32_t\<close> and read as \<open>int\<close>.
\<close>

definition scaled_step :: "rat \<Rightarrow> rat \<Rightarrow> rat" where
  "scaled_step prob p =
     (if prob < dbl (1 / 100) then dbl (p / 128)
      else if prob < dbl (1 / 10) then dbl (p / 32)
      else dbl (p / 16))"

definition next_drop_prob :: "rat \<Rightarrow> rat \<Rightarrow> bool \<Rightarrow> bool \<Rightarrow> rat" where
  "next_drop_prob prob p quiet_period update_prob =
     (let d = dbl (prob + scaled_step prob p);
          (d', update) = (if d < 0 then (0, update_prob)
                          else if 1 < d then (1, False) else (d, update_prob))
      in if quiet_period \<and> update then dbl (d' * dbl (98 / 100)) else d')"

definition pie_update :: "'g pie_queue \<Rightarrow> 'g pie_queue res" where
  "pie_update q =
     bindR (if 0 < avg_dq_rate q then bindR (size_bytes q) (\<lambda>b. Inr (b div avg_dq_rate q)) else Inr 0)
       (\<lambda>cur.
     bindR (if cur = 0 then bindR (size_bytes q) (\<lambda>b. Inr (b = 0)) else Inr True) (\<lambda>update_prob.
       let old = current_qdelay q;
           p = dbl (dbl (alpha * of_int (sint (cur - qdelay_ref q))) +
                    dbl (beta * of_int (sint (cur - old))));
           d = next_drop_prob (drop_prob q) p (cur = 0 \<and> old = 0) update_prob;
           burst = (if 0 < sint (burst_allowance q - t_update) then burst_allowance q - t_update else 0);
           reset = (d = 0 \<and> cur < qdelay_ref q div 2 \<and> old < qdelay_ref q div 2 \<and> 0 < avg_dq_rate q)
       in Inr (q\<lparr>qdelay_old := old, current_qdelay := cur, drop_prob := d,
                 last_update := last_update q + ucast t_update,
                 dq_count := (if reset then dq_count_invalid else dq_count q),
                 avg_dq_rate := (if reset then 0 else avg_dq_rate q),
                 burst_allowance := (if reset then max_burst q else burst)\<rparr>)))"

lemma pie_update_time: "pie_update q = Inr q' \<Longrightarrow> last_update q' = last_update q + 30"
  by (auto simp: pie_update_def bindR_eq_Inr Let_def t_update_def)

text \<open>
  The loop makes up for the periods missed since the last update.  It ends because
  \<open>now - last_update_\<close>, as an unsigned number, falls by 30 each time; when the clock has
  gone back it starts near \<open>2 ^ 64\<close>.
\<close>

function pie_catch_up :: "u64 \<Rightarrow> 'g pie_queue \<Rightarrow> 'g pie_queue res" where
  "pie_catch_up now q =
     (if ucast t_update < now - last_update q
      then bindR (pie_update q) (pie_catch_up now)
      else Inr q)"
  by pat_completeness auto

lemma thirty_less:
  assumes "ucast t_update < now - (t :: u64)"
  shows "unat (now - (t + 30)) = unat (now - t) - 30" "30 < unat (now - t)"
proof -
  have 30: "30 < now - t" using assms by (simp add: t_update_def)
  then show "30 < unat (now - t)" by (simp add: word_less_nat_alt)
  have "unat ((now - t) - 30) = unat (now - t) - unat (30 :: u64)"
    using 30 by (intro unat_sub) simp
  moreover have "unat (30 :: u64) = 30" by simp
  moreover have "now - (t + 30) = (now - t) - 30" by simp
  ultimately show "unat (now - (t + 30)) = unat (now - t) - 30" by (simp only:)
qed

lemma catch_up_less:
  "ucast t_update < now - (t :: u64) \<Longrightarrow> unat (now - (t + 30)) < unat (now - t)"
  using thirty_less [of now t] by linarith

termination pie_catch_up
  by (relation "measure (\<lambda>(now, q). unat (now - last_update q))")
    (auto dest!: pie_update_time simp: catch_up_less)

declare pie_catch_up.simps [simp del]

definition calculate_drop_prob :: "clock \<Rightarrow> 'g pie_queue \<Rightarrow> ('g pie_queue \<times> clock) res" where
  "calculate_drop_prob c q =
     (let (now, c') = timestamp c in bindR (pie_catch_up now q) (\<lambda>q'. Inr (q', c')))"

section \<open>Arrival and departure\<close>

definition drop_early :: "('g \<Rightarrow> rat \<times> 'g) \<Rightarrow> 'g pie_queue \<Rightarrow> (bool \<times> 'g pie_queue) res" where
  "drop_early draw q =
     (if 0 < burst_allowance q then Inr (False, q)
      else if qdelay_old q < qdelay_ref q div 2 \<and> drop_prob q < dbl (2 / 10) then Inr (False, q)
      else bindR (size_bytes q) (\<lambda>b.
        if b < 2 * pie_packet_size then Inr (False, q)
        else let (random, g) = draw (prng q)
             in Inr (random < drop_prob q, q\<lparr>prng := g\<rparr>)))"

definition pie_enqueue ::
  "('g \<Rightarrow> rat \<times> 'g) \<Rightarrow> clock \<Rightarrow> 'g pie_queue \<Rightarrow> queued_packet \<Rightarrow> ('g pie_queue \<times> clock) res" where
  "pie_enqueue draw c q p =
     bindR (calculate_drop_prob c q) (\<lambda>(q1, c').
     bindR (room_for q1 p) (\<lambda>room.
       if \<not> room then Inr (q1, c')
       else bindR (drop_early draw q1) (\<lambda>(early, q2).
         let q3 = (if \<not> early then accept q2 p else q2)
         in bindR (good q3) (\<lambda>g. assertR g (Inr (q3, c'))))))"

text \<open>The measurement of the departure rate, with \<open>now\<close> cut to 32 bits.\<close>

definition measure_rate :: "u32 \<Rightarrow> queued_packet \<Rightarrow> 'g pie_queue \<Rightarrow> 'g pie_queue res" where
  "measure_rate now ret q0 =
     bindR (size_bytes q0) (\<lambda>b.
     let q = (if dq_threshold \<le> b \<and> dq_count q0 = dq_count_invalid
              then q0\<lparr>dq_tstamp := now, dq_count := 0\<rparr> else q0)
     in if dq_count q = dq_count_invalid then Inr q
        else let q1 = q\<lparr>dq_count := dq_count q + of_nat (length (contents ret))\<rparr>;
                 dtime = now - dq_tstamp q1
             in if dq_threshold < dq_count q1 \<and> 0 < dtime
                then let rate_sample = dq_count q1 div dtime;
                         q2 = q1\<lparr>avg_dq_rate :=
                           (if avg_dq_rate q1 = 0 then rate_sample
                            else (avg_dq_rate q1 - drop_bit 3 (avg_dq_rate q1)) + drop_bit 3 rate_sample)\<rparr>
                     in bindR (size_bytes q2) (\<lambda>b2.
                          let q3 = (if b2 < dq_threshold then q2\<lparr>dq_count := dq_count_invalid\<rparr>
                                    else q2\<lparr>dq_count := 0, dq_tstamp := now\<rparr>)
                          in Inr (if 0 < burst_allowance q3
                                  then q3\<lparr>burst_allowance :=
                                    (if dtime < burst_allowance q3 then burst_allowance q3 - dtime else 0)\<rparr>
                                  else q3))
                else Inr q1)"

definition pie_dequeue ::
  "clock \<Rightarrow> 'g pie_queue \<Rightarrow> (queued_packet \<times> 'g pie_queue \<times> clock) res" where
  "pie_dequeue c q =
     bindR (dropping_dequeue q) (\<lambda>(ret, q1).
       let (now, c1) = timestamp c
       in bindR (measure_rate (ucast now) ret q1) (\<lambda>q2.
          bindR (calculate_drop_prob c1 q2) (\<lambda>(q3, c2). Inr (ret, q3, c2))))"

definition pie_ops :: "('g \<Rightarrow> rat \<times> 'g) \<Rightarrow> 'g pie_queue queue_ops" where
  "pie_ops draw =
     \<lparr>q_enqueue = pie_enqueue draw,
      q_dequeue = pie_dequeue,
      q_empty = queue_empty,
      q_to_string = dropping_to_string ''pie'',
      q_size_bytes = size_bytes,
      q_size_packets = size_packets\<rparr>"


section \<open>The invariant\<close>

definition pie_inv :: "'g pie_queue \<Rightarrow> bool" where
  "pie_inv q \<longleftrightarrow> dropping_inv q \<and> 0 \<le> drop_prob q \<and> drop_prob q \<le> 1"

text \<open>Two states with the same packets, counters and limits.\<close>

definition same_queue :: "'g pie_queue \<Rightarrow> 'g pie_queue \<Rightarrow> bool" where
  "same_queue q' q \<longleftrightarrow>
     internal_queue q' = internal_queue q \<and> queue_size_in_bytes q' = queue_size_in_bytes q \<and>
     queue_size_in_packets q' = queue_size_in_packets q \<and>
     byte_limit q' = byte_limit q \<and> packet_limit q' = packet_limit q"

lemma same_queue_refl [simp]: "same_queue q q"
  by (simp add: same_queue_def)

lemma same_queue_trans: "same_queue q3 q2 \<Longrightarrow> same_queue q2 q1 \<Longrightarrow> same_queue q3 q1"
  by (simp add: same_queue_def)

lemma same_queue_inv: "same_queue q' q \<Longrightarrow> dropping_inv q' = dropping_inv q"
  by (simp add: same_queue_def dropping_inv_def counters_ok_def within_limits_def)

lemma same_queue_limits: "same_queue q' q \<Longrightarrow> within_limits q' = within_limits q"
  by (intro within_limits_cong) (simp_all add: same_queue_def)

lemma same_queue_packets: "same_queue q' q \<Longrightarrow> internal_queue q' = internal_queue q"
  by (simp add: same_queue_def)

lemma constant_factor: "0 \<le> dbl (98 / 100) \<and> dbl (98 / 100) \<le> 1"
  by (rule dbl_unit) simp_all

lemma next_drop_prob_unit:
  assumes "0 \<le> prob" "prob \<le> 1"
  shows "0 \<le> next_drop_prob prob p quiet_period update \<and> next_drop_prob prob p quiet_period update \<le> 1"
proof -
  have "0 \<le> dbl (d * dbl (98 / 100)) \<and> dbl (d * dbl (98 / 100)) \<le> 1" if "0 \<le> d" "d \<le> 1" for d
    using that constant_factor by (intro dbl_unit) (simp_all add: mult_le_one)
  then show ?thesis by (auto simp: next_drop_prob_def Let_def)
qed

lemma pie_update_ok:
  assumes "pie_inv q"
  obtains q' where "pie_update q = Inr q'" "pie_inv q'" "same_queue q' q"
    "last_update q' = last_update q + 30" "prng q' = prng q"
proof -
  have q: "dropping_inv q" "0 \<le> drop_prob q" "drop_prob q \<le> 1"
    using assms by (simp_all add: pie_inv_def)
  have "\<exists>q'. pie_update q = Inr q' \<and> same_queue q' q \<and> 0 \<le> drop_prob q' \<and> drop_prob q' \<le> 1 \<and>
      prng q' = prng q"
    using next_drop_prob_unit [OF q(2,3)]
    by (simp add: pie_update_def dropping_laws(3) [OF q(1)] Let_def same_queue_def)
  then obtain q' where "pie_update q = Inr q'" "same_queue q' q" "0 \<le> drop_prob q'"
    "drop_prob q' \<le> 1" "prng q' = prng q" by blast
  with q(1) show ?thesis
    by (intro that [of q']) (simp_all add: pie_inv_def same_queue_inv pie_update_time)
qed

text \<open>Afterwards at most one period is outstanding.\<close>

lemma pie_catch_up_ok:
  assumes "pie_inv q"
  shows "\<exists>q'. pie_catch_up now q = Inr q' \<and> pie_inv q' \<and> same_queue q' q \<and> prng q' = prng q \<and>
    now - last_update q' \<le> 30"
  using assms
proof (induction now q rule: pie_catch_up.induct)
  case (1 now q)
  show ?case
  proof (cases "ucast t_update < now - last_update q")
    case False
    then have "now - last_update q \<le> 30" by (simp add: t_update_def)
    with False "1.prems" show ?thesis by (simp add: pie_catch_up.simps [of now q])
  next
    case True
    from "1.prems" obtain q1 where q1: "pie_update q = Inr q1" "pie_inv q1" "same_queue q1 q"
      "prng q1 = prng q" by (rule pie_update_ok)
    from "1.IH" [OF True q1(1,2)] obtain q' where "pie_catch_up now q1 = Inr q'" "pie_inv q'"
      "same_queue q' q1" "prng q' = prng q1" "now - last_update q' \<le> 30"
      by blast
    with True q1 show ?thesis
      by (subst pie_catch_up.simps) (auto intro: same_queue_trans)
  qed
qed

lemma calculate_drop_prob_ok:
  assumes "pie_inv q"
  obtains q' where "calculate_drop_prob c q = Inr (q', \<lambda>n. c (Suc n))" "pie_inv q'"
    "same_queue q' q" "prng q' = prng q" "c 0 - last_update q' \<le> 30"
  using pie_catch_up_ok [OF assms, of "c 0"]
  by (auto simp: calculate_drop_prob_def timestamp_def)


section \<open>Enqueue\<close>

text \<open>When a packet is safe from the random drop.\<close>

definition exempt :: "'g pie_queue \<Rightarrow> bool" where
  "exempt q \<longleftrightarrow> 0 < burst_allowance q \<or>
     (qdelay_old q < qdelay_ref q div 2 \<and> drop_prob q < dbl (2 / 10)) \<or>
     total_bytes (internal_queue q) < 3008"

lemma drop_early_eq:
  assumes "dropping_inv q"
  shows "drop_early draw q =
    (if exempt q then Inr (False, q)
     else Inr (fst (draw (prng q)) < drop_prob q, q\<lparr>prng := snd (draw (prng q))\<rparr>))"
proof -
  have "total_bytes (internal_queue q) < 2 ^ 32"
    using dropping_laws(1) [OF assms] by (simp add: countable_def)
  then have "of_nat (total_bytes (internal_queue q)) < 2 * pie_packet_size \<longleftrightarrow>
      total_bytes (internal_queue q) < 3008"
    by (simp add: pie_packet_size_def word_less_nat_alt unat_of_nat_small)
  then show ?thesis
    using dropping_laws(3) [OF assms]
    by (simp add: drop_early_def exempt_def split: prod.split)
qed

lemma same_prng [simp]: "same_queue (q\<lparr>prng := g\<rparr>) q' = same_queue q q'"
  by (simp add: same_queue_def)

text \<open>
  \<open>enqueue\<close> never fails; with \<open>q1\<close> the state after the probability has been brought up to
  date, the packet is kept exactly when there is room and the random drop spares it.
\<close>

lemma pie_enqueue_eq:
  assumes "pie_inv q" "fifo_room q p"
  obtains q1 q' where "calculate_drop_prob c q = Inr (q1, \<lambda>n. c (Suc n))" "same_queue q1 q"
    "pie_enqueue draw c q p = Inr (q', \<lambda>n. c (Suc n))" "pie_inv q'"
    "internal_queue q' =
      (if within_limits q (internal_queue q @ [p]) \<and>
          (exempt q1 \<or> drop_prob q1 \<le> fst (draw (prng q)))
       then internal_queue q @ [p] else internal_queue q)"
proof -
  from assms(1) obtain q1 where q1: "calculate_drop_prob c q = Inr (q1, \<lambda>n. c (Suc n))" "pie_inv q1"
    "same_queue q1 q" "prng q1 = prng q" by (rule calculate_drop_prob_ok)
  have inv1: "dropping_inv q1" "0 \<le> drop_prob q1" "drop_prob q1 \<le> 1"
    using q1(2) by (simp_all add: pie_inv_def)
  have len: "internal_queue q1 = internal_queue q" "within_limits q1 = within_limits q"
    using q1(3) by (simp_all add: same_queue_packets same_queue_limits)
  have fits: "countable (internal_queue q1 @ [p])" using assms(2) len(1) by simp
  have room: "room_for q1 p = Inr (within_limits q (internal_queue q @ [p]))"
    using inv1(1) len fits by (simp add: room_for_eq dropping_inv_def)
  define q2 where "q2 = (if exempt q1 then q1 else q1\<lparr>prng := snd (draw (prng q))\<rparr>)"
  define early where "early \<longleftrightarrow> \<not> exempt q1 \<and> fst (draw (prng q)) < drop_prob q1"
  have e: "drop_early draw q1 = Inr (early, q2)"
    using drop_early_eq [OF inv1(1), of draw] q1(4) by (simp add: early_def q2_def)
  have s2: "same_queue q2 q1" by (simp add: q2_def)
  then have q2: "dropping_inv q2" "internal_queue q2 = internal_queue q"
    "within_limits q2 = within_limits q"
    using inv1(1) len by (simp_all add: same_queue_inv same_queue_packets same_queue_limits)
  have p2: "drop_prob q2 = drop_prob q1" by (simp add: q2_def)
  show ?thesis
  proof (cases "within_limits q (internal_queue q @ [p])")
    case False
    with q1 room len show ?thesis
      by (intro that [of q1 q1]) (simp_all add: pie_enqueue_def)
  next
    case True
    define q3 where "q3 = (if \<not> early then accept q2 p else q2)"
    have q3: "dropping_inv q3"
      using q2 True assms(2) accept_inv [of q2 p] by (simp add: q3_def)
    have "drop_prob q3 = drop_prob q2" by (simp add: q3_def accept_def fifo_push_def)
    with q3 p2 inv1 have i3: "pie_inv q3" by (simp add: pie_inv_def)
    have "good q3 = Inr True" using q3 by (simp add: good_eq dropping_inv_def)
    with q1 room True e have "pie_enqueue draw c q p = Inr (q3, \<lambda>n. c (Suc n))"
      by (simp add: pie_enqueue_def q3_def)
    with i3 q1 True q2 show ?thesis
      by (intro that [of q1 q3]) (auto simp: q3_def early_def)
  qed
qed


section \<open>Dequeue\<close>

lemma measure_rate_ok:
  assumes "dropping_inv q"
  shows "\<exists>q'. measure_rate now ret q = Inr q' \<and> same_queue q' q \<and> drop_prob q' = drop_prob q \<and>
    burst_allowance q' \<le> burst_allowance q"
proof -
  have b: "size_bytes q' = size_bytes q" if "same_queue q' q" for q'
    using that by (simp add: same_queue_def size_bytes_def)
  have le: "burst_allowance q - d \<le> burst_allowance q" if "d < burst_allowance q" for d
    using that by (simp add: word_sub_le)
  show ?thesis
    using le by (simp add: measure_rate_def dropping_laws(3) [OF assms] b same_queue_def Let_def)
qed

lemma pie_dequeue_inv:
  assumes "pie_inv q" "internal_queue q = p # rest"
  shows "\<exists>q'. pie_dequeue c q = Inr (p, q', \<lambda>n. c (Suc (Suc n))) \<and> pie_inv q' \<and>
    internal_queue q' = rest"
proof -
  have q: "dropping_inv q" "0 \<le> drop_prob q" "drop_prob q \<le> 1"
    using assms(1) by (simp_all add: pie_inv_def)
  from q(1) assms(2) obtain q1 where q1: "dropping_dequeue q = Inr (p, q1)" "dropping_inv q1"
    "internal_queue q1 = rest" "fifo_state.more q1 = fifo_state.more q"
    by (rule dropping_dequeue_inv)
  have d1: "drop_prob q1 = drop_prob q" using q1(4) by (cases q; cases q1) simp
  obtain q2 where q2: "measure_rate (ucast (c 0)) p q1 = Inr q2" "same_queue q2 q1"
    "drop_prob q2 = drop_prob q1"
    using measure_rate_ok [OF q1(2)] by blast
  have "pie_inv q2" using q q1 q2 d1 by (simp add: pie_inv_def same_queue_inv)
  then obtain q3 where "calculate_drop_prob (\<lambda>n. c (Suc n)) q2 = Inr (q3, \<lambda>n. c (Suc (Suc n)))"
    "pie_inv q3" "same_queue q3 q2"
    by (rule calculate_drop_prob_ok [where c = "\<lambda>n. c (Suc n)"])
  with q1 q2 show ?thesis
    by (auto simp: pie_dequeue_def timestamp_def same_queue_packets)
qed

lemma pie_new_inv: "pie_new seed c args = Inr (q, c') \<Longrightarrow> pie_inv q \<and> internal_queue q = []"
  by (auto simp: pie_new_def bindR_eq_Inr Let_def timestamp_def pie_inv_def
      dropping_queue.extend_def dropping_inv_def counters_ok_def within_limits_def
      dest!: dropping_new_inv split: if_splits)

section \<open>The interface\<close>

interpretation pie: reliable_packet_queue "pie_ops draw" internal_queue pie_inv fifo_room for draw
proof unfold_locales
  fix q :: "'a pie_queue" and p rest c
  assume "pie_inv q" "internal_queue q = p # rest"
  then show "\<exists>q' c'. q_dequeue (pie_ops draw) c q = Inr (p, q', c') \<and> pie_inv q' \<and>
      subseq (internal_queue q') rest \<and> (\<forall>x. fifo_room q x \<longrightarrow> fifo_room q' x)"
    using pie_dequeue_inv [of q p rest c]
    by (auto simp: pie_ops_def intro: countable_tail)
next
  fix q q' :: "'a pie_queue" and p c c'
  assume a: "pie_inv q" "fifo_room q p" "q_enqueue (pie_ops draw) c q p = Inr (q', c')"
  obtain q1 :: "'a pie_queue" and q2 where "pie_enqueue draw c q p = Inr (q2, \<lambda>n. c (Suc n))" "pie_inv q2"
    "internal_queue q2 = (if within_limits q (internal_queue q @ [p]) \<and>
        (exempt q1 \<or> drop_prob q1 \<le> fst (draw (prng q)))
      then internal_queue q @ [p] else internal_queue q)"
    by (rule pie_enqueue_eq [OF a(1,2), where c = c and draw = draw]) blast
  with a(3) show "pie_inv q' \<and> subseq (internal_queue q') (internal_queue q @ [p])"
    by (auto simp: pie_ops_def)
next
  fix q :: "'a pie_queue" and p c
  assume "pie_inv q" "fifo_room q p"
  then show "\<exists>q' c'. q_enqueue (pie_ops draw) c q p = Inr (q', c')"
    using pie_enqueue_eq [of q p c draw] by (simp add: pie_ops_def) metis
qed (auto simp: pie_ops_def pie_inv_def dropping_laws)

end
