(* ===== verification/Link_Properties.thy ===== *)
theory Link_Properties
  imports Infinite_Queue CoDel_Queue Pie_Queue
begin

text \<open>
  What the emulated link promises over the disciplines of \<open>mm-link\<close>, with concrete links
  at which the promises apply.
\<close>

section \<open>Two sample links\<close>










lemma exact_dequeue_tail: "exact_dequeue drop_tail_ops internal_queue dropping_inv"
  by (auto simp: exact_dequeue_def drop_tail_ops_def bindR_eq_Inr dest: dropping_dequeue_length)



section \<open>Service\<close>





section \<open>Arrivals\<close>

text \<open>A datagram of 1 to 1504 bytes that the queue has counters for is taken by
  \<open>read_packet\<close> without any of its checks failing, whatever the discipline does with it: the
  link first catches up with the clock, and the packets it then holds are, in order, some of
  those it held and then possibly the new one.\<close>

lemma codel_link_arrival:
  assumes "link_inv internal_queue codel_inv sched b k l" "unat (c 0) + unat (last sched) < 2 ^ 64"
    "cs \<noteq> []" "length cs \<le> 1504" "codel_room (packets l) \<lparr>arrival_time = c 0, contents = cs\<rparr>"
  shows "\<exists>l' c' k'. link_read_packet codel_ops c cs l = Some (Inr (l', c')) \<and>
    link_inv internal_queue codel_inv sched b k' l' \<and> catches_up sched b (c 0) k k' l' \<and>
    subseq (flow internal_queue l') (flow internal_queue l @ [cs])"
  using codel.link_read_packet_inv [of sched b k l c cs] assms by (simp add: packet_size_def)

section \<open>Waiting\<close>

text \<open>\<open>wait_time\<close> of a link over a drop-tail queue catches up with the clock and then
  returns the time to the next opportunity of the trace exactly, a positive number of
  milliseconds, as long as that opportunity is less than 2^32 ms away.\<close>

lemma drop_tail_link_wait:
  assumes "link_inv internal_queue dropping_inv sched b k l" "unat (c 0) + unat (last sched) < 2 ^ 64"
  shows "\<exists>ms l' c' k'. link_wait_time drop_tail_ops c l = Some (Inr (ms, l', c')) \<and>
    link_inv internal_queue dropping_inv sched b k' l' \<and> catches_up sched b (c 0) k k' l' \<and>
    flow internal_queue l' = flow internal_queue l \<and>
    (\<not> finished l' \<and> opportunity sched b k' < unat (c 0) + 2 ^ 32 \<longrightarrow>
       unat ms = opportunity sched b k' - unat (c 0) \<and> 0 < ms)"
proof -
  from drop_tail.link_wait_time_inv [OF assms(1), of c] assms(2) obtain ms l' c' k' and t' :: u64 where
    1: "link_wait_time drop_tail_ops c l = Some (Inr (ms, l', c'))"
      "link_inv internal_queue dropping_inv sched b k' l'" "catches_up sched b (c 0) k k' l'"
      "progress drop_tail_ops internal_queue dropping_inv (k' - k) l l'"
      "ms = of_nat (unat t' - unat (c 0))" "unat (c 0) < unat t'"
      "\<not> finished l' \<Longrightarrow> unat t' = opportunity sched b k'" by metis
  have "unat ms = opportunity sched b k' - unat (c 0) \<and> 0 < ms"
    if "\<not> finished l'" "opportunity sched b k' < unat (c 0) + 2 ^ 32"
  proof -
    have "unat ms = unat t' - unat (c 0)"
      unfolding 1(5) by (rule unat_of_nat_small) (use 1(7) that in simp)
    moreover from this 1(6) have "0 < unat ms" by simp
    ultimately show ?thesis using 1(7) that(1) by (simp add: word_less_nat_alt)
  qed
  with 1(1-4) exact_dequeue_tail show ?thesis unfolding progress_def by blast
qed

section \<open>Start\<close>

text \<open>The constructor establishes the invariant: with a trace file that \<open>load_schedule\<close>
  accepts and that has fewer than 2^32 lines, a freshly constructed link over a freshly
  constructed drop-tail queue is at opportunity 0 of its trace and holds no packet.\<close>

lemma drop_tail_link_starts:
  assumes "dropping_new args = Inr q"
    "link_new drop_tail_ops env c name filename logfile rep False gd q cmd = Inr (l, c')"
    "length (schedule l) < 2 ^ 32" "unat (base_timestamp l) + unat (hd (schedule l)) < 2 ^ 64"
  shows "link_inv internal_queue dropping_inv (schedule l) (unat (base_timestamp l)) 0 l \<and>
    flow internal_queue l = []"
  using drop_tail.link_new_inv [OF assms(2)] dropping_new_inv [OF assms(1)] assms(3,4) by blast

definition sample_env :: link_env where
  "sample_env = \<lparr>env_euid = 1000, env_egid = 1000, env_trace = Some (''5'' @ [CHR 0x0A]),
     env_log_opens = False, env_initial_timestamp = 0, env_shell_prefix = None\<rparr>"

definition sample_new :: dropping_queue where
  "sample_new = \<lparr>queue_size_in_bytes = 0, queue_size_in_packets = 0, internal_queue = [],
     packet_limit = 9, byte_limit = 0\<rparr>"

lemma sample_new_eq: "dropping_new ''packets=9'' = Inr sample_new"
  by code_simp

section \<open>Empty packets\<close>

text \<open>An empty datagram, which is what \<open>read\<close> returns at the end of file, is accepted into
  an unlimited queue, but the delivery that reaches it fails the assertion that bytes are left.\<close>

lemma empty_packet_aborts:
  assumes "bytes_left l = 0" "internal_queue (packets l) = p # rest" "contents p = []" "left \<noteq> 0"
  shows "deliver infinite_ops t left c l = Inl Assert_failed"
proof -
  have "load_packet infinite_ops c l = Inr (l\<lparr>packets := projr (map_sum id snd (fifo_pop (packets l))),
      packet_in_transit := p, bytes_left := 0\<rparr>, c)"
    using assms by (simp add: load_packet_def infinite_ops_def infinite_dequeue_def fifo_pop_def)
  moreover have "\<not> q_empty infinite_ops (packets l)"
    using assms by (simp add: infinite_ops_def queue_empty_def)
  ultimately show ?thesis
    using assms by (simp add: deliver.simps [of infinite_ops] transit_asserts_def)
qed

definition sample_fd :: file_descriptor where
  "sample_fd = \<lparr>fd_num = 9, eof = False, read_count = 0, write_count = 0, sent = []\<rparr>"

end
