(* ===== verification/Queue_Properties.thy ===== *)
theory Queue_Properties
  imports Infinite_Queue CoDel_Queue Pie_Queue
begin

text \<open>
  What each queue discipline does to the packets it holds, branch by branch, with sample
  queues at which the statements apply.
\<close>

section \<open>Sample queues\<close>

definition sample_bytes :: "nat \<Rightarrow> queued_packet" where
  "sample_bytes n = \<lparr>arrival_time = 10, contents = replicate n CHR ''x''\<rparr>"

definition sample_limited :: "u32 \<Rightarrow> queued_packet list \<Rightarrow> dropping_queue" where
  "sample_limited bl ps = \<lparr>queue_size_in_bytes = of_nat (total_bytes ps),
     queue_size_in_packets = of_nat (length ps), internal_queue = ps, packet_limit = 0,
     byte_limit = bl\<rparr>"

lemma sample_limited_inv:
  "countable ps \<Longrightarrow> within_limits (sample_limited bl ps) ps \<Longrightarrow> dropping_inv (sample_limited bl ps)"
  by (simp add: dropping_inv_def counters_ok_def sample_limited_def)

lemmas sample_limits = within_limits_def countable_def pkt_bytes_def sample_limited_def sample_bytes_def

section \<open>Drop-tail and drop-head\<close>

text \<open>Drop-tail: \<open>enqueue\<close> never fails; the new packet is appended when the limits allow it
  and dropped otherwise, and the packets already held stay as they are.\<close>

lemma drop_tail_enqueue_spec:
  assumes "dropping_inv q" "countable (internal_queue q @ [p])"
  shows "\<exists>q'. drop_tail_enqueue q p = Inr q' \<and> dropping_inv q' \<and>
    internal_queue q' =
      (if within_limits q (internal_queue q @ [p]) then internal_queue q @ [p] else internal_queue q)"
  using drop_tail_enqueue_eq [OF assms] drop_tail_enqueue_inv [OF assms]
  by (simp split: if_splits)

text \<open>C35.  Drop-head: within the limits the packet is appended; when removing the oldest packet
  is enough, exactly that one is dropped; and when more than one would have to go, as a byte
  limit can require, \<open>enqueue\<close> aborts, because its loop calls a \<open>dequeue\<close> that asserts that
  the queue is within its limits again.\<close>

theorem drop_head_enqueue_spec:
  assumes "dropping_inv q" "countable (internal_queue q @ [p])"
  shows "if within_limits q (internal_queue q @ [p])
    then drop_head_enqueue q p = Inr (accept q p)
    else if within_limits q (tl (internal_queue q @ [p]))
    then \<exists>q'. drop_head_enqueue q p = Inr q' \<and> dropping_inv q' \<and>
      internal_queue q' = tl (internal_queue q @ [p])
    else drop_head_enqueue q p = Inl Assert_failed"
proof (cases "within_limits q (internal_queue q @ [p])")
  case True
  then show ?thesis using drop_head_accepts [OF assms] by simp
next
  case False
  show ?thesis
  proof (cases "within_limits q (tl (internal_queue q @ [p]))")
    case True
    from drop_head_drops_one [OF assms False this] obtain q' where
      "drop_head_enqueue q p = Inr q'" "dropping_inv q'" "internal_queue q' = tl (internal_queue q @ [p])" .
    with True False show ?thesis by simp
  next
    case over: False
    from drop_head_aborts [OF assms False over] False over show ?thesis by simp
  qed
qed

theorem drop_head_enqueue_spec_witness:
  "drop_head_enqueue (sample_limited 5 [sample_bytes 2, sample_bytes 3]) (sample_bytes 4) = Inl Assert_failed"
proof -
  have "dropping_inv (sample_limited 5 [sample_bytes 2, sample_bytes 3])"
    by (rule sample_limited_inv) (simp_all add: sample_limits)
  moreover have "countable (internal_queue (sample_limited 5 [sample_bytes 2, sample_bytes 3]) @ [sample_bytes 4])"
    by (simp add: sample_limits)
  ultimately show ?thesis
    using drop_head_enqueue_spec [of "sample_limited 5 [sample_bytes 2, sample_bytes 3]" "sample_bytes 4"]
    by (simp add: sample_limits)
qed

text \<open>C36.  The printed form of a drop-tail or drop-head queue, \<open>droptail [bytes=.., packets=..]\<close>,
  read as the arguments of a new queue, gives an empty queue with the same two limits.\<close>

theorem dropping_args_roundtrip:
  assumes "type \<in> {''droptail'', ''drophead''}" "byte_limit q \<noteq> 0 \<or> packet_limit q \<noteq> 0"
  shows "dropping_new (dropping_to_string type q) =
    Inr \<lparr>queue_size_in_bytes = 0, queue_size_in_packets = 0, internal_queue = [],
         packet_limit = packet_limit q, byte_limit = byte_limit q\<rparr>"
  using assms get_arg_bytes_printed [OF assms(1), of q] get_arg_packets_printed [OF assms(1), of q]
  by (auto simp: dropping_new_def)

theorem dropping_args_roundtrip_witness:
  "dropping_new (dropping_to_string ''drophead'' (sample_limited 5 [])) = Inr (sample_limited 5 [])"
  using dropping_args_roundtrip [of "''drophead''" "sample_limited 5 []"]
  by (simp add: sample_limited_def)

section \<open>CoDel\<close>

definition sample_codel_with :: "u64 \<Rightarrow> bool \<Rightarrow> queued_packet list \<Rightarrow> codel_queue" where
  "sample_codel_with fat drp ps = dropping_queue.extend (sample_limited 9000 ps)
     \<lparr>target = 5, interval = 100, first_above_time = fat, drop_next = 0, codel_count = 0,
      lastcount = 0, dropping = drp\<rparr>"

lemma sample_codel_with_inv:
  "countable ps \<Longrightarrow> total_bytes ps \<le> 9000 \<Longrightarrow> codel_inv (sample_codel_with fat drp ps)"
  by (simp add: codel_inv_def dropping_inv_def counters_ok_def within_limits_def sample_codel_with_def
      dropping_queue.extend_def sample_limited_def countable_def)

lemma sample_codel_with_queue: "internal_queue (sample_codel_with fat drp ps) = ps"
  by (simp add: sample_codel_with_def dropping_queue.extend_def sample_limited_def)

text \<open>C12.  CoDel: \<open>dequeue\<close> on a queue that holds packets ends, fails no assertion, returns the
  oldest packet and discards only packets that follow it directly, keeping the invariant (the
  byte and packet counters, the limits, and a drop counter that cannot wrap).\<close>

theorem codel_dequeue_spec:
  assumes "codel_inv q" "internal_queue q = p # rest"
  shows "\<exists>q' c' k. codel_dequeue c q = Inr (p, q', c') \<and> codel_inv q' \<and> internal_queue q' = drop k rest"
proof -
  from codel_dequeue_inv [OF assms, of c] obtain q' c' where
    q': "codel_dequeue c q = Inr (p, q', c')" "codel_inv q'" "suffix (internal_queue q') rest" by blast
  from q'(3) obtain xs where "rest = xs @ internal_queue q'" by (auto simp: suffix_def)
  then have "internal_queue q' = drop (length xs) rest" by simp
  with q' show ?thesis by blast
qed

theorem codel_dequeue_spec_witness:
  "\<exists>q' c' k. codel_dequeue (\<lambda>_. 50) (sample_codel_with 20 True [sample_bytes 9, sample_bytes 2000, sample_bytes 3]) =
      Inr (sample_bytes 9, q', c') \<and>
    codel_inv q' \<and> internal_queue q' = drop k [sample_bytes 2000, sample_bytes 3]"
  by (rule codel_dequeue_spec [OF sample_codel_with_inv sample_codel_with_queue])
    (simp_all add: sample_limits)

text \<open>CoDel leaves a queue alone whose delay is on target: when the oldest packet has waited
  less than the target, or at most one MTU of 1504 bytes stays behind it, \<open>dequeue\<close> removes
  just that packet and the queue is not in the dropping state afterwards.\<close>

lemma codel_below_target_spec:
  assumes "codel_inv q" "internal_queue q = p # rest"
    "rest = [] \<or> c 0 - arrival_time p < ucast (target q) \<or> total_bytes rest \<le> 1504"
  shows "\<exists>q' c'. codel_dequeue c q = Inr (p, q', c') \<and> internal_queue q' = rest \<and>
    \<not> dropping q' \<and> first_above_time q' = 0"
  using assms codel_dequeue_below [of q p rest c] by (simp add: codel_inv_def below_target_def)

text \<open>C31.  When CoDel enters the dropping state (the delay has been above the target for an
  interval), it returns the packet it has just judged to be late and discards the one after it:
  the result of the second \<open>dodequeue\<close> is held in a variable that shadows the one returned.\<close>

theorem codel_enters_dropping:
  assumes "codel_inv q" "internal_queue q = p # rest" "\<not> dropping q"
    "\<not> below_target (c 0) q p rest" "first_above_time q \<noteq> 0" "first_above_time q \<le> c 0"
  shows "\<exists>q' c'. codel_dequeue c q = Inr (p, q', c') \<and> internal_queue q' = tl rest \<and> dropping q'"
proof -
  have d: "dropping_inv q" using assms(1) by (simp add: codel_inv_def)
  from d assms(2) obtain q1 where q1: "dropping_inv q1" "internal_queue q1 = rest"
    "dropping q1 = dropping q" "dodequeue (c 0) q = Inr (p, \<not> below_target (c 0) q p rest \<and>
      first_above_time q \<noteq> 0 \<and> first_above_time q \<le> c 0, q1)"
    by (rule dodequeue_eq [where now = "c 0"])
  obtain p2 rest2 where r: "rest = p2 # rest2"
    using assms(4) by (cases rest) (auto simp: below_target_def)
  have "internal_queue q1 = p2 # rest2" using q1(2) r by simp
  with q1(1) obtain q2 where q2: "internal_queue q2 = rest2"
    "dodequeue (c 0) q1 = Inr (p2, \<not> below_target (c 0) q1 p2 rest2 \<and>
      first_above_time q1 \<noteq> 0 \<and> first_above_time q1 \<le> c 0, q2)"
    by (rule dodequeue_eq [where now = "c 0"])
  define cnt where "cnt = (if 1 < codel_count q2 - lastcount q2 \<and>
      c 0 - drop_next q2 < ucast (16 * interval q2) then codel_count q2 - lastcount q2 else 1)"
  have "cnt \<noteq> 0" by (auto simp: cnt_def)
  then obtain t where t: "control_law (interval q2) (c 0) cnt = Inr t"
    using control_law_total by blast
  show ?thesis
    using q1 q2 r t assms(3-6) by (simp add: codel_dequeue_def timestamp_def Let_def cnt_def [symmetric])
qed

theorem codel_enters_dropping_witness:
  "\<exists>q' c'. codel_dequeue (\<lambda>_. 50) (sample_codel_with 20 False [sample_bytes 9, sample_bytes 2000, sample_bytes 3]) =
      Inr (sample_bytes 9, q', c') \<and>
    internal_queue q' = tl [sample_bytes 2000, sample_bytes 3] \<and> dropping q'"
  by (rule codel_enters_dropping [OF sample_codel_with_inv sample_codel_with_queue])
    (simp_all add: sample_limits sample_codel_with_def dropping_queue.extend_def below_target_def)

text \<open>CoDel's control law: for a positive drop count the next drop comes at most one
  \<open>interval\<close> after the given time, and at least the time itself, with the double-precision
  square root and division of the code.\<close>

lemma control_law_spec:
  assumes "count \<noteq> 0"
  shows "\<exists>k \<le> unat iv. control_law iv t count = Inr (t + of_nat k)"
proof -
  from control_law_total [OF assms] obtain t' where "control_law iv t count = Inr t'" by blast
  with control_law_bounds [OF this] show ?thesis by blast
qed

section \<open>PIE\<close>

definition sample_pie :: "nat pie_queue" where
  "sample_pie = dropping_queue.extend (sample_limited 9000 [sample_bytes 2000, sample_bytes 1500])
     \<lparr>qdelay_ref = 20, max_burst = 100, drop_prob = 1 / 2, burst_allowance = 0, qdelay_old = 30,
      current_qdelay = 30, dq_count = 0, dq_tstamp = 0, avg_dq_rate = 0, prng = 0, last_update = 0\<rparr>"


lemma sample_pie_queue: "internal_queue sample_pie = [sample_bytes 2000, sample_bytes 1500]"
  by (simp add: sample_pie_def dropping_queue.extend_def sample_limited_def)



text \<open>PIE's \<open>enqueue\<close> never fails.  With the probability up to date, a packet that fits the
  limits is dropped only if the queue is not exempt (burst allowance, low delay and probability,
  or fewer than 3008 bytes queued) and the random number drawn is below the probability.\<close>

lemma pie_enqueue_spec:
  assumes "pie_inv q" "countable (internal_queue q @ [p])"
  shows "\<exists>q1 q' c'. calculate_drop_prob c q = Inr (q1, c') \<and> pie_enqueue draw c q p = Inr (q', c') \<and>
    pie_inv q' \<and> internal_queue q' =
      (if within_limits q (internal_queue q @ [p]) \<and>
          (0 < burst_allowance q1 \<or> (qdelay_old q1 < qdelay_ref q1 div 2 \<and> drop_prob q1 < dbl (2 / 10)) \<or>
           total_bytes (internal_queue q) < 3008 \<or> drop_prob q1 \<le> fst (draw (prng q)))
       then internal_queue q @ [p] else internal_queue q)"
proof -
  obtain q1 q' where r: "calculate_drop_prob c q = Inr (q1, \<lambda>n. c (Suc n))" "same_queue q1 q"
    "pie_enqueue draw c q p = Inr (q', \<lambda>n. c (Suc n))" "pie_inv q'"
    "internal_queue q' = (if within_limits q (internal_queue q @ [p]) \<and>
        (exempt q1 \<or> drop_prob q1 \<le> fst (draw (prng q)))
      then internal_queue q @ [p] else internal_queue q)"
    by (rule pie_enqueue_eq [OF assms])
  have "exempt q1 \<longleftrightarrow> 0 < burst_allowance q1 \<or>
      (qdelay_old q1 < qdelay_ref q1 div 2 \<and> drop_prob q1 < dbl (2 / 10)) \<or>
      total_bytes (internal_queue q) < 3008"
    using r(2) by (simp add: exempt_def same_queue_packets)
  with r(1,3-5) show ?thesis by (simp only: disj_assoc) blast
qed

text \<open>PIE's \<open>dequeue\<close> on a queue that holds packets returns the oldest and only the oldest,
  never fails an assertion and keeps the invariant.\<close>

lemma pie_dequeue_spec:
  assumes "pie_inv q" "internal_queue q = p # rest"
  shows "\<exists>q' c'. pie_dequeue c q = Inr (p, q', c') \<and> pie_inv q' \<and> internal_queue q' = rest"
  using pie_dequeue_inv [OF assms, of c] by blast

end
