(* ===== verification/Ipv4_Text.thy ===== *)
theory Ipv4_Text
  imports Cpp_String
begin

text \<open>
  IPv4 addresses as text, as the C library converts them for \<open>src/frontend/delay_rule.cc\<close> and
  \<open>src/util/address.cc\<close>.
\<close>

text \<open>
  \<open>inet_pton( AF_INET, ... )\<close> and \<open>inet_ntop\<close>.  The address is in network byte order, so on
  the little-endian machine that reads it as a \<open>uint32_t\<close> its first octet is the least
  significant byte.  An octet is one to three digits, without a leading zero, at most 255.
\<close>

definition ipv4_word :: "nat \<Rightarrow> nat \<Rightarrow> nat \<Rightarrow> nat \<Rightarrow> u32" where
  "ipv4_word a b c d = of_nat (a + 256 * b + 65536 * c + 16777216 * d)"

definition octet :: "string \<Rightarrow> nat option" where
  "octet s =
     (if s = [] \<or> 3 < length s \<or> \<not> set s \<subseteq> set decimal_digits \<or> (hd s = CHR ''0'' \<and> 1 < length s)
      then None
      else let n = fst (scan_digits 10 s 0) in if n \<le> 255 then Some n else None)"

definition inet_pton :: "string \<Rightarrow> u32 option" where
  "inet_pton s =
     (case split_char (CHR ''.'') [] s of
        [a, b, c, d] \<Rightarrow>
          (case (octet a, octet b, octet c, octet d) of
             (Some a, Some b, Some c, Some d) \<Rightarrow> Some (ipv4_word a b c d)
           | _ \<Rightarrow> None)
      | _ \<Rightarrow> None)"

definition inet_ntop :: "u32 \<Rightarrow> string" where
  "inet_ntop ip =
     (let n = unat ip
      in dec (n mod 256) @ ''.'' @ dec (n div 256 mod 256) @ ''.'' @
         dec (n div 65536 mod 256) @ ''.'' @ dec (n div 16777216))"

section \<open>Addresses read back\<close>

lemma digit_char_nonzero: "0 < d \<Longrightarrow> d < 10 \<Longrightarrow> digit_char d \<noteq> CHR ''0''"
proof -
  assume "0 < d" "d < 10"
  then have "d \<in> {1, 2, 3, 4, 5, 6, 7, 8, 9}" by auto
  then show ?thesis by (auto simp: digit_char_def decimal_digits_def)
qed

lemma dec_small:
  assumes "n < 1000"
  shows "length (dec n) \<le> 3 \<and> (hd (dec n) = CHR ''0'' \<longrightarrow> length (dec n) = 1)"
proof -
  consider "n < 10" | "10 \<le> n" "n < 100" | "100 \<le> n" by linarith
  then show ?thesis
  proof cases
    case 1
    then show ?thesis by (simp add: dec.simps [of n])
  next
    case 2
    then have "dec n = [digit_char (n div 10), digit_char (n mod 10)]"
      by (simp add: dec.simps [of n] dec.simps [of "n div 10"])
    moreover have "0 < n div 10" "n div 10 < 10" using 2 by (simp_all add: div_greater_zero_iff)
    ultimately show ?thesis using digit_char_nonzero by simp
  next
    case 3
    have d: "n div 10 div 10 = n div 100" by (simp add: div_mult2_eq [symmetric])
    have "10 \<le> n div 10" "n div 100 < 10" "0 < n div 100"
      using 3 assms by (simp_all add: div_greater_zero_iff less_eq_div_iff_mult_less_eq)
    then have "dec n = [digit_char (n div 100), digit_char (n div 10 mod 10), digit_char (n mod 10)]"
      using 3 by (simp add: dec.simps [of n] dec.simps [of "n div 10"] dec.simps [of "n div 100"] d)
    then show ?thesis using digit_char_nonzero \<open>n div 100 < 10\<close> \<open>0 < n div 100\<close> by simp
  qed
qed

lemma octet_dec:
  assumes "n \<le> 255"
  shows "octet (dec n) = Some n"
proof -
  have "n < 1000" using assms by simp
  from dec_small [OF this] show ?thesis
    using assms set_dec [of n] scan_digits_dec [of n "[]" 0] by (auto simp: octet_def Let_def)
qed

lemma dot_not_digit: "CHR ''.'' \<notin> set (dec n)"
  using set_dec [of n] by (auto simp: decimal_digits_def)

lemma octets_of_word:
  fixes n :: nat
  shows "n = n mod 256 + 256 * (n div 256 mod 256) + 65536 * (n div 65536 mod 256) +
    16777216 * (n div 16777216)"
proof -
  have "n = n mod 256 + 256 * (n div 256)" by simp
  moreover have "n div 256 = n div 256 mod 256 + 256 * (n div 65536)"
    using mod_mult_div_eq [of "n div 256" 256] by (simp add: div_mult2_eq [symmetric])
  moreover have "n div 65536 = n div 65536 mod 256 + 256 * (n div 16777216)"
    using mod_mult_div_eq [of "n div 65536" 256] by (simp add: div_mult2_eq [symmetric])
  ultimately show ?thesis by linarith
qed

lemma inet_pton_ntop: "inet_pton (inet_ntop ip) = Some ip"
proof -
  define n where "n = unat ip"
  have n: "n < 2 ^ 32" unfolding n_def by (rule unat_u32_bound)
  then have "n div 16777216 < 256" by (intro less_mult_imp_div_less) simp
  then have "n div 16777216 \<le> 255" by simp
  moreover have "k mod 256 \<le> 255" for k :: nat by simp
  ultimately have "inet_pton (inet_ntop ip) =
      Some (ipv4_word (n mod 256) (n div 256 mod 256) (n div 65536 mod 256) (n div 16777216))"
    by (simp add: inet_pton_def inet_ntop_def Let_def n_def [symmetric] split_char_word dot_not_digit
        octet_dec)
  also have "\<dots> = Some ip"
    using octets_of_word [of n] by (simp add: ipv4_word_def n_def del: of_nat_add of_nat_mult)
  finally show ?thesis .
qed

lemma inet_ntop_inj: "inet_ntop v = inet_ntop w \<Longrightarrow> v = w"
  by (metis inet_pton_ntop option.inject)

end
