(* ===== verification/Cpp_Map.thy ===== *)
theory Cpp_Map
  imports Mahi_Prelude
begin

text \<open>
  \<open>std::map\<close>: an association list in ascending order of its keys, which is the order in
  which the code iterates.
\<close>

type_synonym ('k, 'v) cmap = "('k \<times> 'v) list"

definition cmap_ok :: "('k::linorder, 'v) cmap \<Rightarrow> bool" where
  "cmap_ok m \<longleftrightarrow> sorted_wrt (<) (map fst m)"

text \<open>\<open>m[k] = v\<close>; and the value of \<open>m[k]\<close>, which creates \<open>d\<close> when the key is absent.\<close>

fun cmap_put :: "'k::linorder \<Rightarrow> 'v \<Rightarrow> ('k, 'v) cmap \<Rightarrow> ('k, 'v) cmap" where
  "cmap_put k v [] = [(k, v)]"
| "cmap_put k v ((k', v') # m) =
     (if k < k' then (k, v) # (k', v') # m
      else if k = k' then (k, v) # m
      else (k', v') # cmap_put k v m)"

definition cmap_get :: "'v \<Rightarrow> ('k, 'v) cmap \<Rightarrow> 'k \<Rightarrow> 'v" where
  "cmap_get d m k = (case map_of m k of None \<Rightarrow> d | Some v \<Rightarrow> v)"

lemma cmap_put_keys: "fst ` set (cmap_put k v m) = insert k (fst ` set m)"
  by (induction k v m rule: cmap_put.induct) (simp_all add: insert_commute)

lemma cmap_put_ok: "cmap_ok m \<Longrightarrow> cmap_ok (cmap_put k v m)"
proof (induction m)
  case (Cons x m)
  obtain k' v' where x: "x = (k', v')" by fastforce
  have "\<forall>y \<in> fst ` set m. k' < y" using Cons.prems x by (auto simp: cmap_ok_def)
  with Cons x show ?case
    by (auto simp: cmap_ok_def cmap_put_keys dest: less_trans)
qed (simp add: cmap_ok_def)

lemma cmap_put_lookup: "map_of (cmap_put k v m) = (map_of m)(k \<mapsto> v)"
  by (induction m) auto

lemma cmap_get_put [simp]: "cmap_get d (cmap_put k v m) k' = (if k' = k then v else cmap_get d m k')"
  by (simp add: cmap_get_def cmap_put_lookup)

lemma map_of_put [simp]: "map_of (cmap_put k v m) k' = (if k' = k then Some v else map_of m k')"
  by (simp add: cmap_put_lookup)

end
