(* ===== verification/Delay_Rules.thy ===== *)
theory Delay_Rules
  imports Ipv4_Text Cpp_Map
begin

text \<open>
  \<open>src/frontend/delay_rule.cc\<close>: per-destination delays read from a file, one rule per line.
\<close>

section \<open>A rule\<close>

record delay_rule =
  rule_proto :: u8
  rule_ip :: u32
  rule_port :: u16
  fwd_delay :: u64
  rev_delay :: u64
  fwd_lim :: u64
  fwd_alt_delay :: u64
  rev_lim :: u64
  rev_alt_delay :: u64

definition no_limit :: u64 where "no_limit = - 1"

definition rule_default :: delay_rule where
  "rule_default = \<lparr>rule_proto = 0, rule_ip = 0, rule_port = 0, fwd_delay = 0, rev_delay = 0,
     fwd_lim = no_limit, fwd_alt_delay = 0, rev_lim = no_limit, rev_alt_delay = 0\<rparr>"

definition rule5 :: "u8 \<Rightarrow> u32 \<Rightarrow> u16 \<Rightarrow> u64 \<Rightarrow> u64 \<Rightarrow> delay_rule" where
  "rule5 proto ip port fwd rvd = \<lparr>rule_proto = proto, rule_ip = ip, rule_port = port,
     fwd_delay = fwd, rev_delay = rvd, fwd_lim = no_limit, fwd_alt_delay = fwd,
     rev_lim = no_limit, rev_alt_delay = rvd\<rparr>"

definition rule7 :: "u8 \<Rightarrow> u32 \<Rightarrow> u16 \<Rightarrow> u64 \<Rightarrow> u64 \<Rightarrow> u64 \<Rightarrow> u64 \<Rightarrow> delay_rule" where
  "rule7 proto ip port fwd rvd flim falt = \<lparr>rule_proto = proto, rule_ip = ip, rule_port = port,
     fwd_delay = fwd, rev_delay = rvd, fwd_lim = flim, fwd_alt_delay = falt,
     rev_lim = no_limit, rev_alt_delay = rvd\<rparr>"

definition rule9 ::
  "u8 \<Rightarrow> u32 \<Rightarrow> u16 \<Rightarrow> u64 \<Rightarrow> u64 \<Rightarrow> u64 \<Rightarrow> u64 \<Rightarrow> u64 \<Rightarrow> u64 \<Rightarrow> delay_rule" where
  "rule9 proto ip port fwd rvd flim falt rlim ralt = \<lparr>rule_proto = proto, rule_ip = ip,
     rule_port = port, fwd_delay = fwd, rev_delay = rvd, fwd_lim = flim, fwd_alt_delay = falt,
     rev_lim = rlim, rev_alt_delay = ralt\<rparr>"

text \<open>The accessor \<open>proto()\<close> returns the port, cut to 8 bits.\<close>

definition get_proto :: "delay_rule \<Rightarrow> u8" where
  "get_proto r = ucast (rule_port r)"

definition wildcard_port :: u16 where "wildcard_port = 0"

definition is_port_reqd :: "delay_rule \<Rightarrow> bool" where
  "is_port_reqd r \<longleftrightarrow> rule_port r = wildcard_port"

type_synonym port_rules = "(u16, delay_rule) cmap"
type_synonym ip_rules = "(u32, port_rules) cmap"
type_synonym delay_rules = "(u8, ip_rules) cmap"

text \<open>\<open>rules[proto][ipv4][port] = r\<close>, and the rule found at three keys.\<close>

definition set_rule :: "u8 \<Rightarrow> u32 \<Rightarrow> u16 \<Rightarrow> delay_rule \<Rightarrow> delay_rules \<Rightarrow> delay_rules" where
  "set_rule proto ip port r rules =
     (let ips = cmap_get [] rules proto; ports = cmap_get [] ips ip
      in cmap_put proto (cmap_put ip (cmap_put port r ports) ips) rules)"

definition rule_at :: "delay_rules \<Rightarrow> u8 \<Rightarrow> u32 \<Rightarrow> u16 \<Rightarrow> delay_rule option" where
  "rule_at rules proto ip port = map_of (cmap_get [] (cmap_get [] rules proto) ip) port"

section \<open>Reading the file\<close>

text \<open>The rule that a line with the columns \<open>cols\<close> states.\<close>

definition rule_of_columns :: "string list \<Rightarrow> u32 \<Rightarrow> u32 \<Rightarrow> u32 \<Rightarrow> delay_rule" where
  "rule_of_columns cols proto ipv4 port =
     (let fwd = atol (cols ! 3); rvd = atol (cols ! 4)
      in if 7 \<le> length cols
         then let flim = atol (cols ! 5); falt = atol (cols ! 6)
              in if length cols = 9
                 then let rlim = atol (cols ! 5); ralt = atol (cols ! 6)
                      in rule9 (ucast proto) ipv4 (ucast port) fwd rvd flim falt rlim ralt
                 else rule7 (ucast proto) ipv4 (ucast port) fwd rvd flim falt
         else rule5 (ucast proto) ipv4 (ucast port) fwd rvd)"

definition parse_rule :: "nat \<Rightarrow> string \<Rightarrow> delay_rules \<Rightarrow> delay_rules res" where
  "parse_rule rule_num line rules =
     (let cols = split_words [] line
      in if length cols < 5 \<or> 9 < length cols
         then Inl (Runtime_error (''Failed to parse rule#'' @ dec rule_num @ '': Invalid number of fields!''))
         else
           let proto = atoi (cols ! 0)
           in if 255 < proto
              then Inl (Runtime_error (''Invalid protocol number '' @ [CHR 0x27] @ dec (unat proto) @
                     [CHR 0x27] @ '' in rule #'' @ dec rule_num @ ''!''))
              else
                case inet_pton (cols ! 1) of
                  None \<Rightarrow> Inl (Runtime_error (''IPv4 address '' @ [CHR 0x27] @ cols ! 1 @ [CHR 0x27] @
                            '' not in presentation format!''))
                | Some ipv4 \<Rightarrow>
                    let port = atoi (cols ! 2)
                    in if 65535 < port
                       then Inl (Runtime_error (''Invalid port number '' @ [CHR 0x27] @ dec (unat port) @
                              [CHR 0x27] @ '' in rule #'' @ dec rule_num @ ''!''))
                       else Inr (set_rule (ucast proto) ipv4 (ucast port)
                                   (rule_of_columns cols proto ipv4 port) rules))"

fun parse_rule_lines :: "nat \<Rightarrow> string list \<Rightarrow> delay_rules \<Rightarrow> delay_rules res" where
  "parse_rule_lines n [] rules = Inr rules"
| "parse_rule_lines n (line # lines) rules =
     bindR (parse_rule (n + 1) line rules) (parse_rule_lines (n + 1) lines)"

definition parse_rules :: "string \<Rightarrow> string option \<Rightarrow> delay_rules res" where
  "parse_rules rules_file file =
     (case file of
        None \<Rightarrow> Inl (Runtime_error (''Rules file '' @ [CHR 0x27] @ rules_file @ [CHR 0x27] @ '' does not exist!''))
      | Some contents \<Rightarrow> parse_rule_lines 0 (getlines [] contents) [])"

section \<open>Printing the rules\<close>

definition setw :: "nat \<Rightarrow> char \<Rightarrow> string \<Rightarrow> string" where
  "setw n fill s = replicate (n - length s) fill @ s"

definition show_limit :: "u64 \<Rightarrow> string" where
  "show_limit lim = (if lim = no_limit then ''*'' else dec (unat lim))"

definition show_rule :: "nat \<Rightarrow> u8 \<Rightarrow> u32 \<Rightarrow> u16 \<Rightarrow> delay_rule \<Rightarrow> string" where
  "show_rule rule_num proto ip port r =
     (let sp = CHR '' ''
      in ''#- Rule#'' @ setw 3 (CHR ''0'') (dec rule_num) @ ''  '' @ setw 3 sp (dec (unat proto)) @ '' '' @
         setw 15 sp (inet_ntop ip) @ ''('' @ setw 10 sp (dec (unat ip)) @ '')'' @ '' '' @
         setw 5 sp (if port = 0 then ''*'' else dec (unat port)) @ '' '' @
         setw 5 sp (dec (unat (fwd_delay r))) @ ''ms '' @
         setw 5 sp (dec (unat (rev_delay r))) @ ''ms   '' @ ''F@'' @
         setw 10 sp (show_limit (fwd_lim r)) @ '' '' @
         setw 5 sp (dec (unat (fwd_alt_delay r))) @ ''ms   '' @ ''B@'' @
         setw 10 sp (show_limit (rev_lim r)) @ '' '' @
         setw 5 sp (dec (unat (rev_alt_delay r))) @ ''ms '')"

definition flatten_rules :: "delay_rules \<Rightarrow> (u8 \<times> u32 \<times> u16 \<times> delay_rule) list" where
  "flatten_rules rules =
     concat (map (\<lambda>(proto, ips). concat (map (\<lambda>(ip, ports).
       map (\<lambda>(port, r). (proto, ip, port, r)) ports) ips)) rules)"

definition show_rules :: "delay_rules \<Rightarrow> string list" where
  "show_rules rules =
     map (\<lambda>(n, proto, ip, port, r). show_rule n proto ip port r)
       (zip [1..<length (flatten_rules rules) + 1] (flatten_rules rules))"

section \<open>What a parsed file contains\<close>

text \<open>Every rule is filed under its own address and port.\<close>

definition rules_consistent :: "delay_rules \<Rightarrow> bool" where
  "rules_consistent rules \<longleftrightarrow> (\<forall>proto ip port r. rule_at rules proto ip port = Some r \<longrightarrow>
     rule_proto r = proto \<and> rule_ip r = ip \<and> rule_port r = port)"

lemma rule_at_set:
  "rule_at (set_rule proto ip port r rules) proto' ip' port' =
     (if proto' = proto \<and> ip' = ip \<and> port' = port then Some r else rule_at rules proto' ip' port')"
  by (simp add: rule_at_def set_rule_def Let_def)

lemma rule_of_columns_key:
  "rule_proto (rule_of_columns cols proto ip port) = ucast proto"
  "rule_ip (rule_of_columns cols proto ip port) = ip"
  "rule_port (rule_of_columns cols proto ip port) = ucast port"
  by (simp_all add: rule_of_columns_def Let_def rule5_def rule7_def rule9_def)

lemma parse_rule_Inr:
  assumes "parse_rule n line rules = Inr rules'"
  obtains ip where "inet_pton (split_words [] line ! 1) = Some ip"
    "atoi (split_words [] line ! 0) \<le> 255" "atoi (split_words [] line ! 2) \<le> 65535"
    "rules' = set_rule (ucast (atoi (split_words [] line ! 0))) ip (ucast (atoi (split_words [] line ! 2)))
       (rule_of_columns (split_words [] line) (atoi (split_words [] line ! 0)) ip
         (atoi (split_words [] line ! 2))) rules"
    "5 \<le> length (split_words [] line)" "length (split_words [] line) \<le> 9"
  using assms by (auto simp: parse_rule_def Let_def not_less split: if_splits option.splits)

lemma parse_lines_consistent:
  "parse_rule_lines n lines rules = Inr rules' \<Longrightarrow> rules_consistent rules \<Longrightarrow> rules_consistent rules'"
proof (induction lines arbitrary: n rules)
  case (Cons line lines)
  then obtain rules1 where 1: "parse_rule (n + 1) line rules = Inr rules1"
    "parse_rule_lines (n + 1) lines rules1 = Inr rules'" by (auto simp: bindR_eq_Inr)
  from 1(1) have "rules_consistent rules1"
    by (rule parse_rule_Inr)
      (use Cons.prems(2) in \<open>auto simp: rules_consistent_def rule_at_set rule_of_columns_key\<close>)
  with Cons.IH 1(2) show ?case by blast
qed simp

text \<open>
  With nine columns the limit and the alternative delay of the reverse path are read from
  the columns of the forward path: the last two columns have no effect.
\<close>

lemma nine_columns:
  assumes "length cols = 9"
  shows "rev_lim (rule_of_columns cols proto ip port) = fwd_lim (rule_of_columns cols proto ip port)"
    and "rev_alt_delay (rule_of_columns cols proto ip port) =
      fwd_alt_delay (rule_of_columns cols proto ip port)"
  using assms by (simp_all add: rule_of_columns_def Let_def rule9_def)

end
