(* ===== verification/Adv_Delay_Queue.thy ===== *)
theory Adv_Delay_Queue
  imports Delay_Rules Ferry_Queues "HOL-Library.Multiset"
begin

text \<open>
  \<open>src/frontend/adv_delay_queue.cc\<close>: delays that depend on a packet's headers and on the
  bytes its connection has carried.  A \<open>std::priority_queue\<close> promises only that \<open>top\<close> is an
  element of least release time; which one is the parameter \<open>pick\<close>, an index.
\<close>

type_synonym counters = "(u32, (u16, u64) cmap) cmap"

record adv_delay_queue =
  adv_delay_ms :: u64
  adv_packets :: "(u64 \<times> string) list"
  rules :: delay_rules
  byte_counters :: counters
  pkt_counters :: counters
  uplink :: bool
  num_bytes :: u64
  path_prefix :: string

definition counter_at :: "counters \<Rightarrow> u32 \<Rightarrow> u16 \<Rightarrow> u64" where
  "counter_at m ip port = cmap_get 0 (cmap_get [] m ip) port"

definition counter_put :: "u32 \<Rightarrow> u16 \<Rightarrow> u64 \<Rightarrow> counters \<Rightarrow> counters" where
  "counter_put ip port n m = cmap_put ip (cmap_put port n (cmap_get [] m ip)) m"

lemma counter_at_put [simp]:
  "counter_at (counter_put ip port n m) ip' port' =
     (if ip' = ip \<and> port' = port then n else counter_at m ip' port')"
  by (simp add: counter_at_def counter_put_def)

definition adv_new :: "u64 \<Rightarrow> delay_rules \<Rightarrow> bool \<Rightarrow> string \<Rightarrow> adv_delay_queue" where
  "adv_new ms rs up out_prefix =
     \<lparr>adv_delay_ms = ms, adv_packets = [], rules = rs,
      byte_counters = fold (\<lambda>(proto, ip, port, r). counter_put ip port 0) (flatten_rules rs) [],
      pkt_counters = [], uplink = up, num_bytes = 0, path_prefix = out_prefix\<rparr>"

section \<open>Saving the counters\<close>

text \<open>Each destructor step writes one file: its name and its lines.\<close>

definition save_byte_counters :: "adv_delay_queue \<Rightarrow> string \<times> string list" where
  "save_byte_counters q =
     (path_prefix q @ (if uplink q then ''.bytes_uplink'' else ''.bytes_downlink''),
      [dec (unat (num_bytes q))])"

definition counter_lines :: "counters \<Rightarrow> string list" where
  "counter_lines m =
     concat (map (\<lambda>(ip, ports).
       map (\<lambda>(port, n). inet_ntop ip @ '':'' @ dec (unat port) @ '' '' @ dec (unat n)) ports) m)"

definition save_byte_per_conn_counters :: "adv_delay_queue \<Rightarrow> string \<times> string list" where
  "save_byte_per_conn_counters q =
     (path_prefix q @ (if uplink q then ''.bytes_per_conn_uplink'' else ''.bytes_per_conn_downlink''),
      counter_lines (byte_counters q))"

definition save_pkt_per_conn_counters :: "adv_delay_queue \<Rightarrow> string \<times> string list" where
  "save_pkt_per_conn_counters q =
     (path_prefix q @ (if uplink q then ''.pkts_per_conn_uplink'' else ''.pkts_per_conn_downlink''),
      counter_lines (pkt_counters q))"

definition adv_destroy :: "adv_delay_queue \<Rightarrow> (string \<times> string list) list" where
  "adv_destroy q = [save_byte_counters q, save_byte_per_conn_counters q, save_pkt_per_conn_counters q]"

section \<open>Reading the headers\<close>

text \<open>
  A byte of the packet: the string is followed by one NUL, and reading beyond it is undefined.
  The headers are \<open>struct iphdr\<close> (20 bytes, at offset 4), \<open>tcphdr\<close> and \<open>udphdr\<close>; ports are
  converted by \<open>ntohs\<close>, addresses are compared in network byte order.
\<close>

definition peek :: "string \<Rightarrow> nat \<Rightarrow> nat res" where
  "peek s i = (if i < length s then Inr (of_char (s ! i))
     else if i = length s then Inr 0 else Inl (Undefined_behaviour ''read past the end of a packet''))"

definition peek16 :: "string \<Rightarrow> nat \<Rightarrow> u16 res" where
  "peek16 s i = bindR (peek s i) (\<lambda>a. bindR (peek s (i + 1)) (\<lambda>b. Inr (of_nat (256 * a + b))))"

definition peek_ip :: "string \<Rightarrow> nat \<Rightarrow> u32 res" where
  "peek_ip s i =
     bindR (peek s i) (\<lambda>a. bindR (peek s (i + 1)) (\<lambda>b.
     bindR (peek s (i + 2)) (\<lambda>c. bindR (peek s (i + 3)) (\<lambda>d. Inr (ipv4_word a b c d)))))"

definition ip_offset :: nat where "ip_offset = 4"
definition sizeof_iphdr :: nat where "sizeof_iphdr = 20"

definition path_delay :: "adv_delay_queue \<Rightarrow> delay_rule \<Rightarrow> u64" where
  "path_delay q r = (if uplink q then fwd_delay r else rev_delay r)"

definition get_delay_for_tcp ::
  "port_rules \<Rightarrow> string \<Rightarrow> nat \<Rightarrow> adv_delay_queue \<Rightarrow> (u64 \<times> adv_delay_queue) res" where
  "get_delay_for_tcp ports pkt off q =
     bindR (peek16 pkt (if uplink q then off + 2 else off)) (\<lambda>port.
       case map_of ports port of
         None \<Rightarrow> Inr (adv_delay_ms q, q)
       | Some rule \<Rightarrow>
           let ip = rule_ip rule; rport = rule_port rule;
               bytes_sent = counter_at (byte_counters q) ip rport;
               q' = q\<lparr>byte_counters :=
                        counter_put ip rport (bytes_sent + of_nat (length pkt)) (byte_counters q),
                      pkt_counters :=
                        counter_put ip rport (counter_at (pkt_counters q) ip rport + 1) (pkt_counters q)\<rparr>
           in Inr (if uplink q
                   then (if bytes_sent < fwd_lim rule then fwd_delay rule else fwd_alt_delay rule)
                   else (if bytes_sent < rev_lim rule then rev_delay rule else rev_alt_delay rule), q'))"

definition get_delay_for_udp :: "port_rules \<Rightarrow> string \<Rightarrow> nat \<Rightarrow> adv_delay_queue \<Rightarrow> u64 res" where
  "get_delay_for_udp ports pkt off q =
     bindR (peek16 pkt (if uplink q then off + 2 else off)) (\<lambda>port.
       case map_of ports port of
         None \<Rightarrow> Inr (adv_delay_ms q)
       | Some rule \<Rightarrow> Inr (path_delay q rule))"

text \<open>\<open>IPPROTO_ICMP\<close>, \<open>IPPROTO_TCP\<close> and \<open>IPPROTO_UDP\<close> are 1, 6 and 17.\<close>

definition get_delay_for_ipv4 :: "string \<Rightarrow> adv_delay_queue \<Rightarrow> (u64 \<times> adv_delay_queue) res" where
  "get_delay_for_ipv4 pkt q =
     bindR (peek pkt (ip_offset + 9)) (\<lambda>protocol.
       case map_of (rules q) (of_nat protocol) of
         None \<Rightarrow> Inr (adv_delay_ms q, q)
       | Some ips \<Rightarrow>
           bindR (peek_ip pkt (ip_offset + (if uplink q then 16 else 12))) (\<lambda>addr.
             case map_of ips addr of
               None \<Rightarrow> Inr (adv_delay_ms q, q)
             | Some ports \<Rightarrow>
                 (case map_of ports wildcard_port of
                    Some rule \<Rightarrow> Inr (path_delay q rule, q)
                  | None \<Rightarrow>
                      bindR (peek pkt ip_offset) (\<lambda>b0.
                        let off = ip_offset + b0 mod 16 * 4
                        in if protocol = 1 then Inl Out_of_range
                           else if protocol = 6 then get_delay_for_tcp ports pkt off q
                           else if protocol = 17
                           then bindR (get_delay_for_udp ports pkt off q) (\<lambda>d. Inr (d, q))
                           else Inr (adv_delay_ms q, q)))))"

definition get_delay_for_ipv6 :: "string \<Rightarrow> adv_delay_queue \<Rightarrow> u64 res" where
  "get_delay_for_ipv6 pkt q =
     bindR (peek pkt (ip_offset + 9)) (\<lambda>protocol.
       if protocol \<noteq> 6
       then Inl (Runtime_error (''Data (sz: '' @ dec (length pkt) @ '') is not an IPv6 packet!''))
       else Inr (adv_delay_ms q))"

definition get_delay_for :: "string \<Rightarrow> adv_delay_queue \<Rightarrow> (u64 \<times> adv_delay_queue) res" where
  "get_delay_for pkt q =
     bindR (peek pkt ip_offset) (\<lambda>b0.
       if b0 div 16 \<noteq> 4 then bindR (get_delay_for_ipv6 pkt q) (\<lambda>d. Inr (d, q))
       else get_delay_for_ipv4 pkt q)"

section \<open>The operations\<close>

definition adv_read_packet :: "clock \<Rightarrow> string \<Rightarrow> adv_delay_queue \<Rightarrow> (adv_delay_queue \<times> clock) res" where
  "adv_read_packet c pkt q =
     (let q1 = q\<lparr>num_bytes := num_bytes q + of_nat (length pkt)\<rparr>
      in if length pkt < sizeof_iphdr then Inl (Thrown_pointer ''Packet too small!'')
         else bindR (get_delay_for pkt q1) (\<lambda>(pkt_delay, q2).
                let (now, c') = timestamp c
                in Inr (q2\<lparr>adv_packets := adv_packets q2 @ [(now + pkt_delay, pkt)]\<rparr>, c')))"

definition remove_nth :: "nat \<Rightarrow> 'a list \<Rightarrow> 'a list" where
  "remove_nth i xs = take i xs @ drop (Suc i) xs"

function adv_flush ::
  "((u64 \<times> string) list \<Rightarrow> nat) \<Rightarrow> clock \<Rightarrow> writes \<Rightarrow> file_descriptor \<Rightarrow> (u64 \<times> string) list \<Rightarrow>
   ((u64 \<times> string) list \<times> file_descriptor \<times> writes \<times> clock) res" where
  "adv_flush pick c w f ps =
     (if ps = [] then Inr ([], f, w, c)
      else if length ps \<le> pick ps then Inl (Undefined_behaviour ''top'')
      else let (now, c') = timestamp c; (release, p) = ps ! pick ps
           in if release \<le> now
              then bindR (fd_write w f p) (\<lambda>(f', w'). adv_flush pick c' w' f' (remove_nth (pick ps) ps))
              else Inr (ps, f, w, c'))"
  by pat_completeness auto
termination
  by (relation "measure (\<lambda>(_, _, _, _, ps). length ps)") (auto simp: remove_nth_def)

declare adv_flush.simps [simp del]

definition adv_write_packets ::
  "((u64 \<times> string) list \<Rightarrow> nat) \<Rightarrow> clock \<Rightarrow> writes \<Rightarrow> file_descriptor \<Rightarrow> adv_delay_queue \<Rightarrow>
   (adv_delay_queue \<times> file_descriptor \<times> writes \<times> clock) res" where
  "adv_write_packets pick c w f q =
     bindR (adv_flush pick c w f (adv_packets q)) (\<lambda>(ps, f', w', c').
       Inr (q\<lparr>adv_packets := ps\<rparr>, f', w', c'))"

definition adv_wait_time ::
  "((u64 \<times> string) list \<Rightarrow> nat) \<Rightarrow> clock \<Rightarrow> adv_delay_queue \<Rightarrow> u32 \<times> clock" where
  "adv_wait_time pick c q =
     (if adv_packets q = [] then (uint16_max, c)
      else let (now, c') = timestamp c; release = fst (adv_packets q ! pick (adv_packets q))
           in (if release \<le> now then 0 else ucast (release - now), c'))"

definition adv_pending_output :: "((u64 \<times> string) list \<Rightarrow> nat) \<Rightarrow> clock \<Rightarrow> adv_delay_queue \<Rightarrow> bool" where
  "adv_pending_output pick c q \<longleftrightarrow> fst (adv_wait_time pick c q) \<le> 0"

text \<open>What \<open>std::priority_queue\<close> promises of \<open>top\<close>.\<close>

definition picks_least :: "((u64 \<times> string) list \<Rightarrow> nat) \<Rightarrow> bool" where
  "picks_least pick \<longleftrightarrow> (\<forall>ps. ps \<noteq> [] \<longrightarrow>
     pick ps < length ps \<and> (\<forall>x \<in> set ps. fst (ps ! pick ps) \<le> fst x))"


section \<open>Release in order\<close>

lemma remove_nth_mset: "i < length xs \<Longrightarrow> mset xs = add_mset (xs ! i) (mset (remove_nth i xs))"
proof -
  assume "i < length xs"
  then have "xs = take i xs @ xs ! i # drop (Suc i) xs" by (rule id_take_nth_drop)
  then have "mset xs = mset (take i xs @ xs ! i # drop (Suc i) xs)" by (rule arg_cong)
  then show ?thesis by (simp add: remove_nth_def)
qed

text \<open>
  What is written was queued and due, and comes out in order of release; what stays is
  all of the rest, and does not start before what was written.
\<close>

lemma adv_flush_ok:
  assumes "picks_least pick" "adv_flush pick c w f ps = Inr (ps', f', w', c')"
  shows "\<exists>out. mset ps = mset out + mset ps' \<and> sorted (map fst out) \<and>
    (\<forall>i < length out. fst (out ! i) \<le> c i) \<and>
    (\<forall>x \<in> set out. \<forall>y \<in> set ps'. fst x \<le> fst y) \<and>
    (\<forall>y \<in> set ps'. c (length out) < fst y) \<and>
    concat (sent f') = concat (sent f) @ concat (map snd out)"
  using assms(2)
proof (induction "length ps" arbitrary: ps c w f rule: less_induct)
  case less
  show ?case
  proof (cases "ps = []")
    case True
    with less.prems have "ps' = [] \<and> f' = f" by (simp add: adv_flush.simps [of pick c w f])
    with True show ?thesis by (intro exI [of _ "[]"]) simp
  next
    case False
    define i where "i = pick ps"
    have i: "i < length ps" "\<forall>x \<in> set ps. fst (ps ! i) \<le> fst x"
      using assms(1) False by (simp_all add: picks_least_def i_def)
    obtain release p where rp: "ps ! i = (release, p)" by fastforce
    have m: "mset ps = add_mset (release, p) (mset (remove_nth i ps))"
      using remove_nth_mset [OF i(1)] rp by simp
    then have sub: "set (remove_nth i ps) \<subseteq> set ps"
      by (metis set_mset_add_mset_insert set_mset_mset subset_insertI)
    show ?thesis
    proof (cases "release \<le> c 0")
      case due: False
      with less.prems False i rp have "ps' = ps \<and> f' = f"
        by (simp add: adv_flush.simps [of pick c w f ps] timestamp_def i_def [symmetric])
      moreover have "\<forall>y \<in> set ps. c 0 < fst y" using i(2) rp due by (auto simp: not_le intro: less_le_trans)
      ultimately show ?thesis by (intro exI [of _ "[]"]) simp
    next
      case True
      with less.prems False i rp obtain f1 w1 where
        1: "fd_write w f p = Inr (f1, w1)"
          "adv_flush pick (\<lambda>n. c (Suc n)) w1 f1 (remove_nth i ps) = Inr (ps', f', w', c')"
        by (auto simp: adv_flush.simps [of pick c w f ps] timestamp_def i_def [symmetric] bindR_eq_Inr)
      have "length (remove_nth i ps) < length ps" using i(1) by (simp add: remove_nth_def)
      from less.hyps [OF this 1(2)] obtain out where
        o: "mset (remove_nth i ps) = mset out + mset ps'" "sorted (map fst out)"
          "\<forall>j < length out. fst (out ! j) \<le> c (Suc j)"
          "\<forall>x \<in> set out. \<forall>y \<in> set ps'. fst x \<le> fst y" "\<forall>y \<in> set ps'. c (Suc (length out)) < fst y"
          "concat (sent f') = concat (sent f1) @ concat (map snd out)"
        by blast
      have "set out \<union> set ps' = set (remove_nth i ps)"
        using arg_cong [OF o(1), of set_mset] by simp
      then have least: "\<forall>x \<in> set out \<union> set ps'. release \<le> fst x" using i(2) rp sub by auto
      have "\<forall>j < length ((release, p) # out). fst (((release, p) # out) ! j) \<le> c j"
        using True o(3) by (auto simp: nth_Cons split: nat.split)
      moreover have "sorted (map fst ((release, p) # out))" using o(2) least by auto
      moreover have "mset ps = mset ((release, p) # out) + mset ps'" using m o(1) by simp
      moreover have "concat (sent f') = concat (sent f) @ concat (map snd ((release, p) # out))"
        using fd_write_sent [OF 1(1)] o(6) by simp
      ultimately show ?thesis
        using o(4,5) least by (intro exI [of _ "(release, p) # out"]) auto
    qed
  qed
qed

section \<open>Switching delays\<close>

text \<open>
  The delay of a TCP packet on a path with a limit depends only on the bytes counted for
  its rule before it, and the packet is then counted, header included.
\<close>

lemma tcp_delay_counts:
  assumes "peek16 pkt (if uplink q then off + 2 else off) = Inr port" "map_of ports port = Some rule"
  shows "\<exists>q'. get_delay_for_tcp ports pkt off q =
      Inr (if uplink q
           then (if counter_at (byte_counters q) (rule_ip rule) (rule_port rule) < fwd_lim rule
                 then fwd_delay rule else fwd_alt_delay rule)
           else (if counter_at (byte_counters q) (rule_ip rule) (rule_port rule) < rev_lim rule
                 then rev_delay rule else rev_alt_delay rule), q') \<and>
    counter_at (byte_counters q') (rule_ip rule) (rule_port rule) =
      counter_at (byte_counters q) (rule_ip rule) (rule_port rule) + of_nat (length pkt) \<and>
    (\<forall>ip port. (ip, port) \<noteq> (rule_ip rule, rule_port rule) \<longrightarrow>
      counter_at (byte_counters q') ip port = counter_at (byte_counters q) ip port)"
  using assms by (simp add: get_delay_for_tcp_def Let_def)

text \<open>
  \<open>read_packet\<close> checks for 20 bytes, the size of an IP header, but the header starts at
  offset 4: a packet of 20 bytes that matches a protocol rule is read past its end.
\<close>

lemma short_packet_undefined:
  assumes "length pkt = 20" "of_char (pkt ! 4) div 16 = (4 :: nat)"
    "map_of (rules q) (of_nat (of_char (pkt ! 13))) = Some ips" "uplink q"
  shows "adv_read_packet c pkt q = Inl (Undefined_behaviour ''read past the end of a packet'')"
  using assms by (simp add: adv_read_packet_def sizeof_iphdr_def get_delay_for_def peek_def
      ip_offset_def get_delay_for_ipv4_def peek_ip_def)

text \<open>An ICMP packet to an address that has rules, none of them for port 0, stops the program.\<close>

lemma icmp_without_wildcard:
  assumes "of_char (pkt ! 4) div 16 = (4 :: nat)" "of_char (pkt ! 13) = (1 :: nat)" "24 \<le> length pkt"
    "map_of (rules q) 1 = Some ips" "peek_ip pkt (if uplink q then 20 else 16) = Inr addr"
    "map_of ips addr = Some ports" "map_of ports wildcard_port = None"
  shows "adv_read_packet c pkt q = Inl Out_of_range"
  using assms by (cases "uplink q") (simp_all add: adv_read_packet_def sizeof_iphdr_def
      get_delay_for_def peek_def ip_offset_def get_delay_for_ipv4_def)

end
