(* ===== verification/Frontend_Properties.thy ===== *)
theory Frontend_Properties
  imports Link_Queue Adv_Delay_Queue
begin

text \<open>
  What the delay, loss and rule-based delay queues, the descriptors and graphs they use,
  and the two input formats (packet-delivery traces and rule files) promise.
\<close>

definition idle_fd :: file_descriptor where
  "idle_fd = \<lparr>fd_num = 5, eof = False, read_count = 0, write_count = 0, sent = []\<rparr>"

section \<open>Descriptors and graphs\<close>

text \<open>\<open>FileDescriptor::write\<close> with \<open>write_all\<close>: when it returns, however many bytes each
  \<open>write(2)\<close> accepted, exactly the buffer was appended to what the descriptor has sent.\<close>

lemma fd_write_all:
  assumes "fd_write w f buf = Inr (f', w')"
  shows "concat (sent f') = concat (sent f) @ buf \<and> buf \<noteq> []"
  using fd_write_sent [OF assms] fd_write_nonempty [OF assms] by simp

text \<open>\<open>BinnedLiveGraph::advance\<close> ends, and closes exactly the bins between the current one
  and the bin of the present time: every line of the graph gains one point per bin closed, and
  a clock that has gone back changes nothing.\<close>

lemma graph_advance_spec:
  assumes "length (data_points g) = length (value_this_bin g)"
  shows "\<exists>g'. advance c g = Inr (g', \<lambda>n. c (Suc n)) \<and>
    current_bin g' = max (current_bin g) (c 0 div ucast (bin_width_ms g)) \<and>
    (\<forall>j < length (data_points g). length (data_points g' ! j) =
      length (data_points g ! j) + (unat (c 0 div ucast (bin_width_ms g)) - unat (current_bin g)))"
proof -
  have "graph_wf g" using assms by (simp add: graph_wf_def)
  then show ?thesis by (rule advance_ok) (auto simp: gains_def)
qed

section \<open>Delay and loss\<close>

text \<open>\<open>DelayQueue\<close>: \<open>write_packets\<close> writes, in order of arrival, a prefix of the packets held;
  every packet written is due at the clock reading made for it, and the packet that stops the
  loop is not due.\<close>

lemma delay_write_spec:
  assumes "delay_write_packets c w f q = Inr (q', f', w', c')"
  shows "\<exists>out. delayed q = out @ delayed q' \<and> concat (sent f') = concat (sent f) @ concat (map snd out) \<and>
    (\<forall>i < length out. fst (out ! i) \<le> c i) \<and>
    (delayed q' \<noteq> [] \<longrightarrow> c (length out) < fst (hd (delayed q')))"
proof -
  obtain ps where ps: "delay_flush c w f (delayed q) = Inr (ps, f', w', c')" "q' = q\<lparr>delayed := ps\<rparr>"
    using assms by (auto simp: delay_write_packets_def bindR_eq_Inr)
  from ps(1) obtain out where "delayed q = out @ ps"
    "concat (sent f') = concat (sent f) @ concat (map snd out)"
    "\<forall>i < length out. fst (out ! i) \<le> c i" "ps \<noteq> [] \<longrightarrow> c (length out) < fst (hd ps)"
    by (rule delay_flush_ok) simp
  with ps(2) show ?thesis by auto
qed

text \<open>\<open>wait_time\<close> of a \<open>DelayQueue\<close> whose oldest packet is not due is exactly the time
  left, and no output is pending, if the time left is less than 2^32 ms (it is truncated to 32
  bits).\<close>

lemma delay_wait_spec:
  assumes "delayed q = (release, p) # rest" "c 0 < release" "unat release < unat (c 0) + 2 ^ 32"
  shows "\<exists>ms. delay_wait_time c q = (ms, \<lambda>n. c (Suc n)) \<and> unat ms = unat release - unat (c 0) \<and>
    \<not> delay_pending_output c q"
proof -
  have le: "c 0 \<le> release" using assms(2) by simp
  have "unat (release - c 0) = unat release - unat (c 0)" by (rule unat_sub [OF le])
  then have "unat (release - c 0) < 2 ^ 32" using assms(3) by simp
  then have "unat (ucast (release - c 0) :: u32) = unat release - unat (c 0)"
    using \<open>unat (release - c 0) = _\<close> by (simp add: unsigned_ucast_eq take_bit_nat_eq_self)
  moreover have "0 < unat release - unat (c 0)" using assms(2) by (simp add: word_less_nat_alt)
  ultimately have "unat (ucast (release - c 0) :: u32) = unat release - unat (c 0) \<and>
      (ucast (release - c 0) :: u32) \<noteq> 0"
    by (metis unat_0 less_not_refl)
  then show ?thesis
    using assms by (simp add: delay_wait_time_def delay_pending_output_def timestamp_def not_le)
qed

text \<open>C38.  \<open>SwitchingLink::wait_time\<close> returns, with the next switch in the future and no packet
  lost, whatever the rates are, provided that the durations that the switches to come draw, from the two distributions in
  turn, are never negative (nor not a number), and that after any number of them there is one more of at least 1 ms;
  and that the clock is not within 2^30 ms of its largest value.  Durations of an exponential distribution are never
  negative, and some later one lasts 1 ms with probability 1 if one of the two mean times is neither 0
  nor infinite: the loop may draw any number of shorter ones, which it truncates to 0, before that.\<close>

theorem switching_wait_ends:
  assumes "\<And>n. nonnegative (switch_draws ex q n)" "\<And>m. \<exists>n \<ge> m. at_least_one (switch_draws ex q n)"
    "unat (c 0) + 2 ^ 30 < 2 ^ 64"
  shows "\<exists>ms q' c'. switching_wait_time ex c q = Some (Inr (ms, q', c')) \<and> c 0 < next_switch_time q' \<and>
    loss_packets q' = loss_packets q \<and> ms \<le> uint16_max"
proof -
  from switch_until_total [where ex = ex, OF assms] obtain q' where q': "switch_until ex (c 0) q = Some (Inr q')" by blast
  have le: "ucast x \<le> uint16_max" if "\<not> ucast uint16_max < (x :: u64)" for x
    using that by (simp add: uint16_max_def word_le_nat_alt word_less_nat_alt unsigned_ucast_eq take_bit_nat_eq_self not_less)
  show ?thesis
    using switch_until_post [OF q' refl] q' le by (simp add: switching_wait_time_def timestamp_def)
qed

text \<open>Every other duration is half a millisecond.\<close>

definition sample_exponential :: "double \<Rightarrow> nat \<Rightarrow> double \<times> nat" where
  "sample_exponential rate g = (if even g then Finite (1 / 2) else Finite 7, Suc g)"

lemma sample_draws: "draws sample_exponential rate other g n = (if even (g + n) then Finite (1 / 2) else Finite 7)"
  by (induction sample_exponential rate other g n rule: draws.induct) (simp_all add: sample_exponential_def)

theorem switching_wait_ends_witness:
  "\<exists>ms q' c'. switching_wait_time sample_exponential (\<lambda>_. 20)
      (fst (switching_new 0 (\<lambda>_. 5) (Finite 1) (Finite 1))) = Some (Inr (ms, q', c')) \<and> 20 < next_switch_time q' \<and>
    loss_packets q' = [] \<and> ms \<le> uint16_max"
proof -
  let ?q = "fst (switching_new 0 (\<lambda>_. 5) (Finite 1) (Finite 1))"
  have d: "switch_draws sample_exponential ?q n = (if even n then Finite (1 / 2) else Finite 7)" for n
    by (simp add: switch_draws_def switching_new_def timestamp_def sample_draws)
  have "\<exists>n \<ge> m. at_least_one (switch_draws sample_exponential ?q n)" for m
    by (rule exI [of _ "2 * m + 1"]) (simp add: d)
  with switching_wait_ends [of sample_exponential ?q "\<lambda>_. 20"] show ?thesis
    by (simp add: d) (simp add: switching_new_def timestamp_def)
qed

text \<open>Through the event loop of the ferry, an \<open>IIDLoss\<close> queue delivers, byte for byte, a
  subsequence of the datagrams in their order of arrival, whatever the random engine.\<close>

lemma loss_fifo:
  assumes "ferry_run (iid_ops bernoulli) evs (q, f, w, c) = Some (Inr (q', f', w', c'))"
  shows "\<exists>out. concat (sent f') = concat (sent f) @ concat out \<and>
    subseq (out @ loss_packets q') (loss_packets q @ datagrams evs)"
proof -
  have "run_fits (iid_ops bernoulli) (\<lambda>_ _ _. True) (\<lambda>_ _. True) evs (q, f, w, c)" for q f w c
    by (induction evs arbitrary: q f w c)
      (auto simp: event_fits_def split: option.splits sum.splits ferry_event.splits)
  from iid.ferry_run_fifo [OF _ this assms] show ?thesis by simp
qed

section \<open>Input formats\<close>

text \<open>C37.  A packet-delivery trace that \<open>load_schedule\<close> accepts is a nonempty, nondecreasing list of
  times whose last is not 0, so the repeated trace has opportunities at ever later times: the
  \<open>n\<close>-th pass over the trace ends no earlier than \<open>n\<close> ms after its start.\<close>

theorem accepted_trace_advances:
  assumes "load_schedule filename trace = Inr sched" "length sched < 2 ^ 32"
  shows "sched \<noteq> [] \<and> sorted sched \<and> last sched \<noteq> 0 \<and>
    (\<forall>i j. i \<le> j \<longrightarrow> opportunity sched b i \<le> opportunity sched b j) \<and>
    (\<forall>n. b + n \<le> opportunity sched b (n * length sched))"
proof -
  have t: "trace_ok sched" by (rule load_schedule_trace_ok [OF assms])
  then have s: "sched \<noteq> []" "sorted sched" "last sched \<noteq> 0" by (simp_all add: trace_ok_def)
  have "1 \<le> unat (last sched)" using s(3) by (metis One_nat_def Suc_leI unat_gt_0)
  then have "n \<le> n * unat (last sched)" for n by simp
  then have "b + n \<le> opportunity sched b (n * length sched)" for n
    using s(1) by (simp add: opportunity_def trans_le_add1)
  with s opportunity_mono [OF t] show ?thesis by blast
qed

theorem accepted_trace_advances_witness:
  "load_schedule ''t'' (Some (''0'' @ [CHR 0x0A] @ ''7'' @ [CHR 0x0A])) = Inr [0, 7] \<and>
   (\<forall>n. 10 + n \<le> opportunity [0, 7] 10 (n * length [0 :: u64, 7]))"
proof -
  have l: "load_schedule ''t'' (Some (''0'' @ [CHR 0x0A] @ ''7'' @ [CHR 0x0A])) = Inr [0, 7]" by code_simp
  from accepted_trace_advances [OF l, of 10] l show ?thesis by simp
qed

text \<open>Every rule in the nested map that \<open>parse_rules\<close> builds carries the protocol, address and
  port it is filed under, whatever the file says (later lines replace earlier ones).\<close>

lemma parsed_rules_consistent:
  assumes "parse_rules name file = Inr rs" "rule_at rs proto ip port = Some r"
  shows "rule_proto r = proto \<and> rule_ip r = ip \<and> rule_port r = port"
proof -
  obtain ls where "parse_rule_lines 0 (getlines [] ls) [] = Inr rs"
    using assms(1) by (auto simp: parse_rules_def split: option.splits)
  moreover have "rules_consistent []" by (simp add: rules_consistent_def rule_at_def cmap_get_def)
  ultimately have "rules_consistent rs" by (rule parse_lines_consistent)
  with assms(2) show ?thesis by (simp add: rules_consistent_def)
qed

definition sample_rules :: "string option" where
  "sample_rules = Some (''6 10.0.0.1 80 5 7'' @ [CHR 0x0A])"

text \<open>In a line of nine columns the limit and the alternative delay of the reverse path are
  read from columns 5 and 6, those of the forward path, and columns 7 and 8 are never used.\<close>

lemma nine_column_rules:
  assumes "length cols = 9"
  shows "rev_lim (rule_of_columns cols proto ip port) = fwd_lim (rule_of_columns cols proto ip port) \<and>
    rev_alt_delay (rule_of_columns cols proto ip port) =
      fwd_alt_delay (rule_of_columns cols proto ip port) \<and>
    rule_of_columns (cols[7 := x, 8 := y]) proto ip port = rule_of_columns cols proto ip port"
  by (intro conjI nine_columns assms) (simp add: rule_of_columns_def Let_def)

section \<open>Rule-based delay\<close>

text \<open>C13.  The priority queue of \<open>AdvDelayQueue\<close>: whatever order the heap gives to equal release
  times, \<open>write_packets\<close> writes the packets that are due in nondecreasing order of release time,
  loses and duplicates none, and leaves only packets that are not due at the last reading.\<close>

theorem adv_write_spec:
  assumes "picks_least pick" "adv_write_packets pick c w f q = Inr (q', f', w', c')"
  shows "\<exists>out. mset (adv_packets q) = mset out + mset (adv_packets q') \<and> sorted (map fst out) \<and>
    (\<forall>i < length out. fst (out ! i) \<le> c i) \<and> (\<forall>y \<in> set (adv_packets q'). c (length out) < fst y) \<and>
    concat (sent f') = concat (sent f) @ concat (map snd out)"
proof -
  obtain ps where ps: "adv_flush pick c w f (adv_packets q) = Inr (ps, f', w', c')" "q' = q\<lparr>adv_packets := ps\<rparr>"
    using assms(2) by (auto simp: adv_write_packets_def bindR_eq_Inr)
  from adv_flush_ok [OF assms(1) ps(1)] ps(2) show ?thesis by auto
qed

fun least_index :: "(u64 \<times> string) list \<Rightarrow> nat" where
  "least_index [] = 0"
| "least_index [x] = 0"
| "least_index (x # xs) = (let i = least_index xs in if fst x \<le> fst (xs ! i) then 0 else Suc i)"

lemma least_index_picks: "picks_least least_index"
proof -
  have "least_index ps < length ps \<and> (\<forall>x \<in> set ps. fst (ps ! least_index ps) \<le> fst x)" if "ps \<noteq> []" for ps
    using that
  proof (induction ps rule: least_index.induct)
    case (3 x y ys)
    then show ?case by (auto simp: Let_def)
  qed auto
  then show ?thesis by (simp add: picks_least_def)
qed

theorem adv_write_spec_witness:
  "\<exists>q' f' w' c' out. adv_write_packets least_index (\<lambda>_. 50) (\<lambda>_. 1) idle_fd
      ((adv_new 0 [] True [])\<lparr>adv_packets := [(60, ''b''), (45, ''a'')]\<rparr>) = Inr (q', f', w', c') \<and>
    mset [(60, ''b''), (45, ''a'')] = mset out + mset (adv_packets q') \<and>
    concat (sent f') = ''a'' \<and> concat (sent f') = concat (map snd out)"
proof -
  let ?q = "(adv_new 0 [] True [])\<lparr>adv_packets := [(60, ''b''), (45, ''a'')]\<rparr>"
  have "adv_write_packets least_index (\<lambda>_. 50) (\<lambda>_. 1) idle_fd ?q =
      Inr (?q\<lparr>adv_packets := [(60, ''b'')]\<rparr>, idle_fd\<lparr>write_count := 1, sent := [''a'']\<rparr>, \<lambda>_. 1, \<lambda>_. 50)"
    by (simp add: adv_write_packets_def adv_flush.simps timestamp_def fd_write_whole idle_fd_def
        remove_nth_def)
  from adv_write_spec [OF least_index_picks this] this show ?thesis by (auto simp: idle_fd_def)
qed

text \<open>A TCP packet whose port has a rule is delayed by the rule's delay while the bytes counted
  for the rule are below its limit and by its alternative delay from then on; the packet's
  bytes are counted for that rule and for no other.\<close>

lemma tcp_delay_spec:
  assumes "peek16 pkt (if uplink q then off + 2 else off) = Inr port" "map_of ports port = Some rule"
  shows "\<exists>q'. get_delay_for_tcp ports pkt off q =
      Inr (if uplink q
           then (if counter_at (byte_counters q) (rule_ip rule) (rule_port rule) < fwd_lim rule
                 then fwd_delay rule else fwd_alt_delay rule)
           else (if counter_at (byte_counters q) (rule_ip rule) (rule_port rule) < rev_lim rule
                 then rev_delay rule else rev_alt_delay rule), q') \<and>
    counter_at (byte_counters q') (rule_ip rule) (rule_port rule) =
      counter_at (byte_counters q) (rule_ip rule) (rule_port rule) + of_nat (length pkt) \<and>
    (\<forall>ip port. (ip, port) \<noteq> (rule_ip rule, rule_port rule) \<longrightarrow>
      counter_at (byte_counters q') ip port = counter_at (byte_counters q) ip port)"
  by (rule tcp_delay_counts [OF assms])

end
