(* ===== verification/Http_Message.thy ===== *)
theory Http_Message
  imports Cpp_String
begin

text \<open>
  \<open>src/http/tokenize.hh\<close>, \<open>mime_type.cc\<close>, \<open>http_header.cc\<close> and \<open>http_message.cc\<close>: the parts of
  an HTTP message and the state machine that assembles one.  The three virtual functions
  of \<open>HTTPMessage\<close> are a record of operations on the message type.
\<close>

section \<open>Tokens\<close>

text \<open>\<open>string::npos\<close>, and subtraction in \<open>size_t\<close>.\<close>

definition npos :: nat where "npos = 2 ^ 64 - 1"

definition size_sub :: "nat \<Rightarrow> nat \<Rightarrow> nat" where
  "size_sub a b = (if b \<le> a then a - b else 2 ^ 64 - (b - a))"

lemma str_find_from_ge: "str_find_from h pat pos = Some i \<Longrightarrow> pos \<le> i \<and> i + length pat \<le> length h"
  by (auto simp: str_find_from_def split: if_splits dest: str_find_Some_length)

function token_indices :: "string \<Rightarrow> string \<Rightarrow> nat \<Rightarrow> nat list" where
  "token_indices str sep next =
     (case str_find_from str sep next of
        None \<Rightarrow> []
      | Some i \<Rightarrow> if length str < i then [] else i # token_indices str sep (i + 1))"
  by pat_completeness auto

termination
  by (relation "measure (\<lambda>(str, sep, next). length str + 1 - next)")
    (auto dest!: str_find_from_ge)

declare token_indices.simps [simp del]

fun inner_tokens :: "string \<Rightarrow> nat \<Rightarrow> nat list \<Rightarrow> string list res" where
  "inner_tokens str n (i # j # is) =
     bindR (substr str (i + n) (size_sub (size_sub j i) n)) (\<lambda>t.
     bindR (inner_tokens str n (j # is)) (\<lambda>ts. Inr (t # ts)))"
| "inner_tokens str n _ = Inr []"

definition split :: "string \<Rightarrow> string \<Rightarrow> string list res" where
  "split str sep =
     (let indices = token_indices str sep 0
      in if indices = [] then Inr [str]
         else bindR (substr str 0 (hd indices)) (\<lambda>first.
              bindR (inner_tokens str (length sep) indices) (\<lambda>inner.
              bindR (substr_from str (last indices + length sep)) (\<lambda>final.
                Inr (first # inner @ [final])))))"

text \<open>\<open>MIMEType\<close>: only the type is kept.\<close>

definition mime_type :: "string \<Rightarrow> string res" where
  "mime_type content_type =
     bindR (split content_type '';'') (\<lambda>type_and_parameters.
       if type_and_parameters = [] \<or> hd type_and_parameters = []
       then Inl (Runtime_error ''MIMEType: invalid MIME media-type string'')
       else Inr (hd type_and_parameters))"

section \<open>Headers\<close>

record http_header =
  key :: string
  val :: string

definition header_new :: "string \<Rightarrow> http_header res" where
  "header_new buf =
     (case str_find buf '':'' of
        None \<Rightarrow> Inl (Runtime_error ''HTTPHeader: buffer does not contain colon'')
      | Some colon_location \<Rightarrow>
          bindR (substr buf 0 colon_location) (\<lambda>k.
          bindR (substr_from buf (colon_location + 1)) (\<lambda>value_temp.
            case find_first_not_of value_temp '' '' of
              None \<Rightarrow> Inr \<lparr>key = k, val = value_temp\<rparr>
            | Some first_nonspace \<Rightarrow>
                bindR (substr_from value_temp first_nonspace) (\<lambda>v. Inr \<lparr>key = k, val = v\<rparr>))))"

definition header_str :: "http_header \<Rightarrow> string" where
  "header_str h = key h @ '': '' @ val h"

section \<open>Comparing names\<close>

definition http_to_lower :: "char \<Rightarrow> char" where
  "http_to_lower c =
     (let n = of_char c :: nat in if 65 \<le> n \<and> n \<le> 90 then char_of (n + 32) else c)"

definition strip_initial_whitespace :: "string \<Rightarrow> string" where
  "strip_initial_whitespace s =
     (case find_first_not_of s '' '' of None \<Rightarrow> [] | Some i \<Rightarrow> drop i s)"

definition equivalent_strings :: "string \<Rightarrow> string \<Rightarrow> bool" where
  "equivalent_strings a b =
     (let new_a = strip_initial_whitespace a; new_b = strip_initial_whitespace b
      in if length new_a \<noteq> length new_b then False
         else list_all2 (\<lambda>x y. http_to_lower x = http_to_lower y) new_a new_b)"

section \<open>Messages\<close>

datatype http_state = FIRST_LINE_PENDING | HEADERS_PENDING | BODY_PENDING | COMPLETE

text \<open>The code compares states with \<open><\<close>: the order of the \<open>enum\<close>.\<close>

instantiation http_state :: linorder
begin

definition less_eq_http_state :: "http_state \<Rightarrow> http_state \<Rightarrow> bool" where
  "less_eq_http_state a b = (a = b \<or> a = FIRST_LINE_PENDING \<or> b = COMPLETE \<or>
     (a = HEADERS_PENDING \<and> b = BODY_PENDING))"

definition less_http_state :: "http_state \<Rightarrow> http_state \<Rightarrow> bool" where
  "less_http_state a b = (a \<le> b \<and> a \<noteq> (b :: http_state))"

instance
proof
  fix a b c :: http_state
  show "a < b \<longleftrightarrow> a \<le> b \<and> \<not> b \<le> a"
    by (cases a; cases b) (simp_all add: less_http_state_def less_eq_http_state_def)
  show "a \<le> a" by (simp add: less_eq_http_state_def)
  show "a \<le> b \<Longrightarrow> b \<le> c \<Longrightarrow> a \<le> c"
    by (cases a; cases b; cases c) (simp_all add: less_eq_http_state_def)
  show "a \<le> b \<Longrightarrow> b \<le> a \<Longrightarrow> a = b"
    by (cases a; cases b) (simp_all add: less_eq_http_state_def)
  show "a \<le> b \<or> b \<le> a"
    by (cases a; cases b) (simp_all add: less_eq_http_state_def)
qed

end

record http_message =
  expected_size :: "bool \<times> nat"
  first_line :: string
  headers :: "http_header list"
  body :: string
  state :: http_state

definition crlf :: string where "crlf = [CHR 0x0D, CHR 0x0A]"

record 'm message_ops =
  calculate_expected_body_size :: "'m \<Rightarrow> 'm res"
  read_in_complex_body :: "string \<Rightarrow> 'm \<Rightarrow> (nat \<times> 'm) res"
  eof_in_body :: "'m \<Rightarrow> bool res"
  fresh :: 'm

definition set_first_line :: "string \<Rightarrow> 'a http_message_scheme \<Rightarrow> 'a http_message_scheme res" where
  "set_first_line str m =
     assertR (state m = FIRST_LINE_PENDING) (Inr (m\<lparr>first_line := str, state := HEADERS_PENDING\<rparr>))"

definition add_header :: "string \<Rightarrow> 'a http_message_scheme \<Rightarrow> 'a http_message_scheme res" where
  "add_header str m =
     assertR (state m = HEADERS_PENDING)
       (bindR (header_new str) (\<lambda>h. Inr (m\<lparr>headers := headers m @ [h]\<rparr>)))"

definition done_with_headers ::
  "'a http_message_scheme message_ops \<Rightarrow> 'a http_message_scheme \<Rightarrow> 'a http_message_scheme res" where
  "done_with_headers ops m =
     assertR (state m = HEADERS_PENDING) (calculate_expected_body_size ops (m\<lparr>state := BODY_PENDING\<rparr>))"

definition set_expected_body_size ::
  "bool \<Rightarrow> nat \<Rightarrow> 'a http_message_scheme \<Rightarrow> 'a http_message_scheme res" where
  "set_expected_body_size is_known n m =
     assertR (state m = BODY_PENDING) (Inr (m\<lparr>expected_size := (is_known, n)\<rparr>))"

definition body_size_is_known :: "'a http_message_scheme \<Rightarrow> bool res" where
  "body_size_is_known m = assertR (HEADERS_PENDING < state m) (Inr (fst (expected_size m)))"

definition expected_body_size :: "'a http_message_scheme \<Rightarrow> nat res" where
  "expected_body_size m =
     bindR (body_size_is_known m) (\<lambda>known. assertR known (Inr (snd (expected_size m))))"

definition read_in_body ::
  "'a http_message_scheme message_ops \<Rightarrow> string \<Rightarrow> 'a http_message_scheme \<Rightarrow>
   (nat \<times> 'a http_message_scheme) res" where
  "read_in_body ops str m =
     assertR (state m = BODY_PENDING)
       (bindR (body_size_is_known m) (\<lambda>known.
         if known then
           bindR (expected_body_size m) (\<lambda>expected.
           assertR (length (body m) \<le> expected) (
             let amount_to_append = min (expected - length (body m)) (length str);
                 m' = m\<lparr>body := body m @ take amount_to_append str\<rparr>
             in Inr (amount_to_append,
                     if length (body m') = expected then m'\<lparr>state := COMPLETE\<rparr> else m')))
         else read_in_complex_body ops str m))"

definition message_eof ::
  "'a http_message_scheme message_ops \<Rightarrow> 'a http_message_scheme \<Rightarrow> 'a http_message_scheme res" where
  "message_eof ops m =
     (case state m of
        FIRST_LINE_PENDING \<Rightarrow> Inr m
      | HEADERS_PENDING \<Rightarrow> Inl (Runtime_error ''HTTPMessage: EOF received in middle of headers'')
      | BODY_PENDING \<Rightarrow> bindR (eof_in_body ops m) (\<lambda>e. Inr (if e then m\<lparr>state := COMPLETE\<rparr> else m))
      | COMPLETE \<Rightarrow> Inl Assert_failed)"

definition has_header :: "string \<Rightarrow> 'a http_message_scheme \<Rightarrow> bool" where
  "has_header name m = (\<exists>h \<in> set (headers m). equivalent_strings (key h) name)"

definition get_header_value :: "string \<Rightarrow> 'a http_message_scheme \<Rightarrow> string res" where
  "get_header_value name m =
     (case find (\<lambda>h. equivalent_strings (key h) name) (headers m) of
        None \<Rightarrow> Inl (Runtime_error (''HTTPMessage header not found: '' @ name))
      | Some h \<Rightarrow> Inr (val h))"

definition message_str :: "'a http_message_scheme \<Rightarrow> string res" where
  "message_str m =
     assertR (state m = COMPLETE)
       (Inr (first_line m @ crlf @ concat (map (\<lambda>h. header_str h @ crlf) (headers m)) @ crlf @ body m))"

section \<open>Protocol buffers\<close>

text \<open>The fields of \<open>HTTPMessage\<close> in \<open>src/protobufs/http_record.proto\<close>.\<close>

record proto_message =
  proto_first_line :: string
  proto_header :: "(string \<times> string) list"
  proto_body :: string

definition message_to_protobuf :: "'a http_message_scheme \<Rightarrow> proto_message res" where
  "message_to_protobuf m =
     assertR (state m = COMPLETE)
       (Inr \<lparr>proto_first_line = first_line m, proto_header = map (\<lambda>h. (key h, val h)) (headers m),
             proto_body = body m\<rparr>)"

definition message_of_protobuf :: "proto_message \<Rightarrow> http_message" where
  "message_of_protobuf p =
     \<lparr>expected_size = (False, npos), first_line = proto_first_line p,
      headers = map (\<lambda>(k, v). \<lparr>key = k, val = v\<rparr>) (proto_header p), body = proto_body p,
      state = COMPLETE\<rparr>"

end
