(* ===== verification/Http_Parser.thy ===== *)
theory Http_Parser
  imports Http_Message
begin

text \<open>
  \<open>src/http/http_request.cc\<close>, \<open>chunked_parser.cc\<close>, \<open>body_parser.hh\<close>, \<open>http_response.cc\<close> and the
  incremental parser of \<open>http_message_sequence.hh\<close> with its two instances.
\<close>

section \<open>Requests\<close>

definition size_of_long :: "int \<Rightarrow> nat" where
  "size_of_long v = nat (v mod 2 ^ 64)"

definition request_calculate_size :: "http_message \<Rightarrow> http_message res" where
  "request_calculate_size m =
     assertR (state m = BODY_PENDING)
       (if take 4 (first_line m) = ''GET '' \<or> take 5 (first_line m) = ''HEAD ''
        then set_expected_body_size True 0 m
        else if take 5 (first_line m) = ''POST ''
        then if \<not> has_header ''Content-Length'' m
             then Inl (Runtime_error ''HTTPRequest: does not support chunked requests'')
             else bindR (get_header_value ''Content-Length'' m) (\<lambda>v.
                  bindR (myatoi v 10) (\<lambda>n. set_expected_body_size True (size_of_long n) m))
        else Inl (Runtime_error (''Cannot handle HTTP method: '' @ first_line m)))"

definition request_complex_body :: "string \<Rightarrow> http_message \<Rightarrow> (nat \<times> http_message) res" where
  "request_complex_body str m = Inl (Runtime_error ''HTTPRequest: does not support chunked requests'')"

definition request_eof_in_body :: "http_message \<Rightarrow> bool res" where
  "request_eof_in_body m = Inl (Runtime_error ''HTTPRequest: got EOF in middle of body'')"

definition is_head :: "http_message \<Rightarrow> bool res" where
  "is_head m = assertR (FIRST_LINE_PENDING < state m) (Inr (take 5 (first_line m) = ''HEAD ''))"

definition request_new :: http_message where
  "request_new = \<lparr>expected_size = (False, npos), first_line = [], headers = [], body = [],
     state = FIRST_LINE_PENDING\<rparr>"

definition request_ops :: "http_message message_ops" where
  "request_ops = \<lparr>calculate_expected_body_size = request_calculate_size,
     read_in_complex_body = request_complex_body, eof_in_body = request_eof_in_body,
     fresh = request_new\<rparr>"

section \<open>Chunked bodies\<close>

datatype chunk_state = CHUNK_HDR | CHUNK | TRAILER

record chunked_parser =
  parser_buffer :: string
  current_chunk_size :: u32
  acked_so_far :: nat
  parsed_so_far :: nat
  chunk_state :: chunk_state
  trailers_enabled :: bool

definition chunked_new :: "bool \<Rightarrow> chunked_parser" where
  "chunked_new trailers = \<lparr>parser_buffer = [], current_chunk_size = 0, acked_so_far = 0,
     parsed_so_far = 0, chunk_state = CHUNK_HDR, trailers_enabled = trailers\<rparr>"

definition get_chunk_size :: "string \<Rightarrow> u32 res" where
  "get_chunk_size chunk_hdr =
     bindR (substr chunk_hdr (size_sub (length chunk_hdr) 2) 2) (\<lambda>ending.
     assertR (ending = crlf) (
       case (case str_find chunk_hdr '';'' of None \<Rightarrow> str_find chunk_hdr crlf | Some p \<Rightarrow> Some p) of
         None \<Rightarrow> Inl Assert_failed
       | Some pos \<Rightarrow>
           let hex_string = take pos chunk_hdr;
               hex_string' = (case str_find hex_string '' '' of
                                None \<Rightarrow> hex_string | Some space_loc \<Rightarrow> take space_loc hex_string)
           in bindR (myatoi hex_string' 16) (\<lambda>v. Inr (word_of_int v))))"

definition ack_all :: "nat \<Rightarrow> chunked_parser \<Rightarrow> (nat option \<times> chunked_parser) res" where
  "ack_all n p = Inr (None, p\<lparr>acked_so_far := acked_so_far p + n\<rparr>)"

definition compute_ack_size ::
  "string \<Rightarrow> string \<Rightarrow> nat \<Rightarrow> chunked_parser \<Rightarrow> (nat option \<times> chunked_parser) res" where
  "compute_ack_size haystack needle input_size p =
     (case str_find haystack needle of
        Some loc \<Rightarrow>
          let p' = p\<lparr>parsed_so_far := parsed_so_far p + loc + length needle\<rparr>
          in assertR (acked_so_far p' < parsed_so_far p')
               (Inr (Some (parsed_so_far p' - acked_so_far p'), p'))
      | None \<Rightarrow> ack_all input_size p)"

text \<open>The two transitions: past a chunk header of \<open>it + 2\<close> bytes, and past a chunk of \<open>k\<close> bytes.\<close>

definition after_header :: "nat \<Rightarrow> u32 \<Rightarrow> chunked_parser \<Rightarrow> chunked_parser" where
  "after_header it sz p =
     p\<lparr>current_chunk_size := sz, chunk_state := (if sz = 0 then TRAILER else CHUNK),
       parsed_so_far := parsed_so_far p + (it + 2),
       parser_buffer := drop (it + 2) (parser_buffer p)\<rparr>"

definition after_chunk :: "nat \<Rightarrow> chunked_parser \<Rightarrow> chunked_parser" where
  "after_chunk k p =
     p\<lparr>chunk_state := CHUNK_HDR, parsed_so_far := parsed_so_far p + k,
       parser_buffer := drop k (parser_buffer p)\<rparr>"

text \<open>
  The loop of \<open>read\<close>, with \<open>n\<close> the length of the input: \<open>None\<close> is \<open>npos\<close>.  The size of a
  chunk and its line end are added in 32 bits.
\<close>

function chunked_loop :: "nat \<Rightarrow> chunked_parser \<Rightarrow> (nat option \<times> chunked_parser) res" where
  "chunked_loop n p =
     (if parser_buffer p = [] then ack_all n p
      else case chunk_state p of
        CHUNK_HDR \<Rightarrow>
          (case str_find (parser_buffer p) crlf of
             Some it \<Rightarrow>
               bindR (get_chunk_size (take (it + 2) (parser_buffer p))) (\<lambda>sz.
                 chunked_loop n (after_header it sz p))
           | None \<Rightarrow> ack_all n p)
      | CHUNK \<Rightarrow>
          let k = unat (current_chunk_size p + 2)
          in if k \<le> length (parser_buffer p)
             then bindR (substr (parser_buffer p) (unat (current_chunk_size p)) 2) (\<lambda>ending.
                  assertR (ending = crlf) (chunked_loop n (after_chunk k p)))
             else ack_all n p
      | TRAILER \<Rightarrow>
          compute_ack_size (parser_buffer p) (if trailers_enabled p then crlf @ crlf else crlf) n p)"
  by pat_completeness auto
termination
  by (relation "measure (\<lambda>(n, p). 2 * length (parser_buffer p) + (if chunk_state p = CHUNK then 1 else 0))")
    (auto simp: crlf_def after_header_def after_chunk_def dest!: str_find_Some_length)

declare chunked_loop.simps [simp del]

definition chunked_read :: "string \<Rightarrow> chunked_parser \<Rightarrow> (nat option \<times> chunked_parser) res" where
  "chunked_read input p =
     chunked_loop (length input) (p\<lparr>parser_buffer := parser_buffer p @ input\<rparr>)"

text \<open>\<open>Rule5BodyParser\<close> takes everything; both parsers accept an end of file.\<close>

datatype body_parser = Rule5_Body_Parser | Chunked_Body_Parser chunked_parser

fun body_parser_read :: "string \<Rightarrow> body_parser \<Rightarrow> (nat option \<times> body_parser) res" where
  "body_parser_read str Rule5_Body_Parser = Inr (None, Rule5_Body_Parser)"
| "body_parser_read str (Chunked_Body_Parser p) =
     bindR (chunked_read str p) (\<lambda>(n, p'). Inr (n, Chunked_Body_Parser p'))"

definition body_parser_eof :: "body_parser \<Rightarrow> bool" where
  "body_parser_eof p = True"

section \<open>Responses\<close>

record http_response = http_message +
  request :: http_message
  body_parser :: "body_parser option"

definition status_code :: "http_response \<Rightarrow> string res" where
  "status_code m =
     assertR (FIRST_LINE_PENDING < state m)
       (bindR (split (first_line m) '' '') (\<lambda>tokens.
         if length tokens < 3
         then Inl (Runtime_error (''HTTPResponse: Invalid status line: '' @ first_line m))
         else Inr (tokens ! 1)))"

definition string_at :: "string \<Rightarrow> nat \<Rightarrow> char res" where
  "string_at s i = (if i < length s then Inr (s ! i) else Inl Out_of_range)"

text \<open>Rule 1 of RFC 2616 section 4.4, evaluated from left to right.\<close>

definition no_body :: "http_response \<Rightarrow> bool res" where
  "no_body m =
     bindR (status_code m) (\<lambda>code. bindR (string_at code 0) (\<lambda>c.
       if c = CHR ''1'' \<or> code = ''204'' \<or> code = ''304'' then Inr True else is_head (request m)))"

definition is_chunked :: "http_response \<Rightarrow> bool res" where
  "is_chunked m =
     (if has_header ''Transfer-Encoding'' m
      then bindR (get_header_value ''Transfer-Encoding'' m) (\<lambda>v.
           bindR (split v '','') (\<lambda>ts. Inr (equivalent_strings (last ts) ''chunked'')))
      else Inr False)"

definition is_byteranges :: "http_response \<Rightarrow> bool res" where
  "is_byteranges m =
     (if has_header ''Content-Type'' m
      then bindR (get_header_value ''Content-Type'' m) (\<lambda>v.
           bindR (mime_type v) (\<lambda>t. Inr (equivalent_strings t ''multipart/byteranges'')))
      else Inr False)"

definition response_calculate_size :: "http_response \<Rightarrow> http_response res" where
  "response_calculate_size m =
     assertR (state m = BODY_PENDING)
       (bindR (no_body m) (\<lambda>none.
        if none then set_expected_body_size True 0 m
        else bindR (is_chunked m) (\<lambda>chunked.
          if chunked
          then bindR (set_expected_body_size False npos m) (\<lambda>m'.
               Inr (m'\<lparr>body_parser :=
                      Some (Chunked_Body_Parser (chunked_new (has_header ''Trailer'' m')))\<rparr>))
          else if \<not> has_header ''Transfer-Encoding'' m \<and> has_header ''Content-Length'' m
          then bindR (get_header_value ''Content-Length'' m) (\<lambda>v.
               bindR (myatoi v 10) (\<lambda>n. set_expected_body_size True (size_of_long n) m))
          else bindR (is_byteranges m) (\<lambda>ranges.
            if ranges
            then bindR (set_expected_body_size False npos m) (\<lambda>_.
                 Inl (Runtime_error ''HTTPResponse: unsupported multipart/byteranges without Content-Length''))
            else bindR (set_expected_body_size False npos m) (\<lambda>m'.
                 Inr (m'\<lparr>body_parser := Some Rule5_Body_Parser\<rparr>))))))"

definition response_complex_body :: "string \<Rightarrow> http_response \<Rightarrow> (nat \<times> http_response) res" where
  "response_complex_body str m =
     assertR (state m = BODY_PENDING)
       (case body_parser m of
          None \<Rightarrow> Inl Assert_failed
        | Some bp \<Rightarrow>
            bindR (body_parser_read str bp) (\<lambda>(r, bp').
              let m' = m\<lparr>body_parser := Some bp'\<rparr>
              in case r of
                   None \<Rightarrow> Inr (length str, m'\<lparr>body := body m' @ str\<rparr>)
                 | Some n \<Rightarrow> Inr (n, m'\<lparr>body := body m' @ take n str, state := COMPLETE\<rparr>)))"

definition response_eof_in_body :: "http_response \<Rightarrow> bool res" where
  "response_eof_in_body m =
     (case body_parser m of
        Some bp \<Rightarrow> Inr (body_parser_eof bp)
      | None \<Rightarrow> Inl (Runtime_error ''HTTPResponse: got EOF in middle of body''))"

definition set_request :: "http_message \<Rightarrow> http_response \<Rightarrow> http_response res" where
  "set_request r m = assertR (state m = FIRST_LINE_PENDING) (Inr (m\<lparr>request := r\<rparr>))"

definition response_new :: http_response where
  "response_new = \<lparr>expected_size = (False, npos), first_line = [], headers = [], body = [],
     state = FIRST_LINE_PENDING, request = request_new, body_parser = None\<rparr>"

definition response_ops :: "http_response message_ops" where
  "response_ops = \<lparr>calculate_expected_body_size = response_calculate_size,
     read_in_complex_body = response_complex_body, eof_in_body = response_eof_in_body,
     fresh = response_new\<rparr>"

section \<open>Sequences of messages\<close>

record 'm http_sequence =
  seq_buffer :: string
  complete_messages :: "'m list"
  in_progress :: 'm

definition have_complete_line :: "string \<Rightarrow> bool" where
  "have_complete_line buffer \<longleftrightarrow> str_find buffer crlf \<noteq> None"

definition pop_bytes :: "nat \<Rightarrow> string \<Rightarrow> string res" where
  "pop_bytes num buffer = assertR (num \<le> length buffer) (Inr (drop num buffer))"

definition get_and_pop_line :: "string \<Rightarrow> (string \<times> string) res" where
  "get_and_pop_line buffer =
     (case str_find buffer crlf of
        None \<Rightarrow> Inl Assert_failed
      | Some first_line_ending \<Rightarrow>
          bindR (pop_bytes (first_line_ending + length crlf) buffer) (\<lambda>rest.
            Inr (take first_line_ending buffer, rest)))"

text \<open>\<open>init\<close> is \<open>initialize_new_message\<close>; the boolean is whether to continue.\<close>

definition parsing_step ::
  "'a http_message_scheme message_ops \<Rightarrow>
   (('a http_message_scheme, 'b) http_sequence_scheme \<Rightarrow> ('a http_message_scheme, 'b) http_sequence_scheme res) \<Rightarrow>
   ('a http_message_scheme, 'b) http_sequence_scheme \<Rightarrow>
   (bool \<times> ('a http_message_scheme, 'b) http_sequence_scheme) res" where
  "parsing_step ops init s =
     (case state (in_progress s) of
        FIRST_LINE_PENDING \<Rightarrow>
          if \<not> have_complete_line (seq_buffer s) then Inr (False, s)
          else bindR (init s) (\<lambda>s1.
               bindR (get_and_pop_line (seq_buffer s1)) (\<lambda>(line, rest).
               bindR (set_first_line line (in_progress s1)) (\<lambda>m.
                 Inr (True, s1\<lparr>seq_buffer := rest, in_progress := m\<rparr>))))
      | HEADERS_PENDING \<Rightarrow>
          if \<not> have_complete_line (seq_buffer s) then Inr (False, s)
          else bindR (get_and_pop_line (seq_buffer s)) (\<lambda>(line, rest).
               bindR (if line = [] then done_with_headers ops (in_progress s)
                      else add_header line (in_progress s)) (\<lambda>m.
                 Inr (True, s\<lparr>seq_buffer := rest, in_progress := m\<rparr>)))
      | BODY_PENDING \<Rightarrow>
          bindR (read_in_body ops (seq_buffer s) (in_progress s)) (\<lambda>(bytes_read, m).
          assertR (bytes_read = length (seq_buffer s) \<or> state m = COMPLETE)
            (bindR (pop_bytes bytes_read (seq_buffer s)) (\<lambda>rest.
              Inr (state m = COMPLETE, s\<lparr>seq_buffer := rest, in_progress := m\<rparr>))))
      | COMPLETE \<Rightarrow>
          Inr (True, s\<lparr>complete_messages := complete_messages s @ [in_progress s],
                       in_progress := fresh ops\<rparr>))"

partial_function (option) parse_loop ::
  "'a http_message_scheme message_ops \<Rightarrow>
   (('a http_message_scheme, 'b) http_sequence_scheme \<Rightarrow> ('a http_message_scheme, 'b) http_sequence_scheme res) \<Rightarrow>
   ('a http_message_scheme, 'b) http_sequence_scheme \<Rightarrow>
   ('a http_message_scheme, 'b) http_sequence_scheme res option" where
  "parse_loop ops init s =
     (case parsing_step ops init s of
        Inl e \<Rightarrow> Some (Inl e)
      | Inr r \<Rightarrow> if fst r then parse_loop ops init (snd r) else Some (Inr (snd r)))"

definition parse ::
  "'a http_message_scheme message_ops \<Rightarrow>
   (('a http_message_scheme, 'b) http_sequence_scheme \<Rightarrow> ('a http_message_scheme, 'b) http_sequence_scheme res) \<Rightarrow>
   string \<Rightarrow> ('a http_message_scheme, 'b) http_sequence_scheme \<Rightarrow>
   ('a http_message_scheme, 'b) http_sequence_scheme res option" where
  "parse ops init buf s =
     (case (if buf = [] then message_eof ops (in_progress s) else Inr (in_progress s)) of
        Inl e \<Rightarrow> Some (Inl e)
      | Inr m \<Rightarrow> parse_loop ops init (s\<lparr>in_progress := m, seq_buffer := seq_buffer s @ buf\<rparr>))"

text \<open>\<open>HTTPRequestParser\<close> and \<open>HTTPResponseParser\<close>.\<close>

definition request_parser_new :: "http_message http_sequence" where
  "request_parser_new = \<lparr>seq_buffer = [], complete_messages = [], in_progress = request_new\<rparr>"

definition request_parse ::
  "string \<Rightarrow> http_message http_sequence \<Rightarrow> http_message http_sequence res option" where
  "request_parse = parse request_ops Inr"

record response_parser = "http_response http_sequence" +
  requests :: "http_message list"

definition response_parser_new :: response_parser where
  "response_parser_new = \<lparr>seq_buffer = [], complete_messages = [], in_progress = response_new,
     requests = []\<rparr>"

definition initialize_new_response :: "response_parser \<Rightarrow> response_parser res" where
  "initialize_new_response s =
     (case requests s of
        [] \<Rightarrow> Inl (Runtime_error ''HTTPResponseParser: response without matching request'')
      | r # rs \<Rightarrow>
          bindR (set_request r (in_progress s)) (\<lambda>m. Inr (s\<lparr>in_progress := m, requests := rs\<rparr>)))"

definition new_request_arrived :: "http_message \<Rightarrow> response_parser \<Rightarrow> response_parser" where
  "new_request_arrived r s = s\<lparr>requests := requests s @ [r]\<rparr>"

definition response_parse :: "string \<Rightarrow> response_parser \<Rightarrow> response_parser res option" where
  "response_parse = parse response_ops initialize_new_response"

end
