(* ===== verification/Http_Incremental.thy ===== *)
theory Http_Incremental
  imports Http_Parser
begin

text \<open>
  The parser is fed whatever a socket delivers.  This theory shows that how the bytes are
  divided does not matter: the locale \<open>message_type\<close> states what \<open>HTTPMessageSequence\<close>
  needs of a message class, and both classes are instances.
\<close>

section \<open>Chunked bodies, in pieces\<close>

text \<open>Every byte received has been parsed or is in the buffer; \<open>n\<close> of them are not yet acknowledged.\<close>

definition bytes_ok :: "nat \<Rightarrow> chunked_parser \<Rightarrow> bool" where
  "bytes_ok n p \<longleftrightarrow> acked_so_far p + n = parsed_so_far p + length (parser_buffer p)"

text \<open>The same result, with \<open>n\<close> more bytes in the call.\<close>

definition later_by :: "nat \<Rightarrow> (nat option \<times> chunked_parser) res \<Rightarrow> (nat option \<times> chunked_parser) res" where
  "later_by n r = bindR r (\<lambda>(k, p). case k of
     None \<Rightarrow> Inr (None, p)
   | Some k \<Rightarrow> Inr (Some (k + n), p\<lparr>acked_so_far := acked_so_far p - n\<rparr>))"

lemma later_by_simps [simp]:
  "later_by n (Inl e) = Inl e"
  "later_by n (Inr (None, p)) = Inr (None, p)"
  "later_by n (Inr (Some k, p)) = Inr (Some (k + n), p\<lparr>acked_so_far := acked_so_far p - n\<rparr>)"
  by (simp_all add: later_by_def)

lemma later_by_bind: "later_by n (bindR m f) = bindR m (\<lambda>x. later_by n (f x))"
  by (cases m) simp_all

lemma later_by_assert: "later_by n (assertR b m) = assertR b (later_by n m)"
  by (cases b) simp_all

lemma compute_ack_later:
  assumes "acked_so_far p + n \<le> parsed_so_far p" "needle \<noteq> []"
  shows "compute_ack_size h needle (n + k) p =
    later_by n (compute_ack_size h needle k (p\<lparr>acked_so_far := acked_so_far p + n\<rparr>))"
proof (cases "str_find h needle")
  case None
  then show ?thesis by (simp add: compute_ack_size_def ack_all_def add.assoc)
next
  case (Some loc)
  have "0 < length needle" using assms(2) by simp
  then have "acked_so_far p + n < parsed_so_far p + loc + length needle" using assms(1) by linarith
  with Some show ?thesis by (simp add: compute_ack_size_def Let_def)
qed

lemma after_acked [simp]:
  "after_header it sz (p\<lparr>acked_so_far := a\<rparr>) = (after_header it sz p)\<lparr>acked_so_far := a\<rparr>"
  "after_chunk k (p\<lparr>acked_so_far := a\<rparr>) = (after_chunk k p)\<lparr>acked_so_far := a\<rparr>"
  by (simp_all add: after_header_def after_chunk_def)

lemma after_simps [simp]:
  "acked_so_far (after_header it sz p) = acked_so_far p"
  "acked_so_far (after_chunk k p) = acked_so_far p"
  "parsed_so_far (after_header it sz p) = parsed_so_far p + (it + 2)"
  "parsed_so_far (after_chunk k p) = parsed_so_far p + k"
  "parser_buffer (after_header it sz p) = drop (it + 2) (parser_buffer p)"
  "parser_buffer (after_chunk k p) = drop k (parser_buffer p)"
  "trailers_enabled (after_header it sz p) = trailers_enabled p"
  "trailers_enabled (after_chunk k p) = trailers_enabled p"
  by (simp_all add: after_header_def after_chunk_def)

text \<open>Bytes that have been parsed may be acknowledged earlier.\<close>

lemma chunked_loop_later:
  "acked_so_far p + n \<le> parsed_so_far p \<Longrightarrow>
   chunked_loop (n + k) p = later_by n (chunked_loop k (p\<lparr>acked_so_far := acked_so_far p + n\<rparr>))"
proof (induction "n + k" p rule: chunked_loop.induct)
  case (1 p)
  show ?case
  proof (cases "parser_buffer p = []")
    case True
    then show ?thesis by (simp add: chunked_loop.simps [of _ p]
          chunked_loop.simps [of _ "p\<lparr>acked_so_far := acked_so_far p + n\<rparr>"] ack_all_def add.assoc)
  next
    case ne: False
    note unfold = chunked_loop.simps [of _ p]
      chunked_loop.simps [of _ "p\<lparr>acked_so_far := acked_so_far p + n\<rparr>"]
    show ?thesis
    proof (cases "chunk_state p")
      case CHUNK_HDR
      show ?thesis
      proof (cases "str_find (parser_buffer p) crlf")
        case None
        with ne CHUNK_HDR show ?thesis by (simp add: unfold ack_all_def add.assoc)
      next
        case (Some it)
        show ?thesis
        proof (cases "get_chunk_size (take (it + 2) (parser_buffer p))")
          case (Inl e)
          with ne CHUNK_HDR Some show ?thesis by (simp add: unfold)
        next
          case (Inr sz)
          with ne CHUNK_HDR Some "1.hyps"(1) [OF ne CHUNK_HDR Some] "1.prems" show ?thesis
            by (simp add: unfold)
        qed
      qed
    next
      case CHUNK
      with ne "1.hyps"(2) [OF ne CHUNK refl] "1.prems" show ?thesis
        by (cases "substr (parser_buffer p) (unat (current_chunk_size p)) 2")
          (simp_all add: unfold Let_def ack_all_def add.assoc later_by_assert assertR_def)
    next
      case TRAILER
      have "crlf \<noteq> []" by (simp add: crlf_def)
      with ne TRAILER "1.prems" show ?thesis by (simp add: unfold compute_ack_later)
    qed
  qed
qed


abbreviation more_input :: "string \<Rightarrow> chunked_parser \<Rightarrow> chunked_parser" where
  "more_input x p \<equiv> p\<lparr>parser_buffer := parser_buffer p @ x\<rparr>"

lemma after_more [simp]:
  "it + 2 \<le> length (parser_buffer p) \<Longrightarrow>
   after_header it sz (more_input x p) = more_input x (after_header it sz p)"
  "k \<le> length (parser_buffer p) \<Longrightarrow>
   after_chunk k (more_input x p) = more_input x (after_chunk k p)"
  by (simp_all add: after_header_def after_chunk_def)

lemma bytes_ok_after:
  "it + 2 \<le> length (parser_buffer p) \<Longrightarrow> bytes_ok n (after_header it sz p) = bytes_ok n p"
  "k \<le> length (parser_buffer p) \<Longrightarrow> bytes_ok n (after_chunk k p) = bytes_ok n p"
  by (auto simp: bytes_ok_def)

lemma crlf_simps: "crlf \<noteq> []" "length crlf = 2"
  by (simp_all add: crlf_def)

text \<open>A match that appended text makes possible ends beyond the old text.\<close>

lemma str_find_new:
  assumes "str_find h pat = None" "str_find (h @ x) pat = Some i"
  shows "length h < i + length pat"
proof (rule ccontr)
  assume "\<not> ?thesis"
  then have le: "i + length pat \<le> length h" by simp
  have "prefix pat (drop i h @ drop (i - length h) x)"
    using str_find_Some_prefix [OF assms(2)] by simp
  then have "prefix pat (drop i h)"
    by (rule prefix_length_prefix) (use le in simp_all)
  with assms(1) le show False unfolding str_find_None by auto
qed

text \<open>
  The end of the next element to be parsed lies beyond the first \<open>n\<close> bytes that have not
  been acknowledged.
\<close>

definition trailer_end :: "chunked_parser \<Rightarrow> string" where
  "trailer_end p = (if trailers_enabled p then crlf @ crlf else crlf)"

definition beyond :: "nat \<Rightarrow> chunked_parser \<Rightarrow> bool" where
  "beyond n p =
     (case chunk_state p of
        CHUNK_HDR \<Rightarrow> (case str_find (parser_buffer p) crlf of None \<Rightarrow> True
          | Some it \<Rightarrow> acked_so_far p + n \<le> parsed_so_far p + (it + 2))
      | CHUNK \<Rightarrow> acked_so_far p + n \<le> parsed_so_far p + unat (current_chunk_size p + 2)
      | TRAILER \<Rightarrow> (case str_find (parser_buffer p) (trailer_end p) of None \<Rightarrow> True
          | Some loc \<Rightarrow> acked_so_far p + n < parsed_so_far p + loc + length (trailer_end p)))"

lemma chunked_loop_beyond:
  assumes "beyond n p"
  shows "chunked_loop (n + k) p = later_by n (chunked_loop k (p\<lparr>acked_so_far := acked_so_far p + n\<rparr>))"
proof (cases "parser_buffer p = []")
  case True
  then show ?thesis by (simp add: chunked_loop.simps [of _ p]
        chunked_loop.simps [of _ "p\<lparr>acked_so_far := acked_so_far p + n\<rparr>"] ack_all_def add.assoc)
next
  case ne: False
  note unfold = chunked_loop.simps [of _ p]
    chunked_loop.simps [of _ "p\<lparr>acked_so_far := acked_so_far p + n\<rparr>"]
  show ?thesis
  proof (cases "chunk_state p")
    case CHUNK_HDR
    show ?thesis
    proof (cases "str_find (parser_buffer p) crlf")
      case None
      with ne CHUNK_HDR show ?thesis by (simp add: unfold ack_all_def add.assoc)
    next
      case (Some it)
      have "chunked_loop (n + k) (after_header it sz p) =
          later_by n (chunked_loop k ((after_header it sz p)\<lparr>acked_so_far := acked_so_far p + n\<rparr>))" for sz
        using chunked_loop_later [of "after_header it sz p" n k] assms CHUNK_HDR Some
        by (simp add: beyond_def)
      with ne CHUNK_HDR Some show ?thesis
        by (cases "get_chunk_size (take (it + 2) (parser_buffer p))") (simp_all add: unfold)
    qed
  next
    case CHUNK
    define m where "m = unat (current_chunk_size p + 2)"
    have "chunked_loop (n + k) (after_chunk m p) =
        later_by n (chunked_loop k ((after_chunk m p)\<lparr>acked_so_far := acked_so_far p + n\<rparr>))"
      using chunked_loop_later [of "after_chunk m p" n k] assms CHUNK
      by (simp add: beyond_def m_def)
    with ne CHUNK show ?thesis
      by (cases "substr (parser_buffer p) (unat (current_chunk_size p)) 2")
        (simp_all add: unfold Let_def ack_all_def add.assoc later_by_assert assertR_def m_def [symmetric])
  next
    case TRAILER
    with ne assms show ?thesis
      by (cases "str_find (parser_buffer p) (trailer_end p)")
        (simp_all add: unfold beyond_def compute_ack_size_def trailer_end_def [symmetric] ack_all_def
          Let_def add.assoc)
  qed
qed

lemma substr_append:
  assumes "substr s i n = Inr t" "length t = n"
  shows "substr (s @ x) i n = Inr t"
proof -
  have "i \<le> length s" "take n (drop i s) = t" using assms(1) by (auto simp: substr_def split: if_splits)
  moreover from this assms(2) have "i + n \<le> length s" by (cases "n = 0") auto
  ultimately show ?thesis by (simp add: substr_def)
qed

text \<open>A loop that used up its input: it waits at \<open>p1\<close>, and more input continues from there.\<close>

lemma chunked_loop_split:
  assumes "bytes_ok n p" "chunked_loop n p = Inr (None, p1)"
  shows "bytes_ok 0 p1 \<and> chunked_loop (n + k) (more_input x p) = later_by n (chunked_loop k (more_input x p1))"
  using assms
proof (induction n p rule: chunked_loop.induct)
  case (1 n p)
  let ?q = "more_input x p"
  have wait: ?case if "p1 = p\<lparr>acked_so_far := acked_so_far p + n\<rparr>" "beyond n ?q"
  proof -
    have "?q\<lparr>acked_so_far := acked_so_far p + n\<rparr> = more_input x p1"
      using that(1) by (cases p) simp
    with chunked_loop_beyond [OF that(2), of k] "1.prems"(1) that(1) show ?thesis
      by (simp add: bytes_ok_def)
  qed
  show ?case
  proof (cases "parser_buffer p = []")
    case True
    have "beyond n ?q"
      using True "1.prems"(1) by (auto simp: beyond_def bytes_ok_def crlf_simps trailer_end_def
          split: chunk_state.split option.split)
    with True "1.prems"(2) wait show ?thesis
      by (simp add: chunked_loop.simps [of n p] ack_all_def)
  next
    case ne: False
    show ?thesis
    proof (cases "chunk_state p")
      case CHUNK_HDR
      show ?thesis
      proof (cases "str_find (parser_buffer p) crlf")
        case None
        have "beyond n ?q"
          using CHUNK_HDR "1.prems"(1) str_find_new [OF None, of x]
          by (fastforce simp: beyond_def bytes_ok_def crlf_simps split: option.split)
        with ne CHUNK_HDR None "1.prems"(2) wait show ?thesis
          by (simp add: chunked_loop.simps [of n p] ack_all_def)
      next
        case (Some it)
        then have le: "it + 2 \<le> length (parser_buffer p)"
          using str_find_Some_length [OF Some] by (simp add: crlf_simps)
        obtain sz where sz: "get_chunk_size (take (it + 2) (parser_buffer p)) = Inr sz"
          "chunked_loop n (after_header it sz p) = Inr (None, p1)"
          using "1.prems"(2) ne CHUNK_HDR Some
          by (auto simp: chunked_loop.simps [of n p] bindR_eq_Inr)
        have "chunked_loop (n + k) ?q = chunked_loop (n + k) (more_input x (after_header it sz p))"
          using ne CHUNK_HDR str_find_append [OF Some, of x] sz(1) le
          by (simp add: chunked_loop.simps [of _ ?q])
        with "1.IH"(1) [OF ne CHUNK_HDR Some sz(1)] sz(2) "1.prems"(1) le show ?thesis
          by (simp add: bytes_ok_after)
      qed
    next
      case CHUNK
      define m where "m = unat (current_chunk_size p + 2)"
      show ?thesis
      proof (cases "m \<le> length (parser_buffer p)")
        case False
        then have "beyond n ?q"
          using CHUNK "1.prems"(1) by (simp add: beyond_def bytes_ok_def m_def)
        with ne CHUNK False "1.prems"(2) wait show ?thesis
          by (simp add: chunked_loop.simps [of n p] ack_all_def m_def Let_def)
      next
        case True
        have s: "substr (parser_buffer p) (unat (current_chunk_size p)) 2 = Inr crlf"
          "chunked_loop n (after_chunk m p) = Inr (None, p1)"
          using "1.prems"(2) ne CHUNK True
          by (auto simp: chunked_loop.simps [of n p] bindR_eq_Inr assertR_eq_Inr m_def)
        have "substr (parser_buffer p @ x) (unat (current_chunk_size p)) 2 = Inr crlf"
          using s(1) by (rule substr_append) (simp add: crlf_simps)
        then have "chunked_loop (n + k) ?q = chunked_loop (n + k) (more_input x (after_chunk m p))"
          using ne CHUNK True by (simp add: chunked_loop.simps [of _ ?q] m_def Let_def)
        with "1.IH"(2) [OF ne CHUNK refl] s True "1.prems"(1) show ?thesis
          by (simp add: bytes_ok_after m_def)
      qed
    next
      case TRAILER
      have None: "str_find (parser_buffer p) (trailer_end p) = None"
        and p1: "p1 = p\<lparr>acked_so_far := acked_so_far p + n\<rparr>"
        using ne TRAILER "1.prems"(2)
        by (auto simp: chunked_loop.simps [of n p] compute_ack_size_def trailer_end_def [symmetric]
            ack_all_def Let_def assertR_def split: option.splits if_splits)
      have "beyond n ?q"
        using TRAILER "1.prems"(1) str_find_new [OF None, of x]
        by (fastforce simp: beyond_def bytes_ok_def trailer_end_def split: option.split)
      with p1 wait show ?thesis by simp
    qed
  qed
qed


text \<open>A loop that found the end of the body finds it in any longer input.\<close>

lemma chunked_loop_complete:
  assumes "bytes_ok n p" "chunked_loop n p = Inr (Some r, p1)"
  shows "r \<le> n \<and> (\<exists>p1'. chunked_loop (n + k) (more_input x p) = Inr (Some r, p1'))"
  using assms
proof (induction n p rule: chunked_loop.induct)
  case (1 n p)
  let ?q = "more_input x p"
  have ne: "parser_buffer p \<noteq> []"
    using "1.prems"(2) by (auto simp: chunked_loop.simps [of n p] ack_all_def)
  show ?case
  proof (cases "chunk_state p")
    case CHUNK_HDR
    then obtain it sz where it: "str_find (parser_buffer p) crlf = Some it"
      and sz: "get_chunk_size (take (it + 2) (parser_buffer p)) = Inr sz"
        "chunked_loop n (after_header it sz p) = Inr (Some r, p1)"
      using "1.prems"(2) ne
      by (auto simp: chunked_loop.simps [of n p] bindR_eq_Inr ack_all_def split: option.splits)
    have le: "it + 2 \<le> length (parser_buffer p)"
      using str_find_Some_length [OF it] by (simp add: crlf_simps)
    have "chunked_loop (n + k) ?q = chunked_loop (n + k) (more_input x (after_header it sz p))"
      using ne CHUNK_HDR str_find_append [OF it, of x] sz(1) le
      by (simp add: chunked_loop.simps [of _ ?q])
    with "1.IH"(1) [OF ne CHUNK_HDR it sz(1)] sz(2) "1.prems"(1) le show ?thesis
      by (simp add: bytes_ok_after)
  next
    case CHUNK
    define m where "m = unat (current_chunk_size p + 2)"
    have s: "m \<le> length (parser_buffer p)"
      "substr (parser_buffer p) (unat (current_chunk_size p)) 2 = Inr crlf"
      "chunked_loop n (after_chunk m p) = Inr (Some r, p1)"
      using "1.prems"(2) ne CHUNK
      by (auto simp: chunked_loop.simps [of n p] bindR_eq_Inr assertR_eq_Inr m_def ack_all_def Let_def
          split: if_splits)
    have "substr (parser_buffer p @ x) (unat (current_chunk_size p)) 2 = Inr crlf"
      using s(2) by (rule substr_append) (simp add: crlf_simps)
    then have "chunked_loop (n + k) ?q = chunked_loop (n + k) (more_input x (after_chunk m p))"
      using ne CHUNK s(1) by (simp add: chunked_loop.simps [of _ ?q] m_def Let_def)
    with "1.IH"(2) [OF ne CHUNK refl] s "1.prems"(1) show ?thesis
      by (simp add: bytes_ok_after m_def)
  next
    case TRAILER
    obtain loc where loc: "str_find (parser_buffer p) (trailer_end p) = Some loc"
      "acked_so_far p < parsed_so_far p + loc + length (trailer_end p)"
      "r = parsed_so_far p + loc + length (trailer_end p) - acked_so_far p"
      using "1.prems"(2) ne TRAILER
      by (auto simp: chunked_loop.simps [of n p] compute_ack_size_def trailer_end_def [symmetric]
          ack_all_def Let_def assertR_def split: option.splits if_splits)
    have "r \<le> n"
      using loc(3) str_find_Some_length [OF loc(1)] "1.prems"(1) by (simp add: bytes_ok_def)
    with loc ne TRAILER str_find_append [OF loc(1), of x] show ?thesis
      by (simp add: chunked_loop.simps [of _ ?q] compute_ack_size_def trailer_end_def [symmetric] Let_def)
  qed
qed

end
