(* ===== verification/Http_Sequence.thy ===== *)
theory Http_Sequence
  imports Http_Incremental
begin

text \<open>
  The message sequence over any message class: its loop ends, and its result does not
  depend on how the input is divided.  Once a message is complete its body parser is never
  used again; \<open>erase\<close> forgets that bookkeeping.
\<close>

definition same_message ::
  "('a http_message_scheme \<Rightarrow> 'a http_message_scheme) \<Rightarrow> 'a http_message_scheme \<Rightarrow>
   'a http_message_scheme \<Rightarrow> bool" where
  "same_message erase m' m \<longleftrightarrow>
     m' = m \<or> (state m' = COMPLETE \<and> state m = COMPLETE \<and> erase m' = erase m)"

text \<open>Reading \<open>k\<close> more bytes in the same call changes only the count.\<close>

definition agree ::
  "('a http_message_scheme \<Rightarrow> 'a http_message_scheme) \<Rightarrow> nat \<Rightarrow> (nat \<times> 'a http_message_scheme) res \<Rightarrow>
   (nat \<times> 'a http_message_scheme) res \<Rightarrow> bool" where
  "agree erase k r r' \<longleftrightarrow>
     (case r of
        Inl e \<Rightarrow> r' = Inl e
      | Inr (n, m) \<Rightarrow> (\<exists>m'. r' = Inr (k + n, m') \<and> same_message erase m' m))"

definition same_sequence ::
  "('a http_message_scheme \<Rightarrow> 'a http_message_scheme) \<Rightarrow> ('a http_message_scheme, 'b) http_sequence_scheme \<Rightarrow>
   ('a http_message_scheme, 'b) http_sequence_scheme \<Rightarrow> bool" where
  "same_sequence erase s' s \<longleftrightarrow>
     seq_buffer s' = seq_buffer s \<and> http_sequence.more s' = http_sequence.more s \<and>
     map erase (complete_messages s') = map erase (complete_messages s) \<and>
     same_message erase (in_progress s') (in_progress s)"

lemma same_sequence_refl: "same_sequence erase s s"
  by (simp add: same_sequence_def same_message_def)

lemma same_sequence_trans:
  "same_sequence erase s3 s2 \<Longrightarrow> same_sequence erase s2 s1 \<Longrightarrow> same_sequence erase s3 s1"
  by (auto simp: same_sequence_def same_message_def)

text \<open>The same failure, or results that agree.\<close>

definition same_result ::
  "('a http_message_scheme \<Rightarrow> 'a http_message_scheme) \<Rightarrow> ('a http_message_scheme, 'b) http_sequence_scheme res \<Rightarrow>
   ('a http_message_scheme, 'b) http_sequence_scheme res \<Rightarrow> bool" where
  "same_result erase r' r \<longleftrightarrow>
     (case r of Inl e \<Rightarrow> r' = Inl e | Inr s \<Rightarrow> (\<exists>s'. r' = Inr s' \<and> same_sequence erase s' s))"

definition same_step ::
  "('a http_message_scheme \<Rightarrow> 'a http_message_scheme) \<Rightarrow>
   (bool \<times> ('a http_message_scheme, 'b) http_sequence_scheme) res \<Rightarrow>
   (bool \<times> ('a http_message_scheme, 'b) http_sequence_scheme) res \<Rightarrow> bool" where
  "same_step erase r' r \<longleftrightarrow>
     (case r of Inl e \<Rightarrow> r' = Inl e
      | Inr (go, s) \<Rightarrow> (\<exists>s'. r' = Inr (go, s') \<and> same_sequence erase s' s))"

text \<open>Bytes still to parse, and the steps a complete message may take without any.\<close>

definition rank :: "http_state \<Rightarrow> nat" where
  "rank st = (case st of BODY_PENDING \<Rightarrow> 2 | COMPLETE \<Rightarrow> 1 | _ \<Rightarrow> 0)"

definition seq_measure :: "('a http_message_scheme, 'b) http_sequence_scheme \<Rightarrow> nat" where
  "seq_measure s = 3 * length (seq_buffer s) + rank (state (in_progress s))"

abbreviation more_bytes ::
  "string \<Rightarrow> ('m, 'b) http_sequence_scheme \<Rightarrow> ('m, 'b) http_sequence_scheme" where
  "more_bytes x s \<equiv> s\<lparr>seq_buffer := seq_buffer s @ x\<rparr>"

lemma get_line_Inr:
  "get_and_pop_line b = Inr (line, rest) \<longleftrightarrow>
   (\<exists>i. str_find b crlf = Some i \<and> line = take i b \<and> rest = drop (i + 2) b)"
  by (auto simp: get_and_pop_line_def pop_bytes_def crlf_simps bindR_eq_Inr assertR_eq_Inr
      dest: str_find_Some_length split: option.splits)

lemma get_line_length: "get_and_pop_line b = Inr (line, rest) \<Longrightarrow> length rest + 2 \<le> length b"
  by (auto simp: get_line_Inr crlf_def dest!: str_find_Some_length)

lemma get_line_append:
  assumes "get_and_pop_line b = Inr (line, rest)"
  shows "get_and_pop_line (b @ x) = Inr (line, rest @ x)"
proof -
  from assms obtain i where
    i: "str_find b crlf = Some i" "line = take i b" "rest = drop (i + 2) b"
    by (auto simp: get_line_Inr)
  have "i + 2 \<le> length b" using str_find_Some_length [OF i(1)] by (simp add: crlf_def)
  then show ?thesis
    unfolding get_line_Inr using i by (intro exI [of _ i]) (simp add: str_find_append)
qed

lemma line_append: "have_complete_line b \<Longrightarrow> have_complete_line (b @ x)"
  by (auto simp: have_complete_line_def dest: str_find_append)

text \<open>The input handed over in several calls.\<close>

fun parse_pieces ::
  "'a http_message_scheme message_ops \<Rightarrow>
   (('a http_message_scheme, 'b) http_sequence_scheme \<Rightarrow> ('a http_message_scheme, 'b) http_sequence_scheme res) \<Rightarrow>
   string list \<Rightarrow> ('a http_message_scheme, 'b) http_sequence_scheme \<Rightarrow>
   ('a http_message_scheme, 'b) http_sequence_scheme res option" where
  "parse_pieces ops init [] s = Some (Inr s)"
| "parse_pieces ops init (p # ps) s =
     (case parse ops init p s of
        Some (Inr t) \<Rightarrow> parse_pieces ops init ps t
      | r \<Rightarrow> r)"

locale message_type =
  fixes ops :: "'a http_message_scheme message_ops"
    and init :: "('a http_message_scheme, 'b) http_sequence_scheme \<Rightarrow>
      ('a http_message_scheme, 'b) http_sequence_scheme res"
    and good :: "'a http_message_scheme \<Rightarrow> bool"
    and erase :: "'a http_message_scheme \<Rightarrow> 'a http_message_scheme"
  assumes fresh_ok: "state (fresh ops) = FIRST_LINE_PENDING \<and> good (fresh ops)"
    and good_more: "good m \<Longrightarrow> state m \<noteq> COMPLETE \<Longrightarrow> http_message.more m' = http_message.more m \<Longrightarrow> good m'"
    and calculate_ok: "good m \<Longrightarrow> state m = BODY_PENDING \<Longrightarrow>
      calculate_expected_body_size ops m = Inr m' \<Longrightarrow> good m' \<and> state m' = BODY_PENDING"
    and complex_ok: "good m \<Longrightarrow> state m = BODY_PENDING \<Longrightarrow>
      read_in_complex_body ops a m = Inr (n, m') \<Longrightarrow>
      good m' \<and> expected_size m' = expected_size m \<and>
      (state m' = COMPLETE \<and> n \<le> length a \<or> state m' = BODY_PENDING \<and> n = length a)"
    and complex_complete: "good m \<Longrightarrow> state m = BODY_PENDING \<Longrightarrow>
      read_in_complex_body ops a m = Inr (n, m') \<Longrightarrow> state m' = COMPLETE \<Longrightarrow>
      \<exists>m''. read_in_complex_body ops (a @ b) m = Inr (n, m'') \<and> same_message erase m'' m'"
    and complex_split: "good m \<Longrightarrow> state m = BODY_PENDING \<Longrightarrow>
      read_in_complex_body ops a m = Inr (n, m') \<Longrightarrow> state m' = BODY_PENDING \<Longrightarrow>
      agree erase (length a) (read_in_complex_body ops b m') (read_in_complex_body ops (a @ b) m)"
    and init_frame: "init (s\<lparr>seq_buffer := bs, complete_messages := ms\<rparr>) =
      bindR (init s) (\<lambda>s1. Inr (s1\<lparr>seq_buffer := bs, complete_messages := ms\<rparr>))"
    and init_good: "good (in_progress s) \<Longrightarrow> init s = Inr s1 \<Longrightarrow> good (in_progress s1)"
begin

subsection \<open>Bodies of known size\<close>

lemma good_update [intro, simp]:
  assumes "good m" "state m \<noteq> COMPLETE"
  shows "good (m\<lparr>state := st\<rparr>)" "good (m\<lparr>first_line := l\<rparr>)" "good (m\<lparr>headers := hs\<rparr>)"
    "good (m\<lparr>body := bd\<rparr>)" "good (m\<lparr>first_line := l, state := st\<rparr>)"
    "good (m\<lparr>headers := hs, state := st\<rparr>)" "good (m\<lparr>body := bd, state := st\<rparr>)"
  by (rule good_more [OF assms], simp)+

lemma known_body_cases:
  assumes "state m = BODY_PENDING" "fst (expected_size m)" "read_in_body ops a m = Inr (n, m')"
  obtains (finish) "length (body m) \<le> snd (expected_size m)"
      "n = snd (expected_size m) - length (body m)" "n \<le> length a"
      "m' = m\<lparr>body := body m @ take n a, state := COMPLETE\<rparr>"
    | (wait) "length (body m) + length a < snd (expected_size m)" "n = length a"
      "m' = m\<lparr>body := body m @ a\<rparr>"
proof -
  define e where "e = snd (expected_size m)"
  have "HEADERS_PENDING < state m"
    using assms(1) by (simp add: less_http_state_def less_eq_http_state_def)
  then have r: "length (body m) \<le> e" "n = min (e - length (body m)) (length a)"
    "m' = (if length (body m @ take n a) = e then m\<lparr>body := body m @ take n a, state := COMPLETE\<rparr>
           else m\<lparr>body := body m @ take n a\<rparr>)"
    using assms by (auto simp: read_in_body_def body_size_is_known_def expected_body_size_def e_def
        bindR_eq_Inr assertR_eq_Inr Let_def)
  show ?thesis
  proof (cases "length (body m) + length a < e")
    case True
    with r show ?thesis by (intro wait) (simp_all add: e_def)
  next
    case False
    with r show ?thesis by (intro finish) (auto simp: e_def min_def)
  qed
qed

lemma known_body_eq:
  assumes "state m = BODY_PENDING" "fst (expected_size m)" "length (body m) \<le> snd (expected_size m)"
  shows "read_in_body ops a m =
    (let k = min (snd (expected_size m) - length (body m)) (length a); m' = m\<lparr>body := body m @ take k a\<rparr>
     in Inr (k, if length (body m') = snd (expected_size m) then m'\<lparr>state := COMPLETE\<rparr> else m'))"
proof -
  have "HEADERS_PENDING < state m"
    using assms(1) by (simp add: less_http_state_def less_eq_http_state_def)
  then show ?thesis using assms
    by (simp add: read_in_body_def body_size_is_known_def expected_body_size_def Let_def)
qed

lemma unknown_body_eq:
  assumes "state m = BODY_PENDING" "\<not> fst (expected_size m)"
  shows "read_in_body ops a m = read_in_complex_body ops a m"
proof -
  have "HEADERS_PENDING < state m"
    using assms(1) by (simp add: less_http_state_def less_eq_http_state_def)
  with assms show ?thesis by (simp add: read_in_body_def body_size_is_known_def)
qed

lemma read_ok:
  assumes "good m" "state m = BODY_PENDING" "read_in_body ops a m = Inr (n, m')"
  shows "good m' \<and> (state m' = COMPLETE \<and> n \<le> length a \<or> state m' = BODY_PENDING \<and> n = length a)"
proof (cases "fst (expected_size m)")
  case True
  from assms(2) this assms(3) show ?thesis
    by (cases rule: known_body_cases) (use assms(1,2) in simp_all)
next
  case False
  with assms show ?thesis using complex_ok [of m a n m'] by (simp add: unknown_body_eq)
qed

lemma read_complete:
  assumes "good m" "state m = BODY_PENDING" "read_in_body ops a m = Inr (n, m')" "state m' = COMPLETE"
  shows "\<exists>m''. read_in_body ops (a @ b) m = Inr (n, m'') \<and> same_message erase m'' m'"
proof (cases "fst (expected_size m)")
  case True
  from assms(2) this assms(3) show ?thesis
  proof (cases rule: known_body_cases)
    case finish
    then show ?thesis
      using assms(2) True by (simp add: known_body_eq Let_def same_message_def min_def)
  next
    case wait
    with assms(2,4) show ?thesis by simp
  qed
next
  case False
  with assms show ?thesis using complex_complete [of m a n m' b] by (simp add: unknown_body_eq)
qed

lemma read_split:
  assumes "good m" "state m = BODY_PENDING" "read_in_body ops a m = Inr (n, m')" "state m' = BODY_PENDING"
  shows "agree erase (length a) (read_in_body ops b m') (read_in_body ops (a @ b) m)"
proof (cases "fst (expected_size m)")
  case True
  from assms(2) this assms(3) show ?thesis
  proof (cases rule: known_body_cases)
    case finish
    with assms(4) show ?thesis by simp
  next
    case wait
    let ?e = "snd (expected_size m)"
    define k where "k = min (?e - length (body m')) (length b)"
    have k: "min (?e - length (body m)) (length (a @ b)) = length a + k"
      using wait(1,3) by (simp add: k_def)
    have m': "state m' = BODY_PENDING" "fst (expected_size m')" "snd (expected_size m') = ?e"
      "length (body m') \<le> ?e"
      using wait assms(2) True by simp_all
    have "read_in_body ops b m' =
        (let m2 = m'\<lparr>body := body m' @ take k b\<rparr>
         in Inr (k, if length (body m2) = ?e then m2\<lparr>state := COMPLETE\<rparr> else m2))"
      using known_body_eq [OF m'(1,2), of b] m'(3,4) by (simp add: k_def Let_def)
    moreover have "read_in_body ops (a @ b) m =
        (let m2 = m'\<lparr>body := body m' @ take k b\<rparr>
         in Inr (length a + k, if length (body m2) = ?e then m2\<lparr>state := COMPLETE\<rparr> else m2))"
      using known_body_eq [OF assms(2) True, of "a @ b"] wait unfolding k Let_def by simp
    ultimately show ?thesis by (simp add: agree_def same_message_def Let_def)
  qed
next
  case False
  have "expected_size m' = expected_size m"
    using complex_ok [of m a n m'] assms False by (simp add: unknown_body_eq)
  with False assms show ?thesis
    using complex_split [of m a n m' b] by (simp add: unknown_body_eq)
qed

subsection \<open>Steps\<close>

lemma init_copy:
  assumes "init s = Inr s1"
  shows "seq_buffer s1 = seq_buffer s" "complete_messages s1 = complete_messages s"
    "init (s\<lparr>seq_buffer := bs, complete_messages := ms\<rparr>) = Inr (s1\<lparr>seq_buffer := bs, complete_messages := ms\<rparr>)"
proof -
  have "init (s\<lparr>seq_buffer := seq_buffer s, complete_messages := complete_messages s\<rparr>) =
      Inr (s1\<lparr>seq_buffer := seq_buffer s, complete_messages := complete_messages s\<rparr>)"
    unfolding init_frame assms by simp
  then have eq: "s1\<lparr>seq_buffer := seq_buffer s, complete_messages := complete_messages s\<rparr> = s1"
    using assms by simp
  show "seq_buffer s1 = seq_buffer s" by (subst eq [symmetric]) simp
  show "complete_messages s1 = complete_messages s" by (subst eq [symmetric]) simp
  show "init (s\<lparr>seq_buffer := bs, complete_messages := ms\<rparr>) =
      Inr (s1\<lparr>seq_buffer := bs, complete_messages := ms\<rparr>)"
    unfolding init_frame assms by simp
qed

lemma done_ok:
  "good m \<Longrightarrow> done_with_headers ops m = Inr m' \<Longrightarrow> good m' \<and> state m' = BODY_PENDING"
  using calculate_ok [of "m\<lparr>state := BODY_PENDING\<rparr>" m']
  by (auto simp: done_with_headers_def assertR_eq_Inr)

lemma add_header_ok: "good m \<Longrightarrow> add_header l m = Inr m' \<Longrightarrow> good m' \<and> state m' = HEADERS_PENDING"
  by (auto simp: add_header_def assertR_eq_Inr bindR_eq_Inr)

text \<open>A step that goes on makes progress.\<close>

lemma step_progress:
  assumes "good (in_progress s)" "parsing_step ops init s = Inr (go, s')"
  shows "good (in_progress s') \<and> (go \<longrightarrow> seq_measure s' < seq_measure s)"
proof (cases "state (in_progress s)")
  case FIRST_LINE_PENDING
  show ?thesis
  proof (cases "have_complete_line (seq_buffer s)")
    case False
    with FIRST_LINE_PENDING assms show ?thesis by (simp add: parsing_step_def)
  next
    case True
    with FIRST_LINE_PENDING assms(2) obtain s1 line rest m where
      1: "init s = Inr s1" "get_and_pop_line (seq_buffer s1) = Inr (line, rest)"
        "set_first_line line (in_progress s1) = Inr m"
        "s' = s1\<lparr>seq_buffer := rest, in_progress := m\<rparr>"
      by (auto simp: parsing_step_def bindR_eq_Inr)
    have "good m" "state m = HEADERS_PENDING"
      using init_good [OF assms(1) 1(1)] 1(3) by (auto simp: set_first_line_def assertR_eq_Inr)
    moreover have "length rest + 2 \<le> length (seq_buffer s)"
      using get_line_length [OF 1(2)] init_copy(1) [OF 1(1)] by simp
    ultimately show ?thesis
      using 1(4) by (simp add: seq_measure_def rank_def split: http_state.split)
  qed
next
  case HEADERS_PENDING
  show ?thesis
  proof (cases "have_complete_line (seq_buffer s)")
    case False
    with HEADERS_PENDING assms show ?thesis by (simp add: parsing_step_def)
  next
    case True
    with HEADERS_PENDING assms(2) obtain line rest m where
      1: "get_and_pop_line (seq_buffer s) = Inr (line, rest)"
        "(if line = [] then done_with_headers ops (in_progress s)
          else add_header line (in_progress s)) = Inr m"
        "s' = s\<lparr>seq_buffer := rest, in_progress := m\<rparr>"
      by (auto simp: parsing_step_def bindR_eq_Inr)
    have "good m" "rank (state m) \<le> 2"
      using done_ok [OF assms(1), of m] add_header_ok [OF assms(1), of line m] 1(2)
      by (auto simp: rank_def split: if_splits)
    moreover have "length rest + 2 \<le> length (seq_buffer s)" using get_line_length [OF 1(1)] .
    ultimately show ?thesis using 1(3) by (simp add: seq_measure_def)
  qed
next
  case BODY_PENDING
  with assms(2) obtain n m where
    1: "read_in_body ops (seq_buffer s) (in_progress s) = Inr (n, m)" "go = (state m = COMPLETE)"
      "s' = s\<lparr>seq_buffer := drop n (seq_buffer s), in_progress := m\<rparr>"
    by (auto simp: parsing_step_def bindR_eq_Inr assertR_eq_Inr pop_bytes_def)
  with read_ok [OF assms(1) BODY_PENDING 1(1)] BODY_PENDING show ?thesis
    by (auto simp: seq_measure_def rank_def)
next
  case COMPLETE
  with assms(2) fresh_ok show ?thesis
    by (auto simp: parsing_step_def seq_measure_def rank_def)
qed

text \<open>The loop of \<open>parse\<close> ends.\<close>

lemma parse_loop_total:
  assumes "good (in_progress s)"
  shows "\<exists>r. parse_loop ops init s = Some r \<and> (\<forall>s'. r = Inr s' \<longrightarrow> good (in_progress s'))"
  using assms
proof (induction "seq_measure s" arbitrary: s rule: less_induct)
  case less
  show ?case
  proof (cases "parsing_step ops init s")
    case (Inl e)
    then show ?thesis by (simp add: parse_loop.simps [of ops init s])
  next
    case (Inr r)
    obtain go s1 where r: "r = (go, s1)" by fastforce
    have p: "good (in_progress s1)" "go \<Longrightarrow> seq_measure s1 < seq_measure s"
      using step_progress [OF less.prems] Inr r by simp_all
    show ?thesis
      using less.hyps [OF p(2) p(1)] Inr r p(1)
      by (cases go) (simp_all add: parse_loop.simps [of ops init s])
  qed
qed

subsection \<open>Splitting the input\<close>

lemma init_more:
  "init (more_bytes b s) = bindR (init s) (\<lambda>s1. Inr (more_bytes b s1))"
proof -
  have "init (more_bytes b s) = bindR (init s) (\<lambda>s1. Inr (s1\<lparr>seq_buffer := seq_buffer s @ b,
      complete_messages := complete_messages s\<rparr>))"
    using init_frame [where s = s and bs = "seq_buffer s @ b" and ms = "complete_messages s"] by simp
  also have "\<dots> = bindR (init s) (\<lambda>s1. Inr (more_bytes b s1))"
  proof (cases "init s")
    case (Inl e)
    then show ?thesis by simp
  next
    case (Inr s1)
    note c = init_copy(1,2) [OF Inr, symmetric]
    have "s1\<lparr>seq_buffer := seq_buffer s @ b, complete_messages := complete_messages s\<rparr> = more_bytes b s1"
      by (simp add: c)
    then show ?thesis by (simp only: Inr bindR_simps)
  qed
  finally show ?thesis .
qed

lemma same_seq_of: "http_sequence.more s = http_sequence.more s' \<Longrightarrow> seq_buffer s = seq_buffer s' \<Longrightarrow>
  complete_messages s = complete_messages s' \<Longrightarrow> in_progress s = in_progress s' \<Longrightarrow> same_sequence erase s s'"
  by (simp add: same_sequence_def same_message_def)

text \<open>A step that goes on is not changed by more input.\<close>

lemma step_more:
  assumes "good (in_progress s)" "parsing_step ops init s = Inr (True, t)"
  shows "\<exists>t'. parsing_step ops init (more_bytes b s) = Inr (True, t') \<and>
    same_sequence erase t' (more_bytes b t)"
proof (cases "state (in_progress s)")
  case FIRST_LINE_PENDING
  with assms(2) have "have_complete_line (seq_buffer s)"
    by (simp add: parsing_step_def split: if_splits)
  moreover from FIRST_LINE_PENDING this assms(2) obtain s1 line rest m where
    1: "init s = Inr s1" "get_and_pop_line (seq_buffer s1) = Inr (line, rest)"
      "set_first_line line (in_progress s1) = Inr m"
      "t = s1\<lparr>seq_buffer := rest, in_progress := m\<rparr>"
    by (auto simp: parsing_step_def bindR_eq_Inr)
  ultimately show ?thesis
    using FIRST_LINE_PENDING get_line_append [OF 1(2), of b]
    by (simp add: parsing_step_def line_append init_more same_seq_of)
next
  case HEADERS_PENDING
  with assms(2) have "have_complete_line (seq_buffer s)"
    by (simp add: parsing_step_def split: if_splits)
  moreover from HEADERS_PENDING this assms(2) obtain line rest m where
    1: "get_and_pop_line (seq_buffer s) = Inr (line, rest)"
      "(if line = [] then done_with_headers ops (in_progress s)
        else add_header line (in_progress s)) = Inr m"
      "t = s\<lparr>seq_buffer := rest, in_progress := m\<rparr>"
    by (auto simp: parsing_step_def bindR_eq_Inr)
  ultimately show ?thesis
    using HEADERS_PENDING get_line_append [OF 1(1), of b]
    by (auto simp: parsing_step_def line_append same_seq_of)
next
  case BODY_PENDING
  with assms(2) obtain n m where
    1: "read_in_body ops (seq_buffer s) (in_progress s) = Inr (n, m)" "state m = COMPLETE"
      "t = s\<lparr>seq_buffer := drop n (seq_buffer s), in_progress := m\<rparr>" "n \<le> length (seq_buffer s)"
    by (auto simp: parsing_step_def bindR_eq_Inr assertR_eq_Inr pop_bytes_def)
  obtain m' where m': "read_in_body ops (seq_buffer s @ b) (in_progress s) = Inr (n, m')"
    "same_message erase m' m"
    using read_complete [OF assms(1) BODY_PENDING 1(1,2)] by blast
  moreover have "state m' = COMPLETE" using m'(2) 1(2) by (auto simp: same_message_def)
  ultimately show ?thesis
    using BODY_PENDING 1(3,4) by (simp add: parsing_step_def pop_bytes_def same_sequence_def)
next
  case COMPLETE
  with assms(2) show ?thesis
    by (auto simp: parsing_step_def intro: same_seq_of)
qed

text \<open>A step that waits leaves the rest to the next call.\<close>

lemma step_wait:
  assumes "good (in_progress s)" "parsing_step ops init s = Inr (False, t)"
  shows "same_step erase (parsing_step ops init (more_bytes b s)) (parsing_step ops init (more_bytes b t))"
proof (cases "state (in_progress s) = BODY_PENDING")
  case False
  with assms(2) have "t = s"
    by (auto simp: parsing_step_def bindR_eq_Inr split: http_state.splits if_splits)
  then show ?thesis
    by (simp add: same_step_def same_sequence_refl split: sum.split)
next
  case True
  with assms(2) obtain n m where
    1: "read_in_body ops (seq_buffer s) (in_progress s) = Inr (n, m)" "state m \<noteq> COMPLETE"
      "t = s\<lparr>seq_buffer := drop n (seq_buffer s), in_progress := m\<rparr>"
    by (auto simp: parsing_step_def bindR_eq_Inr assertR_eq_Inr pop_bytes_def)
  have m: "state m = BODY_PENDING" "n = length (seq_buffer s)"
    using read_ok [OF assms(1) True 1(1)] 1(2) by auto
  note agree = read_split [OF assms(1) True 1(1) m(1), of b]
  show ?thesis
  proof (cases "read_in_body ops b m")
    case (Inl e)
    with agree True m 1(3) show ?thesis
      by (simp add: agree_def same_step_def parsing_step_def)
  next
    case (Inr r)
    obtain k m2 where r: "r = (k, m2)" by fastforce
    with agree Inr obtain m3 where
      m3: "read_in_body ops (seq_buffer s @ b) (in_progress s) = Inr (length (seq_buffer s) + k, m3)"
        "same_message erase m3 m2"
      by (auto simp: agree_def)
    have "state m3 = state m2" using m3(2) by (auto simp: same_message_def)
    with True m 1(3) Inr r m3 show ?thesis
      by (auto simp: same_step_def parsing_step_def pop_bytes_def assertR_def same_sequence_def)
  qed
qed

text \<open>The body parser of a complete message does not matter.\<close>

lemma step_same:
  assumes "same_sequence erase s' s"
  shows "same_step erase (parsing_step ops init s') (parsing_step ops init s)"
proof (cases "in_progress s' = in_progress s")
  case False
  then have "state (in_progress s') = COMPLETE" "state (in_progress s) = COMPLETE"
    using assms by (auto simp: same_sequence_def same_message_def)
  with assms show ?thesis
    by (auto simp: parsing_step_def same_step_def same_sequence_def same_message_def)
next
  case True
  have s': "s' = s\<lparr>seq_buffer := seq_buffer s, complete_messages := complete_messages s'\<rparr>"
    using assms True by (cases s; cases s') (auto simp: same_sequence_def)
  have i: "init s' = bindR (init s)
      (\<lambda>s1. Inr (s1\<lparr>seq_buffer := seq_buffer s, complete_messages := complete_messages s'\<rparr>))"
    by (subst s') (rule init_frame)
  have e: "map erase (complete_messages s') = map erase (complete_messages s)"
    using assms by (simp add: same_sequence_def)
  have b: "seq_buffer s' = seq_buffer s" "http_sequence.more s' = http_sequence.more s"
    using assms by (simp_all add: same_sequence_def)
  show ?thesis
  proof (cases "state (in_progress s)")
    case FIRST_LINE_PENDING
    show ?thesis
    proof (cases "init s")
      case (Inl err)
      with FIRST_LINE_PENDING True i b e show ?thesis
        by (simp add: parsing_step_def same_step_def same_sequence_def same_message_def)
    next
      case (Inr s1)
      note c = init_copy(1,2) [OF Inr]
      show ?thesis using FIRST_LINE_PENDING True i b e Inr c
        by (cases "get_and_pop_line (seq_buffer s)"; cases "set_first_line (fst (projr (get_and_pop_line (seq_buffer s)))) (in_progress s1)")
          (auto simp: parsing_step_def same_step_def same_sequence_def same_message_def)
    qed
  next
    case HEADERS_PENDING
    show ?thesis using HEADERS_PENDING True b e
      by (cases "get_and_pop_line (seq_buffer s)")
        (auto simp: parsing_step_def same_step_def same_sequence_def same_message_def
          split: sum.split prod.split simp: bindR_def)
  next
    case BODY_PENDING
    show ?thesis using BODY_PENDING True b e
      by (auto simp: parsing_step_def same_step_def same_sequence_def same_message_def
          bindR_def assertR_def split: sum.split prod.split)
  next
    case COMPLETE
    with True b e show ?thesis
      by (simp add: parsing_step_def same_step_def same_sequence_def same_message_def)
  qed
qed

lemma loop_same:
  assumes "good (in_progress s)" "same_sequence erase s' s"
  shows "\<exists>r r'. parse_loop ops init s = Some r \<and> parse_loop ops init s' = Some r' \<and> same_result erase r' r"
  using assms
proof (induction "seq_measure s" arbitrary: s s' rule: less_induct)
  case less
  note same = step_same [OF less.prems(2)]
  show ?case
  proof (cases "parsing_step ops init s")
    case (Inl e)
    with same show ?thesis
      by (simp add: parse_loop.simps [of ops init s] parse_loop.simps [of ops init s'] same_step_def
          same_result_def)
  next
    case (Inr r)
    obtain go t where r: "r = (go, t)" by fastforce
    obtain t' where t': "parsing_step ops init s' = Inr (go, t')" "same_sequence erase t' t"
      using same Inr r by (auto simp: same_step_def)
    have p: "good (in_progress t)" "go \<Longrightarrow> seq_measure t < seq_measure s"
      using step_progress [OF less.prems(1)] Inr r by simp_all
    show ?thesis
      using less.hyps [OF p(2) p(1) t'(2)] Inr r t'
      by (cases go) (auto simp: parse_loop.simps [of ops init s] parse_loop.simps [of ops init s']
          same_result_def)
  qed
qed

lemma same_result_trans:
  "same_result erase r3 r2 \<Longrightarrow> same_result erase r2 r1 \<Longrightarrow> same_result erase r3 r1"
  by (auto simp: same_result_def split: sum.splits dest: same_sequence_trans)

lemma loop_split:
  assumes "good (in_progress s)" "parse_loop ops init s = Some (Inr s1)"
  shows "\<exists>r r'. parse_loop ops init (more_bytes b s1) = Some r \<and>
    parse_loop ops init (more_bytes b s) = Some r' \<and> same_result erase r' r"
  using assms
proof (induction "seq_measure s" arbitrary: s rule: less_induct)
  case less
  obtain go t where step: "parsing_step ops init s = Inr (go, t)"
    using less.prems(2) by (cases "parsing_step ops init s") (auto simp: parse_loop.simps [of ops init s])
  have p: "good (in_progress t)" "go \<Longrightarrow> seq_measure t < seq_measure s"
    using step_progress [OF less.prems(1) step] by simp_all
  show ?case
  proof (cases go)
    case True
    obtain t' where t': "parsing_step ops init (more_bytes b s) = Inr (True, t')"
      "same_sequence erase t' (more_bytes b t)"
      using step_more [OF less.prems(1), of t b] step True by auto
    have t: "parse_loop ops init t = Some (Inr s1)"
      using less.prems(2) step True by (simp add: parse_loop.simps [of ops init s])
    obtain r r1 where 1: "parse_loop ops init (more_bytes b s1) = Some r"
      "parse_loop ops init (more_bytes b t) = Some r1" "same_result erase r1 r"
      using less.hyps [OF p(2) [OF True] p(1) t] by blast
    have "good (in_progress (more_bytes b t))" using p(1) by simp
    then obtain r2 where 2: "parse_loop ops init t' = Some r2" "same_result erase r2 r1"
      using loop_same [OF _ t'(2)] 1(2) by auto
    show ?thesis
      using 1 2 t'(1) same_result_trans [OF 2(2) 1(3)]
      by (simp add: parse_loop.simps [of ops init "more_bytes b s"])
  next
    case False
    have s1: "s1 = t"
      using less.prems(2) step False by (simp add: parse_loop.simps [of ops init s])
    have same: "same_step erase (parsing_step ops init (more_bytes b s)) (parsing_step ops init (more_bytes b t))"
      using step_wait [OF less.prems(1), of t b] step False by simp
    show ?thesis
    proof (cases "parsing_step ops init (more_bytes b t)")
      case (Inl e)
      with same s1 show ?thesis
        by (simp add: parse_loop.simps [of ops init "more_bytes b s"] same_step_def same_result_def
            parse_loop.simps [of ops init "more_bytes b t"])
    next
      case (Inr r)
      obtain go u where r: "r = (go, u)" by fastforce
      obtain u' where u': "parsing_step ops init (more_bytes b s) = Inr (go, u')" "same_sequence erase u' u"
        using same Inr r by (auto simp: same_step_def)
      have "good (in_progress u)" using step_progress [of "more_bytes b t" go u] p(1) Inr r by simp
      then show ?thesis
        using loop_same [OF _ u'(2)] Inr r u' s1
        by (cases go) (auto simp: parse_loop.simps [of ops init "more_bytes b s"] same_result_def
            parse_loop.simps [of ops init "more_bytes b t"])
    qed
  qed
qed

text \<open>\<open>parse\<close> ends, and two calls with non-empty pieces do what one call does.\<close>

theorem parse_total:
  assumes "good (in_progress s)" "a \<noteq> []"
  shows "\<exists>r. parse ops init a s = Some r \<and> (\<forall>s1. r = Inr s1 \<longrightarrow> good (in_progress s1))"
  using parse_loop_total [of "more_bytes a s"] assms by (simp add: parse_def)

theorem parse_split:
  assumes "good (in_progress s)" "parse ops init a s = Some (Inr s1)" "a \<noteq> []" "b \<noteq> []"
  shows "\<exists>r r'. parse ops init b s1 = Some r \<and> parse ops init (a @ b) s = Some r' \<and> same_result erase r' r"
  using loop_split [of "more_bytes a s" s1 b] assms by (simp add: parse_def)

theorem parse_pieces_concat:
  assumes "good (in_progress s)" "parse_pieces ops init ps s = Some (Inr t)" "ps \<noteq> []" "[] \<notin> set ps"
  shows "\<exists>t'. parse ops init (concat ps) s = Some (Inr t') \<and> same_sequence erase t' t"
  using assms
proof (induction ps arbitrary: s)
  case Nil
  then show ?case by simp
next
  case (Cons p ps)
  obtain t1 where t1: "parse ops init p s = Some (Inr t1)" "parse_pieces ops init ps t1 = Some (Inr t)"
    using Cons.prems(2) by (auto split: option.splits sum.splits)
  have "p \<noteq> []" "[] \<notin> set ps" using Cons.prems(4) by auto
  show ?case
  proof (cases "ps = []")
    case True
    with t1 show ?thesis by (simp add: same_sequence_refl)
  next
    case False
    have g: "good (in_progress t1)"
      using parse_total [OF Cons.prems(1) \<open>p \<noteq> []\<close>] t1(1) by auto
    obtain t2 where t2: "parse ops init (concat ps) t1 = Some (Inr t2)" "same_sequence erase t2 t"
      using Cons.IH [OF g t1(2) False \<open>[] \<notin> set ps\<close>] by blast
    have ne: "concat ps \<noteq> []" using False \<open>[] \<notin> set ps\<close> by (cases ps) auto
    show ?thesis
      using parse_split [OF Cons.prems(1) t1(1) \<open>p \<noteq> []\<close> ne] t2
      by (auto simp: same_result_def intro: same_sequence_trans)
  qed
qed

end

end
