(* ===== verification/Http_Parsers.thy ===== *)
theory Http_Parsers
  imports Http_Sequence
begin

text \<open>
  The two instances of the message sequence meet its contract; what follows for
  \<open>HTTPRequestParser\<close> and \<open>HTTPResponseParser\<close>.
\<close>

section \<open>Requests\<close>

lemma set_size_eq: "set_expected_body_size k n m = Inr m' \<longleftrightarrow>
  state m = BODY_PENDING \<and> m' = m\<lparr>expected_size := (k, n)\<rparr>"
  by (auto simp: set_expected_body_size_def assertR_eq_Inr)

lemma request_calculate_ok:
  "request_calculate_size m = Inr m' \<Longrightarrow> \<exists>n. m' = m\<lparr>expected_size := (True, n)\<rparr>"
  by (auto simp: request_calculate_size_def assertR_eq_Inr bindR_eq_Inr set_size_eq split: if_splits)

interpretation requests: message_type request_ops "Inr :: http_message http_sequence \<Rightarrow> _" "\<lambda>_. True" id
  by unfold_locales
    (auto simp: request_ops_def request_new_def request_complex_body_def dest: request_calculate_ok)

section \<open>Responses\<close>

definition forget_body_parser :: "http_response \<Rightarrow> http_response" where
  "forget_body_parser m = m\<lparr>body_parser := None\<rparr>"

fun parser_ok :: "body_parser option \<Rightarrow> bool" where
  "parser_ok (Some (Chunked_Body_Parser p)) = bytes_ok 0 p"
| "parser_ok _ = True"

definition parser_in_step :: "http_response \<Rightarrow> bool" where
  "parser_in_step m \<longleftrightarrow> state m = COMPLETE \<or> parser_ok (body_parser m)"

lemma body_parser_more:
  fixes m :: http_response
  shows "http_message.more m' = http_message.more m \<Longrightarrow> body_parser m' = body_parser m"
  by (cases m; cases m') simp

lemma parser_in_step_more:
  "parser_in_step m \<Longrightarrow> state m \<noteq> COMPLETE \<Longrightarrow> http_message.more m' = http_message.more m \<Longrightarrow> parser_in_step m'"
  using body_parser_more [of m' m] by (simp add: parser_in_step_def)

lemma response_calculate_cases:
  assumes "response_calculate_size m = Inr m'"
  obtains k n where "m' = m\<lparr>expected_size := (k, n)\<rparr>" "state m = BODY_PENDING"
    | k n bp where "m' = m\<lparr>expected_size := (k, n), body_parser := Some bp\<rparr>" "parser_ok (Some bp)"
      "state m = BODY_PENDING"
proof -
  have ok: "parser_ok (Some (Chunked_Body_Parser (chunked_new t)))" for t
    by (simp add: bytes_ok_def chunked_new_def)
  obtain none where 0: "no_body m = Inr none" "state m = BODY_PENDING"
    using assms by (auto simp: response_calculate_size_def assertR_eq_Inr bindR_eq_Inr)
  show ?thesis
  proof (cases none)
    case True
    with 0 assms show ?thesis
      by (intro that(1)) (auto simp: response_calculate_size_def set_size_eq)
  next
    case none: False
    then obtain ch where 1: "is_chunked m = Inr ch"
      using 0 assms by (auto simp: response_calculate_size_def bindR_eq_Inr)
    show ?thesis
    proof (cases ch)
      case True
      with none 0 1 assms ok show ?thesis
        by (intro that(2)) (auto simp: response_calculate_size_def set_expected_body_size_def)
    next
      case False
      show ?thesis
      proof (cases "\<not> has_header ''Transfer-Encoding'' m \<and> has_header ''Content-Length'' m")
        case True
        with none 0 1 False assms show ?thesis
          by (auto simp: response_calculate_size_def set_size_eq bindR_eq_Inr intro: that(1))
      next
        case no_length: False
        with none 0 1 False assms obtain rg where rg: "is_byteranges m = Inr rg"
          by (auto simp: response_calculate_size_def bindR_eq_Inr)
        with none 0 1 False no_length assms have "\<not> rg"
          by (auto simp: response_calculate_size_def set_expected_body_size_def)
        note 2 = rg this
        with none 0 1 False no_length assms show ?thesis
          by (intro that(2) [where k = False and n = npos and bp = Rule5_Body_Parser])
            (simp_all add: response_calculate_size_def set_expected_body_size_def del: de_Morgan_conj)
      qed
    qed
  qed
qed

lemma response_calculate_ok:
  assumes "parser_in_step m" "state m = BODY_PENDING" "response_calculate_size m = Inr m'"
  shows "parser_in_step m' \<and> state m' = BODY_PENDING"
  using assms(3) by (cases rule: response_calculate_cases) (use assms(1,2) in \<open>simp_all add: parser_in_step_def\<close>)

text \<open>The three results of reading a part of a body.\<close>

lemma response_body_cases:
  assumes "state m = BODY_PENDING" "parser_in_step m" "response_complex_body a m = Inr (n, m')"
  obtains (close) "body_parser m = Some Rule5_Body_Parser" "n = length a"
      "m' = m\<lparr>body_parser := Some Rule5_Body_Parser, body := body m @ a\<rparr>"
    | (wait) p p1 where "body_parser m = Some (Chunked_Body_Parser p)" "chunked_read a p = Inr (None, p1)"
      "n = length a" "m' = m\<lparr>body_parser := Some (Chunked_Body_Parser p1), body := body m @ a\<rparr>"
      "bytes_ok (length a) (more_input a p)"
    | (finish) p p1 where "body_parser m = Some (Chunked_Body_Parser p)" "chunked_read a p = Inr (Some n, p1)"
      "m' = m\<lparr>body_parser := Some (Chunked_Body_Parser p1), body := body m @ take n a, state := COMPLETE\<rparr>"
      "bytes_ok (length a) (more_input a p)"
proof -
  obtain bp where bp: "body_parser m = Some bp"
    using assms by (auto simp: response_complex_body_def split: option.splits)
  show ?thesis
  proof (cases bp)
    case Rule5_Body_Parser
    with bp assms show ?thesis by (intro close) (auto simp: response_complex_body_def)
  next
    case (Chunked_Body_Parser p)
    have ok: "bytes_ok (length a) (more_input a p)"
      using assms(1,2) bp Chunked_Body_Parser by (simp add: parser_in_step_def bytes_ok_def)
    obtain r p1 where r: "chunked_read a p = Inr (r, p1)"
      using assms bp Chunked_Body_Parser by (auto simp: response_complex_body_def bindR_eq_Inr)
    show ?thesis
    proof (cases r)
      case None
      with assms bp Chunked_Body_Parser r ok show ?thesis
        by (intro wait [of p p1]) (simp_all add: response_complex_body_def Let_def)
    next
      case (Some k)
      with assms bp Chunked_Body_Parser r ok show ?thesis
        by (intro finish [of p p1]) (auto simp: response_complex_body_def Let_def)
    qed
  qed
qed

lemma chunked_read_more:
  assumes "chunked_read a p = Inr (r, p1)" "bytes_ok (length a) (more_input a p)"
  shows "case r of
      None \<Rightarrow> bytes_ok 0 p1 \<and> chunked_read (a @ b) p = later_by (length a) (chunked_read b p1)
    | Some n \<Rightarrow> n \<le> length a \<and> (\<exists>p1'. chunked_read (a @ b) p = Inr (Some n, p1'))"
  using assms chunked_loop_split [of "length a" "more_input a p" p1 "length b" b]
    chunked_loop_complete [of "length a" "more_input a p" _ p1 "length b" b]
  by (auto simp: chunked_read_def split: option.split)

lemma response_complex_ok:
  assumes "parser_in_step m" "state m = BODY_PENDING" "response_complex_body a m = Inr (n, m')"
  shows "parser_in_step m' \<and> expected_size m' = expected_size m \<and>
    (state m' = COMPLETE \<and> n \<le> length a \<or> state m' = BODY_PENDING \<and> n = length a)"
  using assms(2,1,3)
proof (cases rule: response_body_cases)
  case close
  with assms show ?thesis by (simp add: parser_in_step_def)
next
  case (wait p p1)
  with chunked_read_more [OF wait(2,5)] assms(2) show ?thesis by (simp add: parser_in_step_def)
next
  case (finish p p1)
  with chunked_read_more [OF finish(2,4)] show ?thesis by (simp add: parser_in_step_def)
qed

lemma response_complex_complete:
  assumes "parser_in_step m" "state m = BODY_PENDING" "response_complex_body a m = Inr (n, m')"
    "state m' = COMPLETE"
  shows "\<exists>m''. response_complex_body (a @ b) m = Inr (n, m'') \<and> same_message forget_body_parser m'' m'"
  using assms(2,1,3)
proof (cases rule: response_body_cases)
  case (finish p p1)
  from chunked_read_more [OF finish(2,4), of b] obtain p2 where
    "n \<le> length a" "chunked_read (a @ b) p = Inr (Some n, p2)" by auto
  with finish assms(2) show ?thesis
    by (simp add: response_complex_body_def same_message_def forget_body_parser_def)
qed (use assms(2,4) in simp_all)

lemma response_complex_split:
  assumes "parser_in_step m" "state m = BODY_PENDING" "response_complex_body a m = Inr (n, m')"
    "state m' = BODY_PENDING"
  shows "agree forget_body_parser (length a) (response_complex_body b m') (response_complex_body (a @ b) m)"
  using assms(2,1,3)
proof (cases rule: response_body_cases)
  case close
  with assms(2) show ?thesis
    by (simp add: response_complex_body_def agree_def same_message_def)
next
  case (wait p p1)
  have whole: "chunked_read (a @ b) p = later_by (length a) (chunked_read b p1)"
    using chunked_read_more [OF wait(2,5), of b] by simp
  show ?thesis
  proof (cases "chunked_read b p1")
    case (Inl e)
    with whole wait assms(2) show ?thesis by (simp add: response_complex_body_def agree_def)
  next
    case (Inr r)
    obtain k p2 where "r = (k, p2)" by fastforce
    with Inr whole wait assms(2) show ?thesis
      by (cases k) (simp_all add: response_complex_body_def agree_def same_message_def Let_def
          forget_body_parser_def)
  qed
qed (use assms(4) in simp)

lemma init_response_frame:
  "initialize_new_response (s\<lparr>seq_buffer := bs, complete_messages := ms\<rparr>) =
   bindR (initialize_new_response s) (\<lambda>s1. Inr (s1\<lparr>seq_buffer := bs, complete_messages := ms\<rparr>))"
  by (cases s) (simp add: initialize_new_response_def set_request_def assertR_def split: list.split)

lemma init_response_ok:
  "parser_in_step (in_progress s) \<Longrightarrow> initialize_new_response s = Inr s1 \<Longrightarrow> parser_in_step (in_progress s1)"
  by (auto simp: initialize_new_response_def set_request_def assertR_eq_Inr bindR_eq_Inr parser_in_step_def
      split: list.splits)

interpretation responses: message_type response_ops initialize_new_response parser_in_step forget_body_parser
proof
  show "state (fresh response_ops) = FIRST_LINE_PENDING \<and> parser_in_step (fresh response_ops)"
    by (simp add: response_ops_def response_new_def parser_in_step_def)
next
  fix m m' :: http_response
  assume m: "parser_in_step m" "state m = BODY_PENDING"
    "calculate_expected_body_size response_ops m = Inr m'"
  then have "response_calculate_size m = Inr m'" by (simp add: response_ops_def)
  then show "parser_in_step m' \<and> state m' = BODY_PENDING"
    by (rule response_calculate_ok [OF m(1,2)])
next
  fix a n b and m m' :: http_response
  assume m: "parser_in_step m" "state m = BODY_PENDING"
    "read_in_complex_body response_ops a m = Inr (n, m')"
  then have r: "response_complex_body a m = Inr (n, m')" by (simp add: response_ops_def)
  show "parser_in_step m' \<and> expected_size m' = expected_size m \<and>
      (state m' = COMPLETE \<and> n \<le> length a \<or> state m' = BODY_PENDING \<and> n = length a)"
    by (rule response_complex_ok [OF m(1,2) r])
  show "\<exists>m''. read_in_complex_body response_ops (a @ b) m = Inr (n, m'') \<and>
      same_message forget_body_parser m'' m'" if "state m' = COMPLETE"
    using response_complex_complete [OF m(1,2) r that] by (simp add: response_ops_def)
  show "agree forget_body_parser (length a) (read_in_complex_body response_ops b m')
      (read_in_complex_body response_ops (a @ b) m)" if "state m' = BODY_PENDING"
    using response_complex_split [OF m(1,2) r that] by (simp add: response_ops_def)
qed (fact parser_in_step_more init_response_frame init_response_ok)+

end
