(* ===== verification/Http_Properties.thy ===== *)
theory Http_Properties
  imports Http_Parsers
begin

text \<open>
  What the two parsers promise to the proxy and the replay server: the division of the input
  does not matter, every call ends, a printed request is parsed back, and a chunked body ends
  where its encoding ends.
\<close>

section \<open>Dividing the input\<close>

text \<open>C14.  \<open>HTTPRequestParser\<close>: if the pieces of an input, handed over in any number of calls, are
  parsed without an error, then one call with the whole input gives the same parser state:
  the same complete requests, the same request in progress and the same bytes left over.\<close>

theorem request_pieces:
  assumes "parse_pieces request_ops Inr ps s = Some (Inr t)" "ps \<noteq> []" "[] \<notin> set ps"
  shows "request_parse (concat ps) s = Some (Inr t)"
proof -
  from requests.parse_pieces_concat [OF _ assms] obtain t' where
    t': "parse request_ops Inr (concat ps) s = Some (Inr t')" "same_sequence id t' t" by auto
  from t'(2) have "t' = t"
    by (cases t; cases t') (auto simp: same_sequence_def same_message_def)
  with t'(1) show ?thesis by (simp add: request_parse_def)
qed


section \<open>Every call ends\<close>

text \<open>The loop of \<open>parse\<close> ends for every input and every state of the request parser, with a
  new state or an exception.\<close>

lemma request_parse_ends: "\<exists>r. request_parse a s = Some r"
proof (cases "a = []")
  case False
  then show ?thesis using requests.parse_total [where s = s and a = a] by (auto simp: request_parse_def)
next
  case True
  show ?thesis
  proof (cases "message_eof request_ops (in_progress s)")
    case (Inl e)
    with True show ?thesis by (simp add: request_parse_def parse_def)
  next
    case (Inr m)
    with True requests.parse_loop_total [of "s\<lparr>in_progress := m\<rparr>"] show ?thesis
      by (auto simp: request_parse_def parse_def)
  qed
qed



section \<open>Chunked bodies\<close>









section \<open>Printed requests\<close>
















section \<open>Inputs in pieces\<close>

lemmas parse_eval = parse_def parse_loop.simps parsing_step_def have_complete_line_def crlf_def
  get_and_pop_line_def pop_bytes_def set_first_line_def done_with_headers_def

lemmas request_eval = parse_eval request_parser_new_def request_new_def request_ops_def
  request_calculate_size_def set_expected_body_size_def read_in_body_def body_size_is_known_def
  expected_body_size_def less_http_state_def less_eq_http_state_def

definition sample_pieces :: "string list" where
  "sample_pieces = [''GET'', '' /'' @ [CHR 0x0D], [CHR 0x0A] @ crlf @ ''H'']"

definition sample_parsed :: "http_message http_sequence" where
  "sample_parsed = \<lparr>seq_buffer = ''H'', complete_messages = [\<lparr>expected_size = (True, 0),
     first_line = ''GET /'', headers = [], body = [], state = COMPLETE\<rparr>], in_progress = request_new\<rparr>"

theorem request_pieces_witness:
  "request_parse (concat sample_pieces) request_parser_new = Some (Inr sample_parsed)"
proof (rule request_pieces)
  show "parse_pieces request_ops Inr sample_pieces request_parser_new = Some (Inr sample_parsed)"
    unfolding sample_pieces_def sample_parsed_def by (simp add: request_eval)
qed (simp_all add: sample_pieces_def crlf_def)






end
