(* ===== verification/Poller.thy ===== *)
theory Poller
  imports File_Descriptor
begin

text \<open>
  \<open>src/util/poller.{hh,cc}\<close>: actions on file descriptors, served by \<open>poll(2)\<close>.  The state
  that the callbacks share (what the lambdas capture by reference) is a value \<open>'s\<close>; the
  reference to the descriptor of an action is a selector on it.  The kernel is a parameter:
  given the \<open>pollfd\<close>s and the timeout it returns the value of the call and the \<open>revents\<close> of
  each descriptor.
\<close>

section \<open>Actions\<close>

datatype direction = In | Out

datatype result_type = Continue | Exit | Cancel

type_synonym action_result = "result_type \<times> u32"

record 's action =
  action_fd :: "'s \<Rightarrow> file_descriptor"
  direction :: direction
  callback :: "'s \<Rightarrow> (action_result \<times> 's) res"
  when_interested :: "'s \<Rightarrow> bool"
  active :: bool

definition action_new ::
  "('s \<Rightarrow> file_descriptor) \<Rightarrow> direction \<Rightarrow> ('s \<Rightarrow> (action_result \<times> 's) res) \<Rightarrow> ('s \<Rightarrow> bool) \<Rightarrow> 's action" where
  "action_new s_fd s_direction s_callback s_when_interested =
     \<lparr>action_fd = s_fd, direction = s_direction, callback = s_callback,
      when_interested = s_when_interested, active = True\<rparr>"

definition service_count :: "'s action \<Rightarrow> 's \<Rightarrow> u32" where
  "service_count a s =
     (if direction a = In then read_count (action_fd a s) else write_count (action_fd a s))"

section \<open>The poller\<close>

record pollfd =
  pfd :: int
  events :: u16
  revents :: u16

definition direction_mask :: "direction \<Rightarrow> u16" where
  "direction_mask d = (case d of In \<Rightarrow> 0x001 | Out \<Rightarrow> 0x004)"

text \<open>\<open>POLLERR | POLLHUP | POLLNVAL\<close>.\<close>

definition error_mask :: u16 where
  "error_mask = 0x008 + 0x010 + 0x020"

record 's poller =
  actions :: "'s action list"
  pollfds :: "pollfd list"

datatype poll_type = Poll_success | Poll_timeout | Poll_exit

type_synonym poll_result = "poll_type \<times> u32"

type_synonym kernel = "pollfd list \<Rightarrow> int \<Rightarrow> int \<times> (nat \<Rightarrow> u16)"

definition poller_new :: "'s poller" where
  "poller_new = \<lparr>actions = [], pollfds = []\<rparr>"

definition add_action :: "'s action \<Rightarrow> 's \<Rightarrow> 's poller \<Rightarrow> 's poller" where
  "add_action a s p =
     p\<lparr>actions := actions p @ [a],
       pollfds := pollfds p @ [\<lparr>pfd = fd_num (action_fd a s), events = 0, revents = 0\<rparr>]\<rparr>"

text \<open>Whether \<open>poll\<close> cares about a descriptor.\<close>

definition wanted :: "'s action \<Rightarrow> 's \<Rightarrow> u16" where
  "wanted a s =
     (if direction a = In \<and> eof (action_fd a s) then 0
      else if active a \<and> when_interested a s then direction_mask (direction a) else 0)"

fun set_events :: "'s action list \<Rightarrow> pollfd list \<Rightarrow> 's \<Rightarrow> pollfd list res" where
  "set_events (a # as) (p # ps) s =
     assertR (pfd p = fd_num (action_fd a s))
       (bindR (set_events as ps s) (\<lambda>ps'. Inr (p\<lparr>events := wanted a s\<rparr> # ps')))"
| "set_events _ _ s = Inr []"

fun set_revents :: "(nat \<Rightarrow> u16) \<Rightarrow> pollfd list \<Rightarrow> pollfd list" where
  "set_revents f [] = []"
| "set_revents f (p # ps) = p\<lparr>revents := f 0\<rparr> # set_revents (\<lambda>i. f (Suc i)) ps"

text \<open>
  The loop over the descriptors after \<open>poll(2)\<close>.  It also returns the actions, of which a
  callback may cancel its own.
\<close>

fun service ::
  "'s action list \<Rightarrow> pollfd list \<Rightarrow> 's \<Rightarrow> (poll_result \<times> 's action list \<times> 's) res" where
  "service (a # as) (p # ps) s =
     (if and (revents p) error_mask \<noteq> 0 then Inr ((Poll_exit, 0), a # as, s)
      else if and (revents p) (events p) \<noteq> 0 then
        bindR (callback a s) (\<lambda>((t, status), s').
          if t = Exit then Inr ((Poll_exit, status), a # as, s')
          else
            let a' = (if t = Cancel then a\<lparr>active := False\<rparr> else a)
            in if service_count a s = service_count a' s'
               then Inl (Runtime_error ''Poller: busy wait detected: callback did not read/write fd'')
               else bindR (service as ps s') (\<lambda>(r, as', s''). Inr (r, a' # as', s'')))
      else bindR (service as ps s) (\<lambda>(r, as', s''). Inr (r, a # as', s'')))"
| "service as _ s = Inr ((Poll_success, 0), as, s)"

definition poll ::
  "kernel \<Rightarrow> int \<Rightarrow> 's poller \<Rightarrow> 's \<Rightarrow> (poll_result \<times> 's poller \<times> 's) res" where
  "poll k timeout_ms p s =
     assertR (length (pollfds p) = length (actions p)) (
     bindR (set_events (actions p) (pollfds p) s) (\<lambda>ps.
       if \<forall>x \<in> set ps. events x = 0
       then Inr ((Poll_exit, 0), p\<lparr>pollfds := ps\<rparr>, s)
       else
         let (n, f) = k ps timeout_ms;
             ps' = set_revents f ps
         in if n < 0 then Inl (Unix_error ''poll'')
            else if n = 0 then Inr ((Poll_timeout, 0), p\<lparr>pollfds := ps'\<rparr>, s)
            else bindR (service (actions p) ps' s) (\<lambda>(r, as, s').
                   Inr (r, \<lparr>actions = as, pollfds = ps'\<rparr>, s'))))"

text \<open>
  \<open>while ( true ) if ( poller.poll( t ).result == Exit ) return\<close>, for a finite number of
  rounds: one kernel per call of \<open>poll(2)\<close>.  \<open>None\<close>: the loop still runs.
\<close>

fun poll_loop ::
  "kernel list \<Rightarrow> int \<Rightarrow> 's poller \<Rightarrow> 's \<Rightarrow> (u32 option \<times> 's poller \<times> 's) res" where
  "poll_loop [] t p s = Inr (None, p, s)"
| "poll_loop (k # ks) t p s =
     bindR (poll k t p s) (\<lambda>((r, status), p', s').
       if r = Poll_exit then Inr (Some status, p', s') else poll_loop ks t p' s')"

section \<open>Lemmas on the loops\<close>

lemma set_events_Inl: "set_events as ps s = Inl e \<Longrightarrow> e = Assert_failed"
  by (induction as ps s rule: set_events.induct) (auto simp: res_simps split: if_splits)

lemma set_events_length:
  "set_events as ps s = Inr ps' \<Longrightarrow> length as = length ps \<Longrightarrow> length ps' = length ps"
  by (induction as ps s arbitrary: ps' rule: set_events.induct) (auto simp: res_simps)

lemma set_events_nth:
  "set_events as ps s = Inr ps' \<Longrightarrow> length as = length ps \<Longrightarrow> i < length as \<Longrightarrow>
   events (ps' ! i) = wanted (as ! i) s \<and> pfd (ps' ! i) = pfd (ps ! i)"
proof (induction as ps s arbitrary: ps' i rule: set_events.induct)
  case (1 a as p ps s)
  then show ?case by (cases i) (auto simp: res_simps)
qed auto

lemma set_events_ok:
  "length as = length ps \<Longrightarrow> \<forall>i < length as. pfd (ps ! i) = fd_num (action_fd (as ! i) s) \<Longrightarrow>
   \<exists>ps'. set_events as ps s = Inr ps'"
proof (induction as ps s rule: set_events.induct)
  case (1 a as p ps s)
  from 1(3) have "pfd p = fd_num (action_fd a s)"
    "\<forall>i < length as. pfd (ps ! i) = fd_num (action_fd (as ! i) s)"
    by (force, force)
  with 1 show ?case by auto
qed auto

lemma set_revents_simps [simp]:
  "length (set_revents f ps) = length ps"
  "i < length ps \<Longrightarrow> set_revents f ps ! i = (ps ! i)\<lparr>revents := f i\<rparr>"
proof -
  show "length (set_revents f ps) = length ps"
    by (induction f ps rule: set_revents.induct) auto
  show "i < length ps \<Longrightarrow> set_revents f ps ! i = (ps ! i)\<lparr>revents := f i\<rparr>"
  proof (induction f ps arbitrary: i rule: set_revents.induct)
    case (2 f p ps)
    then show ?case by (cases i) auto
  qed simp
qed

lemma wanted_interested:
  "wanted a s \<noteq> 0 \<Longrightarrow> when_interested a s \<and> active a \<and> \<not> (direction a = In \<and> eof (action_fd a s))"
  by (auto simp: wanted_def split: if_splits)

lemma wanted_nonzero:
  "wanted a s = 0 \<longleftrightarrow> \<not> active a \<or> \<not> when_interested a s \<or> (direction a = In \<and> eof (action_fd a s))"
  by (auto simp: wanted_def direction_mask_def split: direction.split)

section \<open>What the poller promises to its actions\<close>

text \<open>
  \<open>poll\<close> asks every action whether it is interested before it serves the first one, so an
  earlier callback of the same round must not destroy what a later one relies on.  \<open>ready i\<close>
  is what the callback of action \<open>i\<close> needs; the client shows that it follows from the
  action's own condition and that the callbacks before it leave it intact.
\<close>

locale poller_client =
  fixes acts :: "'s action list"
    and good :: "'s \<Rightarrow> bool"
    and ready :: "nat \<Rightarrow> 's \<Rightarrow> bool"
    and may_cancel :: "nat \<Rightarrow> bool"
  assumes guard: "i < length acts \<Longrightarrow> good s \<Longrightarrow> when_interested (acts ! i) s \<Longrightarrow> ready i s"
    and step: "i < length acts \<Longrightarrow> good s \<Longrightarrow> ready i s \<Longrightarrow> callback (acts ! i) s = Inr (r, s') \<Longrightarrow> good s'"
    and stable: "i < j \<Longrightarrow> j < length acts \<Longrightarrow> good s \<Longrightarrow> ready i s \<Longrightarrow> ready j s \<Longrightarrow>
      callback (acts ! i) s = Inr (r, s') \<Longrightarrow> ready j s'"
    and cancels: "i < length acts \<Longrightarrow> good s \<Longrightarrow> ready i s \<Longrightarrow>
      callback (acts ! i) s = Inr ((Cancel, st), s') \<Longrightarrow> may_cancel i"
begin

definition like_from :: "nat \<Rightarrow> 's action list \<Rightarrow> bool" where
  "like_from k as \<longleftrightarrow> length as + k = length acts \<and>
     (\<forall>i < length as. as ! i = (acts ! (k + i))\<lparr>active := active (as ! i)\<rparr> \<and>
        (active (as ! i) \<or> may_cancel (k + i)))"

lemma like_from_start: "\<forall>a \<in> set acts. active a \<Longrightarrow> like_from 0 acts"
  by (auto simp: like_from_def)

lemma like_from_Cons:
  "like_from k (a # as) \<longleftrightarrow> k < length acts \<and> a = (acts ! k)\<lparr>active := active a\<rparr> \<and>
     (active a \<or> may_cancel k) \<and> like_from (Suc k) as"
  by (auto simp: like_from_def All_less_Suc2)

lemma like_from_parts:
  assumes "like_from k (a # as)"
  shows "k < length acts" "callback a = callback (acts ! k)" "when_interested a = when_interested (acts ! k)"
    "direction a = direction (acts ! k)" "action_fd a = action_fd (acts ! k)"
proof -
  have a: "a = (acts ! k)\<lparr>active := active a\<rparr>" and "k < length acts"
    using assms by (simp_all add: like_from_Cons)
  then show "k < length acts" by simp
  show "callback a = callback (acts ! k)" by (subst a) simp
  show "when_interested a = when_interested (acts ! k)" by (subst a) simp
  show "direction a = direction (acts ! k)" by (subst a) simp
  show "action_fd a = action_fd (acts ! k)" by (subst a) simp
qed

lemma like_from_nth:
  assumes "like_from 0 as" "i < length as"
  shows "i < length acts" "when_interested (as ! i) = when_interested (acts ! i)"
    "direction (as ! i) = direction (acts ! i)" "action_fd (as ! i) = action_fd (acts ! i)"
proof -
  have a: "as ! i = (acts ! i)\<lparr>active := active (as ! i)\<rparr>" and "i < length acts"
    using assms by (auto simp: like_from_def)
  then show "i < length acts" by simp
  show "when_interested (as ! i) = when_interested (acts ! i)" by (subst a) simp
  show "direction (as ! i) = direction (acts ! i)" by (subst a) simp
  show "action_fd (as ! i) = action_fd (acts ! i)" by (subst a) simp
qed

text \<open>Every callback runs in a state in which it is ready, whatever ran before it.\<close>

lemma service_good:
  "service as ps s = Inr (r, as', s') \<Longrightarrow> like_from k as \<Longrightarrow> length ps = length as \<Longrightarrow> good s \<Longrightarrow>
   (\<And>i. i < length as \<Longrightarrow> events (ps ! i) \<noteq> 0 \<Longrightarrow> ready (k + i) s) \<Longrightarrow>
   good s' \<and> like_from k as'"
proof (induction as ps s arbitrary: k r as' s' rule: service.induct)
  case (1 a as p ps s)
  note l = like_from_parts [OF "1.prems"(2)]
  have rest: "i < length as \<Longrightarrow> events (ps ! i) \<noteq> 0 \<Longrightarrow> ready (Suc k + i) s" for i
    using "1.prems"(5) [of "Suc i"] by simp
  show ?case
  proof (cases "and (revents p) error_mask \<noteq> 0")
    case True
    with "1.prems" show ?thesis by simp
  next
    case calm: False
    show ?thesis
    proof (cases "and (revents p) (events p) \<noteq> 0")
      case False
      then obtain as1 where "service as ps s = Inr (r, as1, s')" "as' = a # as1"
        using calm "1.prems"(1) by (auto simp: res_simps)
      with "1.IH"(2) [of r as1 s' "Suc k"] calm False "1.prems" rest show ?thesis
        by (simp add: like_from_Cons)
    next
      case fired: True
      then have "events p \<noteq> 0" by (metis and_zero_eq)
      then have rd: "ready k s" using "1.prems"(5) [of 0] by simp
      obtain t st s1 where cb: "callback a s = Inr ((t, st), s1)"
        using calm fired "1.prems"(1) by (auto simp: res_simps)
      then have cb': "callback (acts ! k) s = Inr ((t, st), s1)" by (simp add: l)
      have g1: "good s1" using step [OF l(1) "1.prems"(4) rd cb'] .
      show ?thesis
      proof (cases "t = Exit")
        case True
        with g1 cb calm fired "1.prems" show ?thesis by simp
      next
        case False
        define a' where "a' = (if t = Cancel then a\<lparr>active := False\<rparr> else a)"
        obtain as1 where sv: "service as ps s1 = Inr (r, as1, s')" "as' = a' # as1"
          and busy: "service_count a s \<noteq> service_count a' s1"
          using calm fired "1.prems"(1) cb False
          by (auto simp: res_simps a'_def Let_def split: if_splits)
        have "ready (Suc k + i) s1" if "i < length as" "events (ps ! i) \<noteq> 0" for i
          using stable [OF _ _ "1.prems"(4) rd rest [OF that] cb'] that "1.prems"(2)
          by (simp add: like_from_def)
        then have IH: "good s' \<and> like_from (Suc k) as1"
          using "1.IH"(1) [OF _ _ cb refl refl False a'_def busy sv(1), of "Suc k"]
            calm fired "1.prems" g1 by (simp add: like_from_Cons)
        moreover have "a' = (acts ! k)\<lparr>active := active a'\<rparr>"
        proof -
          have "a = (acts ! k)\<lparr>active := active a\<rparr>" using "1.prems"(2) by (simp add: like_from_Cons)
          then show ?thesis by (metis (no_types) a'_def action.surjective action.update_convs(5) action.select_convs(5))
        qed
        moreover have "active a' \<or> may_cancel k"
          using "1.prems"(2) cancels [OF l(1) "1.prems"(4) rd, of st s1] cb'
          by (auto simp: a'_def like_from_Cons)
        ultimately show ?thesis using sv(2) l(1) by (simp add: like_from_Cons)
      qed
    qed
  qed
qed (auto simp: like_from_def)

lemma ready_from_events:
  assumes "set_events (actions p) (pollfds p) s = Inr ps" "good s" "like_from 0 (actions p)"
    "length (pollfds p) = length (actions p)" "i < length (actions p)" "events (ps ! i) \<noteq> 0"
  shows "ready i s"
proof -
  have "wanted (actions p ! i) s \<noteq> 0"
    using set_events_nth [OF assms(1) assms(4) [symmetric] assms(5)] assms(6) by simp
  then have "when_interested (acts ! i) s"
    using wanted_interested [of "actions p ! i" s] like_from_nth [OF assms(3,5)] by simp
  then show ?thesis using guard [of i s] assms(2) like_from_nth(1) [OF assms(3,5)] by blast
qed

lemma poll_good:
  assumes "poll k t p s = Inr (r, p', s')" "good s" "like_from 0 (actions p)"
  shows "good s' \<and> like_from 0 (actions p')"
proof -
  have len: "length (pollfds p) = length (actions p)"
    using assms(1) by (simp add: poll_def res_simps)
  obtain ps where ps: "set_events (actions p) (pollfds p) s = Inr ps"
    using assms(1) by (auto simp: poll_def res_simps)
  have lps: "length ps = length (actions p)" using set_events_length [OF ps] len by simp
  obtain n f where k: "k ps t = (n, f)" by fastforce
  show ?thesis
  proof (cases "(\<forall>x \<in> set ps. events x = 0) \<or> n \<le> 0")
    case True
    then show ?thesis
      using assms ps k by (auto simp: poll_def res_simps Let_def split: if_splits)
  next
    case False
    then obtain as where sv: "service (actions p) (set_revents f ps) s = Inr (r, as, s')"
      and p': "actions p' = as"
      using assms(1) ps k by (auto simp: poll_def res_simps Let_def split: if_splits)
    from sv have "good s' \<and> like_from 0 as"
      by (rule service_good [where k = 0])
        (use assms lps ready_from_events [OF ps assms(2,3) len] in auto)
    with p' show ?thesis by simp
  qed
qed

lemma poll_loop_good:
  "poll_loop ks t p s = Inr (r, p', s') \<Longrightarrow> good s \<Longrightarrow> like_from 0 (actions p) \<Longrightarrow>
   good s' \<and> like_from 0 (actions p')"
proof (induction ks t p s rule: poll_loop.induct)
  case (2 k ks t p s)
  obtain pr st p1 s1 where po: "poll k t p s = Inr ((pr, st), p1, s1)"
    using "2.prems"(1) by (auto simp: res_simps)
  have g: "good s1 \<and> like_from 0 (actions p1)" by (rule poll_good [OF po "2.prems"(2,3)])
  show ?case
  proof (cases "pr = Poll_exit")
    case True
    with po g "2.prems"(1) show ?thesis by simp
  next
    case False
    with "2.IH" [OF po refl refl False] g "2.prems"(1) po show ?thesis by simp
  qed
qed simp

end

text \<open>
  When moreover every ready callback completes, moves its counter and leaves the numbers of
  the descriptors alone, \<open>poll\<close> fails in no other way than by an error of \<open>poll(2)\<close>.
\<close>

locale reliable_client = poller_client +
  assumes completes: "i < length acts \<Longrightarrow> good s \<Longrightarrow> ready i s \<Longrightarrow>
      \<exists>r s'. callback (acts ! i) s = Inr (r, s')"
    and counted: "i < length acts \<Longrightarrow> good s \<Longrightarrow> ready i s \<Longrightarrow>
      callback (acts ! i) s = Inr ((t, st), s') \<Longrightarrow> t \<noteq> Exit \<Longrightarrow>
      service_count (acts ! i) s' \<noteq> service_count (acts ! i) s"
    and fds_fixed: "i < length acts \<Longrightarrow> j < length acts \<Longrightarrow> good s \<Longrightarrow> ready i s \<Longrightarrow>
      callback (acts ! i) s = Inr (r, s') \<Longrightarrow>
      fd_num (action_fd (acts ! j) s') = fd_num (action_fd (acts ! j) s)"
begin

definition fds_match :: "pollfd list \<Rightarrow> 'a \<Rightarrow> bool" where
  "fds_match ps s \<longleftrightarrow> length ps = length acts \<and>
     (\<forall>i < length acts. pfd (ps ! i) = fd_num (action_fd (acts ! i) s))"

lemma service_total:
  "like_from k as \<Longrightarrow> length ps = length as \<Longrightarrow> good s \<Longrightarrow>
   (\<And>i. i < length as \<Longrightarrow> events (ps ! i) \<noteq> 0 \<Longrightarrow> ready (k + i) s) \<Longrightarrow>
   \<exists>r as' s'. service as ps s = Inr (r, as', s') \<and>
     (\<forall>j < length acts. fd_num (action_fd (acts ! j) s') = fd_num (action_fd (acts ! j) s))"
proof (induction as ps s arbitrary: k rule: service.induct)
  case (1 a as p ps s)
  note l = like_from_parts [OF "1.prems"(1)]
  have rest: "i < length as \<Longrightarrow> events (ps ! i) \<noteq> 0 \<Longrightarrow> ready (Suc k + i) s" for i
    using "1.prems"(4) [of "Suc i"] by simp
  show ?case
  proof (cases "and (revents p) error_mask \<noteq> 0")
    case True
    then show ?thesis by simp
  next
    case calm: False
    show ?thesis
    proof (cases "and (revents p) (events p) \<noteq> 0")
      case False
      with "1.IH"(2) [of "Suc k"] calm "1.prems" rest
      obtain r as' s' where "service as ps s = Inr (r, as', s')"
        "\<forall>j < length acts. fd_num (action_fd (acts ! j) s') = fd_num (action_fd (acts ! j) s)"
        by (auto simp: like_from_Cons)
      with calm False show ?thesis by simp
    next
      case fired: True
      then have "events p \<noteq> 0" by (metis and_zero_eq)
      then have rd: "ready k s" using "1.prems"(4) [of 0] by simp
      from completes [OF l(1) "1.prems"(3) rd] obtain t st s1
        where cb: "callback (acts ! k) s = Inr ((t, st), s1)" by auto
      then have cb': "callback a s = Inr ((t, st), s1)" by (simp add: l)
      have fx: "\<forall>j < length acts. fd_num (action_fd (acts ! j) s1) = fd_num (action_fd (acts ! j) s)"
        using fds_fixed [OF l(1) _ "1.prems"(3) rd cb] by blast
      show ?thesis
      proof (cases "t = Exit")
        case True
        with cb' calm fired fx show ?thesis by auto
      next
        case False
        define a' where "a' = (if t = Cancel then a\<lparr>active := False\<rparr> else a)"
        have sc: "service_count a' x = service_count (acts ! k) x" "service_count a x = service_count (acts ! k) x" for x
          using l by (simp_all add: service_count_def a'_def)
        have busy: "service_count a s \<noteq> service_count a' s1"
          using counted [OF l(1) "1.prems"(3) rd cb False] by (simp add: sc)
        have g1: "good s1" using step [OF l(1) "1.prems"(3) rd cb] .
        have "ready (Suc k + i) s1" if "i < length as" "events (ps ! i) \<noteq> 0" for i
          using stable [OF _ _ "1.prems"(3) rd rest [OF that] cb] that "1.prems"(1)
          by (simp add: like_from_def)
        with "1.IH"(1) [OF _ _ cb' refl refl False a'_def busy, of "Suc k"] calm fired "1.prems" g1
        obtain r as' s' where "service as ps s1 = Inr (r, as', s')"
          "\<forall>j < length acts. fd_num (action_fd (acts ! j) s') = fd_num (action_fd (acts ! j) s1)"
          by (auto simp: like_from_Cons)
        with calm fired cb' False busy fx show ?thesis
          by (simp add: a'_def Let_def split: if_splits)
      qed
    qed
  qed
qed auto

lemma poll_total:
  assumes "good s" "like_from 0 (actions p)" "fds_match (pollfds p) s"
  shows "poll k t p s = Inl (Unix_error ''poll'') \<or>
    (\<exists>r p' s'. poll k t p s = Inr (r, p', s') \<and> good s' \<and> like_from 0 (actions p') \<and>
       fds_match (pollfds p') s')"
proof -
  have len: "length (pollfds p) = length (actions p)" "length (actions p) = length acts"
    using assms by (auto simp: fds_match_def like_from_def)
  have "\<forall>i < length (actions p). pfd (pollfds p ! i) = fd_num (action_fd (actions p ! i) s)"
    using assms(3) len like_from_nth(4) [OF assms(2)] by (simp add: fds_match_def)
  then obtain ps where ps: "set_events (actions p) (pollfds p) s = Inr ps"
    using set_events_ok [OF len(1) [symmetric]] by blast
  have lps: "length ps = length (actions p)" using set_events_length [OF ps] len by simp
  have m: "fds_match ps s"
    using assms(3) set_events_nth [OF ps len(1) [symmetric]] lps len by (simp add: fds_match_def)
  obtain n f where k: "k ps t = (n, f)" by fastforce
  obtain r as' s' where sv: "service (actions p) (set_revents f ps) s = Inr (r, as', s')"
    and fx: "\<forall>j < length acts. fd_num (action_fd (acts ! j) s') = fd_num (action_fd (acts ! j) s)"
    using service_total [OF assms(2), of "set_revents f ps" s] lps assms
      ready_from_events [OF ps assms(1,2) len(1)] by auto
  have m': "fds_match (set_revents f ps) x" if "fds_match ps x" for x
    using that by (auto simp: fds_match_def)
  have "fds_match (set_revents f ps) s'" using m m' fx by (auto simp: fds_match_def)
  moreover have "good s' \<and> like_from 0 as'"
    by (rule service_good [OF sv assms(2)])
      (use assms lps ready_from_events [OF ps assms(1,2) len(1)] in auto)
  ultimately show ?thesis
    using assms len ps k sv m m' by (auto simp: poll_def Let_def)
qed

lemma poll_loop_total:
  "good s \<Longrightarrow> like_from 0 (actions p) \<Longrightarrow> fds_match (pollfds p) s \<Longrightarrow>
   poll_loop ks t p s = Inl (Unix_error ''poll'') \<or> (\<exists>r. poll_loop ks t p s = Inr r)"
proof (induction ks arbitrary: p s)
  case (Cons k ks)
  from poll_total [OF Cons.prems, of k t] show ?case
  proof
    assume "\<exists>r p' s'. poll k t p s = Inr (r, p', s') \<and> good s' \<and> like_from 0 (actions p') \<and>
       fds_match (pollfds p') s'"
    then obtain r st p' s' where po: "poll k t p s = Inr ((r, st), p', s')"
      and "good s'" "like_from 0 (actions p')" "fds_match (pollfds p') s'" by auto
    with Cons.IH [of s' p'] show ?thesis by simp
  qed simp
qed simp

end

text \<open>
  A client whose callbacks never ask to leave: the loop ends only on an error condition of a
  descriptor, or when no action is interested any more.
\<close>

locale lasting_client = reliable_client +
  assumes stays: "i < length acts \<Longrightarrow> good s \<Longrightarrow> ready i s \<Longrightarrow>
      callback (acts ! i) s = Inr ((t, st), s') \<Longrightarrow> t \<noteq> Exit"
begin

definition calm :: "kernel \<Rightarrow> bool" where
  "calm k \<longleftrightarrow> (\<forall>ps t i. and (snd (k ps t) i) error_mask = 0)"

lemma service_stays:
  "service as ps s = Inr ((r, st), as', s') \<Longrightarrow> like_from k as \<Longrightarrow> length ps = length as \<Longrightarrow> good s \<Longrightarrow>
   (\<And>i. i < length as \<Longrightarrow> events (ps ! i) \<noteq> 0 \<Longrightarrow> ready (k + i) s) \<Longrightarrow>
   \<forall>x \<in> set ps. and (revents x) error_mask = 0 \<Longrightarrow> r \<noteq> Poll_exit"
proof (induction as ps s arbitrary: k r st as' s' rule: service.induct)
  case (1 a as p ps s)
  note l = like_from_parts [OF "1.prems"(2)]
  have rest: "i < length as \<Longrightarrow> events (ps ! i) \<noteq> 0 \<Longrightarrow> ready (Suc k + i) s" for i
    using "1.prems"(5) [of "Suc i"] by simp
  have calm: "and (revents p) error_mask = 0" using "1.prems"(6) by simp
  show ?case
  proof (cases "and (revents p) (events p) \<noteq> 0")
    case False
    then obtain as1 where "service as ps s = Inr ((r, st), as1, s')"
      using calm "1.prems"(1) by (auto simp: res_simps)
    with "1.IH"(2) [of r st as1 s' "Suc k"] calm False "1.prems" rest show ?thesis
      by (simp add: like_from_Cons)
  next
    case fired: True
    then have "events p \<noteq> 0" by (metis and_zero_eq)
    then have rd: "ready k s" using "1.prems"(5) [of 0] by simp
    obtain t u s1 where cb: "callback a s = Inr ((t, u), s1)"
      using calm fired "1.prems"(1) by (auto simp: res_simps)
    then have cb': "callback (acts ! k) s = Inr ((t, u), s1)" by (simp add: l)
    have t: "t \<noteq> Exit" by (rule stays [OF l(1) "1.prems"(4) rd cb'])
    define a' where "a' = (if t = Cancel then a\<lparr>active := False\<rparr> else a)"
    obtain as1 where sv: "service as ps s1 = Inr ((r, st), as1, s')"
      and busy: "service_count a s \<noteq> service_count a' s1"
      using calm fired "1.prems"(1) cb t by (auto simp: res_simps a'_def Let_def split: if_splits)
    have "ready (Suc k + i) s1" if "i < length as" "events (ps ! i) \<noteq> 0" for i
      using stable [OF _ _ "1.prems"(4) rd rest [OF that] cb'] that "1.prems"(2)
      by (simp add: like_from_def)
    with "1.IH"(1) [OF _ _ cb refl refl t a'_def busy sv, of "Suc k"] calm fired "1.prems"
      step [OF l(1) "1.prems"(4) rd cb'] show ?thesis by (simp add: like_from_Cons)
  qed
qed auto

lemma poll_exit_idle:
  assumes "poll k t p s = Inr ((Poll_exit, st), p', s')" "calm k" "good s" "like_from 0 (actions p)"
    "i < length acts" "\<not> may_cancel i"
  shows "s' = s \<and> (\<not> when_interested (acts ! i) s \<or> (direction (acts ! i) = In \<and> eof (action_fd (acts ! i) s)))"
proof -
  have len: "length (pollfds p) = length (actions p)"
    using assms(1) by (simp add: poll_def res_simps)
  obtain ps where ps: "set_events (actions p) (pollfds p) s = Inr ps"
    using assms(1) by (auto simp: poll_def res_simps)
  have lps: "length ps = length (actions p)" using set_events_length [OF ps] len by simp
  obtain n f where k: "k ps t = (n, f)" by fastforce
  have "and (f j) error_mask = 0" for j
    using assms(2) k by (metis calm_def snd_conv)
  then have c: "\<forall>x \<in> set (set_revents f ps). and (revents x) error_mask = 0"
    by (auto simp: in_set_conv_nth)
  have "\<not> (service (actions p) (set_revents f ps) s = Inr ((Poll_exit, st), as, s'))" for as
    using service_stays [of "actions p" "set_revents f ps" s Poll_exit st as s' 0] c assms lps
      ready_from_events [OF ps assms(3,4) len] by auto
  then have e: "(\<forall>x \<in> set ps. events x = 0) \<and> s' = s"
    using assms(1) ps k by (auto simp: poll_def res_simps Let_def split: if_splits)
  have i: "i < length (actions p)" using assms(4,5) by (simp add: like_from_def)
  then have "events (ps ! i) = 0" using e lps by simp
  then have "wanted (actions p ! i) s = 0"
    using set_events_nth [OF ps len [symmetric] i] by simp
  moreover have "active (actions p ! i)" using assms(4,6) i by (auto simp: like_from_def)
  ultimately show ?thesis
    using e like_from_nth [OF assms(4) i] by (simp add: wanted_nonzero)
qed

lemma poll_loop_exit_idle:
  "poll_loop ks t p s = Inr (Some st, p', s') \<Longrightarrow> \<forall>k \<in> set ks. calm k \<Longrightarrow> good s \<Longrightarrow>
   like_from 0 (actions p) \<Longrightarrow> i < length acts \<Longrightarrow> \<not> may_cancel i \<Longrightarrow>
   \<not> when_interested (acts ! i) s' \<or> (direction (acts ! i) = In \<and> eof (action_fd (acts ! i) s'))"
proof (induction ks t p s rule: poll_loop.induct)
  case (2 k ks t p s)
  obtain pr u p1 s1 where po: "poll k t p s = Inr ((pr, u), p1, s1)"
    using "2.prems"(1) by (auto simp: res_simps)
  show ?case
  proof (cases "pr = Poll_exit")
    case True
    then show ?thesis
      using poll_exit_idle [of k t p s u p1 s1 i] po "2.prems" by auto
  next
    case False
    with "2.IH" [OF po refl refl False] poll_good [OF po "2.prems"(3,4)] "2.prems" po
    show ?thesis by simp
  qed
qed simp

end

text \<open>
  A client whose ready callbacks have defined behaviour: exceptions may leave the loop, but
  nothing that C++ leaves undefined happens.
\<close>

locale safe_client = poller_client +
  assumes "defined": "i < length acts \<Longrightarrow> good s \<Longrightarrow> ready i s \<Longrightarrow> callback (acts ! i) s = Inl e \<Longrightarrow>
      \<not> undefined_exn e"
begin

lemma service_defined:
  "service as ps s = Inl e \<Longrightarrow> like_from k as \<Longrightarrow> length ps = length as \<Longrightarrow> good s \<Longrightarrow>
   (\<And>i. i < length as \<Longrightarrow> events (ps ! i) \<noteq> 0 \<Longrightarrow> ready (k + i) s) \<Longrightarrow> \<not> undefined_exn e"
proof (induction as ps s arbitrary: k rule: service.induct)
  case (1 a as p ps s)
  note l = like_from_parts [OF "1.prems"(2)]
  have rest: "i < length as \<Longrightarrow> events (ps ! i) \<noteq> 0 \<Longrightarrow> ready (Suc k + i) s" for i
    using "1.prems"(5) [of "Suc i"] by simp
  have calm: "and (revents p) error_mask = 0" using "1.prems"(1) by (auto split: if_splits)
  show ?case
  proof (cases "and (revents p) (events p) \<noteq> 0")
    case False
    then have "service as ps s = Inl e" using calm "1.prems"(1) by (auto simp: res_simps)
    with "1.IH"(2) [of "Suc k"] calm False "1.prems" rest show ?thesis by (simp add: like_from_Cons)
  next
    case fired: True
    then have "events p \<noteq> 0" by (metis and_zero_eq)
    then have rd: "ready k s" using "1.prems"(5) [of 0] by simp
    show ?thesis
    proof (cases "callback a s")
      case (Inl e')
      then have "callback (acts ! k) s = Inl e'" by (simp add: l)
      from "defined" [OF l(1) "1.prems"(4) rd this] Inl calm fired "1.prems"(1) show ?thesis by simp
    next
      case (Inr x)
      obtain t u s1 where x: "x = ((t, u), s1)" by (metis surj_pair)
      then have cb: "callback a s = Inr ((t, u), s1)" and cb': "callback (acts ! k) s = Inr ((t, u), s1)"
        using Inr by (simp_all add: l)
      have t: "t \<noteq> Exit" using calm fired "1.prems"(1) cb by auto
      define a' where "a' = (if t = Cancel then a\<lparr>active := False\<rparr> else a)"
      show ?thesis
      proof (cases "service_count a s = service_count a' s1")
        case True
        then have "e = Runtime_error ''Poller: busy wait detected: callback did not read/write fd''"
          using calm fired "1.prems"(1) cb t by (auto simp: a'_def Let_def split: if_splits)
        then show ?thesis by simp
      next
        case busy: False
        then have sv: "service as ps s1 = Inl e"
          using calm fired "1.prems"(1) cb t by (auto simp: res_simps a'_def Let_def split: if_splits)
        have "ready (Suc k + i) s1" if "i < length as" "events (ps ! i) \<noteq> 0" for i
          using stable [OF _ _ "1.prems"(4) rd rest [OF that] cb'] that "1.prems"(2)
          by (simp add: like_from_def)
        with "1.IH"(1) [OF _ _ cb refl refl t a'_def busy sv, of "Suc k"] calm fired "1.prems"
          step [OF l(1) "1.prems"(4) rd cb'] show ?thesis by (simp add: like_from_Cons)
      qed
    qed
  qed
qed auto

lemma poll_defined:
  assumes "poll k t p s = Inl e" "good s" "like_from 0 (actions p)"
  shows "\<not> undefined_exn e"
proof (cases "length (pollfds p) = length (actions p)")
  case False
  with assms(1) show ?thesis by (simp add: poll_def)
next
  case len: True
  show ?thesis
  proof (cases "set_events (actions p) (pollfds p) s")
    case (Inl e')
    then have "e' = Assert_failed" by (rule set_events_Inl)
    with assms(1) Inl len show ?thesis by (simp add: poll_def)
  next
    case (Inr ps)
    obtain n f where k: "k ps t = (n, f)" by fastforce
    have lps: "length ps = length (actions p)" using set_events_length [OF Inr] len by simp
    have "e = Unix_error ''poll'' \<or> service (actions p) (set_revents f ps) s = Inl e"
      using assms(1) len Inr k by (auto simp: poll_def res_simps Let_def split: if_splits)
    then show ?thesis
      using service_defined [of "actions p" "set_revents f ps" s e 0] assms lps
        ready_from_events [OF Inr assms(2,3) len] by auto
  qed
qed

lemma poll_loop_defined:
  "poll_loop ks t p s = Inl e \<Longrightarrow> good s \<Longrightarrow> like_from 0 (actions p) \<Longrightarrow> \<not> undefined_exn e"
proof (induction ks t p s rule: poll_loop.induct)
  case (2 k ks t p s)
  show ?case
  proof (cases "poll k t p s")
    case (Inl e')
    with "2.prems" poll_defined show ?thesis by auto
  next
    case (Inr x)
    obtain pr st p1 s1 where x: "x = ((pr, st), p1, s1)" by (metis surj_pair)
    with Inr have po: "poll k t p s = Inr ((pr, st), p1, s1)" by simp
    have "pr \<noteq> Poll_exit" using "2.prems"(1) po by auto
    with "2.IH" [OF po refl refl this] "2.prems" po poll_good [OF po "2.prems"(2,3)] show ?thesis by simp
  qed
qed simp

end

end
