(* ===== verification/Address.thy ===== *)
theory Address
  imports Ipv4_Text
begin

text \<open>
  \<open>src/util/address.cc\<close> and \<open>src/util/interfaces.cc\<close>: IPv4 addresses, and the choice of two
  addresses for the ends of a container's link that nobody else uses.  An address is the
  \<open>s_addr\<close> word as the little-endian machine holds it: its lowest byte is the first octet.
\<close>

section \<open>Addresses\<close>

record address =
  s_addr :: u32
  port :: u16

text \<open>\<open>Address()\<close> is 0.0.0.0, port 0.\<close>

definition address_any :: address where
  "address_any = \<lparr>s_addr = 0, port = 0\<rparr>"

text \<open>\<open>getnameinfo\<close> with \<open>NI_NUMERICHOST\<close>.\<close>

definition ip :: "address \<Rightarrow> string" where
  "ip a = inet_ntop (s_addr a)"

definition address_str :: "string \<Rightarrow> address \<Rightarrow> string" where
  "address_str port_separator a = ip a @ port_separator @ dec (unat (port a))"

text \<open>\<open>cgnat\<close>: 100.64.0.\<open>last_octet\<close>, port 0.\<close>

definition cgnat :: "u8 \<Rightarrow> address" where
  "cgnat last_octet = \<lparr>s_addr = 100 + push_bit 8 64 + push_bit 24 (ucast last_octet), port = 0\<rparr>"

section \<open>Interfaces\<close>

type_synonym interfaces = "address list"        \<comment> \<open>\<open>addresses_in_use_\<close>\<close>

definition add_address :: "address \<Rightarrow> interfaces \<Rightarrow> interfaces" where
  "add_address a is = is @ [a]"

text \<open>A line of \<open>/proc/net/route\<close>: the second column is the destination in hexadecimal.\<close>

definition route_destination :: "string \<Rightarrow> address res" where
  "route_destination line =
     (case str_find line [CHR 0x09] of
        None \<Rightarrow> Inl (Runtime_error ''/proc/net/route line: unknown format'')
      | Some dest_start \<Rightarrow>
          (case str_find_from line [CHR 0x09] (dest_start + 1) of
             None \<Rightarrow> Inl (Runtime_error ''/proc/net/route line: unknown format'')
           | Some dest_end \<Rightarrow>
               let len = dest_end - (dest_start + 1)
               in if len \<noteq> 8
                  then Inl (Runtime_error ''/proc/net/route destination address: unknown format'')
                  else bindR (substr line (dest_start + 1) len) (\<lambda>dest_address.
                       bindR (myatoi dest_address 16) (\<lambda>v.
                         Inr \<lparr>s_addr = word_of_int v, port = 0\<rparr>))))"

text \<open>
  The constructor, given the IPv4 addresses that \<open>getifaddrs\<close> lists (\<open>None\<close> when it fails)
  and the text of \<open>/proc/net/route\<close> (\<open>None\<close> when it cannot be opened).
\<close>

definition interfaces_new :: "address list option \<Rightarrow> string option \<Rightarrow> interfaces res" where
  "interfaces_new ifaddrs all_routes =
     (case ifaddrs of
        None \<Rightarrow> Inl (Unix_error ''getifaddrs'')
      | Some found \<Rightarrow>
          (case all_routes of
             None \<Rightarrow> Inl (Unix_error ''open /proc/net/route'')
           | Some text \<Rightarrow>
               if text = [] then Inr found
               else case getlines [] text of
                      [] \<Rightarrow> Inl (Runtime_error ''/proc/net/route: unknown format'')
                    | header_line # rows \<Rightarrow>
                        if str_find header_line ''Iface'' \<noteq> Some 0
                        then Inl (Runtime_error ''/proc/net/route: unknown format'')
                        else fold_res (\<lambda>line is. bindR (route_destination line) (\<lambda>a. Inr (is @ [a])))
                               rows found))"

definition address_in_use :: "interfaces \<Rightarrow> address \<Rightarrow> bool" where
  "address_in_use is addr = (\<exists>x \<in> set is. ip addr = ip x)"

function first_unassigned_address :: "interfaces \<Rightarrow> u16 \<Rightarrow> (address \<times> u16) res" where
  "first_unassigned_address is last_octet =
     (if last_octet \<le> 255 then
        let candidate = cgnat (ucast last_octet)
        in if \<not> address_in_use is candidate
           then assertR (port candidate = 0) (Inr (candidate, last_octet))
           else first_unassigned_address is (last_octet + 1)
      else Inl (Runtime_error ''Interfaces: could not find free interface address''))"
  by pat_completeness auto

termination
proof (relation "measure (\<lambda>(_, n). 256 - unat n)")
  fix "is" :: interfaces and n :: u16
  assume "n \<le> 255"
  then have le: "unat n \<le> 255" by (simp add: word_le_nat_alt)
  then have "unat (n + 1) = unat n + 1" by (simp add: unat_word_ariths)
  with le show "((is, n + 1), is, n) \<in> measure (\<lambda>(_, n). 256 - unat n)" by simp
qed simp

declare first_unassigned_address.simps [simp del]

definition two_unassigned_addresses ::
  "address list option \<Rightarrow> string option \<Rightarrow> address \<Rightarrow> (address \<times> address) res" where
  "two_unassigned_addresses ifaddrs all_routes avoid =
     bindR (interfaces_new ifaddrs all_routes) (\<lambda>is0.
     let is = add_address avoid is0
     in bindR (first_unassigned_address is 1) (\<lambda>(one, n).
        bindR (first_unassigned_address is (n + 1)) (\<lambda>(two, _).
          Inr (one, two))))"

section \<open>The addresses the code makes up\<close>

lemma cgnat_word: "unat (s_addr (cgnat b)) = 16484 + 16777216 * unat b"
proof -
  have "unat b < 256" using unsigned_less [of b] by simp
  then show ?thesis
    by (simp add: cgnat_def unat_word_ariths push_bit_eq_mult unsigned_ucast_eq take_bit_nat_eq_self)
qed

text \<open>The word written for \<open>cgnat\<close> is the one its text stands for.\<close>

lemma cgnat_text: "inet_pton (''100.64.0.'' @ dec (unat b)) = Some (s_addr (cgnat b))"
proof -
  have "unat b < 256" using unsigned_less [of b] by simp
  then have b: "unat b \<le> 255" by simp
  have d: "dec 100 = ''100''" "dec 64 = ''64''" "dec 0 = ''0''" by code_simp+
  have "''100.64.0.'' @ dec (unat b) =
      dec 100 @ CHR ''.'' # dec 64 @ CHR ''.'' # dec 0 @ CHR ''.'' # dec (unat b)"
    by (simp add: d)
  also have "inet_pton \<dots> = Some (ipv4_word 100 64 0 (unat b))"
    using octet_dec [of 100] octet_dec [of 64] octet_dec [of 0] octet_dec [OF b]
    by (simp add: inet_pton_def split_char_word dot_not_digit del: of_nat_add of_nat_mult)
  also have "ipv4_word 100 64 0 (unat b) = of_nat (unat (s_addr (cgnat b)))"
    unfolding ipv4_word_def cgnat_word by (rule arg_cong [of _ _ of_nat]) simp
  finally show ?thesis by simp
qed

lemma cgnat_ip_inj: "ip (cgnat b) = ip (cgnat c) \<Longrightarrow> b = c"
  using cgnat_word [of b] cgnat_word [of c]
  by (auto simp: ip_def word_unat_eq_iff dest!: inet_ntop_inj)

section \<open>The free addresses\<close>

text \<open>The search returns the first free number from \<open>n\<close> on, and fails only when there is none.\<close>

lemma first_unassigned_spec:
  "(\<exists>m. first_unassigned_address is n = Inr (cgnat (ucast m), m) \<and> n \<le> m \<and> m \<le> 255 \<and>
      \<not> address_in_use is (cgnat (ucast m)) \<and>
      (\<forall>j. n \<le> j \<and> j < m \<longrightarrow> address_in_use is (cgnat (ucast j)))) \<or>
   (first_unassigned_address is n =
      Inl (Runtime_error ''Interfaces: could not find free interface address'') \<and>
    (\<forall>j. n \<le> j \<and> j \<le> 255 \<longrightarrow> address_in_use is (cgnat (ucast j))))"
proof (induction "is" n rule: first_unassigned_address.induct)
  case (1 "is" n)
  note unfold = first_unassigned_address.simps [of "is" n]
  show ?case
  proof (cases "n \<le> 255 \<and> address_in_use is (cgnat (ucast n))")
    case False
    show ?thesis
    proof (cases "n \<le> 255")
      case True
      with False show ?thesis
        by (subst (1) unfold) (auto simp: Let_def cgnat_def intro!: exI [of _ n])
    next
      case no: False
      then have "\<not> (n \<le> j \<and> j \<le> 255)" for j by (meson order_trans)
      with no show ?thesis by (subst (2) unfold) auto
    qed
  next
    case True
    then have le: "unat n \<le> 255" by (simp add: word_le_nat_alt)
    have s: "unat (n + 1) = unat n + 1" using le by (simp add: unat_word_ariths)
    have step: "first_unassigned_address is n = first_unassigned_address is (n + 1)"
      using True by (subst unfold) (simp add: Let_def)
    have j: "n + 1 \<le> j \<longleftrightarrow> n \<le> j \<and> j \<noteq> n" for j
      by (auto simp: word_le_nat_alt s word_unat_eq_iff)
    from "1.IH" [OF _ refl] True show ?thesis unfolding step j by blast
  qed
qed

text \<open>The two addresses are the first two free ones.\<close>

lemma two_unassigned_first_free:
  assumes "two_unassigned_addresses ifaddrs all_routes avoid = Inr (one, two)"
    "interfaces_new ifaddrs all_routes = Inr used"
  shows "\<exists>m n. one = cgnat (ucast m) \<and> two = cgnat (ucast n) \<and> 1 \<le> m \<and> m < n \<and> n \<le> (255 :: u16) \<and>
    ip one \<noteq> ip two \<and> (\<forall>a \<in> set (used @ [avoid]). ip a \<noteq> ip one \<and> ip a \<noteq> ip two) \<and>
    (\<forall>j. 1 \<le> j \<longrightarrow> j < n \<longrightarrow> j \<noteq> m \<longrightarrow> (\<exists>a \<in> set (used @ [avoid]). ip a = ip (cgnat (ucast j))))"
proof -
  let ?is = "add_address avoid used"
  obtain m n where first: "first_unassigned_address ?is 1 = Inr (one, m)"
    and second: "first_unassigned_address ?is (m + 1) = Inr (two, n)"
    using assms by (auto simp: two_unassigned_addresses_def res_simps Let_def)
  from first_unassigned_spec [of ?is 1] first have m: "one = cgnat (ucast m)" "1 \<le> m" "m \<le> 255"
      "\<not> address_in_use ?is one" "\<forall>j. 1 \<le> j \<and> j < m \<longrightarrow> address_in_use ?is (cgnat (ucast j))"
    by auto
  from first_unassigned_spec [of ?is "m + 1"] second have n: "two = cgnat (ucast n)" "m + 1 \<le> n" "n \<le> 255"
      "\<not> address_in_use ?is two" "\<forall>j. m + 1 \<le> j \<and> j < n \<longrightarrow> address_in_use ?is (cgnat (ucast j))"
    by auto
  have s: "unat (m + 1) = unat m + 1" using m(3) by (simp add: word_le_nat_alt unat_word_ariths)
  then have lt: "m < n" using n(2) by (simp add: word_le_nat_alt word_less_nat_alt)
  have between: "j < m \<or> m + 1 \<le> j" if "j \<noteq> m" for j
    using that s by (auto simp: word_le_nat_alt word_less_nat_alt word_unat_eq_iff)
  have "ip one \<noteq> ip two"
  proof
    assume "ip one = ip two"
    then have "(ucast m :: u8) = ucast n" using m(1) n(1) by (simp add: cgnat_ip_inj)
    then have "unat (ucast m :: u8) = unat (ucast n :: u8)" by simp
    moreover have "unat m < 256" "unat n < 256" using m(3) n(3) by (simp_all add: word_le_nat_alt)
    ultimately have "unat m = unat n" by (simp add: unsigned_ucast_eq take_bit_nat_eq_self)
    with lt show False by (simp add: word_less_nat_alt)
  qed
  moreover have "\<forall>j. 1 \<le> j \<longrightarrow> j < n \<longrightarrow> j \<noteq> m \<longrightarrow> address_in_use ?is (cgnat (ucast j))"
    using m(5) n(5) between by blast
  moreover have "\<forall>a \<in> set (used @ [avoid]). ip a \<noteq> ip one \<and> ip a \<noteq> ip two"
    using m(4) n(4) unfolding address_in_use_def add_address_def by metis
  moreover have "address_in_use ?is c \<longleftrightarrow> (\<exists>a \<in> set (used @ [avoid]). ip a = ip c)" for c
    unfolding address_in_use_def add_address_def by metis
  ultimately show ?thesis
    using m(1,2) n(1,3) lt by (intro exI [of _ m] exI [of _ n]) simp
qed

section \<open>The other constructors\<close>

text \<open>
  The constructor that asks \<open>getaddrinfo\<close>, given its answer (\<open>None\<close> for an error).  The text of
  the error says that the query was numeric whether it was or not: the code tests
  \<open>ai_flags | ( ... )\<close>, which is never 0.
\<close>

definition address_from_hints :: "string \<Rightarrow> string \<Rightarrow> address list option \<Rightarrow> address res" where
  "address_from_hints node service answer =
     (case answer of
        None \<Rightarrow> Inl (Unix_error (''getaddrinfo('' @ node @ '':'' @ service @ '', numeric)''))
      | Some [] \<Rightarrow> Inl (Runtime_error ''getaddrinfo returned successfully but with no results'')
      | Some (a # _) \<Rightarrow> Inr a)"

text \<open>
  A numeric host is read as by \<open>inet_aton\<close>: one to four numbers, each decimal, octal (after a
  0) or hexadecimal (after 0x), of which the last one fills the bytes that remain.
\<close>

definition c_number :: "string \<Rightarrow> nat option" where
  "c_number s =
     (let (base, digits) =
        (if s \<noteq> [] \<and> hd s = CHR ''0'' \<and> 2 < length s \<and> (s ! 1 = CHR ''x'' \<or> s ! 1 = CHR ''X'')
         then (16, drop 2 s) else if s \<noteq> [] \<and> hd s = CHR ''0'' then (8, s) else (10, s));
          (n, rest) = scan_digits base digits 0
      in if s = [] \<or> digit_val 10 (hd s) = None \<or> rest \<noteq> [] then None else Some n)"

definition network_word :: "nat \<Rightarrow> u32" where
  "network_word n = ipv4_word (n div 16777216) (n div 65536 mod 256) (n div 256 mod 256) (n mod 256)"

definition inet_aton :: "string \<Rightarrow> u32 option" where
  "inet_aton s =
     (case map c_number (split_char (CHR ''.'') [] s) of
        [Some a] \<Rightarrow> if a < 2 ^ 32 then Some (network_word a) else None
      | [Some a, Some b] \<Rightarrow>
          if a < 256 \<and> b < 2 ^ 24 then Some (network_word (a * 16777216 + b)) else None
      | [Some a, Some b, Some c] \<Rightarrow>
          if a < 256 \<and> b < 256 \<and> c < 2 ^ 16
          then Some (network_word (a * 16777216 + b * 65536 + c)) else None
      | [Some a, Some b, Some c, Some d] \<Rightarrow>
          if a < 256 \<and> b < 256 \<and> c < 256 \<and> d < 256
          then Some (network_word (a * 16777216 + b * 65536 + c * 256 + d)) else None
      | _ \<Rightarrow> None)"

definition address_of_ip :: "string \<Rightarrow> u16 \<Rightarrow> address res" where
  "address_of_ip ip_text port_number =
     address_from_hints ip_text (dec (unat port_number))
       (map_option (\<lambda>w. [\<lparr>s_addr = w, port = port_number\<rparr>]) (inet_aton ip_text))"

text \<open>A host by its name, with a service: the resolver is a parameter.\<close>

definition address_of_host :: "(string \<Rightarrow> string \<Rightarrow> address list option) \<Rightarrow> string \<Rightarrow> string \<Rightarrow> address res" where
  "address_of_host getaddrinfo hostname service =
     address_from_hints hostname service (getaddrinfo hostname service)"

text \<open>An address that the kernel has filled in, with the size it reports.\<close>

definition sizeof_storage :: nat where "sizeof_storage = 128"

definition address_sized :: "address \<times> nat \<Rightarrow> address res" where
  "address_sized raw =
     (if sizeof_storage < snd raw then Inl (Runtime_error ''invalid sockaddr size'') else Inr (fst raw))"

section \<open>Comparison\<close>

text \<open>
  The bytes that \<open>memcmp\<close> looks at, up to the zeros at the end: the family, the port and the
  address, these two in network order.
\<close>

definition address_bytes :: "address \<Rightarrow> nat list" where
  "address_bytes a =
     (let p = unat (port a); w = unat (s_addr a)
      in [2, 0, p div 256, p mod 256, w mod 256, w div 256 mod 256, w div 65536 mod 256, w div 16777216])"

fun memcmp_less :: "nat list \<Rightarrow> nat list \<Rightarrow> bool" where
  "memcmp_less (x # xs) (y # ys) \<longleftrightarrow> x < y \<or> x = y \<and> memcmp_less xs ys"
| "memcmp_less _ _ \<longleftrightarrow> False"

definition address_eq :: "address \<Rightarrow> address \<Rightarrow> bool" where
  "address_eq a b \<longleftrightarrow> address_bytes a = address_bytes b"

definition address_less :: "address \<Rightarrow> address \<Rightarrow> bool" where
  "address_less a b \<longleftrightarrow> memcmp_less (address_bytes a) (address_bytes b)"

lemma address_eq_iff: "address_eq a b \<longleftrightarrow> a = b"
proof
  assume "address_eq a b"
  then have q: "unat (port a) div 256 = unat (port b) div 256" "unat (port a) mod 256 = unat (port b) mod 256"
    and w: "unat (s_addr a) mod 256 = unat (s_addr b) mod 256"
      "unat (s_addr a) div 256 mod 256 = unat (s_addr b) div 256 mod 256"
      "unat (s_addr a) div 65536 mod 256 = unat (s_addr b) div 65536 mod 256"
      "unat (s_addr a) div 16777216 = unat (s_addr b) div 16777216"
    by (auto simp: address_eq_def address_bytes_def Let_def)
  from q have "unat (port a) = unat (port b)" by (metis div_mult_mod_eq)
  then have "port a = port b" by (simp only: word_unat_eq_iff)
  moreover have "unat (s_addr a) = unat (s_addr b)"
    using octets_of_word [of "unat (s_addr a)"] octets_of_word [of "unat (s_addr b)"] w by simp
  then have "s_addr a = s_addr b" by (simp only: word_unat_eq_iff)
  ultimately show "a = b" by simp
qed (simp add: address_eq_def)

lemma memcmp_irrefl: "\<not> memcmp_less xs xs"
  by (induction xs) auto

lemma memcmp_trans: "memcmp_less xs ys \<Longrightarrow> memcmp_less ys zs \<Longrightarrow> memcmp_less xs zs"
proof (induction xs ys arbitrary: zs rule: memcmp_less.induct)
  case (1 x xs y ys)
  then show ?case by (cases zs) auto
qed simp_all

lemma memcmp_total: "length xs = length ys \<Longrightarrow> xs \<noteq> ys \<Longrightarrow> memcmp_less xs ys \<or> memcmp_less ys xs"
  by (induction xs ys rule: list_induct2) auto

text \<open>\<open>operator<\<close> is a strict total order, as \<open>std::set\<close> requires.\<close>

lemma address_less_order:
  "\<not> address_less a a"
  "address_less a b \<Longrightarrow> address_less b c \<Longrightarrow> address_less a c"
  "a \<noteq> b \<Longrightarrow> address_less a b \<or> address_less b a"
  using memcmp_trans memcmp_total [of "address_bytes a" "address_bytes b"] address_eq_iff [of a b]
  by (auto simp: address_less_def memcmp_irrefl address_eq_def) (simp_all add: address_bytes_def Let_def)

text \<open>\<open>std::set\<close> of addresses, in ascending order: \<open>emplace\<close>.\<close>

fun set_emplace :: "address \<Rightarrow> address list \<Rightarrow> address list" where
  "set_emplace a [] = [a]"
| "set_emplace a (b # bs) =
     (if address_less a b then a # b # bs else if address_less b a then b # set_emplace a bs else b # bs)"

lemma set_emplace_set: "set (set_emplace a s) = insert a (set s)"
proof (induction s)
  case (Cons b bs)
  then show ?case using address_less_order(3) [of a b] by auto
qed simp

lemma set_emplace_sorted: "sorted_wrt address_less s \<Longrightarrow> sorted_wrt address_less (set_emplace a s)"
proof (induction s)
  case (Cons b bs)
  then show ?case using address_less_order(2) [of a b] by (auto simp: set_emplace_set)
qed simp

lemma address_sorted_distinct: "sorted_wrt address_less s \<Longrightarrow> distinct s"
  by (induction s) (auto simp: address_less_order(1))

section \<open>Numeric addresses read back\<close>

lemma scan_dec: "scan_digits 10 (dec n) 0 = (n, [])"
  using scan_digits_dec [of n "[]" 0] by simp

lemma c_number_dec:
  assumes "n < 1000"
  shows "c_number (dec n) = Some n"
proof -
  have d: "set (dec n) \<subseteq> set decimal_digits" by (rule set_dec)
  have ne: "dec n \<noteq> []" by simp
  then have "hd (dec n) \<in> set decimal_digits" using d by (metis hd_in_set subsetD)
  then have v: "digit_val 10 (hd (dec n)) \<noteq> None" by (rule digits_have_val)
  show ?thesis
  proof (cases "hd (dec n) = CHR ''0''")
    case False
    with v scan_dec [of n] show ?thesis by (simp add: c_number_def Let_def)
  next
    case True
    with dec_small [OF assms] have "length (dec n) = 1" by simp
    then obtain c where "dec n = [c]" by (auto simp: length_Suc_conv)
    with True have "dec n = ''0''" by simp
    moreover from this scan_dec [of n] have "n = 0" by (simp add: digit_val_def Let_def)
    ultimately show ?thesis by (simp add: c_number_def digit_val_def Let_def)
  qed
qed

lemma network_word_octets:
  assumes "a < 256" "b < 256" "c < 256" "d < 256"
  shows "network_word (a * 16777216 + b * 65536 + c * 256 + d) = ipv4_word a b c d"
proof -
  let ?n = "a * 16777216 + b * 65536 + c * 256 + d"
  have "?n div 16777216 = a" "?n div 65536 = a * 256 + b" "?n div 256 = a * 65536 + b * 256 + c"
    using assms by linarith+
  moreover from this(3) have "?n mod 256 = d"
    using div_mult_mod_eq [of ?n 256] by linarith
  moreover have "(a * 65536 + b * 256 + c) mod 256 = c"
    using mod_mult_self3 [of "a * 256 + b" 256 c] assms(3) by (simp add: algebra_simps)
  ultimately have parts: "?n div 16777216 = a" "?n div 65536 mod 256 = b" "?n div 256 mod 256 = c" "?n mod 256 = d"
    using assms by (simp_all add: mod_eq_self_iff_div_eq_0)
  show ?thesis unfolding network_word_def parts ..
qed

lemma inet_aton_ntop: "inet_aton (inet_ntop w) = Some w"
proof -
  define n where "n = unat w"
  have n: "n < 2 ^ 32" unfolding n_def by (rule unat_u32_bound)
  then have d: "n div 16777216 < 256" by (intro less_mult_imp_div_less) simp
  have m: "k mod 256 < 1000" for k :: nat
    using mod_less_divisor [of 256 k] by linarith
  have "inet_aton (inet_ntop w) =
      Some (network_word (n mod 256 * 16777216 + n div 256 mod 256 * 65536 + n div 65536 mod 256 * 256 + n div 16777216))"
    using d m by (simp add: inet_aton_def inet_ntop_def Let_def n_def [symmetric] split_char_word
        dot_not_digit c_number_dec)
  also have "\<dots> = Some (ipv4_word (n mod 256) (n div 256 mod 256) (n div 65536 mod 256) (n div 16777216))"
    using d by (simp add: network_word_octets)
  also have "\<dots> = Some w"
    using octets_of_word [of n] by (simp add: ipv4_word_def n_def del: of_nat_add of_nat_mult)
  finally show ?thesis .
qed

text \<open>An address survives being printed and read: so it does in a recording.\<close>

lemma address_of_ip_ip: "address_of_ip (ip a) p = Inr \<lparr>s_addr = s_addr a, port = p\<rparr>"
  by (simp add: address_of_ip_def address_from_hints_def ip_def inet_aton_ntop)

lemma address_of_zero: "address_of_ip ''0'' 0 = Inr address_any"
  by (simp add: address_of_ip_def address_from_hints_def inet_aton_def c_number_def digit_val_def
      Let_def network_word_def ipv4_word_def address_any_def)

end
