(* ===== verification/Backing_Store.thy ===== *)
theory Backing_Store
  imports Http_Parser Address File_Descriptor
begin

text \<open>
  \<open>HTTPDiskStore\<close> of \<open>src/http/backing_store.cc\<close> and the files of \<open>src/util/temp_file.cc\<close>
  that it writes.  \<open>mkstemp(3)\<close> and the serialisation of protocol buffers to a descriptor are
  parameters: the name and the descriptor that the former returns for a template, and
  whether the latter succeeds.
\<close>

section \<open>Unique files\<close>

definition to_mutable :: "string \<Rightarrow> string" where
  "to_mutable str = str @ [CHR 0x00]"

record unique_file =
  mutable_temp_filename :: string
  file_fd :: file_descriptor
  file_moved_away :: bool

type_synonym mkstemp = "string \<Rightarrow> string \<times> int"

definition unique_file_new :: "mkstemp \<Rightarrow> int \<Rightarrow> string \<Rightarrow> unique_file res" where
  "unique_file_new mkstemp_result fcntl_result filename_template =
     (let (name, fd) = mkstemp_result (to_mutable (filename_template @ ''.XXXXXX''))
      in if fd < 0 then Inl (Unix_error ''mkstemp'')
         else bindR (fd_new fd fcntl_result) (\<lambda>f.
           Inr \<lparr>mutable_temp_filename = name, file_fd = f, file_moved_away = False\<rparr>))"

definition unique_file_name :: "unique_file \<Rightarrow> string res" where
  "unique_file_name u =
     assertR (1 < length (mutable_temp_filename u)) (Inr (butlast (mutable_temp_filename u)))"

definition unique_file_write :: "writes \<Rightarrow> string \<Rightarrow> unique_file \<Rightarrow> (unique_file \<times> writes) res" where
  "unique_file_write w contents u =
     assertR (\<not> file_moved_away u)
       (bindR (fd_write w (file_fd u) contents) (\<lambda>(f, w'). Inr (u\<lparr>file_fd := f\<rparr>, w')))"

definition unique_file_move :: "unique_file \<Rightarrow> unique_file \<times> unique_file" where
  "unique_file_move u =
     (let (new_fd, old_fd) = fd_move (file_fd u)
      in (u\<lparr>file_fd := new_fd, file_moved_away := False\<rparr>, u\<lparr>file_fd := old_fd, file_moved_away := True\<rparr>))"

text \<open>The name that the destructor of a \<open>TempFile\<close> unlinks, if any.\<close>

definition temp_file_destroy :: "unique_file \<Rightarrow> string option" where
  "temp_file_destroy u =
     (if file_moved_away u then None
      else case unique_file_name u of Inl _ \<Rightarrow> None | Inr n \<Rightarrow> Some n)"

section \<open>The disk store\<close>

text \<open>The record \<open>RequestResponse\<close> of \<open>src/protobufs/http_record.proto\<close>.\<close>

datatype scheme = HTTP | HTTPS

record request_response =
  rr_ip :: string
  rr_port :: u32
  rr_scheme :: scheme
  rr_request :: proto_message
  rr_response :: proto_message

record disk_store =
  record_folder :: string
  next_mkstemp :: "nat \<Rightarrow> mkstemp"
  next_serialized :: "nat \<Rightarrow> bool"
  disk_files :: "(string \<times> request_response) list"

definition disk_save :: "http_response \<Rightarrow> address \<Rightarrow> disk_store \<Rightarrow> disk_store res" where
  "disk_save response server_address d =
     bindR (unique_file_new (next_mkstemp d 0) 0 (record_folder d @ ''save'')) (\<lambda>file.
     bindR (message_to_protobuf (request response)) (\<lambda>req.
     bindR (message_to_protobuf response) (\<lambda>resp.
     let output = \<lparr>rr_ip = ip server_address, rr_port = ucast (port server_address),
                   rr_scheme = (if port server_address = 443 then HTTPS else HTTP),
                   rr_request = req, rr_response = resp\<rparr>
     in if \<not> next_serialized d 0
        then Inl (Runtime_error ''save_to_disk: failure to serialize HTTP request/response pair'')
        else bindR (unique_file_name file) (\<lambda>name.
          Inr (d\<lparr>next_mkstemp := \<lambda>n. next_mkstemp d (Suc n),
                 next_serialized := \<lambda>n. next_serialized d (Suc n),
                 disk_files := disk_files d @ [(name, output)]\<rparr>)))))"

text \<open>What is saved of a message prints as the message did.\<close>

lemma saved_message_str:
  "message_to_protobuf m = Inr p \<Longrightarrow> message_str (message_of_protobuf p) = message_str m"
  by (auto simp: message_to_protobuf_def message_of_protobuf_def message_str_def header_str_def
      res_simps o_def)

lemma disk_save_Inr:
  assumes "disk_save r a d = Inr d'"
  obtains name req resp where "message_to_protobuf (request r) = Inr req" "message_to_protobuf r = Inr resp"
    "disk_files d' = disk_files d @ [(name, \<lparr>rr_ip = ip a, rr_port = ucast (port a),
       rr_scheme = (if port a = 443 then HTTPS else HTTP), rr_request = req, rr_response = resp\<rparr>)]"
  using assms by (auto simp: disk_save_def res_simps Let_def split: if_splits)

end
