(* ===== verification/Time_Logger.thy ===== *)
theory Time_Logger
  imports Cpp_String Floating
begin

text \<open>
  \<open>TimeLogger\<close> of \<open>src/httpserver/timelogger.hh\<close>: the times of connections and of the loads
  of objects.  \<open>now\<close> is what \<open>system_clock::now()\<close> returns, in nanoseconds; a duration
  divided by a millisecond is an integer, converted to \<open>float\<close>.
\<close>

record time_logger =
  rtt_start :: "string \<rightharpoonup> int"
  object_load_start :: "string \<rightharpoonup> int"
  rtts :: "string \<rightharpoonup> rat list"
  finals :: "(string \<times> string \<times> rat) list"

definition time_logger_new :: time_logger where
  "time_logger_new = \<lparr>rtt_start = Map.empty, object_load_start = Map.empty, rtts = Map.empty, finals = []\<rparr>"

text \<open>\<open>m[ k ]\<close>, which inserts the default when the key is absent.\<close>

definition at_key :: "'v \<Rightarrow> ('k \<rightharpoonup> 'v) \<Rightarrow> 'k \<Rightarrow> 'v" where
  "at_key d m k = (case m k of None \<Rightarrow> d | Some v \<Rightarrow> v)"

definition to_float :: "int \<Rightarrow> rat" where
  "to_float i = flt (of_int i)"

definition elapsed_ms :: "int \<Rightarrow> int \<Rightarrow> rat" where
  "elapsed_ms now start = to_float (let d = now - start in if 0 \<le> d then d div 1000000 else - (- d div 1000000))"

section \<open>Round trips\<close>

definition start_rtt_timer :: "int \<Rightarrow> string \<Rightarrow> time_logger \<Rightarrow> time_logger" where
  "start_rtt_timer now addr t = t\<lparr>rtt_start := (rtt_start t)(addr \<mapsto> now)\<rparr>"

definition stop_rtt_timer :: "int \<Rightarrow> string \<Rightarrow> time_logger \<Rightarrow> time_logger" where
  "stop_rtt_timer now addr t =
     (let start = at_key 0 (rtt_start t) addr;
          v = elapsed_ms now start
      in t\<lparr>rtt_start := (rtt_start t)(addr \<mapsto> start),
           rtts := (rtts t)(addr \<mapsto> at_key [] (rtts t) addr @ [v])\<rparr>)"

section \<open>Objects\<close>

text \<open>
  The method and the URL of a request: the positions are \<open>int\<close>s, so \<open>npos\<close> becomes -1, and
  they are converted back to \<open>size_t\<close> where they are used.
\<close>

definition int_pos :: "nat option \<Rightarrow> u32" where
  "int_pos p = (case p of None \<Rightarrow> - 1 | Some n \<Rightarrow> of_nat n)"

definition size_of_int :: "u32 \<Rightarrow> nat" where
  "size_of_int w = unat (scast w :: u64)"

definition request_parts :: "string \<Rightarrow> (string \<times> string) res" where
  "request_parts request =
     (let first_space = int_pos (str_find_from request '' '' 0);
          second_space = int_pos (str_find_from request '' '' (size_of_int (first_space + 1)))
      in bindR (substr request 0 (size_of_int first_space)) (\<lambda>method_type.
         bindR (substr request (size_of_int (first_space + 1)) (size_of_int (second_space - first_space - 1)))
           (\<lambda>request_url. Inr (method_type, request_url))))"

definition start_obj_load_timer :: "int \<Rightarrow> string \<Rightarrow> time_logger \<Rightarrow> time_logger res" where
  "start_obj_load_timer now request t =
     bindR (request_parts request) (\<lambda>(method_type, request_url).
       Inr (t\<lparr>object_load_start := (object_load_start t)(request_url \<mapsto> now)\<rparr>))"

definition stop_obj_load_timer :: "int \<Rightarrow> string \<Rightarrow> time_logger \<Rightarrow> time_logger res" where
  "stop_obj_load_timer now request t =
     bindR (request_parts request) (\<lambda>(method_type, request_url).
       let start = at_key 0 (object_load_start t) request_url
       in Inr (t\<lparr>object_load_start := (object_load_start t)(request_url \<mapsto> start),
                 finals := finals t @ [(method_type, request_url, elapsed_ms now start)]\<rparr>))"

section \<open>The parts of a request line\<close>

lemma size_of_int_of_nat: "n < 2 ^ 31 \<Longrightarrow> size_of_int (of_nat n) = n"
proof -
  assume n: "n < 2 ^ 31"
  then have "sint (of_nat n :: u32) = int n" by (rule sint_of_nat_small)
  then have "scast (of_nat n :: u32) = (of_nat n :: u64)"
    by (simp add: scast_eq)
  with n show ?thesis by (simp add: size_of_int_def unat_of_nat_less)
qed

lemma str_find_space: "CHR '' '' \<notin> set w \<Longrightarrow> str_find (w @ '' '' @ rest) '' '' = Some (length w)"
  by (induction w) auto

lemma request_parts_ok:
  assumes "CHR '' '' \<notin> set m" "CHR '' '' \<notin> set u" "length m + length u + 1 < 2 ^ 31"
  shows "request_parts (m @ '' '' @ u @ '' '' @ rest) = Inr (m, u)"
proof -
  let ?r = "m @ '' '' @ u @ '' '' @ rest"
  have 1: "str_find_from ?r '' '' 0 = Some (length m)"
    using str_find_space [OF assms(1)] by (simp add: str_find_from_def)
  have "drop (length m + 1) ?r = u @ '' '' @ rest" by simp
  then have 2: "str_find_from ?r '' '' (length m + 1) = Some (length m + 1 + length u)"
    using str_find_space [OF assms(2)] by (simp add: str_find_from_def)
  have i: "(of_nat (length m) + 1 :: u32) = of_nat (length m + 1)" by simp
  have d: "(of_nat (length m + 1 + length u) - of_nat (length m) - 1 :: u32) = of_nat (length u)" by simp
  have s: "size_of_int (of_nat (length m)) = length m" "size_of_int (of_nat (length m + 1)) = length m + 1"
    "size_of_int (of_nat (length u)) = length u"
    by (rule size_of_int_of_nat; use assms in simp)+
  show ?thesis
    unfolding request_parts_def Let_def 1 int_pos_def option.case i s 2 d
    by (simp add: substr_def)
qed

text \<open>
  A request that was started and is stopped is recorded with its method, its URL and the time
  between the two.
\<close>

lemma object_timing:
  assumes "CHR '' '' \<notin> set m" "CHR '' '' \<notin> set u" "length m + length u + 1 < 2 ^ 31"
    and "start_obj_load_timer t0 (m @ '' '' @ u @ '' '' @ rest) t = Inr t1"
    and "object_load_start t2 u = object_load_start t1 u"
  shows "\<exists>t3. stop_obj_load_timer now (m @ '' '' @ u @ '' '' @ rest') t2 = Inr t3 \<and>
    finals t3 = finals t2 @ [(m, u, elapsed_ms now t0)]"
  using assms(4,5) request_parts_ok [OF assms(1-3)]
  by (auto simp: start_obj_load_timer_def stop_obj_load_timer_def at_key_def Let_def)

section \<open>The file of load times\<close>

text \<open>
  A \<open>float\<close> that is an integer, as a stream prints it with its default precision of 6 digits:
  in full below a million, rounded to 6 digits and in scientific notation from there on.
\<close>

fun strip_zeros :: "nat \<Rightarrow> nat" where
  "strip_zeros m = (if m \<noteq> 0 \<and> m mod 10 = 0 then strip_zeros (m div 10) else m)"

declare strip_zeros.simps [simp del]

definition scientific :: "nat \<Rightarrow> string" where
  "scientific n =
     (let e = length (dec n) - 1;
          m = nat (round_even (of_nat n / 10 ^ (e - 5)));
          (m, e) = (if m = 10 ^ 6 then (10 ^ 5, e + 1) else (m, e));
          digits = dec (strip_zeros m)
      in take 1 digits @ (if tl digits = [] then [] else ''.'' @ tl digits) @ ''e+'' @
         (if e < 10 then ''0'' else []) @ dec e)"

definition print_float :: "rat \<Rightarrow> string" where
  "print_float v =
     (let n = nat \<lfloor>\<bar>v\<bar>\<rfloor>
      in (if v < 0 then ''-'' else []) @ (if n < 10 ^ 6 then dec n else scientific n))"

text \<open>\<open>print_map\<close>: one line per object, method, URL and milliseconds, separated by tabs.\<close>

definition load_line :: "string \<times> string \<times> rat \<Rightarrow> string" where
  "load_line element =
     (case element of (m, u, v) \<Rightarrow> m @ [CHR 0x09] @ u @ [CHR 0x09] @ print_float v)"

definition print_map :: "time_logger \<Rightarrow> string" where
  "print_map t = concat (map (\<lambda>element. load_line element @ [CHR 0x0A]) (finals t))"

lemma print_float_nat: "n < 10 ^ 6 \<Longrightarrow> print_float (of_nat n) = dec n"
  by (simp add: print_float_def Let_def)

text \<open>A load of a million milliseconds is not printed as an integer.\<close>

lemma print_float_long: "print_float 1000000 = ''1e+06''"
proof -
  have d: "dec 1000000 = ''1000000''" "dec (Suc (Suc (Suc (Suc (Suc (Suc 0)))))) = ''6''" "dec (Suc 0) = ''1''"
    by (simp_all add: dec.simps digit_char_def decimal_digits_def)
  have "strip_zeros 100000 = 1" by (simp add: strip_zeros.simps)
  then show ?thesis
    by (simp add: print_float_def scientific_def Let_def round_even_def d)
qed

lemma getlines_lines:
  "\<forall>l \<in> set ls. CHR 0x0A \<notin> set l \<Longrightarrow> getlines [] (concat (map (\<lambda>l. l @ [CHR 0x0A]) ls)) = ls"
proof (induction ls)
  case (Cons l ls)
  then have "getlines [] (l @ CHR 0x0A # concat (map (\<lambda>l. l @ [CHR 0x0A]) ls)) = l # ls"
    using getlines_line [of l "[]"] by simp
  then show ?case by simp
qed simp

lemma dec_control: "of_char c < (48 :: nat) \<Longrightarrow> c \<notin> set (dec n)"
proof
  assume c: "of_char c < (48 :: nat)" "c \<in> set (dec n)"
  then have "c \<in> set decimal_digits" using set_dec [of n] by blast
  then show False using c(1) by (auto simp: decimal_digits_def)
qed

end
