(* ===== verification/Well_Defined.thy ===== *)
theory Well_Defined
  imports Http_Parsers Backing_Store Time_Logger
begin

text \<open>
  No input makes the HTTP parsers, the store, the time log or the descriptors do anything
  that C++ leaves undefined: every failure of these steps is an exception or an assertion.
\<close>

section \<open>Strings\<close>

lemma well_defined_strings [well_defined_intros]:
  "well_defined (substr s i n)" "well_defined (substr_from s i)" "well_defined (myatoi s base)"
  by (simp_all add: substr_def substr_from_def myatoi_def split: prod.split)

section \<open>Messages\<close>

lemma well_defined_inner_tokens [well_defined_intros]: "well_defined (inner_tokens s n is)"
  by (induction s n "is" rule: inner_tokens.induct) (auto intro!: well_defined_intros)

lemma well_defined_split [well_defined_intros]: "well_defined (split s sep)"
  by (auto simp: split_def Let_def intro!: well_defined_intros)

lemma well_defined_message_parts [well_defined_intros]:
  "well_defined (mime_type v)" "well_defined (header_new l)" "well_defined (set_first_line l m)"
  "well_defined (add_header l m)" "well_defined (set_expected_body_size b n m)"
  "well_defined (body_size_is_known m)" "well_defined (expected_body_size m)"
  "well_defined (get_header_value h m)" "well_defined (message_str m)" "well_defined (message_to_protobuf m)"
  by (auto simp: mime_type_def header_new_def set_first_line_def add_header_def
      set_expected_body_size_def body_size_is_known_def expected_body_size_def get_header_value_def
      message_str_def message_to_protobuf_def intro!: well_defined_intros)

lemma well_defined_request_size: "well_defined (request_calculate_size m)"
  by (auto simp: request_calculate_size_def Let_def intro!: well_defined_intros)

section \<open>Bodies\<close>

lemma well_defined_chunk_parts [well_defined_intros]:
  "well_defined (get_chunk_size l)" "well_defined (compute_ack_size a b n p)" "well_defined (string_at s i)"
  "well_defined (is_head m)" "well_defined (ack_all n p)" "well_defined (status_code r)"
  by (auto simp: get_chunk_size_def compute_ack_size_def string_at_def is_head_def ack_all_def status_code_def
      Let_def intro!: well_defined_intros)

lemma well_defined_chunked_loop [well_defined_intros]: "well_defined (chunked_loop n p)"
proof (induction n p rule: chunked_loop.induct)
  case (1 n p)
  then show ?case
    by (subst chunked_loop.simps)
      (auto simp: Let_def split: chunk_state.split intro!: well_defined_intros)
qed

lemma well_defined_body_parser [well_defined_intros]: "well_defined (body_parser_read str bp)"
  by (cases bp) (auto simp: chunked_read_def intro!: well_defined_intros)

lemma well_defined_response_size: "well_defined (response_calculate_size m)"
  by (auto simp: response_calculate_size_def no_body_def is_chunked_def is_byteranges_def Let_def
      intro!: well_defined_intros)

lemma well_defined_complex: "well_defined (response_complex_body str m)"
  by (auto simp: response_complex_body_def Let_def intro!: well_defined_intros)

section \<open>Parsers\<close>

text \<open>A kind of message whose three virtual functions are well defined.\<close>

definition ops_well_defined :: "'m message_ops \<Rightarrow> bool" where
  "ops_well_defined ops \<longleftrightarrow> (\<forall>m. well_defined (calculate_expected_body_size ops m)) \<and>
     (\<forall>str m. well_defined (read_in_complex_body ops str m)) \<and> (\<forall>m. well_defined (eof_in_body ops m))"

lemma request_ops_well_defined: "ops_well_defined request_ops"
  by (simp add: ops_well_defined_def request_ops_def well_defined_request_size
      request_complex_body_def request_eof_in_body_def)

lemma response_ops_well_defined: "ops_well_defined response_ops"
  by (auto simp: ops_well_defined_def response_ops_def well_defined_response_size
      well_defined_complex response_eof_in_body_def split: option.split)

lemma well_defined_step:
  assumes "ops_well_defined ops" "\<And>s. well_defined (init s)"
  shows "well_defined (parsing_step ops init s)"
proof -
  have "well_defined (read_in_body ops str m)" for str m
    using assms(1) by (auto simp: read_in_body_def Let_def ops_well_defined_def intro!: well_defined_intros)
  moreover have "well_defined (done_with_headers ops m)" for m
    using assms(1) by (auto simp: done_with_headers_def ops_well_defined_def intro!: well_defined_intros)
  moreover have "well_defined (get_and_pop_line b)" "well_defined (pop_bytes n b)" for b n
    by (auto simp: get_and_pop_line_def pop_bytes_def intro!: well_defined_intros)
  ultimately show ?thesis
    using assms(2)
    by (cases "state (in_progress s)") (auto simp: parsing_step_def intro!: well_defined_intros)
qed

lemma well_defined_loop:
  assumes "parse_loop ops init s = Some r" "\<And>s. well_defined (parsing_step ops init s)"
  shows "well_defined r"
proof -
  define P where "P o' i' (x :: ('a http_message_scheme, 'b) http_sequence_scheme)
      (r :: ('a http_message_scheme, 'b) http_sequence_scheme res) \<longleftrightarrow>
    (o' = ops \<longrightarrow> i' = init \<longrightarrow> well_defined r)" for o' i' x r
  have "P ops init s r"
  proof (rule parse_loop.raw_induct [where P = P, OF _ assms(1)])
    fix loop o' i' x r
    assume IH: "\<And>o' i' x r. loop o' i' x = Some r \<Longrightarrow> P o' i' x r"
      and r: "(case parsing_step o' i' x of Inl e \<Rightarrow> Some (Inl e)
        | Inr r \<Rightarrow> if fst r then loop o' i' (snd r) else Some (Inr (snd r))) = Some r"
    show "P o' i' x r"
      using r IH assms(2) [of x]
      by (cases "parsing_step o' i' x") (fastforce simp: P_def split: if_splits)+
  qed
  then show ?thesis by (simp add: P_def)
qed

lemma well_defined_eof:
  "ops_well_defined ops \<Longrightarrow> well_defined (message_eof ops m)"
  by (auto simp: message_eof_def ops_well_defined_def split: http_state.split intro!: well_defined_intros)

lemma well_defined_parse:
  assumes "parse ops init a s = Some r" "ops_well_defined ops" "\<And>s. well_defined (init s)"
  shows "well_defined r"
proof (cases "if a = [] then message_eof ops (in_progress s) else Inr (in_progress s)")
  case (Inl e)
  then show ?thesis
    using assms well_defined_eof [OF assms(2), of "in_progress s"]
    by (auto simp: parse_def split: if_splits)
next
  case (Inr m)
  with assms(1) have "parse_loop ops init (s\<lparr>in_progress := m, seq_buffer := seq_buffer s @ a\<rparr>) = Some r"
    by (simp add: parse_def)
  then show ?thesis by (rule well_defined_loop) (rule well_defined_step [OF assms(2,3)])
qed

lemma well_defined_request_parse: "request_parse a s = Some r \<Longrightarrow> well_defined r"
  by (rule well_defined_parse [where init = Inr, OF _ request_ops_well_defined well_defined_Inr])
    (simp add: request_parse_def)

lemma well_defined_response_parse: "response_parse a s = Some r \<Longrightarrow> well_defined r"
proof (rule well_defined_parse [OF _ response_ops_well_defined])
  show "well_defined (initialize_new_response s)" for s
    by (auto simp: initialize_new_response_def set_request_def split: list.split intro!: well_defined_intros)
qed (simp add: response_parse_def)

section \<open>The store and the time log\<close>

lemma well_defined_store [well_defined_intros]: "well_defined (disk_save m a d)"
  by (auto simp: disk_save_def unique_file_new_def unique_file_name_def Let_def intro!: well_defined_intros
      split: prod.split)

lemma well_defined_timers [well_defined_intros]:
  "well_defined (start_obj_load_timer t r l)" "well_defined (stop_obj_load_timer t r l)"
  by (auto simp: start_obj_load_timer_def stop_obj_load_timer_def request_parts_def Let_def
      intro!: well_defined_intros)

end
