(* ===== verification/Util.thy ===== *)
theory Util
  imports Address
begin

text \<open>
  \<open>src/util/util.cc\<close>: privileges, the environment, directories.  The credentials of the
  process belong to the kernel: the system calls that read and change them are the fields
  of a record over an arbitrary type of kernel states, the first argument of what uses them.
  Other system calls appear as their results.
\<close>

section \<open>System calls\<close>

definition system_call :: "string \<Rightarrow> int \<Rightarrow> int res" where
  "system_call attempt return_value =
     (if return_value \<ge> 0 then Inr return_value else Inl (Unix_error attempt))"

lemma system_call_eq_Inr [res_simps]: "system_call a r = Inr v \<longleftrightarrow> 0 \<le> r \<and> v = r"
  by (auto simp: system_call_def)

lemma system_call_eq_Inl [res_simps]: "system_call a r = Inl e \<longleftrightarrow> r < 0 \<and> e = Unix_error a"
  by (auto simp: system_call_def)

lemma well_defined_system_call [well_defined_intros]: "well_defined (system_call a r)"
  by (simp add: system_call_def)

record 'k credentials =
  getuid :: "'k \<Rightarrow> u32"
  geteuid :: "'k \<Rightarrow> u32"
  getgid :: "'k \<Rightarrow> u32"
  getegid :: "'k \<Rightarrow> u32"
  setregid :: "u32 \<Rightarrow> u32 \<Rightarrow> 'k \<Rightarrow> int \<times> 'k"
  setreuid :: "u32 \<Rightarrow> u32 \<Rightarrow> 'k \<Rightarrow> int \<times> 'k"
  setegid :: "u32 \<Rightarrow> 'k \<Rightarrow> int \<times> 'k"
  seteuid :: "u32 \<Rightarrow> 'k \<Rightarrow> int \<times> 'k"

text \<open>A call that changes the kernel's state, its result checked by \<open>SystemCall\<close>.\<close>

definition kernel_call :: "string \<Rightarrow> ('k \<Rightarrow> int \<times> 'k) \<Rightarrow> 'k \<Rightarrow> 'k res" where
  "kernel_call attempt call k = (let (r, k') = call k in bindR (system_call attempt r) (\<lambda>_. Inr k'))"

lemma kernel_call_eq_Inr [res_simps]:
  "kernel_call a call k = Inr k' \<longleftrightarrow> 0 \<le> fst (call k) \<and> k' = snd (call k)"
  by (auto simp: kernel_call_def res_simps split: prod.splits)

section \<open>Exceptions\<close>

text \<open>
  Whether \<open>catch ( const exception & )\<close> takes an exception, and its text: that of a failed system
  call goes on with the system's message.
\<close>

definition std_exception :: "exn \<Rightarrow> bool" where
  "std_exception e =
     (case e of Runtime_error _ \<Rightarrow> True | Unix_error _ \<Rightarrow> True | Ssl_error _ \<Rightarrow> True | Out_of_range \<Rightarrow> True
      | Invalid_argument \<Rightarrow> True | Assert_failed \<Rightarrow> False | Thrown_pointer _ \<Rightarrow> False
      | Undefined_behaviour _ \<Rightarrow> False)"

definition exn_what :: "string \<Rightarrow> exn \<Rightarrow> string" where
  "exn_what strerror e =
     (case e of
        Runtime_error t \<Rightarrow> t
      | Unix_error attempt \<Rightarrow> attempt @ '': '' @ strerror
      | Ssl_error attempt \<Rightarrow> attempt @ '': '' @ strerror
      | _ \<Rightarrow> [])"

section \<open>Privileges\<close>

definition assert_not_root :: "'k credentials \<Rightarrow> 'k \<Rightarrow> unit res" where
  "assert_not_root c k =
     (if geteuid c k = 0 \<or> getegid c k = 0
      then Inl (Runtime_error ''BUG: privileges not dropped in sensitive region'') else Inr ())"

text \<open>
  The test after an identity was dropped: it has failed when the old one can be taken back, or
  when the effective one is not the real one.  The second operand of \<open>||\<close> is read after the
  call in the first one.
\<close>

definition drop_failed ::
  "u32 \<Rightarrow> u32 \<Rightarrow> (u32 \<Rightarrow> 'k \<Rightarrow> int \<times> 'k) \<Rightarrow> ('k \<Rightarrow> u32) \<Rightarrow> 'k \<Rightarrow> bool \<times> 'k" where
  "drop_failed real_id eff_id take_back effective k =
     (if real_id \<noteq> eff_id
      then (let (r, k') = take_back eff_id k in (r \<noteq> -1 \<or> effective k' \<noteq> real_id, k'))
      else (False, k))"

text \<open>\<open>drop_privileges\<close>: \<open>None\<close> when the process ends with \<open>_exit( EXIT_FAILURE )\<close>.\<close>

definition drop_privileges :: "'k credentials \<Rightarrow> 'k \<Rightarrow> 'k option res" where
  "drop_privileges c k =
     (let real_gid = getgid c k; eff_gid = getegid c k;
          real_uid = getuid c k; eff_uid = geteuid c k
      in bindR (if real_gid \<noteq> eff_gid then kernel_call ''setregid'' (setregid c real_gid real_gid) k
                else Inr k) (\<lambda>k1.
         bindR (if real_uid \<noteq> eff_uid then kernel_call ''setreuid'' (setreuid c real_uid real_uid) k1
                else Inr k1) (\<lambda>k2.
         let (failed, k3) = drop_failed real_gid eff_gid (setegid c) (getegid c) k2
         in if failed then Inr None
            else let (failed, k4) = drop_failed real_uid eff_uid (seteuid c) (geteuid c) k3
                 in Inr (if failed then None else Some k4))))"

text \<open>\<open>TemporarilyUnprivileged\<close>: the identities to restore, and the state without them.\<close>

record unprivileged =
  orig_euid :: u32
  orig_egid :: u32

definition temporarily_unprivileged :: "'k credentials \<Rightarrow> 'k \<Rightarrow> (unprivileged \<times> 'k) res" where
  "temporarily_unprivileged c k =
     (let tu = \<lparr>orig_euid = geteuid c k, orig_egid = getegid c k\<rparr>
      in bindR (kernel_call ''setegid'' (setegid c (getgid c k)) k) (\<lambda>k1.
         bindR (kernel_call ''seteuid'' (seteuid c (getuid c k1)) k1) (\<lambda>k2.
         bindR (assert_not_root c k2) (\<lambda>_. Inr (tu, k2)))))"

definition privileged_again :: "'k credentials \<Rightarrow> unprivileged \<Rightarrow> 'k \<Rightarrow> 'k res" where
  "privileged_again c tu k =
     bindR (kernel_call ''seteuid'' (seteuid c (orig_euid tu)) k) (\<lambda>k1.
       kernel_call ''setegid'' (setegid c (orig_egid tu)) k1)"

text \<open>
  \<open>check_requirements\<close>, given whether /dev/null opens, whether \<open>environ\<close> is null, and the
  descriptor of the IP forwarding file with what one \<open>read\<close> of it gives.
\<close>

definition check_requirements ::
  "'k credentials \<Rightarrow> string list \<Rightarrow> int \<Rightarrow> bool \<Rightarrow> int \<Rightarrow> string res \<Rightarrow> 'k \<Rightarrow> unit res" where
  "check_requirements c argv dev_null environ ip_forward forwarding k =
     (case argv of
        [] \<Rightarrow> Inl (Runtime_error ''missing argv[ 0 ]: argc <= 0'')
      | argv0 # _ \<Rightarrow>
          bindR (system_call ''open /dev/null'' dev_null) (\<lambda>_.
          if geteuid c k \<noteq> 0
          then Inl (Runtime_error (argv0 @ '': needs to be installed setuid root''))
          else if getuid c k = 0 \<or> getgid c k = 0
          then Inl (Runtime_error (argv0 @ '': please run as non-root''))
          else if environ
          then Inl (Runtime_error ''BUG: environment not cleared in sensitive region'')
          else bindR (system_call ''open /proc/sys/net/ipv4/ip_forward'' ip_forward) (\<lambda>_.
               bindR forwarding (\<lambda>contents.
               if contents \<noteq> ''1'' @ [CHR 0x0A]
               then Inl (Runtime_error (argv0 @ '': Please run \"sudo sysctl -w net.ipv4.ip_forward=1\" to enable IP forwarding''))
               else Inr ()))))"

section \<open>Directories\<close>

definition make_directory :: "'k credentials \<Rightarrow> string \<Rightarrow> int \<Rightarrow> 'k \<Rightarrow> unit res" where
  "make_directory c directory mkdir_result k =
     bindR (assert_not_root c k) (\<lambda>_.
     assertR (directory \<noteq> []) (assertR (last directory = CHR ''/'')
       (bindR (system_call (''mkdir '' @ directory) mkdir_result) (\<lambda>_. Inr ()))))"

text \<open>\<open>list_directory_contents\<close>, given the names that \<open>readdir\<close> yields (\<open>None\<close>: \<open>opendir\<close> fails).\<close>

definition list_directory_contents ::
  "'k credentials \<Rightarrow> string \<Rightarrow> string list option \<Rightarrow> 'k \<Rightarrow> string list res" where
  "list_directory_contents c dir entries k =
     bindR (assert_not_root c k) (\<lambda>_.
     case entries of
       None \<Rightarrow> Inl (Unix_error (''opendir ('' @ dir @ '')''))
     | Some names \<Rightarrow>
         Inr (map (\<lambda>d_name. dir @ d_name) (filter (\<lambda>d_name. d_name \<noteq> ''.'' \<and> d_name \<noteq> ''..'') names)))"

section \<open>The environment and the shell\<close>

type_synonym environment = "string \<Rightarrow> string option"

definition shell_path :: "string option \<Rightarrow> string res" where
  "shell_path pw_shell =
     (case pw_shell of
        None \<Rightarrow> Inl (Unix_error ''getpwuid'')
      | Some s \<Rightarrow> Inr (if s = [] then ''/bin/sh'' else s))"

text \<open>Both results of \<open>setenv\<close> are given; a variable is changed before the second is looked at.\<close>

definition prepend_shell_prefix :: "string \<Rightarrow> int \<times> int \<Rightarrow> environment \<Rightarrow> environment res" where
  "prepend_shell_prefix str results env =
     (let mahimahi_prefix =
            (case env ''MAHIMAHI_SHELL_PREFIX'' of None \<Rightarrow> [] | Some p \<Rightarrow> p) @ str
      in bindR (system_call ''setenv'' (fst results)) (\<lambda>_.
         let env1 = env(''MAHIMAHI_SHELL_PREFIX'' \<mapsto> mahimahi_prefix)
         in bindR (system_call ''setenv'' (snd results)) (\<lambda>_.
            Inr (env1(''PROMPT_COMMAND'' \<mapsto> ''PS1=\"$MAHIMAHI_SHELL_PREFIX$PS1\" PROMPT_COMMAND='')))))"

definition join :: "string list \<Rightarrow> string res" where
  "join command =
     (case command of
        [] \<Rightarrow> Inl (Undefined_behaviour ''front of an empty vector'')
      | a # bs \<Rightarrow> Inr (foldl (\<lambda>a b. a @ '' '' @ b) a bs))"

definition get_working_directory :: "string option \<Rightarrow> string res" where
  "get_working_directory cwd = (case cwd of None \<Rightarrow> Inl (Unix_error ''getcwd'') | Some d \<Rightarrow> Inr d)"

text \<open>
  The name servers that \<open>res_init\<close> read: the entries of the resolver's table (at most
  \<open>MAXNS\<close>) that have a port.
\<close>

definition maxns :: nat where "maxns = 3"

definition first_nameserver :: "int \<Rightarrow> address \<Rightarrow> address res" where
  "first_nameserver res_init_result nsaddr =
     bindR (system_call ''res_init'' res_init_result) (\<lambda>_. Inr nsaddr)"

definition all_nameservers :: "int \<Rightarrow> address list \<Rightarrow> address list res" where
  "all_nameservers res_init_result nsaddr_list =
     bindR (system_call ''res_init'' res_init_result) (\<lambda>_.
       Inr (filter (\<lambda>a. port a \<noteq> 0) (take maxns nsaddr_list)))"

section \<open>What is left after the privileges were dropped\<close>

text \<open>
  A failed \<open>seteuid\<close> changes nothing (setuid(2), errors): stated for the one call whose
  success would be a failure of \<open>drop_privileges\<close>.
\<close>

definition failed_calls_change_nothing :: "'k credentials \<Rightarrow> bool" where
  "failed_calls_change_nothing c \<longleftrightarrow> (\<forall>u k. fst (seteuid c u k) = -1 \<longrightarrow> snd (seteuid c u k) = k)"

text \<open>
  If the caller goes on, the effective identities are the real ones it started with, and the
  old effective ones, where they were others, have just been refused.
\<close>

lemma drop_failed_False:
  assumes "drop_failed r e take_back effective k = (False, k')" "r \<noteq> e"
  shows "take_back e k = (-1, k')" "effective k' = r"
  using assms by (auto simp: drop_failed_def split: prod.splits)

lemma drop_failed_same: "drop_failed i i take_back effective k = (False, k)"
  by (simp add: drop_failed_def)

lemma drop_privileges_identities:
  assumes "drop_privileges c k = Inr (Some k')" and "failed_calls_change_nothing c"
    and "getgid c k \<noteq> getegid c k" "getuid c k \<noteq> geteuid c k"
  shows "getegid c k' = getgid c k \<and> geteuid c k' = getuid c k \<and>
    fst (seteuid c (geteuid c k) k') = -1 \<and> (\<exists>k2. setegid c (getegid c k) k2 = (-1, k'))"
proof -
  from assms(1,3,4) obtain k2 k3 where
      g: "drop_failed (getgid c k) (getegid c k) (setegid c) (getegid c) k2 = (False, k3)"
    and u: "drop_failed (getuid c k) (geteuid c k) (seteuid c) (geteuid c) k3 = (False, k')"
    by (auto simp: drop_privileges_def Let_def res_simps split: prod.splits if_splits)
  note g' = drop_failed_False [OF g assms(3)] and u' = drop_failed_False [OF u assms(4)]
  have "k' = k3" using assms(2) u'(1) unfolding failed_calls_change_nothing_def by (metis fst_conv snd_conv)
  with g' u' show ?thesis by auto
qed

text \<open>
  A process whose real and effective groups are the same changes its user only; that
  \<open>setreuid\<close> leaves the groups alone is stated for the calls that succeed.
\<close>

definition groups_kept :: "'k credentials \<Rightarrow> bool" where
  "groups_kept c \<longleftrightarrow> (\<forall>u v k. 0 \<le> fst (setreuid c u v k) \<longrightarrow> getegid c (snd (setreuid c u v k)) = getegid c k)"

lemma drop_privileges_effective:
  assumes "drop_privileges c k = Inr (Some k')" "failed_calls_change_nothing c" "groups_kept c"
    and "getuid c k \<noteq> geteuid c k"
  shows "getegid c k' = getgid c k \<and> geteuid c k' = getuid c k"
proof (cases "getgid c k = getegid c k")
  case False
  with drop_privileges_identities [OF assms(1,2) _ assms(4)] show ?thesis by simp
next
  case True
  with assms(1,4) obtain k2 where k2: "0 \<le> fst (setreuid c (getuid c k) (getuid c k) k)"
      "k2 = snd (setreuid c (getuid c k) (getuid c k) k)"
    and u: "drop_failed (getuid c k) (geteuid c k) (seteuid c) (geteuid c) k2 = (False, k')"
    by (auto simp: drop_privileges_def Let_def res_simps drop_failed_same
        split: prod.splits if_splits)
  note u' = drop_failed_False [OF u assms(4)]
  have "k' = k2" using assms(2) u'(1) unfolding failed_calls_change_nothing_def by (metis fst_conv snd_conv)
  with u' k2 True assms(3) show ?thesis by (simp add: groups_kept_def)
qed

text \<open>Joined words are the words with a space before every one but the first.\<close>

lemma join_words: "join (a # bs) = Inr (a @ concat (map (\<lambda>w. '' '' @ w) bs))"
proof -
  have "foldl (\<lambda>a b. a @ '' '' @ b) a bs = a @ concat (map (\<lambda>w. '' '' @ w) bs)"
    by (induction bs arbitrary: a) simp_all
  then show ?thesis by (simp add: join_def)
qed

end
