(* ===== verification/Socket.thy ===== *)
theory Socket
  imports Util File_Descriptor
begin

text \<open>
  \<open>src/util/socket.cc\<close> and \<open>src/util/socketpair.cc\<close>.  Every call of the kernel is given by its
  answer.  A UDP socket records the datagrams that it has sent, with their destinations.
\<close>

section \<open>Sockets\<close>

definition AF_INET :: int where "AF_INET = 2"
definition SOCK_STREAM :: int where "SOCK_STREAM = 1"
definition SOCK_DGRAM :: int where "SOCK_DGRAM = 2"

text \<open>The value of \<open>socket\<close> (or \<open>accept\<close>) and that of the \<open>fcntl\<close> of the base class.\<close>

definition socket_new :: "int \<Rightarrow> int \<Rightarrow> file_descriptor res" where
  "socket_new socket_result fcntl_result =
     bindR (system_call ''socket'' socket_result) (\<lambda>fd. fd_new fd fcntl_result)"

record sockopt =
  so_result :: int
  so_len :: nat
  so_value :: int

definition getsockopt :: "sockopt \<Rightarrow> (nat \<times> int) res" where
  "getsockopt answer = bindR (system_call ''getsockopt'' (so_result answer)) (\<lambda>_. Inr (so_len answer, so_value answer))"

definition setsockopt :: "int \<Rightarrow> unit res" where
  "setsockopt result = bindR (system_call ''setsockopt'' result) (\<lambda>_. Inr ())"

definition sizeof_int :: nat where "sizeof_int = 4"

definition socket_of_fd ::
  "file_descriptor \<Rightarrow> int \<Rightarrow> int \<Rightarrow> sockopt \<Rightarrow> sockopt \<Rightarrow> file_descriptor res" where
  "socket_of_fd f domain type domain_answer type_answer =
     bindR (getsockopt domain_answer) (\<lambda>(len, actual_value).
       if len \<noteq> sizeof_int \<or> actual_value \<noteq> domain then Inl (Runtime_error ''socket domain mismatch'')
       else bindR (getsockopt type_answer) (\<lambda>(len, actual_value).
              if len \<noteq> sizeof_int \<or> actual_value \<noteq> type then Inl (Runtime_error ''socket type mismatch'')
              else Inr f))"

text \<open>
  \<open>get_address\<close> of \<open>getsockname\<close> or \<open>getpeername\<close>: the value of the call, the address it fills
  in (of the family AF_INET, as every socket here) and its size.
\<close>

definition get_address :: "string \<Rightarrow> int \<times> address \<times> nat \<Rightarrow> address res" where
  "get_address name_of_function answer =
     bindR (system_call name_of_function (fst answer)) (\<lambda>_. address_sized (snd answer))"

definition local_address :: "int \<times> address \<times> nat \<Rightarrow> address res" where
  "local_address = get_address ''getsockname''"

definition peer_address :: "int \<times> address \<times> nat \<Rightarrow> address res" where
  "peer_address = get_address ''getpeername''"

definition socket_bind :: "int \<Rightarrow> unit res" where
  "socket_bind result = bindR (system_call ''bind'' result) (\<lambda>_. Inr ())"

definition socket_connect :: "int \<Rightarrow> unit res" where
  "socket_connect result = bindR (system_call ''connect'' result) (\<lambda>_. Inr ())"

definition set_reuseaddr :: "int \<Rightarrow> unit res" where
  "set_reuseaddr = setsockopt"

section \<open>UDP\<close>

record udp_socket = file_descriptor +
  datagrams_sent :: "(address \<times> string) list"

definition udp_new :: "int \<Rightarrow> int \<Rightarrow> udp_socket res" where
  "udp_new socket_result fcntl_result =
     bindR (socket_new socket_result fcntl_result) (\<lambda>f.
       Inr (file_descriptor.extend f \<lparr>datagrams_sent = []\<rparr>))"

text \<open>\<open>sendto\<close> and \<open>send\<close>, given the number of bytes that the kernel took.\<close>

definition udp_sendto :: "int \<Rightarrow> udp_socket \<Rightarrow> address \<Rightarrow> string \<Rightarrow> udp_socket res" where
  "udp_sendto sent_result s destination payload =
     bindR (system_call ''sendto'' sent_result) (\<lambda>bytes_sent.
       if bytes_sent \<noteq> int (length payload)
       then Inl (Runtime_error ''datagram payload too big for sendto()'')
       else Inr (s\<lparr>write_count := write_count s + 1,
                   datagrams_sent := datagrams_sent s @ [(destination, payload)]\<rparr>))"

definition udp_send :: "int \<Rightarrow> udp_socket \<Rightarrow> string \<Rightarrow> udp_socket res" where
  "udp_send sent_result s payload =
     bindR (system_call ''send'' sent_result) (\<lambda>bytes_sent.
       if bytes_sent \<noteq> int (length payload)
       then Inl (Runtime_error ''datagram payload too big for send()'')
       else Inr (s\<lparr>write_count := write_count s + 1, sent := sent s @ [payload]\<rparr>))"

definition receive_mtu :: nat where "receive_mtu = 65536"

text \<open>
  \<open>recvfrom\<close> with \<open>MSG_TRUNC\<close>: the value of the call is the length of the datagram, even if the
  buffer is shorter.  The answer is the datagram with its source (\<open>None\<close> for an error).
\<close>

definition udp_recvfrom ::
  "(string \<times> address \<times> nat) option \<Rightarrow> udp_socket \<Rightarrow> ((address \<times> string) \<times> udp_socket) res" where
  "udp_recvfrom answer s =
     (case answer of
        None \<Rightarrow> Inl (Unix_error ''recvfrom'')
      | Some (datagram, source) \<Rightarrow>
          if receive_mtu < length datagram
          then Inl (Runtime_error ''recvfrom (oversized datagram)'')
          else bindR (address_sized source) (\<lambda>a.
                 Inr ((a, datagram), s\<lparr>read_count := read_count s + 1\<rparr>)))"

definition set_timestamps :: "int \<Rightarrow> unit res" where
  "set_timestamps = setsockopt"

section \<open>TCP\<close>

definition tcp_new :: "int \<Rightarrow> int \<Rightarrow> file_descriptor res" where
  "tcp_new = socket_new"

definition tcp_listen :: "int \<Rightarrow> unit res" where
  "tcp_listen result = bindR (system_call ''listen'' result) (\<lambda>_. Inr ())"

text \<open>\<open>accept\<close>: the listening socket counts a read, whatever becomes of the new one.\<close>

definition tcp_accept ::
  "int \<Rightarrow> int \<Rightarrow> sockopt \<Rightarrow> sockopt \<Rightarrow> file_descriptor \<Rightarrow> (file_descriptor \<times> file_descriptor) res" where
  "tcp_accept accept_result fcntl_result domain_answer type_answer listener =
     bindR (system_call ''accept'' accept_result) (\<lambda>fd.
     bindR (fd_new fd fcntl_result) (\<lambda>f.
     bindR (socket_of_fd f AF_INET SOCK_STREAM domain_answer type_answer) (\<lambda>sock.
       Inr (sock, listener\<lparr>read_count := read_count listener + 1\<rparr>))))"

definition original_dest :: "int \<times> address \<times> nat \<Rightarrow> address res" where
  "original_dest = get_address ''getsockopt''"

section \<open>Pairs of UNIX sockets\<close>

definition make_pair :: "int \<Rightarrow> int \<times> int \<Rightarrow> int \<times> int \<Rightarrow> (file_descriptor \<times> file_descriptor) res" where
  "make_pair socketpair_result fds fcntl_results =
     bindR (system_call ''socketpair'' socketpair_result) (\<lambda>_.
     bindR (fd_new (fst fds) (fst fcntl_results)) (\<lambda>a.
     bindR (fd_new (snd fds) (snd fcntl_results)) (\<lambda>b. Inr (a, b))))"

text \<open>A control message: its level, type, length and the descriptor it carries.\<close>

record cmsg =
  cmsg_level :: int
  cmsg_type :: int
  cmsg_len :: nat
  cmsg_fd :: int

definition SOL_SOCKET :: int where "SOL_SOCKET = 1"
definition SCM_RIGHTS :: int where "SCM_RIGHTS = 1"

text \<open>\<open>CMSG_LEN( sizeof( int ) )\<close>: a header of 16 bytes and the number.\<close>

definition cmsg_len_int :: nat where "cmsg_len_int = 20"

definition send_fd :: "int \<Rightarrow> file_descriptor \<Rightarrow> file_descriptor \<Rightarrow> (cmsg \<times> file_descriptor) res" where
  "send_fd sendmsg_result f s =
     (let control_message = \<lparr>cmsg_level = SOL_SOCKET, cmsg_type = SCM_RIGHTS, cmsg_len = cmsg_len_int,
                             cmsg_fd = fd_num f\<rparr>
      in bindR (system_call ''sendmsg'' sendmsg_result) (\<lambda>n.
         if n \<noteq> 0 then Inl (Runtime_error ''send_fd: sendmsg unexpectedly sent data'')
         else Inr (control_message, s\<lparr>write_count := write_count s + 1\<rparr>)))"

text \<open>
  \<open>recv_fd\<close>, given the value of \<open>recvmsg\<close>, whether MSG_CTRUNC is set, the first control message
  if there is one, and the value of \<open>fcntl\<close> for the new descriptor.
\<close>

definition recv_fd ::
  "int \<Rightarrow> bool \<Rightarrow> cmsg option \<Rightarrow> int \<Rightarrow> file_descriptor \<Rightarrow> (file_descriptor \<times> file_descriptor) res" where
  "recv_fd recvmsg_result truncated control_message fcntl_result s =
     bindR (system_call ''recvmsg'' recvmsg_result) (\<lambda>n.
       if n \<noteq> 0 then Inl (Runtime_error ''recv_fd: recvmsg unexpectedly received data'')
       else if truncated then Inl (Runtime_error ''recvmsg: control data was truncated'')
       else case control_message of
              None \<Rightarrow> Inl (Runtime_error ''recvmsg: unexpected control message'')
            | Some m \<Rightarrow>
                if cmsg_level m \<noteq> SOL_SOCKET \<or> cmsg_type m \<noteq> SCM_RIGHTS
                then Inl (Runtime_error ''recvmsg: unexpected control message'')
                else if cmsg_len m \<noteq> cmsg_len_int
                then Inl (Runtime_error ''recvmsg: unexpected control message length'')
                else bindR (fd_new (cmsg_fd m) fcntl_result) (\<lambda>f.
                       Inr (f, s\<lparr>read_count := read_count s + 1\<rparr>)))"

section \<open>What they promise\<close>

text \<open>A datagram is taken whole or not at all.\<close>

lemma udp_recvfrom_whole:
  "udp_recvfrom (Some (d, a, n)) s = Inr ((src, payload), s') \<Longrightarrow>
   payload = d \<and> src = a \<and> length d \<le> receive_mtu \<and> datagrams_sent s' = datagrams_sent s"
  by (auto simp: udp_recvfrom_def address_sized_def split: if_splits)

lemma udp_sendto_records:
  "udp_sendto r s a payload = Inr s' \<Longrightarrow>
   datagrams_sent s' = datagrams_sent s @ [(a, payload)] \<and> r = int (length payload)"
  by (auto simp: udp_sendto_def res_simps split: if_splits)

text \<open>A descriptor that is sent is accepted by the receiver, under the number the kernel gives it.\<close>

lemma sent_fd_received:
  "send_fd 0 f s = Inr (m, s') \<Longrightarrow> 2 < n \<Longrightarrow> 0 \<le> fcntl_result \<Longrightarrow>
   \<exists>g t'. recv_fd 0 False (Some (m\<lparr>cmsg_fd := n\<rparr>)) fcntl_result t = Inr (g, t') \<and> fd_num g = n \<and> \<not> eof g"
  by (auto simp: send_fd_def recv_fd_def res_simps fd_new_def)

lemma well_defined_sockets [well_defined_intros]:
  "well_defined (get_address name x)" "well_defined (udp_recvfrom y u)" "well_defined (udp_sendto i u a p)"
  "well_defined (recv_fd i b c j f)"
  by (auto simp: get_address_def address_sized_def udp_recvfrom_def udp_sendto_def recv_fd_def system_call_def
      fd_new_def split: option.splits if_splits intro!: well_defined_intros)

end
