(* ===== verification/Secure_Socket.thy ===== *)
theory Secure_Socket
  imports Socket
begin

text \<open>
  \<open>src/httpserver/secure_socket.cc\<close>: TLS over a TCP socket.  What OpenSSL answers is given, as what
  the kernel answers is elsewhere.  At the end, what the HTTP proxy asks of a socket, which is a
  parameter of its templates.
\<close>

section \<open>Contexts\<close>

datatype ssl_mode = CLIENT | SERVER

text \<open>Whether a context was made, and the results of the three calls that a server's context needs.\<close>

record context_answers =
  cx_new :: bool
  cx_certificate :: int
  cx_private_key :: int
  cx_check :: int

definition initialize_new_context :: "bool \<Rightarrow> unit res" where
  "initialize_new_context ret = (if \<not> ret then Inl (Ssl_error ''SSL_CTL_new'') else Inr ())"

definition ssl_check :: "string \<Rightarrow> int \<Rightarrow> unit res" where
  "ssl_check attempt result = (if result = 0 then Inl (Ssl_error attempt) else Inr ())"

definition ssl_context_new :: "ssl_mode \<Rightarrow> context_answers \<Rightarrow> unit res" where
  "ssl_context_new type k =
     bindR (initialize_new_context (cx_new k)) (\<lambda>_.
     if type = SERVER
     then bindR (ssl_check ''SSL_CTX_use_certificate_ASN1'' (cx_certificate k)) (\<lambda>_.
          bindR (ssl_check ''SSL_CTX_use_RSAPrivateKey_ASN1'' (cx_private_key k)) (\<lambda>_.
                 ssl_check ''SSL_CTX_check_private_key'' (cx_check k)))
     else Inr ())"

section \<open>Sockets\<close>

text \<open>
  The socket takes over the descriptor of the TCP socket it is made of: the new socket and what
  is left of the old one.
\<close>

definition secure_socket_new ::
  "bool \<Rightarrow> int \<Rightarrow> file_descriptor \<Rightarrow> (file_descriptor \<times> file_descriptor) res" where
  "secure_socket_new ssl set_fd_result sock =
     (let (f, old) = fd_move sock
      in if \<not> ssl then Inl (Runtime_error ''SecureSocket: constructor must be passed valid SSL structure'')
         else bindR (ssl_check ''SSL_set_fd'' set_fd_result) (\<lambda>_. Inr (f, old)))"

text \<open>\<open>SSL_connect\<close> and \<open>SSL_accept\<close> return 1 if the handshake succeeded, 0 or less if not.\<close>

definition secure_connect :: "int \<Rightarrow> unit res" where
  "secure_connect result = ssl_check ''SSL_connect'' result"

definition secure_accept :: "int \<Rightarrow> unit res" where
  "secure_accept ret = (if ret = 1 then Inr () else Inl (Ssl_error ''SSL_accept''))"

text \<open>A handshake that failed with -1 is taken for one that succeeded.\<close>

lemma failed_handshake_accepted: "secure_connect (- 1) = Inr ()"
  by (simp add: secure_connect_def ssl_check_def)

text \<open>
  One call of \<open>SSL_read\<close>: its value, what it wrote to the buffer, and what \<open>SSL_pending\<close>,
  \<open>SSL_get_error\<close> and \<open>ERR_get_error\<close> say after it.
\<close>

record ssl_read_answer =
  bytes_read :: int
  ssl_buffer :: string
  ssl_pending :: int
  error_return :: int
  error_queue :: int

type_synonym ssl_reads = "nat \<Rightarrow> ssl_read_answer"
type_synonym ssl_writes = "nat \<Rightarrow> int"

definition SSL_ERROR_SYSCALL :: int where "SSL_ERROR_SYSCALL = 5"
definition SSL_ERROR_ZERO_RETURN :: int where "SSL_ERROR_ZERO_RETURN = 6"

definition register_read :: "file_descriptor \<Rightarrow> file_descriptor" where
  "register_read f = f\<lparr>read_count := read_count f + 1\<rparr>"

definition register_write :: "file_descriptor \<Rightarrow> file_descriptor" where
  "register_write f = f\<lparr>write_count := write_count f + 1\<rparr>"

definition secure_read :: "ssl_reads \<Rightarrow> file_descriptor \<Rightarrow> (string \<times> file_descriptor \<times> ssl_reads) res" where
  "secure_read r f =
     (let a = r 0; r' = (\<lambda>n. r (Suc n))
      in assertR (ssl_pending a = 0)
        (if bytes_read a = 0 then
           if error_return a = SSL_ERROR_ZERO_RETURN then Inr ([], register_read (f\<lparr>eof := True\<rparr>), r')
           else if error_return a = SSL_ERROR_SYSCALL
             then assertR (error_queue a = 0) (Inr ([], register_read (f\<lparr>eof := True\<rparr>), r'))
           else Inr ([], register_read f, r')
         else if bytes_read a < 0 then Inl (Ssl_error ''SSL_read'')
         else Inr (take (nat (bytes_read a)) (ssl_buffer a), register_read f, r')))"

text \<open>
  \<open>SSL_write\<close> sends the whole message if it returns a positive number, and nothing if it returns 0,
  which the code does not take for an error.
\<close>

definition secure_write :: "ssl_writes \<Rightarrow> file_descriptor \<Rightarrow> string \<Rightarrow> (file_descriptor \<times> ssl_writes) res" where
  "secure_write w f message =
     (if w 0 < 0 then Inl (Ssl_error ''SSL_write'')
      else Inr (register_write (if w 0 = 0 then f else f\<lparr>sent := sent f @ [message]\<rparr>), \<lambda>n. w (Suc n)))"

lemma write_lost: "secure_write (\<lambda>_. 0) f message = Inr (register_write f, \<lambda>_. 0)"
  by (simp add: secure_write_def)

section \<open>A TLS socket as a plain one\<close>

text \<open>
  The plain text that the answers stand for.  They are clean if each is either data of at most one
  record, or the end of the connection.
\<close>

definition plain_reads :: "ssl_reads \<Rightarrow> reads" where
  "plain_reads r = (\<lambda>n. Some (take (nat (bytes_read (r n))) (ssl_buffer (r n))))"

definition clean_answer :: "ssl_read_answer \<Rightarrow> bool" where
  "clean_answer a \<longleftrightarrow> ssl_pending a = 0 \<and>
     (if bytes_read a = 0
      then error_return a = SSL_ERROR_ZERO_RETURN \<or> error_return a = SSL_ERROR_SYSCALL \<and> error_queue a = 0
      else 0 < bytes_read a \<and> bytes_read a \<le> 16384 \<and> bytes_read a \<le> int (length (ssl_buffer a)))"

lemma secure_read_refines:
  assumes "clean_answer (r 0)"
  shows "fd_read (plain_reads r) f buffer_size =
    bindR (secure_read r f) (\<lambda>(s, f', r'). Inr (s, f', plain_reads r'))"
proof (cases "bytes_read (r 0) = 0")
  case True
  with assms show ?thesis
    by (auto simp: clean_answer_def fd_read_def secure_read_def plain_reads_def register_read_def Let_def)
next
  case False
  with assms have "ssl_buffer (r 0) \<noteq> []" "\<not> 1048576 \<le> nat (bytes_read (r 0))" by (auto simp: clean_answer_def)
  with False assms show ?thesis
    by (cases f) (simp add: clean_answer_def fd_read_def secure_read_def plain_reads_def register_read_def
        buffer_size_def Let_def min_def)
qed

lemma secure_write_refines:
  assumes "0 < w 0" "message \<noteq> []"
  shows "fd_write (\<lambda>_. int (length message)) f message =
    bindR (secure_write w f message) (\<lambda>(f', _). Inr (f', \<lambda>_. int (length message)))"
  using assms by (simp add: secure_write_def register_write_def fd_write_whole)

section \<open>What the proxy asks of a socket\<close>

record ('r, 'w) socket_ops =
  socket_read :: "'r \<Rightarrow> file_descriptor \<Rightarrow> (string \<times> file_descriptor \<times> 'r) res"
  socket_write :: "'w \<Rightarrow> file_descriptor \<Rightarrow> string \<Rightarrow> (file_descriptor \<times> 'w) res"

text \<open>
  Reading leaves alone what was sent; a write that returns has sent everything, as long as the
  answers it can still get are reliable; neither runs into undefined behaviour.
\<close>

locale stream_socket =
  fixes ops :: "('r, 'w) socket_ops" and reliable :: "'w \<Rightarrow> bool"
  assumes read_sent: "socket_read ops r f = Inr (s, f', r') \<Longrightarrow> sent f' = sent f"
    and write_sent: "reliable w \<Longrightarrow> socket_write ops w f s = Inr (f', w') \<Longrightarrow>
      concat (sent f') = concat (sent f) @ s \<and> reliable w'"
    and read_defined: "well_defined (socket_read ops r f)"
    and write_defined: "well_defined (socket_write ops w f s)"

definition tcp_ops :: "(reads, writes) socket_ops" where
  "tcp_ops = \<lparr>socket_read = \<lambda>r f. fd_read r f buffer_size, socket_write = fd_write\<rparr>"

definition tls_ops :: "(ssl_reads, ssl_writes) socket_ops" where
  "tls_ops = \<lparr>socket_read = secure_read, socket_write = secure_write\<rparr>"

definition any_write :: "writes \<Rightarrow> bool" where
  "any_write w \<longleftrightarrow> True"

definition never_zero :: "ssl_writes \<Rightarrow> bool" where
  "never_zero w \<longleftrightarrow> (\<forall>n. w n \<noteq> 0)"

lemma never_zero_Suc: "never_zero w \<Longrightarrow> never_zero (\<lambda>n. w (Suc n))"
  by (simp add: never_zero_def)

interpretation tcp: stream_socket tcp_ops any_write
  by unfold_locales
    (auto simp: tcp_ops_def any_write_def fd_read_def Let_def fd_write_sent split: option.splits
      intro: well_defined_intros)

interpretation tls: stream_socket tls_ops never_zero
proof unfold_locales
  fix w f s f' w'
  assume "never_zero w" "socket_write tls_ops w f s = Inr (f', w')"
  then show "concat (sent f') = concat (sent f) @ s \<and> never_zero w'"
    by (auto simp: tls_ops_def secure_write_def register_write_def never_zero_def split: if_splits)
qed (auto simp: tls_ops_def secure_read_def secure_write_def register_read_def assertR_def Let_def split: if_splits)

end
