(* ===== verification/Http_Proxy.thy ===== *)
theory Http_Proxy
  imports Poller Well_Defined Secure_Socket
begin

text \<open>
  \<open>HTTPProxy::loop\<close> of \<open>src/httpserver/http_proxy.cc\<close>: the requests of the client's byte
  stream go to the server, its responses to the client, and, when recording, to the store.  The
  loop is a template over the type of its sockets, here a parameter \<open>ops\<close>: TCP, or TLS over TCP.
  \<open>client_pieces\<close>, \<open>asked\<close> and \<open>answered\<close> are history: what \<open>read\<close> has returned on the client's
  socket, the requests written to the server and the responses written to the client.
\<close>

section \<open>The state and the callbacks\<close>

record ('r, 'w) proxy_conn =
  server_fd :: file_descriptor
  client_fd :: file_descriptor
  server_reads :: 'r
  client_reads :: 'r
  server_writes :: 'w
  client_writes :: 'w
  request_parser :: "http_message http_sequence"
  response_parser_state :: response_parser
  logger :: time_logger
  system_clock :: "nat \<Rightarrow> int"
  server_addr :: address
  backing_store :: disk_store
  client_pieces :: "string list"
  asked :: "http_message list"
  answered :: "http_response list"

definition seq_empty :: "('m, 'b) http_sequence_scheme \<Rightarrow> bool" where
  "seq_empty q \<longleftrightarrow> complete_messages q = []"

definition seq_front :: "('m, 'b) http_sequence_scheme \<Rightarrow> 'm res" where
  "seq_front q =
     (case complete_messages q of
        [] \<Rightarrow> Inl (Undefined_behaviour ''front of an empty queue'') | m # _ \<Rightarrow> Inr m)"

definition seq_pop :: "('m, 'b) http_sequence_scheme \<Rightarrow> ('m, 'b) http_sequence_scheme res" where
  "seq_pop q =
     (case complete_messages q of
        [] \<Rightarrow> Inl (Undefined_behaviour ''pop of an empty queue'')
      | _ # ms \<Rightarrow> Inr (q\<lparr>complete_messages := ms\<rparr>))"

text \<open>A loop of the parser that does not end, which C++ leaves undefined.\<close>

definition parsed :: "'a res option \<Rightarrow> 'a res" where
  "parsed m = (case m of None \<Rightarrow> Inl (Undefined_behaviour ''loop without end'') | Some r \<Rightarrow> r)"

definition tick :: "('r, 'w) proxy_conn \<Rightarrow> int \<times> ('r, 'w) proxy_conn" where
  "tick s = (system_clock s 0, s\<lparr>system_clock := \<lambda>n. system_clock s (Suc n)\<rparr>)"

definition server_input ::
  "('r, 'w) socket_ops \<Rightarrow> ('r, 'w) proxy_conn \<Rightarrow> (action_result \<times> ('r, 'w) proxy_conn) res" where
  "server_input ops s =
     bindR (socket_read ops (server_reads s) (server_fd s)) (\<lambda>(buffer, f, r).
     bindR (parsed (response_parse buffer (response_parser_state s))) (\<lambda>p.
       Inr ((Continue, 0), s\<lparr>server_fd := f, server_reads := r, response_parser_state := p\<rparr>)))"

definition client_input ::
  "('r, 'w) socket_ops \<Rightarrow> ('r, 'w) proxy_conn \<Rightarrow> (action_result \<times> ('r, 'w) proxy_conn) res" where
  "client_input ops s =
     bindR (socket_read ops (client_reads s) (client_fd s)) (\<lambda>(buffer, f, r).
     bindR (parsed (request_parse buffer (request_parser s))) (\<lambda>p.
       Inr ((Continue, 0), s\<lparr>client_fd := f, client_reads := r, request_parser := p,
                             client_pieces := client_pieces s @ [buffer]\<rparr>)))"

definition server_output ::
  "('r, 'w) socket_ops \<Rightarrow> ('r, 'w) proxy_conn \<Rightarrow> (action_result \<times> ('r, 'w) proxy_conn) res" where
  "server_output ops s =
     bindR (seq_front (request_parser s)) (\<lambda>m.
     bindR (message_str m) (\<lambda>str.
     let (now, s1) = tick s
     in bindR (start_obj_load_timer now str (logger s1)) (\<lambda>lg.
        bindR (socket_write ops (server_writes s1) (server_fd s1) str) (\<lambda>(f, w).
        bindR (seq_pop (request_parser s1)) (\<lambda>p.
          Inr ((Continue, 0),
               s1\<lparr>logger := lg, server_fd := f, server_writes := w,
                  response_parser_state := new_request_arrived m (response_parser_state s1),
                  request_parser := p, asked := asked s1 @ [m]\<rparr>))))))"

text \<open>The last callback, without and with the backing store.\<close>

definition client_output ::
  "('r, 'w) socket_ops \<Rightarrow> ('r, 'w) proxy_conn \<Rightarrow> (action_result \<times> ('r, 'w) proxy_conn) res" where
  "client_output ops s =
     bindR (seq_front (response_parser_state s)) (\<lambda>m.
     bindR (message_str (request m)) (\<lambda>req.
     let (now, s1) = tick s
     in bindR (stop_obj_load_timer now req (logger s1)) (\<lambda>lg.
        bindR (message_str m) (\<lambda>str.
        bindR (socket_write ops (client_writes s1) (client_fd s1) str) (\<lambda>(f, w).
        bindR (seq_pop (response_parser_state s1)) (\<lambda>p.
          Inr ((Continue, 0),
               s1\<lparr>logger := lg, client_fd := f, client_writes := w,
                  response_parser_state := p, answered := answered s1 @ [m]\<rparr>)))))))"

definition client_output_saving ::
  "('r, 'w) socket_ops \<Rightarrow> ('r, 'w) proxy_conn \<Rightarrow> (action_result \<times> ('r, 'w) proxy_conn) res" where
  "client_output_saving ops s =
     bindR (seq_front (response_parser_state s)) (\<lambda>m.
     bindR (message_str (request m)) (\<lambda>req.
     let (now, s1) = tick s
     in bindR (stop_obj_load_timer now req (logger s1)) (\<lambda>lg.
        bindR (message_str m) (\<lambda>str.
        bindR (socket_write ops (client_writes s1) (client_fd s1) str) (\<lambda>(f, w).
        bindR (disk_save m (server_addr s1) (backing_store s1)) (\<lambda>d.
        bindR (seq_pop (response_parser_state s1)) (\<lambda>p.
          Inr ((Continue, 0),
               s1\<lparr>logger := lg, client_fd := f, client_writes := w, backing_store := d,
                  response_parser_state := p, answered := answered s1 @ [m]\<rparr>))))))))"

definition proxy_actions_with ::
  "('r, 'w) socket_ops \<Rightarrow> (('r, 'w) proxy_conn \<Rightarrow> (action_result \<times> ('r, 'w) proxy_conn) res) \<Rightarrow>
   ('r, 'w) proxy_conn action list" where
  "proxy_actions_with ops output =
     [action_new server_fd In (server_input ops) (\<lambda>s. \<not> eof (client_fd s)),
      action_new client_fd In (client_input ops) (\<lambda>s. \<not> eof (server_fd s)),
      action_new server_fd Out (server_output ops) (\<lambda>s. \<not> seq_empty (request_parser s)),
      action_new client_fd Out output (\<lambda>s. \<not> seq_empty (response_parser_state s))]"

definition recording_loop ::
  "('r, 'w) socket_ops \<Rightarrow> kernel list \<Rightarrow> ('r, 'w) proxy_conn \<Rightarrow>
   (u32 option \<times> ('r, 'w) proxy_conn poller \<times> ('r, 'w) proxy_conn) res" where
  "recording_loop ops ks s =
     poll_loop ks (- 1) (fold (\<lambda>a. add_action a s) (proxy_actions_with ops (client_output_saving ops)) poller_new) s"

definition plain_loop ::
  "('r, 'w) socket_ops \<Rightarrow> kernel list \<Rightarrow> ('r, 'w) proxy_conn \<Rightarrow>
   (u32 option \<times> ('r, 'w) proxy_conn poller \<times> ('r, 'w) proxy_conn) res" where
  "plain_loop ops ks s =
     poll_loop ks (- 1) (fold (\<lambda>a. add_action a s) (proxy_actions_with ops (client_output ops)) poller_new) s"

definition proxy_conn_new ::
  "file_descriptor \<Rightarrow> file_descriptor \<Rightarrow> 'r \<Rightarrow> 'r \<Rightarrow> 'w \<Rightarrow> 'w \<Rightarrow> time_logger \<Rightarrow> (nat \<Rightarrow> int) \<Rightarrow>
   address \<Rightarrow> disk_store \<Rightarrow> ('r, 'w) proxy_conn" where
  "proxy_conn_new sfd cfd sr cr sw cw lg clk addr d =
     \<lparr>server_fd = sfd, client_fd = cfd, server_reads = sr, client_reads = cr, server_writes = sw,
      client_writes = cw, request_parser = request_parser_new,
      response_parser_state = response_parser_new, logger = lg, system_clock = clk,
      server_addr = addr, backing_store = d, client_pieces = [], asked = [], answered = []\<rparr>"

text \<open>
  For TLS both sockets are made anew and shake hands, as a client with the server and as a server
  with the client.  What OpenSSL answers, and what the sockets will read and write:
\<close>

record tls_answers =
  ta_server :: "bool \<times> int"
  ta_connect :: int
  ta_client :: "bool \<times> int"
  ta_accept :: int
  ta_server_reads :: ssl_reads
  ta_client_reads :: ssl_reads
  ta_server_writes :: ssl_writes
  ta_client_writes :: ssl_writes

definition secured ::
  "tls_answers \<Rightarrow> (reads, writes) proxy_conn \<Rightarrow> (ssl_reads, ssl_writes) proxy_conn res" where
  "secured a s =
     bindR (secure_socket_new (fst (ta_server a)) (snd (ta_server a)) (server_fd s)) (\<lambda>(tls_server, _).
     bindR (secure_connect (ta_connect a)) (\<lambda>_.
     bindR (secure_socket_new (fst (ta_client a)) (snd (ta_client a)) (client_fd s)) (\<lambda>(tls_client, _).
     bindR (secure_accept (ta_accept a)) (\<lambda>_.
       Inr (proxy_conn_new tls_server tls_client (ta_server_reads a) (ta_client_reads a) (ta_server_writes a)
              (ta_client_writes a) (logger s) (system_clock s) (server_addr s) (backing_store s))))))"

text \<open>
  The thread of \<open>handle_tcp\<close>, after \<open>accept\<close>: the connection to the original destination, which
  may succeed or not, is timed; on port 443 the loop runs over TLS.
\<close>

definition proxy_thread ::
  "(kernel list \<Rightarrow> (reads, writes) proxy_conn \<Rightarrow> 'a res) \<Rightarrow>
   (kernel list \<Rightarrow> (ssl_reads, ssl_writes) proxy_conn \<Rightarrow> 'b res) \<Rightarrow>
   bool \<Rightarrow> tls_answers \<Rightarrow> kernel list \<Rightarrow> (reads, writes) proxy_conn \<Rightarrow> ('a + 'b) res" where
  "proxy_thread loop tls_loop connects a ks s =
     (let (t0, s1) = tick s;
          s2 = s1\<lparr>logger := start_rtt_timer t0 (address_str '':'' (server_addr s)) (logger s1)\<rparr>
      in if \<not> connects then Inl (Unix_error ''connect'')
         else let (t1, s3) = tick s2;
                  s4 = s3\<lparr>logger := stop_rtt_timer t1 (address_str '':'' (server_addr s)) (logger s3)\<rparr>
              in if port (server_addr s) \<noteq> 443 then bindR (loop ks s4) (\<lambda>r. Inr (Inl r))
                 else bindR (secured a s4) (\<lambda>s5. bindR (tls_loop ks s5) (\<lambda>r. Inr (Inr r))))"

text \<open>The two kinds of proxy.\<close>

definition recording_thread ::
  "bool \<Rightarrow> tls_answers \<Rightarrow> kernel list \<Rightarrow> (reads, writes) proxy_conn \<Rightarrow>
   ((u32 option \<times> (reads, writes) proxy_conn poller \<times> (reads, writes) proxy_conn) +
    (u32 option \<times> (ssl_reads, ssl_writes) proxy_conn poller \<times> (ssl_reads, ssl_writes) proxy_conn)) res" where
  "recording_thread = proxy_thread (recording_loop tcp_ops) (recording_loop tls_ops)"

definition plain_thread ::
  "bool \<Rightarrow> tls_answers \<Rightarrow> kernel list \<Rightarrow> (reads, writes) proxy_conn \<Rightarrow>
   ((u32 option \<times> (reads, writes) proxy_conn poller \<times> (reads, writes) proxy_conn) +
    (u32 option \<times> (ssl_reads, ssl_writes) proxy_conn poller \<times> (ssl_reads, ssl_writes) proxy_conn)) res" where
  "plain_thread = proxy_thread (plain_loop tcp_ops) (plain_loop tls_ops)"

section \<open>Popping messages does not disturb the parser\<close>

definition put_front :: "'m list \<Rightarrow> ('m, 'b) http_sequence_scheme \<Rightarrow> ('m, 'b) http_sequence_scheme" where
  "put_front ms s = s\<lparr>complete_messages := ms @ complete_messages s\<rparr>"

lemma put_front_simps [simp]:
  "put_front [] s = s" "seq_buffer (put_front ms s) = seq_buffer s"
  "in_progress (put_front ms s) = in_progress s"
  "complete_messages (put_front ms s) = ms @ complete_messages s"
  "(put_front ms s)\<lparr>seq_buffer := b\<rparr> = put_front ms (s\<lparr>seq_buffer := b\<rparr>)"
  "(put_front ms s)\<lparr>in_progress := m\<rparr> = put_front ms (s\<lparr>in_progress := m\<rparr>)"
  by (simp_all add: put_front_def)

lemma put_front_complete:
  "(put_front ms s)\<lparr>complete_messages := complete_messages (put_front ms s) @ xs, in_progress := m\<rparr> =
   put_front ms (s\<lparr>complete_messages := complete_messages s @ xs, in_progress := m\<rparr>)"
  by (simp add: put_front_def)

lemma request_step_front:
  fixes s :: "http_message http_sequence"
  shows "parsing_step request_ops Inr (put_front ms s) =
   bindR (parsing_step request_ops Inr s) (\<lambda>(go, t). Inr (go, put_front ms t))"
proof (cases "state (in_progress s)")
  case FIRST_LINE_PENDING
  then show ?thesis
    by (cases "get_and_pop_line (seq_buffer s)")
      (auto simp: parsing_step_def set_first_line_def)
next
  case HEADERS_PENDING
  show ?thesis
  proof (cases "get_and_pop_line (seq_buffer s)")
    case (Inl e)
    with HEADERS_PENDING show ?thesis by (simp add: parsing_step_def)
  next
    case (Inr lr)
    obtain line rest where lr: "lr = (line, rest)" by fastforce
    show ?thesis
    proof (cases "line = []")
      case True
      then show ?thesis
        by (cases "done_with_headers request_ops (in_progress s)")
          (simp_all add: parsing_step_def HEADERS_PENDING Inr lr)
    next
      case False
      then show ?thesis
        by (cases "add_header line (in_progress s)")
          (simp_all add: parsing_step_def HEADERS_PENDING Inr lr)
    qed
  qed
next
  case BODY_PENDING
  show ?thesis
  proof (cases "read_in_body request_ops (seq_buffer s) (in_progress s)")
    case (Inl e)
    with BODY_PENDING show ?thesis by (simp add: parsing_step_def)
  next
    case (Inr nm)
    obtain n m where nm: "nm = (n, m)" by fastforce
    show ?thesis
      by (cases "pop_bytes n (seq_buffer s)")
        (simp_all add: parsing_step_def BODY_PENDING Inr nm assertR_def)
  qed
next
  case COMPLETE
  then show ?thesis by (simp add: parsing_step_def put_front_complete del: put_front_simps(4))
qed

text \<open>An induction principle for the loop of a parser, and its use for invariants.\<close>

lemma parse_loop_inv:
  assumes "parse_loop ops init s = Some (Inr t)" "I s"
    and step: "\<And>s go s'. I s \<Longrightarrow> parsing_step ops init s = Inr (go, s') \<Longrightarrow> I s'"
  shows "I t"
proof -
  define P where "P o' i' x r \<longleftrightarrow> (o' = ops \<longrightarrow> i' = init \<longrightarrow> I x \<longrightarrow> (\<forall>u. r = (Inr u :: _ res) \<longrightarrow> I u))" for o' i' x r
  have "P ops init s (Inr t)"
  proof (rule parse_loop.raw_induct [where P = P, OF _ assms(1)])
    fix loop o' i' x r
    assume IH: "\<And>o' i' x r. loop o' i' x = Some r \<Longrightarrow> P o' i' x r"
      and r: "(case parsing_step o' i' x of Inl e \<Rightarrow> Some (Inl e)
        | Inr r \<Rightarrow> if fst r then loop o' i' (snd r) else Some (Inr (snd r))) = Some r"
    show "P o' i' x r"
      unfolding P_def
    proof (intro impI)
      assume o: "o' = ops" "i' = init" "I x"
      show "\<forall>u. r = Inr u \<longrightarrow> I u"
      proof (cases "parsing_step ops init x")
        case (Inl e)
        with r o show ?thesis by auto
      next
        case (Inr y)
        then have "I (snd y)" using step [OF o(3), of "fst y" "snd y"] by simp
        with r o Inr IH [of ops init "snd y" r] show ?thesis by (cases "fst y") (auto simp: P_def)
      qed
    qed
  qed
  with assms(2) show ?thesis by (simp add: P_def)
qed

lemma request_loop_front:
  fixes s :: "http_message http_sequence"
  assumes "parse_loop request_ops Inr s = Some r"
  shows "parse_loop request_ops Inr (put_front ms s) = Some (bindR r (\<lambda>t. Inr (put_front ms t)))"
proof -
  have "\<forall>x. parse_loop request_ops Inr s = Some x \<longrightarrow>
    parse_loop request_ops Inr (put_front ms s) = Some (bindR x (\<lambda>t. Inr (put_front ms t)))"
  proof (induction "seq_measure s" arbitrary: s rule: less_induct)
    case less
    show ?case
    proof (cases "parsing_step request_ops Inr s")
      case (Inl e)
      then show ?thesis
        by (simp add: parse_loop.simps [of _ _ s] parse_loop.simps [of _ _ "put_front ms s"]
            request_step_front)
    next
      case (Inr x)
      obtain go t where x: "x = (go, t)" by fastforce
      have "go \<Longrightarrow> seq_measure t < seq_measure s"
        using requests.step_progress [of s go t] Inr x by simp
      then show ?thesis
        using Inr x less.hyps [of t]
        by (cases go) (simp_all add: parse_loop.simps [of _ _ s]
            parse_loop.simps [of _ _ "put_front ms s"] request_step_front)
    qed
  qed
  with assms show ?thesis by blast
qed

lemma request_parse_front:
  assumes "request_parse buf s = Some (Inr t)"
  shows "request_parse buf (put_front ms s) = Some (Inr (put_front ms t))"
proof -
  obtain m where m: "(if buf = [] then message_eof request_ops (in_progress s) else Inr (in_progress s)) = Inr m"
    and l: "parse_loop request_ops Inr (s\<lparr>in_progress := m, seq_buffer := seq_buffer s @ buf\<rparr>) = Some (Inr t)"
    using assms by (auto simp: request_parse_def parse_def split: sum.splits)
  with request_loop_front [OF l, of ms] show ?thesis
    by (cases "buf = []") (simp_all add: request_parse_def parse_def)
qed

lemma parse_pieces_snoc:
  "parse_pieces ops init ps s = Some (Inr t) \<Longrightarrow>
   parse_pieces ops init (ps @ [p]) s = parse ops init p t"
  by (induction ps arbitrary: s) (auto split: option.splits sum.splits)

section \<open>Every response belongs to the oldest unanswered request\<close>

text \<open>
  The requests that a response parser has been told of and has not handed back: those of its
  complete responses, that of the response in progress, and those still waiting.
\<close>

definition outstanding :: "response_parser \<Rightarrow> http_message list" where
  "outstanding s =
     map request (complete_messages s) @
     (if state (in_progress s) = FIRST_LINE_PENDING then [] else [request (in_progress s)]) @ requests s"

lemma request_frame [simp]:
  fixes m :: http_response
  shows "request (m\<lparr>expected_size := e\<rparr>) = request m" "request (m\<lparr>first_line := l\<rparr>) = request m"
    "request (m\<lparr>headers := hs\<rparr>) = request m" "request (m\<lparr>body := b\<rparr>) = request m"
    "request (m\<lparr>state := st\<rparr>) = request m"
  by (cases m; simp)+

lemma calculate_keeps:
  "response_calculate_size m = Inr m' \<Longrightarrow> request m' = request m \<and> state m' = state m"
  by (auto simp: response_calculate_size_def set_expected_body_size_def res_simps Let_def
      split: if_splits)

lemma complex_keeps:
  assumes "response_complex_body str m = Inr (n, m')"
  shows "request m' = request m \<and> state m' \<noteq> FIRST_LINE_PENDING"
proof -
  obtain bp r bp' where "state m = BODY_PENDING" "body_parser m = Some bp"
    "body_parser_read str bp = Inr (r, bp')"
    using assms
    by (cases "body_parser m"; cases "body_parser_read str (the (body_parser m))")
      (auto simp: response_complex_body_def assertR_def split: if_splits)
  note facts = this
  show ?thesis
  proof (cases r)
    case None
    with assms facts have "m' = m\<lparr>body_parser := Some bp', body := body m @ str\<rparr>"
      by (simp add: response_complex_body_def Let_def)
    with facts show ?thesis by simp
  next
    case (Some k)
    with assms facts have "k = n \<and> m\<lparr>body_parser := Some bp', body := body m @ take k str, state := COMPLETE\<rparr> = m'"
      by (simp add: response_complex_body_def Let_def) (elim conjE, simp)
    from conjunct2 [OF this, symmetric] show ?thesis by simp
  qed
qed

lemma read_in_body_keeps:
  "read_in_body response_ops str m = Inr (n, m') \<Longrightarrow>
   request m' = request m \<and> state m' \<noteq> FIRST_LINE_PENDING"
  by (auto simp: read_in_body_def res_simps Let_def response_ops_def dest: complex_keeps split: if_splits)

lemma response_step_outstanding:
  assumes "parsing_step response_ops initialize_new_response s = Inr (go, t)"
  shows "outstanding t = outstanding s"
proof (cases "state (in_progress s)")
  case FIRST_LINE_PENDING
  show ?thesis
  proof (cases "have_complete_line (seq_buffer s)")
    case False
    with assms FIRST_LINE_PENDING show ?thesis by (simp add: parsing_step_def)
  next
    case True
    obtain s1 line rest m where i: "initialize_new_response s = Inr s1"
      and l: "get_and_pop_line (seq_buffer s1) = Inr (line, rest)" "set_first_line line (in_progress s1) = Inr m"
      and t: "t = s1\<lparr>seq_buffer := rest, in_progress := m\<rparr>"
      using assms FIRST_LINE_PENDING True by (auto simp: parsing_step_def res_simps)
    obtain r rs where "requests s = r # rs" "s1 = s\<lparr>in_progress := (in_progress s)\<lparr>request := r\<rparr>, requests := rs\<rparr>"
      using i by (auto simp: initialize_new_response_def set_request_def res_simps split: list.splits)
    with FIRST_LINE_PENDING l t show ?thesis
      by (auto simp: outstanding_def set_first_line_def res_simps)
  qed
next
  case HEADERS_PENDING
  show ?thesis
  proof (cases "have_complete_line (seq_buffer s)")
    case False
    with assms HEADERS_PENDING show ?thesis by (simp add: parsing_step_def)
  next
    case True
    obtain line rest m where
      m: "(if line = [] then done_with_headers response_ops (in_progress s) else add_header line (in_progress s)) = Inr m"
      and t: "t = s\<lparr>seq_buffer := rest, in_progress := m\<rparr>"
      using assms HEADERS_PENDING True by (auto simp: parsing_step_def res_simps)
    have "request m = request (in_progress s) \<and> state m \<noteq> FIRST_LINE_PENDING"
      using m by (auto simp: done_with_headers_def add_header_def res_simps response_ops_def
          dest: calculate_keeps split: if_splits)
    with HEADERS_PENDING t show ?thesis by (simp add: outstanding_def)
  qed
next
  case BODY_PENDING
  then obtain n m rest where "read_in_body response_ops (seq_buffer s) (in_progress s) = Inr (n, m)"
    "t = s\<lparr>seq_buffer := rest, in_progress := m\<rparr>"
    using assms by (auto simp: parsing_step_def res_simps)
  with BODY_PENDING read_in_body_keeps show ?thesis by (fastforce simp: outstanding_def)
next
  case COMPLETE
  with assms show ?thesis
    by (auto simp: parsing_step_def outstanding_def response_ops_def response_new_def)
qed

lemma response_parse_outstanding:
  assumes "response_parse buf s = Some (Inr t)"
  shows "outstanding t = outstanding s"
proof -
  obtain m where m: "(if buf = [] then message_eof response_ops (in_progress s) else Inr (in_progress s)) = Inr m"
    and l: "parse_loop response_ops initialize_new_response
      (s\<lparr>in_progress := m, seq_buffer := seq_buffer s @ buf\<rparr>) = Some (Inr t)"
    using assms by (auto simp: response_parse_def parse_def split: sum.splits)
  have "request m = request (in_progress s) \<and> (state m = FIRST_LINE_PENDING \<longleftrightarrow> state (in_progress s) = FIRST_LINE_PENDING)"
    using m by (auto simp: message_eof_def res_simps split: if_splits http_state.splits)
  then have "outstanding (s\<lparr>in_progress := m, seq_buffer := seq_buffer s @ buf\<rparr>) = outstanding s"
    by (auto simp: outstanding_def)
  moreover have "outstanding t = outstanding (s\<lparr>in_progress := m, seq_buffer := seq_buffer s @ buf\<rparr>)"
    by (rule parse_loop_inv [where I = "\<lambda>x. outstanding x =
          outstanding (s\<lparr>in_progress := m, seq_buffer := seq_buffer s @ buf\<rparr>)", OF l refl])
      (auto dest: response_step_outstanding)
  ultimately show ?thesis by simp
qed

section \<open>The proxy is a client of the poller\<close>

lemma request_parse_total: "\<exists>r. request_parse a s = Some r"
proof (cases "if a = [] then message_eof request_ops (in_progress s) else Inr (in_progress s)")
  case (Inl e)
  then show ?thesis by (auto simp: request_parse_def parse_def)
next
  case (Inr m)
  with requests.parse_loop_total [of "s\<lparr>in_progress := m, seq_buffer := seq_buffer s @ a\<rparr>"]
  show ?thesis by (auto simp: request_parse_def parse_def)
qed

lemma response_parse_total:
  assumes "parser_in_step (in_progress s)"
  shows "\<exists>r. response_parse a s = Some r \<and> (\<forall>t. r = Inr t \<longrightarrow> parser_in_step (in_progress t))"
proof (cases "if a = [] then message_eof response_ops (in_progress s) else Inr (in_progress s)")
  case (Inl e)
  then show ?thesis by (auto simp: response_parse_def parse_def)
next
  case (Inr m)
  have "parser_in_step m"
    using assms Inr by (auto simp: message_eof_def res_simps parser_in_step_def split: if_splits http_state.splits)
  with Inr responses.parse_loop_total [of "s\<lparr>in_progress := m, seq_buffer := seq_buffer s @ a\<rparr>"]
  show ?thesis by (auto simp: response_parse_def parse_def)
qed

text \<open>A parse only adds complete messages.\<close>

lemma response_parse_nonempty:
  assumes "response_parse a s = Some (Inr t)" "complete_messages s \<noteq> []"
  shows "complete_messages t \<noteq> []"
proof -
  obtain m where "parse_loop response_ops initialize_new_response
      (s\<lparr>in_progress := m, seq_buffer := seq_buffer s @ a\<rparr>) = Some (Inr t)"
    using assms by (auto simp: response_parse_def parse_def split: sum.splits)
  then show ?thesis
    by (rule parse_loop_inv [where I = "\<lambda>x. complete_messages x \<noteq> []"])
      (use assms(2) in \<open>auto simp: parsing_step_def initialize_new_response_def set_request_def res_simps
        split: http_state.splits if_splits list.splits\<close>)
qed

lemma request_parse_nonempty:
  assumes "request_parse a s = Some (Inr t)" "complete_messages s \<noteq> []"
  shows "complete_messages t \<noteq> []"
proof -
  obtain m where "parse_loop request_ops Inr
      (s\<lparr>in_progress := m, seq_buffer := seq_buffer s @ a\<rparr>) = Some (Inr t)"
    using assms by (auto simp: request_parse_def parse_def split: sum.splits)
  then show ?thesis
    by (rule parse_loop_inv [where I = "\<lambda>x. complete_messages x \<noteq> []"])
      (use assms(2) in \<open>auto simp: parsing_step_def res_simps split: http_state.splits if_splits\<close>)
qed

text \<open>What has gone out on a socket is the messages of a list, one after the other.\<close>

definition printed :: "'a http_message_scheme list \<Rightarrow> file_descriptor \<Rightarrow> bool" where
  "printed ms f \<longleftrightarrow> (\<exists>ts. map message_str ms = map Inr ts \<and> concat (sent f) = concat ts)"

lemma printed_snoc:
  assumes "printed ms f" "message_str m = Inr t" "concat (sent f') = concat (sent f) @ t"
  shows "printed (ms @ [m]) f'"
proof -
  obtain ts where "map message_str ms = map Inr ts" "concat (sent f) = concat ts"
    using assms(1) by (auto simp: printed_def)
  with assms(2,3) show ?thesis
    unfolding printed_def by (intro exI [of _ "ts @ [t]"]) simp
qed

definition proxy_flow :: "('w \<Rightarrow> bool) \<Rightarrow> ('r, 'w) proxy_conn \<Rightarrow> bool" where
  "proxy_flow reliable s \<longleftrightarrow> reliable (server_writes s) \<and> reliable (client_writes s) \<and>
     parse_pieces request_ops Inr (client_pieces s) request_parser_new =
       Some (Inr (put_front (asked s) (request_parser s))) \<and>
     asked s = map request (answered s) @ outstanding (response_parser_state s) \<and>
     printed (asked s) (server_fd s) \<and> printed (answered s) (client_fd s) \<and>
     parser_in_step (in_progress (response_parser_state s))"

text \<open>The store holds one record per answered request, in order.\<close>

definition records :: "address \<Rightarrow> http_response \<Rightarrow> string \<times> request_response \<Rightarrow> bool" where
  "records a m x \<longleftrightarrow> rr_ip (snd x) = ip a \<and> rr_port (snd x) = ucast (port a) \<and>
     rr_scheme (snd x) = (if port a = 443 then HTTPS else HTTP) \<and>
     message_to_protobuf (request m) = Inr (rr_request (snd x)) \<and>
     message_to_protobuf m = Inr (rr_response (snd x))"

definition recorded :: "address \<Rightarrow> (string \<times> request_response) list \<Rightarrow> ('r, 'w) proxy_conn \<Rightarrow> bool" where
  "recorded a before s \<longleftrightarrow> server_addr s = a \<and> (\<exists>saved. disk_files (backing_store s) = before @ saved \<and>
     list_all2 (records a) (answered s) saved)"

definition proxy_ready :: "nat \<Rightarrow> ('r, 'w) proxy_conn \<Rightarrow> bool" where
  "proxy_ready i s \<longleftrightarrow> (i = 2 \<longrightarrow> complete_messages (request_parser s) \<noteq> []) \<and>
     (i = 3 \<longrightarrow> complete_messages (response_parser_state s) \<noteq> [])"

lemma printed_same: "sent f' = sent f \<Longrightarrow> printed ms f' = printed ms f"
  by (simp add: printed_def)

lemma proxy_index: "i < length (proxy_actions_with ops out) \<longleftrightarrow> i = 0 \<or> i = 1 \<or> i = 2 \<or> i = 3"
  by (auto simp: proxy_actions_with_def)

lemma proxy_actions_nth [simp]:
  "callback (proxy_actions_with ops out ! 0) = server_input ops"
  "callback (proxy_actions_with ops out ! Suc 0) = client_input ops"
  "callback (proxy_actions_with ops out ! 2) = server_output ops"
  "callback (proxy_actions_with ops out ! 3) = out"
  by (simp_all add: proxy_actions_with_def action_new_def)

text \<open>Over any socket that keeps the contract of \<open>stream_socket\<close>:\<close>

context stream_socket begin

lemma server_input_ok:
  assumes "proxy_flow reliable s" "server_input ops s = Inr (r, s')"
  shows "proxy_flow reliable s'" "r = (Continue, 0)" "request_parser s' = request_parser s"
    "complete_messages (response_parser_state s) \<noteq> [] \<Longrightarrow> complete_messages (response_parser_state s') \<noteq> []"
    "backing_store s' = backing_store s" "answered s' = answered s" "server_addr s' = server_addr s"
proof -
  obtain b f rd p where *: "socket_read ops (server_reads s) (server_fd s) = Inr (b, f, rd)"
    "response_parse b (response_parser_state s) = Some (Inr p)"
    and s': "s' = s\<lparr>server_fd := f, server_reads := rd, response_parser_state := p\<rparr>" "r = (Continue, 0)"
    using assms(2) by (auto simp: server_input_def parsed_def res_simps split: option.splits)
  have "parser_in_step (in_progress p)"
    using response_parse_total [of "response_parser_state s" b] * assms(1) by (auto simp: proxy_flow_def)
  with assms(1) show "proxy_flow reliable s'"
    unfolding proxy_flow_def s'(1)
    by (elim conjE) (simp add: printed_same [OF read_sent [OF *(1)]] response_parse_outstanding [OF *(2)])
  show "r = (Continue, 0)" "request_parser s' = request_parser s"
    "backing_store s' = backing_store s" "answered s' = answered s" "server_addr s' = server_addr s"
    using s' by simp_all
  show "complete_messages (response_parser_state s) \<noteq> [] \<Longrightarrow> complete_messages (response_parser_state s') \<noteq> []"
    using response_parse_nonempty [OF *(2)] s' by simp
qed

lemma client_input_ok:
  assumes "proxy_flow reliable s" "client_input ops s = Inr (r, s')"
  shows "proxy_flow reliable s'" "r = (Continue, 0)" "response_parser_state s' = response_parser_state s"
    "complete_messages (request_parser s) \<noteq> [] \<Longrightarrow> complete_messages (request_parser s') \<noteq> []"
    "backing_store s' = backing_store s" "answered s' = answered s" "server_addr s' = server_addr s"
proof -
  obtain b f rd p where *: "socket_read ops (client_reads s) (client_fd s) = Inr (b, f, rd)"
    "request_parse b (request_parser s) = Some (Inr p)"
    and s': "s' = s\<lparr>client_fd := f, client_reads := rd, request_parser := p,
      client_pieces := client_pieces s @ [b]\<rparr>" "r = (Continue, 0)"
    using assms(2) by (auto simp: client_input_def parsed_def res_simps split: option.splits)
  have "parse_pieces request_ops Inr (client_pieces s @ [b]) request_parser_new =
      Some (Inr (put_front (asked s) p))"
    using request_parse_front [OF *(2), of "asked s"] assms(1)
    by (simp add: proxy_flow_def parse_pieces_snoc request_parse_def)
  with assms(1) show "proxy_flow reliable s'"
    unfolding proxy_flow_def s'(1) by (elim conjE) (simp add: printed_same [OF read_sent [OF *(1)]])
  show "r = (Continue, 0)" "response_parser_state s' = response_parser_state s"
    "backing_store s' = backing_store s" "answered s' = answered s" "server_addr s' = server_addr s"
    using s' by simp_all
  show "complete_messages (request_parser s) \<noteq> [] \<Longrightarrow> complete_messages (request_parser s') \<noteq> []"
    using request_parse_nonempty [OF *(2)] s' by simp
qed

lemma server_output_ok:
  assumes "proxy_flow reliable s" "server_output ops s = Inr (r, s')"
  shows "proxy_flow reliable s'" "r = (Continue, 0)"
    "complete_messages (response_parser_state s') = complete_messages (response_parser_state s)"
    "backing_store s' = backing_store s" "answered s' = answered s" "server_addr s' = server_addr s"
proof -
  obtain m ms str lg f w where c: "complete_messages (request_parser s) = m # ms"
    and str: "message_str m = Inr str" and w: "socket_write ops (server_writes s) (server_fd s) str = Inr (f, w)"
    and s': "s' = s\<lparr>system_clock := \<lambda>n. system_clock s (Suc n), logger := lg, server_fd := f, server_writes := w,
      response_parser_state := new_request_arrived m (response_parser_state s),
      request_parser := (request_parser s)\<lparr>complete_messages := ms\<rparr>, asked := asked s @ [m]\<rparr>"
    and r: "r = (Continue, 0)"
    using assms(2)
    by (auto simp: server_output_def seq_front_def seq_pop_def tick_def Let_def res_simps split: list.splits)
  have "put_front (asked s @ [m]) ((request_parser s)\<lparr>complete_messages := ms\<rparr>) =
      put_front (asked s) (request_parser s)"
    using c by (simp add: put_front_def)
  moreover have "outstanding (new_request_arrived m (response_parser_state s)) =
      outstanding (response_parser_state s) @ [m]"
    by (simp add: outstanding_def new_request_arrived_def)
  moreover have sent: "concat (sent f) = concat (sent (server_fd s)) @ str" "reliable w"
    using write_sent [OF _ w] assms(1) by (simp_all add: proxy_flow_def)
  moreover have "printed (asked s @ [m]) f"
    using assms(1) unfolding proxy_flow_def by (intro printed_snoc [OF _ str sent(1)]) blast
  moreover have "in_progress (new_request_arrived m (response_parser_state s)) =
      in_progress (response_parser_state s)"
    by (simp add: new_request_arrived_def)
  ultimately show "proxy_flow reliable s'"
    using assms(1) unfolding proxy_flow_def s' by (elim conjE) simp
  show "r = (Continue, 0)" "complete_messages (response_parser_state s') = complete_messages (response_parser_state s)"
    "backing_store s' = backing_store s" "answered s' = answered s" "server_addr s' = server_addr s"
    using r s' by (simp_all add: new_request_arrived_def)
qed

lemma answer_flow:
  assumes "proxy_flow reliable s" "complete_messages (response_parser_state s) = m # ms"
    and "message_str m = Inr str" "socket_write ops (client_writes s) (client_fd s) str = Inr (f, w)"
    and "client_pieces s' = client_pieces s" "asked s' = asked s" "request_parser s' = request_parser s"
      "answered s' = answered s @ [m]" "server_fd s' = server_fd s" "client_fd s' = f"
      "server_writes s' = server_writes s" "client_writes s' = w"
      "response_parser_state s' = (response_parser_state s)\<lparr>complete_messages := ms\<rparr>"
  shows "proxy_flow reliable s'"
proof -
  have "outstanding (response_parser_state s) =
      request m # outstanding ((response_parser_state s)\<lparr>complete_messages := ms\<rparr>)"
    using assms(2) by (simp add: outstanding_def)
  moreover have sent: "concat (sent f) = concat (sent (client_fd s)) @ str" "reliable w"
    using write_sent [OF _ assms(4)] assms(1) by (simp_all add: proxy_flow_def)
  moreover have "printed (answered s @ [m]) f"
    using assms(1) unfolding proxy_flow_def by (intro printed_snoc [OF _ assms(3) sent(1)]) blast
  ultimately show ?thesis
    using assms(1) unfolding proxy_flow_def assms(5-13) by (elim conjE) simp
qed

lemma client_output_ok:
  assumes "proxy_flow reliable s" "client_output ops s = Inr (r, s')"
  shows "proxy_flow reliable s'" "r = (Continue, 0)" "backing_store s' = backing_store s"
proof -
  obtain m ms str lg f w where *: "complete_messages (response_parser_state s) = m # ms"
    "message_str m = Inr str" "socket_write ops (client_writes s) (client_fd s) str = Inr (f, w)"
    and s': "s' = s\<lparr>system_clock := \<lambda>n. system_clock s (Suc n), logger := lg, client_fd := f, client_writes := w,
      response_parser_state := (response_parser_state s)\<lparr>complete_messages := ms\<rparr>,
      answered := answered s @ [m]\<rparr>" and r: "r = (Continue, 0)"
    using assms(2)
    by (auto simp: client_output_def seq_front_def seq_pop_def tick_def Let_def res_simps split: list.splits)
  show "proxy_flow reliable s'" by (rule answer_flow [OF assms(1) *]) (simp_all add: s')
  show "r = (Continue, 0)" "backing_store s' = backing_store s" using r s' by simp_all
qed

lemma client_output_saving_ok:
  assumes "proxy_flow reliable s" "client_output_saving ops s = Inr (r, s')"
  shows "proxy_flow reliable s'" "r = (Continue, 0)" "recorded a before s \<Longrightarrow> recorded a before s'"
proof -
  obtain m ms str lg f w d where *: "complete_messages (response_parser_state s) = m # ms"
    "message_str m = Inr str" "socket_write ops (client_writes s) (client_fd s) str = Inr (f, w)"
    and d: "disk_save m (server_addr s) (backing_store s) = Inr d"
    and s': "s' = s\<lparr>system_clock := \<lambda>n. system_clock s (Suc n), logger := lg, client_fd := f, client_writes := w,
      backing_store := d, response_parser_state := (response_parser_state s)\<lparr>complete_messages := ms\<rparr>,
      answered := answered s @ [m]\<rparr>" and r: "r = (Continue, 0)"
    using assms(2)
    by (auto simp: client_output_saving_def seq_front_def seq_pop_def tick_def Let_def res_simps split: list.splits)
  show "proxy_flow reliable s'" by (rule answer_flow [OF assms(1) *]) (simp_all add: s')
  show "r = (Continue, 0)" using r by simp
  assume "recorded a before s"
  then obtain saved where saved: "disk_files (backing_store s) = before @ saved"
    "list_all2 (records a) (answered s) saved" "server_addr s = a" by (auto simp: recorded_def)
  obtain x where x: "disk_files d = disk_files (backing_store s) @ [x]" "records (server_addr s) m x"
  proof (rule disk_save_Inr [OF d])
    fix name req resp
    assume h: "message_to_protobuf (request m) = Inr req" "message_to_protobuf m = Inr resp"
      "disk_files d = disk_files (backing_store s) @ [(name, \<lparr>rr_ip = ip (server_addr s),
         rr_port = ucast (port (server_addr s)), rr_scheme = (if port (server_addr s) = 443 then HTTPS else HTTP),
         rr_request = req, rr_response = resp\<rparr>)]"
    then show thesis by (intro that [OF h(3)]) (simp add: records_def)
  qed
  show "recorded a before s'"
    unfolding recorded_def s' by (intro conjI exI [of _ "saved @ [x]"])
      (use saved x in \<open>simp_all add: list_all2_appendI\<close>)
qed

lemma proxy_well_defined:
  assumes "proxy_flow reliable s"
  shows "well_defined (server_input ops s)" "well_defined (client_input ops s)"
    "proxy_ready 2 s \<Longrightarrow> well_defined (server_output ops s)"
    "proxy_ready 3 s \<Longrightarrow> well_defined (client_output ops s)"
    "proxy_ready 3 s \<Longrightarrow> well_defined (client_output_saving ops s)"
proof -
  have "well_defined (parsed (response_parse b (response_parser_state s)))" for b
    using response_parse_total [of "response_parser_state s" b] assms well_defined_response_parse
    by (auto simp: parsed_def proxy_flow_def)
  then show "well_defined (server_input ops s)"
    by (auto simp: server_input_def intro!: well_defined_intros read_defined write_defined)
  have "well_defined (parsed (request_parse b (request_parser s)))" for b
    using request_parse_total [of b "request_parser s"] well_defined_request_parse
    by (auto simp: parsed_def)
  then show "well_defined (client_input ops s)"
    by (auto simp: client_input_def intro!: well_defined_intros read_defined write_defined)
  show "well_defined (server_output ops s)" if "proxy_ready 2 s"
    using that
    by (auto simp: server_output_def seq_front_def seq_pop_def proxy_ready_def tick_def Let_def
        intro!: well_defined_intros read_defined write_defined split: list.split)
  show "well_defined (client_output ops s)" "well_defined (client_output_saving ops s)" if "proxy_ready 3 s"
    using that
    by (auto simp: client_output_def client_output_saving_def seq_front_def seq_pop_def proxy_ready_def
        tick_def Let_def intro!: well_defined_intros read_defined write_defined split: list.split)
qed

lemma proxy_guard:
  "i < length (proxy_actions_with ops out) \<Longrightarrow> when_interested (proxy_actions_with ops out ! i) s \<Longrightarrow> proxy_ready i s"
  by (auto simp: proxy_index proxy_actions_with_def action_new_def proxy_ready_def seq_empty_def)

lemma proxy_stable:
  assumes "i < j" "j < length (proxy_actions_with ops out)" "proxy_flow reliable s" "proxy_ready j s"
    "callback (proxy_actions_with ops out ! i) s = Inr (r, s')"
  shows "proxy_ready j s'"
proof -
  consider "i = 0" | "i = 1" | "i = 2 \<and> j = 3"
    using assms(1,2) by (auto simp: proxy_index less_Suc_eq numeral_2_eq_2 numeral_3_eq_3)
  then show ?thesis
  proof cases
    case 1
    with assms(5) have "server_input ops s = Inr (r, s')" by simp
    from server_input_ok [OF assms(3) this] assms(4) show ?thesis by (simp add: proxy_ready_def)
  next
    case 2
    with assms(5) have "client_input ops s = Inr (r, s')" by simp
    from client_input_ok [OF assms(3) this] assms(4) show ?thesis by (simp add: proxy_ready_def)
  next
    case 3
    with assms(5) have "server_output ops s = Inr (r, s')" by simp
    from server_output_ok [OF assms(3) this] assms(4) 3 show ?thesis by (simp add: proxy_ready_def)
  qed
qed

lemma recorded_frame:
  "recorded a before s \<Longrightarrow> backing_store s' = backing_store s \<Longrightarrow> answered s' = answered s \<Longrightarrow>
   server_addr s' = server_addr s \<Longrightarrow> recorded a before s'"
  by (simp add: recorded_def)

lemma proxy_inputs:
  assumes "i < 3" "proxy_flow reliable s" "callback (proxy_actions_with ops out ! i) s = Inr (r, s')"
  shows "proxy_flow reliable s' \<and> r = (Continue, 0) \<and> (recorded a before s \<longrightarrow> recorded a before s')"
proof -
  from assms(1) consider "i = 0" | "i = 1" | "i = 2" by linarith
  then show ?thesis
  proof cases
    case 1
    with assms(3) have "server_input ops s = Inr (r, s')" by simp
    from server_input_ok [OF assms(2) this] recorded_frame [of a before s s'] show ?thesis by blast
  next
    case 2
    with assms(3) have "client_input ops s = Inr (r, s')" by simp
    from client_input_ok [OF assms(2) this] recorded_frame [of a before s s'] show ?thesis by blast
  next
    case 3
    with assms(3) have "server_output ops s = Inr (r, s')" by simp
    from server_output_ok [OF assms(2) this] recorded_frame [of a before s s'] show ?thesis by blast
  qed
qed

lemma proxy_step:
  assumes "i < length (proxy_actions_with ops (client_output ops))" "proxy_flow reliable s"
    "callback (proxy_actions_with ops (client_output ops) ! i) s = Inr (r, s')"
  shows "proxy_flow reliable s' \<and> r = (Continue, 0)"
proof (cases "i = 3")
  case True
  with assms(3) have "client_output ops s = Inr (r, s')" by simp
  from client_output_ok [OF assms(2) this] show ?thesis by blast
next
  case False
  with assms(1) have "i < 3" by (auto simp: proxy_index)
  from proxy_inputs [OF this assms(2,3)] show ?thesis by blast
qed

lemma recording_step:
  assumes "i < length (proxy_actions_with ops (client_output_saving ops))" "proxy_flow reliable s \<and> recorded a before s"
    "callback (proxy_actions_with ops (client_output_saving ops) ! i) s = Inr (r, s')"
  shows "(proxy_flow reliable s' \<and> recorded a before s') \<and> r = (Continue, 0)"
proof (cases "i = 3")
  case True
  with assms(3) have "client_output_saving ops s = Inr (r, s')" by simp
  from client_output_saving_ok [OF conjunct1 [OF assms(2)] this] assms(2) show ?thesis by blast
next
  case False
  with assms(1) have "i < 3" by (auto simp: proxy_index)
  from proxy_inputs [OF this conjunct1 [OF assms(2)] assms(3)] assms(2) show ?thesis by blast
qed

lemma proxy_defined:
  assumes "i < length (proxy_actions_with ops out)" "proxy_flow reliable s" "proxy_ready i s"
    "callback (proxy_actions_with ops out ! i) s = Inl e" "out = client_output ops \<or> out = client_output_saving ops"
  shows "\<not> undefined_exn e"
proof -
  have "well_defined (callback (proxy_actions_with ops out ! i) s)"
    using assms(1,3,5) proxy_well_defined [OF assms(2)] by (auto simp: proxy_index)
  with assms(4) show ?thesis by simp
qed

sublocale plain: safe_client "proxy_actions_with ops (client_output ops)" "proxy_flow reliable" proxy_ready "\<lambda>_. False"
  by unfold_locales (auto dest: proxy_guard proxy_step proxy_stable proxy_defined)

sublocale recording: safe_client "proxy_actions_with ops (client_output_saving ops)"
    "\<lambda>s. proxy_flow reliable s \<and> recorded a before s" proxy_ready "\<lambda>_. False"
  for a before
proof unfold_locales
  fix i s r s'
  assume "i < length (proxy_actions_with ops (client_output_saving ops))" "proxy_flow reliable s \<and> recorded a before s"
    "callback (proxy_actions_with ops (client_output_saving ops) ! i) s = Inr (r, s')"
  then show "proxy_flow reliable s' \<and> recorded a before s'" by (rule recording_step [THEN conjunct1])
next
  fix i s st s'
  assume "i < length (proxy_actions_with ops (client_output_saving ops))" "proxy_flow reliable s \<and> recorded a before s"
    "callback (proxy_actions_with ops (client_output_saving ops) ! i) s = Inr ((Cancel, st), s')"
  then show False by (auto dest: recording_step)
qed (auto dest: proxy_guard proxy_stable proxy_defined)

text \<open>The loops, from a state in which the connection is new or later.\<close>

lemma proxy_start:
  assumes "sent sfd = []" "sent cfd = []" "reliable sw" "reliable cw"
  shows "proxy_flow reliable (proxy_conn_new sfd cfd sr cr sw cw lg clk addr d)"
    "recorded addr (disk_files d) (proxy_conn_new sfd cfd sr cr sw cw lg clk addr d)"
  using assms
  by (simp_all add: proxy_flow_def proxy_conn_new_def printed_def outstanding_def response_parser_new_def
      response_new_def parser_in_step_def recorded_def)

lemma proxy_poller_ok:
  "actions (fold (\<lambda>a. add_action a s) (proxy_actions_with ops out) poller_new) = proxy_actions_with ops out"
  "plain.like_from 0 (proxy_actions_with ops (client_output ops))"
  "recording.like_from 0 (proxy_actions_with ops (client_output_saving ops))"
  by (simp add: proxy_actions_with_def add_action_def poller_new_def,
      rule plain.like_from_start, simp add: proxy_actions_with_def action_new_def,
      rule recording.like_from_start, simp add: proxy_actions_with_def action_new_def)

lemma plain_loop_flow: "plain_loop ops ks s = Inr (r, p, s') \<Longrightarrow> proxy_flow reliable s \<Longrightarrow> proxy_flow reliable s'"
  unfolding plain_loop_def
  using plain.poll_loop_good [of ks "- 1" _ s r p s'] proxy_poller_ok(1,2) by simp

lemma recording_loop_flow:
  "recording_loop ops ks s = Inr (r, p, s') \<Longrightarrow> proxy_flow reliable s \<Longrightarrow> recorded a before s \<Longrightarrow>
   proxy_flow reliable s' \<and> recorded a before s'"
  unfolding recording_loop_def
  using recording.poll_loop_good [of ks "- 1" _ s r p s' a before] proxy_poller_ok(1,3) by simp

lemma plain_loop_well_defined: "proxy_flow reliable s \<Longrightarrow> well_defined (plain_loop ops ks s)"
  unfolding well_defined_def plain_loop_def
  using plain.poll_loop_defined proxy_poller_ok(1,2) by auto

lemma recording_loop_well_defined:
  "proxy_flow reliable s \<Longrightarrow> recorded a before s \<Longrightarrow> well_defined (recording_loop ops ks s)"
  unfolding well_defined_def recording_loop_def
  using recording.poll_loop_defined [where a = a and before = before] proxy_poller_ok(1,3) by auto

end

section \<open>The thread\<close>

text \<open>It only sets the timers and makes the sockets before it starts the loop.\<close>

lemma secured_start:
  assumes "secured a s = Inr t" "sent (server_fd s) = []" "sent (client_fd s) = []" 
    "never_zero (ta_server_writes a)" "never_zero (ta_client_writes a)"
  shows "proxy_flow never_zero t" "recorded (server_addr s) (disk_files (backing_store s)) t"
  using assms
  by (auto simp: secured_def secure_socket_new_def fd_move_def Let_def res_simps split: if_splits
      intro!: tls.proxy_start)

lemma timers_frame [simp]:
  "proxy_flow reliable (s\<lparr>system_clock := c, logger := l\<rparr>) = proxy_flow reliable s"
  "recorded addr before (s\<lparr>system_clock := c, logger := l\<rparr>) = recorded addr before s"
  by (simp_all add: proxy_flow_def recorded_def)

lemma proxy_thread_timed:
  "\<exists>c l. proxy_thread loop tls_loop connects a ks s =
     (let s4 = s\<lparr>system_clock := c, logger := l\<rparr>
      in if \<not> connects then Inl (Unix_error ''connect'')
         else if port (server_addr s) \<noteq> 443 then bindR (loop ks s4) (\<lambda>r. Inr (Inl r))
         else bindR (secured a s4) (\<lambda>s5. bindR (tls_loop ks s5) (\<lambda>r. Inr (Inr r))))"
  by (rule exI [of _ "\<lambda>n. system_clock s (Suc (Suc n))"],
      rule exI [of _ "stop_rtt_timer (system_clock s (Suc 0)) (address_str '':'' (server_addr s))
        (start_rtt_timer (system_clock s 0) (address_str '':'' (server_addr s)) (logger s))"])
    (simp add: proxy_thread_def tick_def Let_def)

definition connection_new :: "address \<Rightarrow> disk_store \<Rightarrow> (reads, writes) proxy_conn \<Rightarrow> bool" where
  "connection_new addr d s \<longleftrightarrow> proxy_flow any_write s \<and> recorded addr (disk_files d) s \<and> server_addr s = addr \<and>
     backing_store s = d \<and> sent (server_fd s) = [] \<and> sent (client_fd s) = []"

lemma connection_new_start:
  "sent sfd = [] \<Longrightarrow> sent cfd = [] \<Longrightarrow> connection_new addr d (proxy_conn_new sfd cfd sr cr sw cw lg clk addr d)"
  using tcp.proxy_start [of sfd cfd sw cw]
  by (auto simp: connection_new_def any_write_def) (simp_all add: proxy_conn_new_def)

definition tls_reliable :: "tls_answers \<Rightarrow> bool" where
  "tls_reliable a \<longleftrightarrow> never_zero (ta_server_writes a) \<and> never_zero (ta_client_writes a)"

lemma secured_connection:
  assumes "connection_new addr d s" "tls_reliable a" "secured a (s\<lparr>system_clock := c, logger := l\<rparr>) = Inr t"
  shows "proxy_flow never_zero t" "recorded addr (disk_files d) t"
  using secured_start [OF assms(3)] assms(1,2) by (auto simp: connection_new_def tls_reliable_def)

lemma proxy_thread_Inr:
  assumes "proxy_thread loop tls_loop connects a ks s = Inr outcome" "connection_new addr d s" "tls_reliable a"
  shows "(\<exists>t r. loop ks t = Inr r \<and> outcome = Inl r \<and> proxy_flow any_write t \<and> recorded addr (disk_files d) t) \<or>
    (\<exists>t r. tls_loop ks t = Inr r \<and> outcome = Inr r \<and> proxy_flow never_zero t \<and> recorded addr (disk_files d) t)"
proof -
  obtain c l where "(let s4 = s\<lparr>system_clock := c, logger := l\<rparr>
      in if \<not> connects then Inl (Unix_error ''connect'')
         else if port (server_addr s) \<noteq> 443 then bindR (loop ks s4) (\<lambda>r. Inr (Inl r))
         else bindR (secured a s4) (\<lambda>s5. bindR (tls_loop ks s5) (\<lambda>r. Inr (Inr r)))) = Inr outcome"
    using proxy_thread_timed [of loop tls_loop connects a ks s] assms(1) by auto
  then consider r where "loop ks (s\<lparr>system_clock := c, logger := l\<rparr>) = Inr r" "outcome = Inl r"
    | t r where "secured a (s\<lparr>system_clock := c, logger := l\<rparr>) = Inr t" "tls_loop ks t = Inr r" "outcome = Inr r"
    by (auto simp: res_simps Let_def split: if_splits)
  then show ?thesis
  proof cases
    case 1
    moreover have "proxy_flow any_write s" "recorded addr (disk_files d) s"
      using assms(2) by (simp_all add: connection_new_def)
    ultimately show ?thesis by (metis timers_frame)
  next
    case 2
    with secured_connection [OF assms(2,3) 2(1)] show ?thesis by blast
  qed
qed

lemma well_defined_secured [well_defined_intros]: "well_defined (secured a s)"
  by (auto simp: secured_def secure_socket_new_def secure_connect_def secure_accept_def ssl_check_def Let_def
      intro!: well_defined_intros)

lemma proxy_thread_well_defined:
  assumes "connection_new addr d s" "tls_reliable a"
    and "\<And>t. proxy_flow any_write t \<Longrightarrow> recorded addr (disk_files d) t \<Longrightarrow> well_defined (loop ks t)"
    and "\<And>t. proxy_flow never_zero t \<Longrightarrow> recorded addr (disk_files d) t \<Longrightarrow> well_defined (tls_loop ks t)"
  shows "well_defined (proxy_thread loop tls_loop connects a ks s)"
proof -
  obtain c l where eq: "proxy_thread loop tls_loop connects a ks s =
     (let s4 = s\<lparr>system_clock := c, logger := l\<rparr>
      in if \<not> connects then Inl (Unix_error ''connect'')
         else if port (server_addr s) \<noteq> 443 then bindR (loop ks s4) (\<lambda>r. Inr (Inl r))
         else bindR (secured a s4) (\<lambda>s5. bindR (tls_loop ks s5) (\<lambda>r. Inr (Inr r))))"
    using proxy_thread_timed [of loop tls_loop connects a ks s] by blast
  have "well_defined (loop ks (s\<lparr>system_clock := c, logger := l\<rparr>))"
    using assms(1) by (intro assms(3)) (simp_all add: connection_new_def)
  moreover have "well_defined (tls_loop ks t)" if "secured a (s\<lparr>system_clock := c, logger := l\<rparr>) = Inr t" for t
    by (rule assms(4) [OF secured_connection [OF assms(1,2) that]])
  ultimately show ?thesis
    unfolding eq by (auto simp: Let_def intro!: well_defined_intros)
qed

end
