(* ===== verification/Proxy_Exchange.thy ===== *)
theory Proxy_Exchange
  imports Http_Proxy
begin

text \<open>
  A run of the HTTP proxy's connection on concrete bytes: the client sends a request, the proxy
  passes it on, the server answers, and the proxy passes the answer back.  The properties of
  the proxy are seen to apply to it.
\<close>

section \<open>The connection and its texts\<close>

definition fresh_fd :: "int \<Rightarrow> file_descriptor" where
  "fresh_fd n = \<lparr>fd_num = n, eof = False, read_count = 0, write_count = 0, sent = []\<rparr>"

definition a_store :: disk_store where
  "a_store = \<lparr>record_folder = ''/r/'', next_mkstemp = \<lambda>n template. (template, 9),
     next_serialized = \<lambda>_. True, disk_files = []\<rparr>"

definition request_text :: string where
  "request_text = ''GET / HTTP/1.1'' @ crlf @ ''Host: a.org'' @ crlf @ crlf"

definition response_text :: string where "response_text = ''HTTP/1.1 304 -'' @ crlf @ crlf"

definition get_root :: http_message where
  "get_root = \<lparr>expected_size = (True, 0), first_line = ''GET / HTTP/1.1'',
     headers = [\<lparr>key = ''Host'', val = ''a.org''\<rparr>], body = [], state = COMPLETE\<rparr>"

definition not_modified :: http_response where
  "not_modified = \<lparr>expected_size = (True, 0), first_line = ''HTTP/1.1 304 -'', headers = [], body = [],
     state = COMPLETE, request = get_root, body_parser = None\<rparr>"

definition one_read :: "string \<Rightarrow> reads" where
  "one_read s = (\<lambda>n. Some (if n = 0 then s else []))"

definition ready_only :: "nat \<Rightarrow> kernel" where
  "ready_only j = (\<lambda>ps t. (1, \<lambda>i. if i = j then events (ps ! i) else 0))"

definition one_exchange :: "kernel list" where
  "one_exchange = [ready_only 1, ready_only 2, ready_only 0, ready_only 3]"

definition an_address :: "u16 \<Rightarrow> address" where "an_address p = \<lparr>s_addr = 16909060, port = p\<rparr>"

definition a_connection :: "u16 \<Rightarrow> (reads, writes) proxy_conn" where
  "a_connection p = proxy_conn_new (fresh_fd 4) (fresh_fd 5) (one_read response_text) (one_read request_text)
     (\<lambda>_. 31) (\<lambda>_. 18) time_logger_new (\<lambda>_. 0) (an_address p) a_store"

text \<open>The same texts over TLS: each read returns one record, each write takes the whole message.\<close>

definition one_record :: "string \<Rightarrow> ssl_reads" where
  "one_record s = (\<lambda>n. \<lparr>bytes_read = if n = 0 then int (length s) else 0, ssl_buffer = s, ssl_pending = 0,
     error_return = SSL_ERROR_ZERO_RETURN, error_queue = 0\<rparr>)"

definition a_handshake :: tls_answers where
  "a_handshake = \<lparr>ta_server = (True, 1), ta_connect = 1, ta_client = (True, 1), ta_accept = 1,
     ta_server_reads = one_record response_text, ta_client_reads = one_record request_text,
     ta_server_writes = \<lambda>_. 31, ta_client_writes = \<lambda>_. 18\<rparr>"

section \<open>The values of the parsers on the two texts\<close>

lemmas parse_eval = parse_def parse_loop.simps parsing_step_def have_complete_line_def crlf_def
  get_and_pop_line_def substr_def pop_bytes_def set_first_line_def done_with_headers_def
  read_in_body_def set_expected_body_size_def Let_def body_size_is_known_def expected_body_size_def
  less_http_state_def less_eq_http_state_def

lemma host_header: "header_new ''Host: a.org'' = Inr \<lparr>key = ''Host'', val = ''a.org''\<rparr>"
  by code_simp

lemma request_text_parsed: "request_parse request_text request_parser_new = Some (Inr (put_front [get_root] request_parser_new))"
  by (simp add: request_parse_def request_text_def request_parser_new_def request_new_def request_ops_def
      request_calculate_size_def get_root_def put_front_def parse_eval add_header_def host_header)

lemma spaces_304: "token_indices ''HTTP/1.1 304 -'' '' '' 0 = [8, 12]"
  by (simp add: token_indices.simps str_find_from_def)

lemma status_304: "split ''HTTP/1.1 304 -'' '' '' = Inr [''HTTP/1.1'', ''304'', ''-'']"
  by (simp add: split_def spaces_304 substr_def size_sub_def substr_from_def Let_def)

lemma response_text_parsed: "response_parse response_text (new_request_arrived get_root response_parser_new) =
    Some (Inr (put_front [not_modified] response_parser_new))"
  by (simp add: response_parse_def response_text_def response_parser_new_def response_new_def response_ops_def
      response_calculate_size_def get_root_def put_front_def parse_eval new_request_arrived_def
      initialize_new_response_def set_request_def not_modified_def no_body_def is_head_def
      status_code_def status_304 string_at_def)

lemma request_text_str: "message_str get_root = Inr request_text"
  by (simp add: message_str_def get_root_def request_text_def header_str_def)

lemma response_text_str: "message_str not_modified = Inr response_text"
  by (simp add: message_str_def not_modified_def response_text_def)

lemma request_text_parts: "request_parts request_text = Inr (''GET'', ''/'')"
  by (simp add: request_parts_def request_text_def crlf_def str_find_from_def int_pos_def size_of_int_def substr_def)

lemma text_sizes: "length request_text = 31" "length response_text = 18" "request_text \<noteq> []" "response_text \<noteq> []"
  by (simp_all add: request_text_def response_text_def crlf_def)

lemma parsers_empty: "complete_messages request_parser_new = []" "complete_messages response_parser_new = []"
  by (simp_all add: request_parser_new_def response_parser_new_def)

lemma put_front_pop:
  "put_front [m] s\<lparr>complete_messages := ms\<rparr> = s\<lparr>complete_messages := ms\<rparr>"
  by (simp add: put_front_def)

lemma restored:
  "request_parser_new\<lparr>complete_messages := []\<rparr> = request_parser_new"
  "response_parser_new\<lparr>complete_messages := []\<rparr> = response_parser_new"
  by (simp_all add: request_parser_new_def response_parser_new_def)

lemma request_of_response: "request not_modified = get_root" by (simp add: not_modified_def)

section \<open>Four rounds of the poller\<close>

definition proxy_pollfds :: "int \<Rightarrow> int \<Rightarrow> ('r, 'w) proxy_conn poller \<Rightarrow> bool" where
  "proxy_pollfds a b p \<longleftrightarrow> map pfd (pollfds p) = [a, b, a, b]"

lemma ready_mask: "wanted a s \<noteq> 0 \<Longrightarrow> and (wanted a s) error_mask = 0"
  by (auto simp: wanted_def direction_mask_def error_mask_def split: direction.splits if_splits)

lemma proxy_round:
  assumes "fd_num (server_fd s) = a" "fd_num (client_fd s) = b" "proxy_pollfds a b p"
    "actions p = proxy_actions_with ops out" "j < 4" "wanted (proxy_actions_with ops out ! j) s \<noteq> 0"
    "callback (proxy_actions_with ops out ! j) s = Inr ((Continue, 0), s')"
    "service_count (proxy_actions_with ops out ! j) s \<noteq> service_count (proxy_actions_with ops out ! j) s'"
  shows "\<exists>p'. poll (ready_only j) t p s = Inr ((Poll_success, 0), p', s') \<and>
    actions p' = proxy_actions_with ops out \<and> proxy_pollfds a b p'"
proof -
  obtain a0 a1 a2 a3 where acts: "proxy_actions_with ops out = [a0, a1, a2, a3]"
    and fds: "action_fd a0 = server_fd" "action_fd a1 = client_fd" "action_fd a2 = server_fd" "action_fd a3 = client_fd"
    by (simp add: proxy_actions_with_def action_new_def)
  obtain p0 p1 p2 p3 where pf: "pollfds p = [p0, p1, p2, p3]" and
    pa: "pfd p0 = a" "pfd p1 = b" "pfd p2 = a" "pfd p3 = b"
    using assms(3) by (auto simp: proxy_pollfds_def map_eq_Cons_conv)
  have "j = 0 \<or> j = 1 \<or> j = 2 \<or> j = 3" using assms(5) by auto
  with assms(6-8) show ?thesis
    by (auto simp: poll_def assms(1,2,4) acts pf pa fds ready_only_def ready_mask Let_def proxy_pollfds_def)
qed

lemma one_read_step: "one_read s 0 = Some s" "(\<lambda>n. one_read s (Suc n)) = (\<lambda>n. Some [])"
  by (simp_all add: one_read_def)

lemma write_texts:
  "fd_write (\<lambda>_. 31) f request_text = Inr (f\<lparr>write_count := write_count f + 1, sent := sent f @ [request_text]\<rparr>, \<lambda>_. 31)"
  "fd_write (\<lambda>_. 18) f response_text = Inr (f\<lparr>write_count := write_count f + 1, sent := sent f @ [response_text]\<rparr>, \<lambda>_. 18)"
  by (simp_all add: fd_write_whole text_sizes)

text \<open>Over any sockets that read the two texts, one on each side, and write whole messages.\<close>

lemma exchange_over:
  assumes out: "out = client_output ops \<or> out = client_output_saving ops"
    and loop: "\<And>ks s. loop ks s = poll_loop ks (- 1) (fold (\<lambda>a. add_action a s) (proxy_actions_with ops out) poller_new) s"
    and reads: "\<And>f. socket_read ops sr f = Inr (response_text, register_read f, sr')"
      "\<And>f. socket_read ops cr f = Inr (request_text, register_read f, cr')"
    and writes: "\<And>f. socket_write ops sw f request_text = Inr (register_write (f\<lparr>sent := sent f @ [request_text]\<rparr>), sw)"
      "\<And>f. socket_write ops cw f response_text = Inr (register_write (f\<lparr>sent := sent f @ [response_text]\<rparr>), cw)"
  shows "\<exists>p s. loop one_exchange (proxy_conn_new (fresh_fd 4) (fresh_fd 5) sr cr sw cw lg0 (\<lambda>_. 0) addr a_store) =
      Inr (None, p, s) \<and> answered s = [not_modified] \<and>
      (out = client_output_saving ops \<longrightarrow> disk_save not_modified addr a_store = Inr (backing_store s))"
proof -
  note records = proxy_conn_new_def fresh_fd_def register_read_def register_write_def
  note evaluate = reads writes parsed_def Let_def
    request_text_parsed response_text_parsed seq_front_def seq_pop_def parsers_empty put_front_pop tick_def
    request_text_str response_text_str request_of_response restored
  note interest = wanted_def proxy_actions_with_def action_new_def direction_mask_def service_count_def seq_empty_def
  define s0 where "s0 = proxy_conn_new (fresh_fd 4) (fresh_fd 5) sr cr sw cw lg0 (\<lambda>_. 0 :: int) addr a_store"
  define s1 where "s1 = s0\<lparr>client_fd := (client_fd s0)\<lparr>read_count := 1\<rparr>, client_reads := cr',
    request_parser := put_front [get_root] request_parser_new, client_pieces := [request_text]\<rparr>"
  have 1: "client_input ops s0 = Inr ((Continue, 0), s1)"
    by (simp add: client_input_def s0_def s1_def records evaluate)
  obtain lg1 where lg1: "start_obj_load_timer 0 request_text lg0 = Inr lg1"
    by (simp add: start_obj_load_timer_def request_text_parts)
  define s2 where "s2 = s1\<lparr>logger := lg1, server_fd := (server_fd s1)\<lparr>write_count := 1, sent := [request_text]\<rparr>,
    response_parser_state := new_request_arrived get_root response_parser_new,
    request_parser := request_parser_new, asked := [get_root]\<rparr>"
  have 2: "server_output ops s1 = Inr ((Continue, 0), s2)"
    by (simp add: server_output_def s0_def s1_def s2_def records evaluate lg1 restored [unfolded put_front_def])
  define s3 where "s3 = s2\<lparr>server_fd := (server_fd s2)\<lparr>read_count := 1\<rparr>, server_reads := sr',
    response_parser_state := put_front [not_modified] response_parser_new\<rparr>"
  have 3: "server_input ops s2 = Inr ((Continue, 0), s3)"
    by (simp add: server_input_def s0_def s1_def s2_def s3_def records evaluate)
  obtain lg2 where lg2: "stop_obj_load_timer 0 request_text lg1 = Inr lg2"
    by (simp add: stop_obj_load_timer_def request_text_parts Let_def)
  obtain store where store: "disk_save not_modified addr a_store = Inr store"
    by (simp add: disk_save_def a_store_def unique_file_new_def fd_new_def to_mutable_def unique_file_name_def request_of_response
       message_to_protobuf_def get_root_def not_modified_def Let_def)
  let ?s4 = "\<lambda>d. s3\<lparr>logger := lg2, client_fd := (client_fd s3)\<lparr>write_count := 1, sent := [response_text]\<rparr>,
    backing_store := d, response_parser_state := response_parser_new, answered := [not_modified]\<rparr>"
  have "client_output ops s3 = Inr ((Continue, 0), ?s4 (backing_store s3))"
    by (simp add: client_output_def s0_def s1_def s2_def s3_def records evaluate lg2)
  moreover have "client_output_saving ops s3 = Inr ((Continue, 0), ?s4 store)"
    by (simp add: client_output_saving_def s0_def s1_def s2_def s3_def records evaluate lg2 store)
  ultimately obtain d s4 where 4: "out s3 = Inr ((Continue, 0), s4)" and s4_def: "s4 = ?s4 d"
    and d: "out = client_output_saving ops \<longrightarrow> d = store"
    using out by (metis (no_types))
  note states = s0_def s1_def s2_def s3_def s4_def records
  have fds: "fd_num (server_fd s) = 4 \<and> fd_num (client_fd s) = 5" if "s \<in> {s0, s1, s2, s3}" for s
    using that by (auto simp: states)
  define acts where "acts = proxy_actions_with ops out"
  have round: "\<exists>p'. poll (ready_only j) (- 1) p s = Inr ((Poll_success, 0), p', s') \<and> actions p' = acts \<and> proxy_pollfds 4 5 p'"
    if "proxy_pollfds 4 5 p" "actions p = acts" "s \<in> {s0, s1, s2, s3}" "j < 4" "wanted (acts ! j) s \<noteq> 0"
      "callback (acts ! j) s = Inr ((Continue, 0), s')" "service_count (acts ! j) s \<noteq> service_count (acts ! j) s'"
    for p s s' j
    using proxy_round [of s 4 5 p ops out j s' "- 1"] fds [OF that(3)] that by (simp add: acts_def)
  have cb: "callback (acts ! 0) = server_input ops" "callback (acts ! 1) = client_input ops"
      "callback (acts ! 2) = server_output ops" "callback (acts ! 3) = out"
    by (simp_all add: acts_def)
  have w: "wanted (acts ! 1) s0 \<noteq> 0" "wanted (acts ! 2) s1 \<noteq> 0" "wanted (acts ! 0) s2 \<noteq> 0" "wanted (acts ! 3) s3 \<noteq> 0"
    by (simp_all add: acts_def interest states)
  have n: "service_count (acts ! 1) s0 \<noteq> service_count (acts ! 1) s1" "service_count (acts ! 2) s1 \<noteq> service_count (acts ! 2) s2"
      "service_count (acts ! 0) s2 \<noteq> service_count (acts ! 0) s3" "service_count (acts ! 3) s3 \<noteq> service_count (acts ! 3) s4"
    by (simp_all add: acts_def interest states)
  define p0 where "p0 = fold (\<lambda>a. add_action a s0) acts poller_new"
  have p0: "proxy_pollfds 4 5 p0" "actions p0 = acts"
    by (simp_all add: p0_def acts_def proxy_actions_with_def add_action_def poller_new_def proxy_pollfds_def action_new_def states)
  obtain p1 where p1: "poll (ready_only 1) (- 1) p0 s0 = Inr ((Poll_success, 0), p1, s1)" "actions p1 = acts" "proxy_pollfds 4 5 p1"
    using round [of p0 s0 1 s1] p0 w n 1 cb by auto
  obtain p2 where p2: "poll (ready_only 2) (- 1) p1 s1 = Inr ((Poll_success, 0), p2, s2)" "actions p2 = acts" "proxy_pollfds 4 5 p2"
    using round [of p1 s1 2 s2] p1 w n 2 cb by auto
  obtain p3 where p3: "poll (ready_only 0) (- 1) p2 s2 = Inr ((Poll_success, 0), p3, s3)" "actions p3 = acts" "proxy_pollfds 4 5 p3"
    using round [of p2 s2 0 s3] p2 w n 3 cb by auto
  obtain p4 where p4: "poll (ready_only 3) (- 1) p3 s3 = Inr ((Poll_success, 0), p4, s4)" "actions p4 = acts"
    using round [of p3 s3 3 s4] p3 w n 4 cb by auto
  have "loop one_exchange s0 = Inr (None, p4, s4)"
    using p1(1) p2(1) p3(1) p4(1)
    by (simp add: loop one_exchange_def p0_def [symmetric] acts_def [symmetric])
  with d store show ?thesis unfolding s0_def [symmetric] by (auto simp: s4_def)
qed

section \<open>The two threads\<close>

lemma one_record_step:
  "secure_read (one_record response_text) f = Inr (response_text, register_read f, \<lambda>n. one_record response_text (Suc n))"
  "secure_read (one_record request_text) f = Inr (request_text, register_read f, \<lambda>n. one_record request_text (Suc n))"
  by (simp_all add: secure_read_def one_record_def text_sizes)

lemma tcp_exchange:
  assumes "out = client_output tcp_ops \<or> out = client_output_saving tcp_ops"
    and "\<And>ks s. loop ks s = poll_loop ks (- 1) (fold (\<lambda>a. add_action a s) (proxy_actions_with tcp_ops out) poller_new) s"
  shows "\<exists>p s. proxy_thread loop tls_loop True a one_exchange (a_connection 80) = Inr (Inl (None, p, s)) \<and>
    answered s = [not_modified] \<and>
    (out = client_output_saving tcp_ops \<longrightarrow> disk_save not_modified (an_address 80) a_store = Inr (backing_store s))"
proof -
  obtain lg0 where "proxy_thread loop tls_loop True a one_exchange (a_connection 80) =
      bindR (loop one_exchange (proxy_conn_new (fresh_fd 4) (fresh_fd 5) (one_read response_text) (one_read request_text)
        (\<lambda>_. 31) (\<lambda>_. 18) lg0 (\<lambda>_. 0) (an_address 80) a_store)) (\<lambda>r. Inr (Inl r))"
    by (simp add: proxy_thread_def tick_def proxy_conn_new_def a_connection_def an_address_def Let_def)
  with exchange_over [OF assms, of "one_read response_text" "\<lambda>_. Some []" "one_read request_text" "\<lambda>_. Some []"
      "\<lambda>_. 31" "\<lambda>_. 18" lg0 "an_address 80"]
  show ?thesis
    by (auto simp: tcp_ops_def fd_read_def buffer_size_def one_read_step text_sizes write_texts register_read_def
        register_write_def)
qed

lemma tls_exchange:
  assumes "out = client_output tls_ops \<or> out = client_output_saving tls_ops"
    and "\<And>ks s. tls_loop ks s = poll_loop ks (- 1) (fold (\<lambda>a. add_action a s) (proxy_actions_with tls_ops out) poller_new) s"
  shows "\<exists>p s. proxy_thread loop tls_loop True a_handshake one_exchange (a_connection 443) = Inr (Inr (None, p, s)) \<and>
    answered s = [not_modified] \<and>
    (out = client_output_saving tls_ops \<longrightarrow> disk_save not_modified (an_address 443) a_store = Inr (backing_store s))"
proof -
  obtain lg0 where "proxy_thread loop tls_loop True a_handshake one_exchange (a_connection 443) =
      bindR (tls_loop one_exchange (proxy_conn_new (fresh_fd 4) (fresh_fd 5) (one_record response_text)
        (one_record request_text) (\<lambda>_. 31) (\<lambda>_. 18) lg0 (\<lambda>_. 0) (an_address 443) a_store)) (\<lambda>r. Inr (Inr r))"
    by (simp add: proxy_thread_def tick_def proxy_conn_new_def a_connection_def an_address_def a_handshake_def
        secured_def secure_socket_new_def secure_connect_def secure_accept_def ssl_check_def fd_move_def Let_def)
  with exchange_over [OF assms, of "one_record response_text" "\<lambda>n. one_record response_text (Suc n)"
      "one_record request_text" "\<lambda>n. one_record request_text (Suc n)" "\<lambda>_. 31" "\<lambda>_. 18" lg0 "an_address 443"]
  show ?thesis by (auto simp: tls_ops_def one_record_step secure_write_def)
qed

end
