(* ===== verification/Bytestream_Queue.thy ===== *)
theory Bytestream_Queue
  imports File_Descriptor
begin

text \<open>
  \<open>src/util/bytestream_queue.cc\<close>: the ring buffer that the HTTP proxy puts between two
  sockets.  The positions are \<open>size_t\<close>, so the differences of \<open>available_to_pop\<close> and
  \<open>available_to_push\<close> wrap and are corrected by the size of the buffer.  \<open>bs_data\<close> is the
  sequence of bytes that the ring holds; the operations refine a FIFO of bytes.
\<close>

section \<open>The ring\<close>

record bytestream_queue =
  ring :: string
  next_byte_to_push :: u64
  next_byte_to_pop :: u64

definition ring_size :: "bytestream_queue \<Rightarrow> u64" where
  "ring_size q = of_nat (length (ring q))"

definition bytestream_new :: "nat \<Rightarrow> bytestream_queue res" where
  "bytestream_new n =
     assertR (1 < n)
       (Inr \<lparr>ring = replicate n (CHR 0x00), next_byte_to_push = 0, next_byte_to_pop = 0\<rparr>)"

definition available_to_pop :: "bytestream_queue \<Rightarrow> u64" where
  "available_to_pop q =
     next_byte_to_push q - next_byte_to_pop q +
       (if next_byte_to_push q < next_byte_to_pop q then ring_size q else 0)"

definition available_to_push :: "bytestream_queue \<Rightarrow> u64" where
  "available_to_push q =
     next_byte_to_pop q - next_byte_to_push q - 1 +
       (if next_byte_to_push q < next_byte_to_pop q then 0 else ring_size q)"

definition space_available :: "bytestream_queue \<Rightarrow> bool" where
  "space_available q \<longleftrightarrow> 0 < available_to_push q"

definition non_empty :: "bytestream_queue \<Rightarrow> bool" where
  "non_empty q \<longleftrightarrow> 0 < available_to_pop q"

text \<open>\<open>memcpy\<close> into the buffer, and the wrap of a position at its end.\<close>

definition overwrite :: "nat \<Rightarrow> string \<Rightarrow> string \<Rightarrow> string" where
  "overwrite pos chunk xs = take pos xs @ chunk @ drop (pos + length chunk) xs"

definition wrap_position :: "bytestream_queue \<Rightarrow> u64 \<Rightarrow> u64" where
  "wrap_position q pos = (if pos = ring_size q then 0 else pos)"

text \<open>The part of \<open>n\<close> bytes from a position on that does not go round the end.\<close>

definition contiguous :: "bytestream_queue \<Rightarrow> u64 \<Rightarrow> u64 \<Rightarrow> u64" where
  "contiguous q pos n = (if ring_size q \<le> pos + n then ring_size q - pos else n)"

datatype push_result = Success | EndOfFile

definition bytestream_push ::
  "reads \<Rightarrow> file_descriptor \<Rightarrow> bytestream_queue \<Rightarrow>
   (push_result \<times> bytestream_queue \<times> file_descriptor \<times> reads) res" where
  "bytestream_push r f q =
     assertR (space_available q) (
     let space = contiguous q (next_byte_to_push q) (available_to_push q)
     in assertR (0 < space) (
        bindR (fd_read r f (unat space)) (\<lambda>(new_chunk, f', r').
          if new_chunk = [] then Inr (EndOfFile, q, f', r')
          else
            assertR (length new_chunk \<le> unat (ring_size q - next_byte_to_push q)) (
            if length (ring q) \<le> unat (next_byte_to_push q) then Inl Out_of_range
            else let q1 = q\<lparr>ring := overwrite (unat (next_byte_to_push q)) new_chunk (ring q),
                            next_byte_to_push := next_byte_to_push q + of_nat (length new_chunk)\<rparr>
                 in assertR (next_byte_to_push q1 \<le> ring_size q1) (
                    let q2 = q1\<lparr>next_byte_to_push := wrap_position q1 (next_byte_to_push q1)\<rparr>
                    in assertR (non_empty q2) (Inr (Success, q2, f', r')))))))"

definition bytestream_pop ::
  "writes \<Rightarrow> file_descriptor \<Rightarrow> bytestream_queue \<Rightarrow>
   (bytestream_queue \<times> file_descriptor \<times> writes) res" where
  "bytestream_pop w f q =
     assertR (non_empty q) (
     let n = contiguous q (next_byte_to_pop q) (available_to_pop q)
     in bindR (fd_write_some w f (take (unat n) (drop (unat (next_byte_to_pop q)) (ring q)))) (\<lambda>(k, f', w').
        let pos = next_byte_to_pop q + of_nat k
        in assertR (pos \<le> ring_size q) (Inr (q\<lparr>next_byte_to_pop := wrap_position q pos\<rparr>, f', w'))))"

definition bytestream_eof :: "push_result \<Rightarrow> bool" where
  "bytestream_eof r \<longleftrightarrow> r = EndOfFile"

section \<open>The bytes held\<close>

definition bs_ok :: "bytestream_queue \<Rightarrow> bool" where
  "bs_ok q \<longleftrightarrow> 1 < length (ring q) \<and> length (ring q) < 2 ^ 63 \<and>
     unat (next_byte_to_push q) < length (ring q) \<and> unat (next_byte_to_pop q) < length (ring q)"

definition bs_data :: "bytestream_queue \<Rightarrow> string" where
  "bs_data q =
     (let i = unat (next_byte_to_pop q); j = unat (next_byte_to_push q)
      in if i \<le> j then take (j - i) (drop i (ring q)) else drop i (ring q) @ take j (ring q))"

lemma ring_size_unat: "bs_ok q \<Longrightarrow> unat (ring_size q) = length (ring q)"
  by (simp add: bs_ok_def ring_size_def unat_of_nat_less)

lemma bs_data_length:
  assumes "bs_ok q"
  shows "length (bs_data q) =
    (if unat (next_byte_to_pop q) \<le> unat (next_byte_to_push q)
     then unat (next_byte_to_push q) - unat (next_byte_to_pop q)
     else length (ring q) - unat (next_byte_to_pop q) + unat (next_byte_to_push q))"
  using assms by (auto simp: bs_data_def bs_ok_def Let_def)

text \<open>The wrapped differences are the numbers of bytes held and of bytes free.\<close>

lemma available_to_pop_eq:
  assumes "bs_ok q"
  shows "unat (available_to_pop q) = length (bs_data q)"
proof (cases "next_byte_to_push q < next_byte_to_pop q")
  case False
  then have "next_byte_to_pop q \<le> next_byte_to_push q" by simp
  with False show ?thesis
    by (simp add: available_to_pop_def bs_data_length [OF assms] unat_sub word_le_nat_alt)
next
  case True
  let ?i = "next_byte_to_pop q" and ?j = "next_byte_to_push q"
  have lt: "unat ?j < unat ?i" "unat ?i < length (ring q)"
    using True assms by (simp_all add: word_less_nat_alt bs_ok_def)
  have le: "?i \<le> ring_size q" using lt ring_size_unat [OF assms] by (simp add: word_le_nat_alt)
  have "?j - ?i + ring_size q = ?j + (ring_size q - ?i)" by simp
  moreover have "unat (ring_size q - ?i) = length (ring q) - unat ?i"
    using unat_sub [OF le] ring_size_unat [OF assms] by simp
  moreover have "unat ?j + (length (ring q) - unat ?i) < 2 ^ 64"
    using lt assms by (simp add: bs_ok_def)
  ultimately have "unat (?j - ?i + ring_size q) = unat ?j + (length (ring q) - unat ?i)"
    by (simp only: unat_word_ariths) simp
  with True lt show ?thesis
    by (simp add: available_to_pop_def bs_data_length [OF assms])
qed

lemma available_to_push_eq:
  assumes "bs_ok q"
  shows "unat (available_to_push q) = length (ring q) - 1 - length (bs_data q)"
proof (cases "next_byte_to_push q < next_byte_to_pop q")
  case True
  let ?i = "next_byte_to_pop q" and ?j = "next_byte_to_push q"
  have lt: "unat ?j < unat ?i" "unat ?i < length (ring q)"
    using True assms by (simp_all add: word_less_nat_alt bs_ok_def)
  have d: "unat (?i - ?j) = unat ?i - unat ?j" using True by (intro unat_sub) simp
  then have "1 \<le> ?i - ?j" using lt by (simp add: word_le_nat_alt)
  then have "unat (?i - ?j - 1) = unat (?i - ?j) - 1" by (simp add: unat_sub)
  with True lt d show ?thesis
    by (simp add: available_to_push_def bs_data_length [OF assms])
next
  case False
  let ?i = "next_byte_to_pop q" and ?j = "next_byte_to_push q"
  have le: "unat ?i \<le> unat ?j" "unat ?j < length (ring q)"
    using False assms by (simp_all add: word_less_nat_alt bs_ok_def not_less)
  have j: "?j < ring_size q" using le(2) ring_size_unat [OF assms] by (simp add: word_less_nat_alt)
  have d: "unat (ring_size q - ?j) = length (ring q) - unat ?j"
    using unat_sub [of ?j "ring_size q"] j ring_size_unat [OF assms] by simp
  then have "1 \<le> ring_size q - ?j" using le(2) by (simp add: word_le_nat_alt)
  then have d1: "unat (ring_size q - ?j - 1) = length (ring q) - unat ?j - 1"
    using d by (simp add: unat_sub)
  have "?i - ?j - 1 + ring_size q = ?i + (ring_size q - ?j - 1)" by simp
  moreover have "unat ?i + (length (ring q) - unat ?j - 1) < 2 ^ 64"
    using le assms by (auto simp: bs_ok_def)
  ultimately have "unat (?i - ?j - 1 + ring_size q) = unat ?i + (length (ring q) - unat ?j - 1)"
    using d1 by (simp only: unat_word_ariths) simp
  with False le show ?thesis
    by (simp add: available_to_push_def bs_data_length [OF assms])
qed

lemma guards:
  assumes "bs_ok q"
  shows "space_available q \<longleftrightarrow> length (bs_data q) < length (ring q) - 1"
    "non_empty q \<longleftrightarrow> bs_data q \<noteq> []"
  using available_to_push_eq [OF assms] available_to_pop_eq [OF assms]
  by (auto simp: space_available_def non_empty_def word_less_nat_alt)

lemma contiguous_eq:
  assumes "bs_ok q" "unat pos < length (ring q)" "unat n < length (ring q)"
  shows "unat (contiguous q pos n) = min (unat n) (length (ring q) - unat pos)"
proof -
  have "unat pos + unat n < 2 ^ 64" using assms by (simp add: bs_ok_def)
  then have s: "unat (pos + n) = unat pos + unat n" by (simp add: unat_word_ariths)
  have "pos \<le> ring_size q" using assms(2) ring_size_unat [OF assms(1)] by (simp add: word_le_nat_alt)
  then have d: "unat (ring_size q - pos) = length (ring q) - unat pos"
    using ring_size_unat [OF assms(1)] by (simp add: unat_sub)
  show ?thesis
    using s d ring_size_unat [OF assms(1)] assms(2)
    by (auto simp: contiguous_def word_le_nat_alt min_def)
qed

lemma wrap_unat:
  assumes "bs_ok q" "k \<le> length (ring q) - unat pos" "unat pos < length (ring q)"
  shows "pos + of_nat k \<le> ring_size q"
    "unat (wrap_position q (pos + of_nat k)) =
      (if unat pos + k = length (ring q) then 0 else unat pos + k)"
proof -
  have k: "k < 2 ^ 64" "unat pos + k < 2 ^ 64" using assms by (auto simp: bs_ok_def)
  then have s: "unat (pos + of_nat k) = unat pos + k"
    by (simp add: unat_word_ariths unat_of_nat_less)
  then show "pos + of_nat k \<le> ring_size q"
    using assms ring_size_unat [OF assms(1)] by (simp add: word_le_nat_alt)
  show "unat (wrap_position q (pos + of_nat k)) =
      (if unat pos + k = length (ring q) then 0 else unat pos + k)"
    using s ring_size_unat [OF assms(1)] by (auto simp: wrap_position_def word_unat_eq_iff)
qed

lemma bytestream_new_ok:
  assumes "bytestream_new n = Inr q" "n < 2 ^ 63"
  shows "bs_ok q \<and> bs_data q = [] \<and> length (ring q) = n"
  using assms by (auto simp: bytestream_new_def assertR_eq_Inr bs_ok_def bs_data_def)

section \<open>\<open>push\<close> appends, \<open>pop\<close> drops\<close>

lemma overwrite_simps:
  assumes "pos + length chunk \<le> length xs"
  shows "length (overwrite pos chunk xs) = length xs"
    "take (pos + length chunk) (overwrite pos chunk xs) = take pos xs @ chunk"
    "pos + length chunk \<le> i \<Longrightarrow> drop i (overwrite pos chunk xs) = drop i xs"
    "i \<le> pos \<Longrightarrow> take (pos + length chunk - i) (drop i (overwrite pos chunk xs)) =
       take (pos - i) (drop i xs) @ chunk"
  using assms by (auto simp: overwrite_def drop_take)

lemma bs_data_overwrite:
  assumes ok: "bs_ok q" and nonempty: "chunk \<noteq> []"
    and fits: "length chunk \<le> unat (contiguous q (next_byte_to_push q) (available_to_push q))"
    and pos: "unat pos = (if unat (next_byte_to_push q) + length chunk = length (ring q) then 0
                          else unat (next_byte_to_push q) + length chunk)"
  defines "q' \<equiv> q\<lparr>ring := overwrite (unat (next_byte_to_push q)) chunk (ring q),
                   next_byte_to_push := pos\<rparr>"
  shows "bs_ok q' \<and> bs_data q' = bs_data q @ chunk \<and> length (ring q') = length (ring q)"
proof -
  let ?i = "unat (next_byte_to_pop q)" and ?j = "unat (next_byte_to_push q)"
    and ?k = "length chunk" and ?n = "length (ring q)"
  have lt: "?i < ?n" "?j < ?n" using ok by (auto simp: bs_ok_def)
  have a: "unat (available_to_push q) = ?n - 1 - length (bs_data q)"
    by (rule available_to_push_eq [OF ok])
  have k: "0 < ?k" "?k \<le> ?n - 1 - length (bs_data q)" "?k \<le> ?n - ?j"
    using fits nonempty lt contiguous_eq [OF ok, of "next_byte_to_push q" "available_to_push q"] a
    by auto
  have o: "?j + ?k \<le> ?n" using k(3) lt by simp
  note ow = overwrite_simps [OF o]
  have len: "length (ring q') = ?n" by (simp add: q'_def ow(1))
  have ok': "bs_ok q'" using ok pos len o by (auto simp: bs_ok_def q'_def)
  have "bs_data q' = bs_data q @ chunk"
  proof (cases "?i \<le> ?j")
    case True
    then have d: "length (bs_data q) = ?j - ?i" by (simp add: bs_data_length [OF ok])
    show ?thesis
    proof (cases "?j + ?k = ?n")
      case False
      then show ?thesis using pos ow(4) [OF True] True by (simp add: bs_data_def q'_def Let_def)
    next
      case wrap: True
      then have "0 < ?i" using k d lt True by auto
      then have "bs_data q' = drop ?i (overwrite ?j chunk (ring q))"
        using pos wrap by (simp add: bs_data_def q'_def)
      also have "\<dots> = take (?j + ?k - ?i) (drop ?i (overwrite ?j chunk (ring q)))"
        using wrap ow(1) by simp
      finally show ?thesis using ow(4) [OF True] True by (simp add: bs_data_def Let_def)
    qed
  next
    case False
    then have "length (bs_data q) = ?n - ?i + ?j" by (simp add: bs_data_length [OF ok])
    then have b: "?j + ?k < ?i" using k lt False by linarith
    then have "bs_data q' = drop ?i (overwrite ?j chunk (ring q)) @ take (?j + ?k) (overwrite ?j chunk (ring q))"
      using pos lt by (simp add: bs_data_def q'_def)
    then show ?thesis using ow(2) ow(3) [of ?i] b False by (simp add: bs_data_def)
  qed
  with ok' len show ?thesis by simp
qed

text \<open>What \<open>read(2)\<close> hands over to \<open>push\<close>: at most the contiguous free space.\<close>

definition read_chunk :: "reads \<Rightarrow> bytestream_queue \<Rightarrow> string" where
  "read_chunk r q =
     take (min buffer_size (unat (contiguous q (next_byte_to_push q) (available_to_push q))))
       (case r 0 of None \<Rightarrow> [] | Some s \<Rightarrow> s)"

text \<open>
  With space in the ring and a readable descriptor, \<open>push\<close> does not fail: an empty read is
  the end of the stream and changes nothing, any other chunk is appended.
\<close>

lemma push_refines_append:
  assumes ok: "bs_ok q" and space: "length (bs_data q) < length (ring q) - 1"
    and chunk: "r 0 = Some s"
  obtains c q' f' where "c = read_chunk r q"
    "bytestream_push r f q = Inr (if c = [] then EndOfFile else Success, q', f', \<lambda>n. r (Suc n))"
    "prefix c s" "c = [] \<longleftrightarrow> s = []" "bs_ok q'" "length (ring q') = length (ring q)"
    "bs_data q' = bs_data q @ c" "sent f' = sent f" "eof f' \<longleftrightarrow> eof f \<or> s = []"
    "read_count f' = read_count f + 1" "write_count f' = write_count f" "fd_num f' = fd_num f"
proof -
  let ?j = "next_byte_to_push q" and ?n = "length (ring q)"
  define m where "m = unat (contiguous q ?j (available_to_push q))"
  define c where "c = take (min buffer_size m) s"
  define f' where "f' = f\<lparr>eof := eof f \<or> c = [], read_count := read_count f + 1\<rparr>"
  have cr: "c = read_chunk r q" by (simp add: c_def read_chunk_def chunk m_def)
  have j: "unat ?j < ?n" using ok by (simp add: bs_ok_def)
  have m: "m = min (?n - 1 - length (bs_data q)) (?n - unat ?j)"
    using contiguous_eq [OF ok j, of "available_to_push q"] available_to_push_eq [OF ok] space
    by (simp add: m_def)
  have c: "prefix c s" "length c \<le> m" "c = [] \<longleftrightarrow> s = []"
    using m space j by (auto simp: c_def take_is_prefix buffer_size_def min_def)
  have pos: "0 < contiguous q ?j (available_to_push q)"
    using m space j by (simp add: m_def [symmetric] word_less_nat_alt)
  have rd: "fd_read r f (unat (contiguous q ?j (available_to_push q))) =
      Inr (c, f', \<lambda>n. r (Suc n))"
    by (simp add: fd_read_def chunk c_def f'_def m_def)
  have f': "sent f' = sent f" "eof f' \<longleftrightarrow> eof f \<or> s = []"
    "read_count f' = read_count f + 1" "write_count f' = write_count f" "fd_num f' = fd_num f"
    using c(3) by (simp_all add: f'_def)
  have sp: "space_available q" using space guards [OF ok] by simp
  show ?thesis
  proof (cases "c = []")
    case True
    then have "bytestream_push r f q = Inr (EndOfFile, q, f', \<lambda>n. r (Suc n))"
      using sp pos rd by (simp add: bytestream_push_def Let_def)
    with True c cr f' ok show ?thesis by (intro that [of "[]" q f']) simp_all
  next
    case False
    have lc: "length c \<le> ?n - unat ?j" using c(2) m by simp
    note w = wrap_unat [OF ok lc j]
    define q2 where "q2 = q\<lparr>ring := overwrite (unat ?j) c (ring q),
        next_byte_to_push := wrap_position q (?j + of_nat (length c))\<rparr>"
    have d: "bs_ok q2 \<and> bs_data q2 = bs_data q @ c \<and> length (ring q2) = ?n"
      unfolding q2_def using c(2) by (intro bs_data_overwrite [OF ok False _ w(2)]) (simp add: m_def)
    have rs: "unat (ring_size q - ?j) = ?n - unat ?j"
      using ring_size_unat [OF ok] j unat_sub [of ?j "ring_size q"] by (simp add: word_le_nat_alt)
    have size: "ring_size (q\<lparr>ring := overwrite (unat ?j) c (ring q), next_byte_to_push := x\<rparr>) = ring_size q" for x
      using overwrite_simps(1) [of "unat ?j" c "ring q"] lc j by (simp add: ring_size_def)
    have "non_empty q2" using d False guards(2) [of q2] by simp
    then have "bytestream_push r f q = Inr (Success, q2, f', \<lambda>n. r (Suc n))"
      using sp pos rd False lc rs w(1) j
      by (cases "?j + of_nat (length c) = ring_size q")
        (simp_all add: bytestream_push_def Let_def size wrap_position_def q2_def)
    with False c cr f' d show ?thesis by (intro that [of c q2 f']) simp_all
  qed
qed

text \<open>
  With bytes in the ring and a kernel that takes some of those offered, \<open>pop\<close> does not
  fail: it removes the bytes that it has written.
\<close>

lemma pop_refines_drop:
  assumes ok: "bs_ok q" and data: "bs_data q \<noteq> []"
    and kernel: "1 \<le> w 0" "w 0 \<le> int (unat (contiguous q (next_byte_to_pop q) (available_to_pop q)))"
  obtains k q' f' where
    "bytestream_pop w f q = Inr (q', f', \<lambda>n. w (Suc n))"
    "0 < k" "k \<le> length (bs_data q)" "bs_ok q'" "length (ring q') = length (ring q)"
    "bs_data q' = drop k (bs_data q)" "concat (sent f') = concat (sent f) @ take k (bs_data q)"
    "eof f' = eof f" "write_count f' = write_count f + 1" "read_count f' = read_count f"
    "fd_num f' = fd_num f"
proof -
  let ?i = "next_byte_to_pop q" and ?n = "length (ring q)"
  define k where "k = nat (w 0)"
  define m where "m = unat (contiguous q ?i (available_to_pop q))"
  define buf where "buf = take m (drop (unat ?i) (ring q))"
  define f' where "f' = f\<lparr>write_count := write_count f + 1, sent := sent f @ [take k buf]\<rparr>"
  define q' where "q' = q\<lparr>next_byte_to_pop := wrap_position q (?i + of_nat k)\<rparr>"
  have lt: "unat ?i < ?n" "unat (next_byte_to_push q) < ?n" using ok by (auto simp: bs_ok_def)
  have len: "length (bs_data q) < ?n"
    using lt unfolding bs_data_length [OF ok] by (auto split: if_splits)
  have m: "m = min (length (bs_data q)) (?n - unat ?i)"
    using contiguous_eq [OF ok lt(1), of "available_to_pop q"] available_to_pop_eq [OF ok] len
    by (simp add: m_def)
  have k: "0 < k" "k \<le> m" using kernel by (auto simp: k_def m_def nat_le_iff)
  have buf: "buf \<noteq> []" using k m lt by (auto simp: buf_def)
  have wr: "fd_write_some w f buf = Inr (k, f', \<lambda>n. w (Suc n))"
    using buf kernel by (simp add: fd_write_some_def Let_def k_def f'_def)
  have lk: "k \<le> ?n - unat ?i" using k m by simp
  note wp = wrap_unat [OF ok lk lt(1)]
  have pop: "bytestream_pop w f q = Inr (q', f', \<lambda>n. w (Suc n))"
    using guards(2) [OF ok] data wr wp(1)
    by (simp add: bytestream_pop_def Let_def buf_def m_def q'_def)
  have ok': "bs_ok q'" using ok wp(2) lt lk by (auto simp: bs_ok_def q'_def)
  have data': "bs_data q' = drop k (bs_data q) \<and> take k buf = take k (bs_data q)"
  proof (cases "unat ?i \<le> unat (next_byte_to_push q)")
    case True
    then have d: "bs_data q = take (unat (next_byte_to_push q) - unat ?i) (drop (unat ?i) (ring q))"
      by (simp add: bs_data_def Let_def)
    have i: "unat ?i + k \<le> unat (next_byte_to_push q)"
      using True k m lt unfolding bs_data_length [OF ok] by auto
    then have "bs_data q' = take (unat (next_byte_to_push q) - (unat ?i + k)) (drop (unat ?i + k) (ring q))"
      using wp(2) lt by (simp add: bs_data_def q'_def Let_def)
    moreover have "take k buf = take k (drop (unat ?i) (ring q))"
      using k by (simp add: buf_def min_absorb1)
    moreover have "k \<le> unat (next_byte_to_push q) - unat ?i" using i by simp
    ultimately show ?thesis using d by (simp add: drop_take min_absorb1 add.commute)
  next
    case False
    then have d: "bs_data q = drop (unat ?i) (ring q) @ take (unat (next_byte_to_push q)) (ring q)"
      by (simp add: bs_data_def)
    have "bs_data q' = drop (unat ?i + k) (ring q) @ take (unat (next_byte_to_push q)) (ring q)"
    proof (cases "unat ?i + k = ?n")
      case True
      with wp(2) show ?thesis by (simp add: bs_data_def q'_def)
    next
      case wrap: False
      then have "\<not> unat ?i + k \<le> unat (next_byte_to_push q)" using False by simp
      with wrap wp(2) show ?thesis by (simp add: bs_data_def q'_def)
    qed
    moreover have "take k buf = take k (drop (unat ?i) (ring q))"
      using k by (simp add: buf_def min_absorb1)
    ultimately show ?thesis using d lk by (simp add: add.commute)
  qed
  show ?thesis
    by (rule that [OF pop k(1) _ ok' _ conjunct1 [OF data']])
      (use k m data' in \<open>simp_all add: q'_def f'_def\<close>)
qed

end
