(* ===== verification/Dns_Proxy.thy ===== *)
theory Dns_Proxy
  imports Poller Bytestream_Queue
begin

text \<open>
  \<open>DNSProxy::handle_tcp\<close> of \<open>src/util/dns_proxy.cc\<close>: two sockets, two ring buffers and the
  four actions that relay the bytes between them.  \<open>kernel_side\<close> is what the kernel does on
  a socket: what its \<open>read(2)\<close> calls return, what they have handed over so far, and how much
  room each \<open>write(2)\<close> finds (a call accepts the bytes offered, at most that many).
\<close>

record kernel_side =
  incoming :: reads
  delivered :: string
  room :: "nat \<Rightarrow> int"

record dns_conn =
  dns_server :: file_descriptor
  client :: file_descriptor
  from_client :: bytestream_queue
  from_server :: bytestream_queue
  server_side :: kernel_side
  client_side :: kernel_side

definition after_read :: "reads \<Rightarrow> string \<Rightarrow> kernel_side \<Rightarrow> kernel_side" where
  "after_read r c k = k\<lparr>incoming := r, delivered := delivered k @ c\<rparr>"

definition after_write :: "kernel_side \<Rightarrow> kernel_side" where
  "after_write k = k\<lparr>room := \<lambda>n. room k (Suc n)\<rparr>"

definition accepts :: "kernel_side \<Rightarrow> bytestream_queue \<Rightarrow> writes" where
  "accepts k q =
     (\<lambda>n. min (room k n) (int (unat (contiguous q (next_byte_to_pop q) (available_to_pop q)))))"

section \<open>The four callbacks\<close>

definition push_result_type :: "push_result \<Rightarrow> action_result" where
  "push_result_type r = (if bytestream_eof r then Cancel else Continue, 0)"

definition push_from_server :: "dns_conn \<Rightarrow> (action_result \<times> dns_conn) res" where
  "push_from_server s =
     bindR (bytestream_push (incoming (server_side s)) (dns_server s) (from_server s)) (\<lambda>(r, q, f, rs).
       Inr (push_result_type r,
            s\<lparr>from_server := q, dns_server := f,
              server_side := after_read rs (read_chunk (incoming (server_side s)) (from_server s)) (server_side s)\<rparr>))"

definition push_from_client :: "dns_conn \<Rightarrow> (action_result \<times> dns_conn) res" where
  "push_from_client s =
     bindR (bytestream_push (incoming (client_side s)) (client s) (from_client s)) (\<lambda>(r, q, f, rs).
       Inr (push_result_type r,
            s\<lparr>from_client := q, client := f,
              client_side := after_read rs (read_chunk (incoming (client_side s)) (from_client s)) (client_side s)\<rparr>))"

definition pop_to_server :: "dns_conn \<Rightarrow> (action_result \<times> dns_conn) res" where
  "pop_to_server s =
     bindR (bytestream_pop (accepts (server_side s) (from_client s)) (dns_server s) (from_client s)) (\<lambda>(q, f, _).
       Inr ((Continue, 0), s\<lparr>from_client := q, dns_server := f, server_side := after_write (server_side s)\<rparr>))"

definition pop_to_client :: "dns_conn \<Rightarrow> (action_result \<times> dns_conn) res" where
  "pop_to_client s =
     bindR (bytestream_pop (accepts (client_side s) (from_server s)) (client s) (from_server s)) (\<lambda>(q, f, _).
       Inr ((Continue, 0), s\<lparr>from_server := q, client := f, client_side := after_write (client_side s)\<rparr>))"

definition dns_actions :: "dns_conn action list" where
  "dns_actions =
     [action_new dns_server In push_from_server (\<lambda>s. space_available (from_server s)),
      action_new client In push_from_client (\<lambda>s. space_available (from_client s)),
      action_new dns_server Out pop_to_server (\<lambda>s. non_empty (from_client s)),
      action_new client Out pop_to_client (\<lambda>s. non_empty (from_server s))]"

definition dns_buffer_size :: nat where "dns_buffer_size = 1024 * 1024"

definition dns_conn_new ::
  "file_descriptor \<Rightarrow> file_descriptor \<Rightarrow> kernel_side \<Rightarrow> kernel_side \<Rightarrow> dns_conn res" where
  "dns_conn_new server_fd client_fd server_k client_k =
     bindR (bytestream_new dns_buffer_size) (\<lambda>q1.
     bindR (bytestream_new dns_buffer_size) (\<lambda>q2.
       Inr \<lparr>dns_server = server_fd, client = client_fd, from_client = q1, from_server = q2,
            server_side = server_k, client_side = client_k\<rparr>))"

definition dns_poller :: "dns_conn \<Rightarrow> dns_conn poller" where
  "dns_poller s = fold (\<lambda>a. add_action a s) dns_actions poller_new"

text \<open>\<open>handle_tcp\<close> after \<open>accept\<close> and \<open>connect\<close>, for the given answers of \<open>poll(2)\<close>.\<close>

definition dns_handle_tcp ::
  "kernel list \<Rightarrow> file_descriptor \<Rightarrow> file_descriptor \<Rightarrow> kernel_side \<Rightarrow> kernel_side \<Rightarrow>
   (u32 option \<times> dns_conn poller \<times> dns_conn) res" where
  "dns_handle_tcp ks server_fd client_fd server_k client_k =
     bindR (dns_conn_new server_fd client_fd server_k client_k) (\<lambda>s.
       poll_loop ks 60000 (dns_poller s) s)"

section \<open>The relay is a client of the poller\<close>

definition kernel_works :: "kernel_side \<Rightarrow> bool" where
  "kernel_works k \<longleftrightarrow> (\<forall>n. incoming k n \<noteq> None) \<and> (\<forall>n. 1 \<le> room k n)"

text \<open>One direction: the bytes read are those written followed by those in the ring.\<close>

definition relays :: "kernel_side \<Rightarrow> bytestream_queue \<Rightarrow> file_descriptor \<Rightarrow> bool" where
  "relays k q f \<longleftrightarrow> bs_ok q \<and> length (ring q) = dns_buffer_size \<and>
     delivered k = concat (sent f) @ bs_data q"

definition dns_good :: "dns_conn \<Rightarrow> bool" where
  "dns_good s \<longleftrightarrow>
     relays (client_side s) (from_client s) (dns_server s) \<and> kernel_works (client_side s) \<and>
     relays (server_side s) (from_server s) (client s) \<and> kernel_works (server_side s)"

definition dns_ready :: "nat \<Rightarrow> dns_conn \<Rightarrow> bool" where
  "dns_ready i s \<longleftrightarrow>
     (i = 0 \<longrightarrow> space_available (from_server s)) \<and> (i = 1 \<longrightarrow> space_available (from_client s)) \<and>
     (i = 2 \<longrightarrow> non_empty (from_client s)) \<and> (i = 3 \<longrightarrow> non_empty (from_server s))"

lemma push_relays:
  assumes "relays k q out" "kernel_works k" "space_available q"
  obtains r q' f' where
    "bytestream_push (incoming k) f q = Inr (r, q', f', \<lambda>n. incoming k (Suc n))"
    "relays (after_read (\<lambda>n. incoming k (Suc n)) (read_chunk (incoming k) q) k) q' out"
    "kernel_works (after_read (\<lambda>n. incoming k (Suc n)) (read_chunk (incoming k) q) k)"
    "sent f' = sent f" "read_count f' = read_count f + 1" "write_count f' = write_count f"
    "fd_num f' = fd_num f" "non_empty q \<Longrightarrow> non_empty q'"
proof -
  have ok: "bs_ok q" and d: "delivered k = concat (sent out) @ bs_data q"
    and n: "length (ring q) = dns_buffer_size" using assms by (auto simp: relays_def)
  obtain s where s: "incoming k 0 = Some s" using assms(2) by (auto simp: kernel_works_def)
  have sp: "length (bs_data q) < length (ring q) - 1" using assms(3) guards(1) [OF ok] by simp
  obtain c q' f' where *: "c = read_chunk (incoming k) q"
    "bytestream_push (incoming k) f q =
      Inr (if c = [] then EndOfFile else Success, q', f', \<lambda>n. incoming k (Suc n))"
    "bs_ok q'" "length (ring q') = length (ring q)" "bs_data q' = bs_data q @ c"
    "sent f' = sent f" "read_count f' = read_count f + 1" "write_count f' = write_count f"
    "fd_num f' = fd_num f"
    by (rule push_refines_append [where r = "incoming k" and s = s and f = f, OF ok sp s]) blast
  show ?thesis
    by (rule that [OF *(2)])
      (use * d n assms(2) in \<open>auto simp: relays_def after_read_def kernel_works_def guards(2) [OF ok] guards(2) [OF *(3)]\<close>)
qed

lemma pop_relays:
  assumes "relays k q out" "kernel_works j" "non_empty q"
  obtains q' f' w' where
    "bytestream_pop (accepts j q) out q = Inr (q', f', w')"
    "relays k q' f'" "kernel_works (after_write j)"
    "write_count f' = write_count out + 1" "read_count f' = read_count out"
    "fd_num f' = fd_num out" "eof f' = eof out" "space_available q'"
proof -
  have ok: "bs_ok q" and d: "delivered k = concat (sent out) @ bs_data q"
    and n: "length (ring q) = dns_buffer_size" using assms by (auto simp: relays_def)
  have ne: "bs_data q \<noteq> []" using assms(3) guards(2) [OF ok] by simp
  have i: "unat (next_byte_to_pop q) < length (ring q)" using ok by (simp add: bs_ok_def)
  have l: "length (bs_data q) < length (ring q)"
    using ok unfolding bs_data_length [OF ok] by (auto simp: bs_ok_def split: if_splits)
  then have c: "0 < unat (contiguous q (next_byte_to_pop q) (available_to_pop q))"
    using contiguous_eq [OF ok i, of "available_to_pop q"] available_to_pop_eq [OF ok] i ne by simp
  have r: "1 \<le> room j 0" using assms(2) by (simp add: kernel_works_def)
  have w: "1 \<le> accepts j q 0"
    "accepts j q 0 \<le> int (unat (contiguous q (next_byte_to_pop q) (available_to_pop q)))"
    using r c unfolding accepts_def by linarith+
  obtain m q' f' where *: "bytestream_pop (accepts j q) out q = Inr (q', f', \<lambda>n. accepts j q (Suc n))"
    "0 < m" "m \<le> length (bs_data q)" "bs_ok q'" "length (ring q') = length (ring q)"
    "bs_data q' = drop m (bs_data q)" "concat (sent f') = concat (sent out) @ take m (bs_data q)"
    "eof f' = eof out" "write_count f' = write_count out + 1" "read_count f' = read_count out"
    "fd_num f' = fd_num out"
    by (rule pop_refines_drop [where w = "accepts j q" and f = out, OF ok ne w]) blast
  have "length (bs_data q') < length (ring q') - 1" using * l by simp
  then have "space_available q'" using guards(1) [OF *(4)] by simp
  moreover have "kernel_works (after_write j)"
    using assms(2) by (simp add: kernel_works_def after_write_def)
  ultimately show ?thesis
    by (intro that [OF *(1)]) (use * d n in \<open>auto simp: relays_def\<close>)
qed

lemma push_from_server_ok:
  assumes "dns_good s" "space_available (from_server s)"
  obtains r s' where "push_from_server s = Inr (push_result_type r, s')" "dns_good s'"
    "from_client s' = from_client s" "client s' = client s"
    "non_empty (from_server s) \<Longrightarrow> non_empty (from_server s')"
    "read_count (dns_server s') = read_count (dns_server s) + 1"
    "fd_num (dns_server s') = fd_num (dns_server s)"
proof -
  from assms obtain r q' f' where p:
    "bytestream_push (incoming (server_side s)) (dns_server s) (from_server s) =
       Inr (r, q', f', \<lambda>n. incoming (server_side s) (Suc n))"
    "sent f' = sent (dns_server s)" "read_count f' = read_count (dns_server s) + 1"
    "fd_num f' = fd_num (dns_server s)" "non_empty (from_server s) \<Longrightarrow> non_empty q'"
    "relays (after_read (\<lambda>n. incoming (server_side s) (Suc n))
       (read_chunk (incoming (server_side s)) (from_server s)) (server_side s)) q' (client s)"
    "kernel_works (after_read (\<lambda>n. incoming (server_side s) (Suc n))
       (read_chunk (incoming (server_side s)) (from_server s)) (server_side s))"
    unfolding dns_good_def by (metis push_relays)
  show ?thesis
    by (rule that [of r "s\<lparr>from_server := q', dns_server := f', server_side :=
        after_read (\<lambda>n. incoming (server_side s) (Suc n))
          (read_chunk (incoming (server_side s)) (from_server s)) (server_side s)\<rparr>"])
      (use p assms(1) in \<open>simp_all add: push_from_server_def dns_good_def relays_def\<close>)
qed

lemma push_from_client_ok:
  assumes "dns_good s" "space_available (from_client s)"
  obtains r s' where "push_from_client s = Inr (push_result_type r, s')" "dns_good s'"
    "from_server s' = from_server s" "dns_server s' = dns_server s"
    "non_empty (from_client s) \<Longrightarrow> non_empty (from_client s')"
    "read_count (client s') = read_count (client s) + 1"
    "fd_num (client s') = fd_num (client s)"
proof -
  from assms obtain r q' f' where p:
    "bytestream_push (incoming (client_side s)) (client s) (from_client s) =
       Inr (r, q', f', \<lambda>n. incoming (client_side s) (Suc n))"
    "sent f' = sent (client s)" "read_count f' = read_count (client s) + 1"
    "fd_num f' = fd_num (client s)" "non_empty (from_client s) \<Longrightarrow> non_empty q'"
    "relays (after_read (\<lambda>n. incoming (client_side s) (Suc n))
       (read_chunk (incoming (client_side s)) (from_client s)) (client_side s)) q' (dns_server s)"
    "kernel_works (after_read (\<lambda>n. incoming (client_side s) (Suc n))
       (read_chunk (incoming (client_side s)) (from_client s)) (client_side s))"
    unfolding dns_good_def by (metis push_relays)
  show ?thesis
    by (rule that [of r "s\<lparr>from_client := q', client := f', client_side :=
        after_read (\<lambda>n. incoming (client_side s) (Suc n))
          (read_chunk (incoming (client_side s)) (from_client s)) (client_side s)\<rparr>"])
      (use p assms(1) in \<open>simp_all add: push_from_client_def dns_good_def relays_def\<close>)
qed

lemma relays_after_write [simp]: "relays (after_write k) q f = relays k q f"
  by (simp add: relays_def after_write_def)

lemma pop_to_server_ok:
  assumes "dns_good s" "non_empty (from_client s)"
  obtains s' where "pop_to_server s = Inr ((Continue, 0), s')" "dns_good s'"
    "from_server s' = from_server s" "client s' = client s"
    "write_count (dns_server s') = write_count (dns_server s) + 1"
    "fd_num (dns_server s') = fd_num (dns_server s)"
proof -
  from assms obtain q' f' w' where p:
    "bytestream_pop (accepts (server_side s) (from_client s)) (dns_server s) (from_client s) = Inr (q', f', w')"
    "relays (client_side s) q' f'" "kernel_works (after_write (server_side s))"
    "write_count f' = write_count (dns_server s) + 1" "fd_num f' = fd_num (dns_server s)"
    unfolding dns_good_def by (metis pop_relays)
  show ?thesis
    by (rule that [of "s\<lparr>from_client := q', dns_server := f', server_side := after_write (server_side s)\<rparr>"])
      (use p assms(1) in \<open>simp_all add: pop_to_server_def dns_good_def\<close>)
qed

lemma pop_to_client_ok:
  assumes "dns_good s" "non_empty (from_server s)"
  obtains s' where "pop_to_client s = Inr ((Continue, 0), s')" "dns_good s'"
    "from_client s' = from_client s" "dns_server s' = dns_server s"
    "write_count (client s') = write_count (client s) + 1"
    "fd_num (client s') = fd_num (client s)"
proof -
  from assms obtain q' f' w' where p:
    "bytestream_pop (accepts (client_side s) (from_server s)) (client s) (from_server s) = Inr (q', f', w')"
    "relays (server_side s) q' f'" "kernel_works (after_write (client_side s))"
    "write_count f' = write_count (client s) + 1" "fd_num f' = fd_num (client s)"
    unfolding dns_good_def by (metis pop_relays)
  show ?thesis
    by (rule that [of "s\<lparr>from_server := q', client := f', client_side := after_write (client_side s)\<rparr>"])
      (use p assms(1) in \<open>simp_all add: pop_to_client_def dns_good_def\<close>)
qed

lemma dns_index: "i < length dns_actions \<longleftrightarrow> i = 0 \<or> i = 1 \<or> i = 2 \<or> i = 3"
  by (auto simp: dns_actions_def)

lemma dns_actions_nth [simp]:
  "dns_actions ! 0 = action_new dns_server In push_from_server (\<lambda>s. space_available (from_server s))"
  "dns_actions ! Suc 0 = action_new client In push_from_client (\<lambda>s. space_available (from_client s))"
  "dns_actions ! 2 = action_new dns_server Out pop_to_server (\<lambda>s. non_empty (from_client s))"
  "dns_actions ! 3 = action_new client Out pop_to_client (\<lambda>s. non_empty (from_server s))"
  by (simp_all add: dns_actions_def)

text \<open>What one callback does, whichever it is.\<close>

lemma dns_callback:
  assumes i: "i < length dns_actions" and good: "dns_good s" and rd: "dns_ready i s"
  obtains t s' where "callback (dns_actions ! i) s = Inr ((t, 0), s')" "dns_good s'"
    "t \<noteq> Exit" "t = Cancel \<Longrightarrow> i < 2"
    "service_count (dns_actions ! i) s' = service_count (dns_actions ! i) s + 1"
    "fd_num (dns_server s') = fd_num (dns_server s)" "fd_num (client s') = fd_num (client s)"
    "\<And>j. i < j \<Longrightarrow> dns_ready j s \<Longrightarrow> dns_ready j s'"
proof -
  have t: "push_result_type r = (t, u) \<Longrightarrow> t \<noteq> Exit \<and> u = 0" for r t u
    by (auto simp: push_result_type_def split: if_splits)
  consider "i = 0" | "i = 1" | "i = 2" | "i = 3" using i by (auto simp: dns_index)
  then show ?thesis
  proof cases
    case 1
    with rd have "space_available (from_server s)" by (simp add: dns_ready_def)
    from good this obtain r s' where "push_from_server s = Inr (push_result_type r, s')" "dns_good s'"
      "from_client s' = from_client s" "client s' = client s"
      "non_empty (from_server s) \<Longrightarrow> non_empty (from_server s')"
      "read_count (dns_server s') = read_count (dns_server s) + 1"
      "fd_num (dns_server s') = fd_num (dns_server s)"
      by (rule push_from_server_ok) blast
    with 1 show ?thesis
      by (cases "push_result_type r") (rule that [where t = "fst (push_result_type r)" and s' = s'];
        auto simp: action_new_def service_count_def dns_ready_def dest: t)
  next
    case 2
    with rd have "space_available (from_client s)" by (simp add: dns_ready_def)
    from good this obtain r s' where "push_from_client s = Inr (push_result_type r, s')" "dns_good s'"
      "from_server s' = from_server s" "dns_server s' = dns_server s"
      "non_empty (from_client s) \<Longrightarrow> non_empty (from_client s')"
      "read_count (client s') = read_count (client s) + 1"
      "fd_num (client s') = fd_num (client s)"
      by (rule push_from_client_ok) blast
    with 2 show ?thesis
      by (cases "push_result_type r") (rule that [where t = "fst (push_result_type r)" and s' = s'];
        auto simp: action_new_def service_count_def dns_ready_def dest: t)
  next
    case 3
    with rd have "non_empty (from_client s)" by (simp add: dns_ready_def)
    from good this obtain s' where "pop_to_server s = Inr ((Continue, 0), s')" "dns_good s'"
      "from_server s' = from_server s" "client s' = client s"
      "write_count (dns_server s') = write_count (dns_server s) + 1"
      "fd_num (dns_server s') = fd_num (dns_server s)"
      by (rule pop_to_server_ok) blast
    with 3 show ?thesis
      by (intro that [where t = Continue and s' = s'])
        (auto simp: action_new_def service_count_def dns_ready_def)
  next
    case 4
    with rd have "non_empty (from_server s)" by (simp add: dns_ready_def)
    from good this obtain s' where "pop_to_client s = Inr ((Continue, 0), s')" "dns_good s'"
      "from_client s' = from_client s" "dns_server s' = dns_server s"
      "write_count (client s') = write_count (client s) + 1"
      "fd_num (client s') = fd_num (client s)"
      by (rule pop_to_client_ok) blast
    with 4 show ?thesis
      by (intro that [where t = Continue and s' = s'])
        (auto simp: action_new_def service_count_def dns_ready_def)
  qed
qed

lemma dns_fd: "j < length dns_actions \<Longrightarrow>
    fd_num (dns_server s') = fd_num (dns_server s) \<Longrightarrow> fd_num (client s') = fd_num (client s) \<Longrightarrow>
    fd_num (action_fd (dns_actions ! j) s') = fd_num (action_fd (dns_actions ! j) s)"
  by (auto simp: dns_index action_new_def)

lemma dns_callbackD:
  assumes "i < length dns_actions" "dns_good s" "dns_ready i s"
    "callback (dns_actions ! i) s = Inr ((t, st), s')"
  shows "dns_good s'" "t \<noteq> Exit" "t = Cancel \<longrightarrow> i < 2"
    "service_count (dns_actions ! i) s' = service_count (dns_actions ! i) s + 1"
    "fd_num (dns_server s') = fd_num (dns_server s) \<and> fd_num (client s') = fd_num (client s)"
    "i < j \<longrightarrow> dns_ready j s \<longrightarrow> dns_ready j s'"
  by (rule dns_callback [OF assms(1-3)]; use assms(4) in simp)+

interpretation dns: lasting_client dns_actions dns_good dns_ready "\<lambda>i. i < 2"
proof
  fix i s assume "i < length dns_actions" "dns_good s" "when_interested (dns_actions ! i) s"
  then show "dns_ready i s" by (auto simp: dns_index dns_ready_def action_new_def)
next
  fix i s assume h: "i < length dns_actions" "dns_good s" "dns_ready i s"
  show "\<exists>r s'. callback (dns_actions ! i) s = Inr (r, s')"
    by (rule dns_callback [OF h]) blast
next
  fix i s r s' assume h: "i < length dns_actions" "dns_good s" "dns_ready i s"
    "callback (dns_actions ! i) s = Inr (r, s')"
  then show "dns_good s'" by (cases r) (blast dest: dns_callbackD(1))
next
  fix i j s r s' assume h: "i < j" "j < length dns_actions" "dns_good s" "dns_ready i s" "dns_ready j s"
    "callback (dns_actions ! i) s = Inr (r, s')"
  then have "i < length dns_actions" by simp
  with h show "dns_ready j s'" by (cases r) (blast dest: dns_callbackD(6))
next
  fix i j s r s' assume h: "i < length dns_actions" "j < length dns_actions" "dns_good s" "dns_ready i s"
    "callback (dns_actions ! i) s = Inr (r, s')"
  then have "fd_num (dns_server s') = fd_num (dns_server s) \<and> fd_num (client s') = fd_num (client s)"
    by (cases r) (blast dest: dns_callbackD(5))
  with h(2) show "fd_num (action_fd (dns_actions ! j) s') = fd_num (action_fd (dns_actions ! j) s)"
    by (intro dns_fd) simp_all
next
  fix i s st s' assume h: "i < length dns_actions" "dns_good s" "dns_ready i s"
    "callback (dns_actions ! i) s = Inr ((Cancel, st), s')"
  then show "i < 2" by (blast dest: dns_callbackD(3))
next
  fix i s t st s' assume h: "i < length dns_actions" "dns_good s" "dns_ready i s"
    "callback (dns_actions ! i) s = Inr ((t, st), s')"
  show "service_count (dns_actions ! i) s' \<noteq> service_count (dns_actions ! i) s"
    using dns_callbackD(4) [OF h] by simp
  show "t \<noteq> Exit" by (rule dns_callbackD(2) [OF h])
qed

section \<open>The state in which the loop starts\<close>

lemma dns_conn_new_ok:
  assumes "dns_conn_new f c sk ck = Inr s" "kernel_works sk" "kernel_works ck"
    "sent f = []" "sent c = []" "delivered sk = []" "delivered ck = []"
  shows "dns_good s"
proof -
  obtain q1 q2 where "bytestream_new dns_buffer_size = Inr q1" "bytestream_new dns_buffer_size = Inr q2"
    and s: "s = \<lparr>dns_server = f, client = c, from_client = q1, from_server = q2, server_side = sk, client_side = ck\<rparr>"
    using assms(1) by (auto simp: dns_conn_new_def res_simps)
  moreover have "dns_buffer_size < 2 ^ 63" by (simp add: dns_buffer_size_def)
  ultimately show ?thesis
    using bytestream_new_ok assms by (simp add: dns_good_def relays_def)
qed

lemma dns_conn_new_total: "\<exists>s. dns_conn_new f c sk ck = Inr s"
proof -
  have "1 < dns_buffer_size" by (simp add: dns_buffer_size_def)
  then show ?thesis by (simp add: dns_conn_new_def bytestream_new_def)
qed

lemma dns_poller_ok:
  "dns.like_from 0 (actions (dns_poller s))" "dns.fds_match (pollfds (dns_poller s)) s"
proof -
  have a: "actions (dns_poller s) = dns_actions"
    by (simp add: dns_poller_def dns_actions_def add_action_def poller_new_def)
  show "dns.like_from 0 (actions (dns_poller s))"
    by (auto simp: dns.like_from_def a dns_index action_new_def)
  have "pollfds (dns_poller s) = map (\<lambda>a. \<lparr>pfd = fd_num (action_fd a s), events = 0, revents = 0\<rparr>) dns_actions"
    by (simp add: dns_poller_def dns_actions_def add_action_def poller_new_def)
  then show "dns.fds_match (pollfds (dns_poller s)) s"
    by (auto simp: dns.fds_match_def)
qed

end
