(* ===== verification/Proxy_Properties.thy ===== *)
theory Proxy_Properties
  imports Proxy_Exchange Dns_Proxy
begin

text \<open>
  What the two proxies promise: the ring buffer is a bounded queue of bytes, the DNS proxy
  relays both byte streams, the HTTP proxy keeps requests and responses together and in order,
  records what it answered, and never runs into undefined behaviour.
\<close>

section \<open>The ring buffer of the byte streams\<close>

text \<open>C32.  \<open>ByteStreamQueue::push\<close>: with space in the ring and a readable descriptor it does not
  fail; it appends a prefix of what the kernel has to the bytes in the ring, which is empty (and
  the result \<open>EndOfFile\<close>) only when the kernel has none, and the ring keeps its invariant.\<close>

theorem bytestream_push_spec:
  assumes "bs_ok q" "length (bs_data q) < length (ring q) - 1" "r 0 = Some s"
  shows "\<exists>c q' f'. bytestream_push r f q =
      Inr (if c = [] then EndOfFile else Success, q', f', \<lambda>n. r (Suc n)) \<and>
    prefix c s \<and> (c = [] \<longleftrightarrow> s = []) \<and> bs_ok q' \<and> length (ring q') = length (ring q) \<and>
    bs_data q' = bs_data q @ c"
  by (rule push_refines_append [where r = r and s = s and f = f, OF assms]) blast

theorem bytestream_push_spec_witness:
  "let q = \<lparr>ring = ''abcd'', next_byte_to_push = 1, next_byte_to_pop = 3\<rparr>;
       f = \<lparr>fd_num = 5, eof = False, read_count = 0, write_count = 0, sent = []\<rparr>
   in \<exists>c q' f'. bytestream_push (\<lambda>_. Some ''xyz'') f q = Inr (Success, q', f', \<lambda>_. Some ''xyz'') \<and>
        prefix c ''xyz'' \<and> c \<noteq> [] \<and> bs_data q' = ''da'' @ c"
proof -
  let ?q = "\<lparr>ring = ''abcd'', next_byte_to_push = 1, next_byte_to_pop = 3\<rparr> :: bytestream_queue"
  have d: "bs_data ?q = ''da''" by (simp add: bs_data_def Let_def)
  have ok: "bs_ok ?q" by (simp add: bs_ok_def)
  let ?f = "\<lparr>fd_num = 5, eof = False, read_count = 0, write_count = 0, sent = []\<rparr> :: file_descriptor"
  obtain c q' f' where "bytestream_push (\<lambda>_. Some ''xyz'') ?f ?q =
      Inr (if c = [] then EndOfFile else Success, q', f', \<lambda>_. Some ''xyz'')"
      "prefix c ''xyz''" "c \<noteq> []" "bs_data q' = bs_data ?q @ c"
    using bytestream_push_spec [of ?q "\<lambda>_. Some ''xyz''" "''xyz''" ?f, OF ok] by (auto simp: d)
  then show ?thesis unfolding Let_def d by (intro exI [of _ c] exI [of _ q'] exI [of _ f']) simp
qed

text \<open>C33.  \<open>ByteStreamQueue::pop\<close>: with bytes in the ring and a kernel that accepts at least one
  byte and at most those offered, it does not fail; it writes a non-empty part of the bytes,
  the oldest ones first, and removes exactly those from the ring.\<close>

theorem bytestream_pop_spec:
  assumes "bs_ok q" "bs_data q \<noteq> []" "1 \<le> w 0"
    "w 0 \<le> int (unat (contiguous q (next_byte_to_pop q) (available_to_pop q)))"
  shows "\<exists>k q' f'. bytestream_pop w f q = Inr (q', f', \<lambda>n. w (Suc n)) \<and> 0 < k \<and> k \<le> length (bs_data q) \<and>
    bs_ok q' \<and> bs_data q' = drop k (bs_data q) \<and>
    concat (sent f') = concat (sent f) @ take k (bs_data q)"
  by (rule pop_refines_drop [where w = w and f = f, OF assms]) blast

theorem bytestream_pop_spec_witness:
  "let q = \<lparr>ring = ''abcd'', next_byte_to_push = 1, next_byte_to_pop = 3\<rparr>;
       f = \<lparr>fd_num = 5, eof = False, read_count = 0, write_count = 0, sent = []\<rparr>
   in \<exists>k q' f'. bytestream_pop (\<lambda>_. 1) f q = Inr (q', f', \<lambda>_. 1) \<and> 0 < k \<and> bs_data q' = drop k ''da''"
proof -
  let ?q = "\<lparr>ring = ''abcd'', next_byte_to_push = 1, next_byte_to_pop = 3\<rparr> :: bytestream_queue"
  have d: "bs_data ?q = ''da''" by (simp add: bs_data_def Let_def)
  have ok: "bs_ok ?q" by (simp add: bs_ok_def)
  have c: "1 \<le> int (unat (contiguous ?q (next_byte_to_pop ?q) (available_to_pop ?q)))" by code_simp
  let ?f = "\<lparr>fd_num = 5, eof = False, read_count = 0, write_count = 0, sent = []\<rparr> :: file_descriptor"
  obtain k q' f' where "bytestream_pop (\<lambda>_. 1) ?f ?q = Inr (q', f', \<lambda>_. 1)" "0 < k"
      "bs_data q' = drop k (bs_data ?q)"
    using bytestream_pop_spec [of ?q "\<lambda>_. 1" ?f, OF ok _ _ c] by (auto simp: d)
  then show ?thesis unfolding Let_def d by (intro exI [of _ k] exI [of _ q'] exI [of _ f']) simp
qed

section \<open>The DNS relay\<close>

lemma bs_data_less: "bs_ok q \<Longrightarrow> length (bs_data q) < length (ring q)"
  by (subst bs_data_length) (auto simp: bs_ok_def split: if_splits)

lemma relays_delivered:
  assumes "relays k q f"
  shows "\<exists>pending. delivered k = concat (sent f) @ pending \<and> length pending < dns_buffer_size"
    and "\<not> non_empty q \<Longrightarrow> delivered k = concat (sent f)"
proof -
  have ok: "bs_ok q" using assms by (simp add: relays_def)
  show "\<exists>pending. delivered k = concat (sent f) @ pending \<and> length pending < dns_buffer_size"
    using assms bs_data_less [OF ok] by (auto simp: relays_def)
  show "\<not> non_empty q \<Longrightarrow> delivered k = concat (sent f)"
    using assms guards(2) [OF ok] by (auto simp: relays_def)
qed

text \<open>C9.  \<open>DNSProxy::handle_tcp\<close>, for a kernel on which every read succeeds and every write takes
  at least a byte, and any answers of \<open>poll(2)\<close>: the loop fails in no way but by an error of
  \<open>poll(2)\<close> (no assertion, no busy wait), the bytes written to either side are at any time those
  read from the other one up to less than a buffer, and if the loop has ended without an error
  condition on a socket then they are all of them.\<close>

theorem dns_relay:
  assumes "kernel_works sk" "kernel_works ck" "sent f = []" "sent c = []"
    "delivered sk = []" "delivered ck = []"
  shows "dns_handle_tcp ks f c sk ck = Inl (Unix_error ''poll'') \<or>
    (\<exists>r p s. dns_handle_tcp ks f c sk ck = Inr (r, p, s) \<and>
      (\<exists>pending. delivered (client_side s) = concat (sent (dns_server s)) @ pending \<and> length pending < dns_buffer_size) \<and>
      (\<exists>pending. delivered (server_side s) = concat (sent (client s)) @ pending \<and> length pending < dns_buffer_size) \<and>
      (r \<noteq> None \<longrightarrow> (\<forall>k \<in> set ks. \<forall>ps t i. and (snd (k ps t) i) error_mask = 0) \<longrightarrow>
        delivered (client_side s) = concat (sent (dns_server s)) \<and>
        delivered (server_side s) = concat (sent (client s))))"
proof -
  obtain s0 where s0: "dns_conn_new f c sk ck = Inr s0" using dns_conn_new_total by blast
  have g: "dns_good s0" using dns_conn_new_ok [OF s0 assms] .
  have h: "dns_handle_tcp ks f c sk ck = poll_loop ks 60000 (dns_poller s0) s0"
    by (simp add: dns_handle_tcp_def s0)
  from dns.poll_loop_total [OF g dns_poller_ok] consider
      "dns_handle_tcp ks f c sk ck = Inl (Unix_error ''poll'')"
    | r p s where "poll_loop ks 60000 (dns_poller s0) s0 = Inr (r, p, s)"
    unfolding h by (metis surj_pair)
  then show ?thesis
  proof cases
    case 2
    have good: "dns_good s" using dns.poll_loop_good [OF 2 g dns_poller_ok(1)] by blast
    then have rel: "relays (client_side s) (from_client s) (dns_server s)"
        "relays (server_side s) (from_server s) (client s)" by (simp_all add: dns_good_def)
    have "\<not> non_empty (from_client s) \<and> \<not> non_empty (from_server s)"
      if "r \<noteq> None" "\<forall>k \<in> set ks. \<forall>ps t i. and (snd (k ps t) i) error_mask = 0"
    proof -
      from that(1) obtain st where "poll_loop ks 60000 (dns_poller s0) s0 = Inr (Some st, p, s)"
        using 2 by auto
      moreover have "\<forall>k \<in> set ks. dns.calm k" using that(2) by (simp add: dns.calm_def)
      ultimately have idle: "\<not> when_interested (dns_actions ! i) s \<or>
          (direction (dns_actions ! i) = In \<and> eof (action_fd (dns_actions ! i) s))"
        if "i < length dns_actions" "\<not> i < 2" for i
        using dns.poll_loop_exit_idle [OF _ _ g dns_poller_ok(1) that] by blast
      from idle [of 2] idle [of 3] show ?thesis by (simp add: dns_index action_new_def)
    qed
    with relays_delivered [OF rel(1)] relays_delivered [OF rel(2)] show ?thesis
      unfolding h 2 by blast
  qed blast
qed

theorem dns_relay_witness:
  "let f = (\<lambda>n. \<lparr>fd_num = n, eof = False, read_count = 0, write_count = 0, sent = []\<rparr>);
       side = \<lparr>incoming = \<lambda>n. Some (if n = 0 then ''query'' else []), delivered = [], room = \<lambda>_. 3\<rparr>;
       ks = [\<lambda>_ _. (1, \<lambda>i. if i = 1 then 1 else 0)]
   in dns_handle_tcp ks (f 4) (f 5) side side = Inl (Unix_error ''poll'') \<or>
     (\<exists>r p s. dns_handle_tcp ks (f 4) (f 5) side side = Inr (r, p, s) \<and>
       (\<exists>pending. delivered (client_side s) = concat (sent (dns_server s)) @ pending))"
proof -
  let ?f = "\<lambda>n. \<lparr>fd_num = n, eof = False, read_count = 0, write_count = 0, sent = []\<rparr> :: file_descriptor"
  let ?side = "\<lparr>incoming = \<lambda>n. Some (if n = 0 then ''query'' else []), delivered = [], room = \<lambda>_. 3\<rparr> :: kernel_side"
  have "kernel_works ?side" by (simp add: kernel_works_def)
  from dns_relay [of ?side ?side "?f 4" "?f 5", OF this this]
  show ?thesis unfolding Let_def by simp blast
qed

section \<open>The HTTP proxy\<close>

text \<open>What a connection keeps, for the server's address and the store as it was before.\<close>

definition exchanges_kept :: "address \<Rightarrow> disk_store \<Rightarrow> ('r, 'w) proxy_conn \<Rightarrow> bool" where
  "exchanges_kept addr d s \<longleftrightarrow>
     parse_pieces request_ops Inr (client_pieces s) request_parser_new =
       Some (Inr (put_front (asked s) (request_parser s))) \<and>
     asked s = map request (answered s) @ outstanding (response_parser_state s) \<and>
     printed (asked s) (server_fd s) \<and> printed (answered s) (client_fd s) \<and>
     (\<exists>saved. disk_files (backing_store s) = disk_files d @ saved \<and> list_all2 (records addr) (answered s) saved)"

lemma recording_thread_keeps:
  assumes "sent sfd = []" "sent cfd = []" "tls_reliable a"
    "recording_thread connects a ks (proxy_conn_new sfd cfd sr cr sw cw lg clk addr d) = Inr outcome"
  shows "case outcome of Inl (r, p, s) \<Rightarrow> exchanges_kept addr d s | Inr (r, p, s) \<Rightarrow> exchanges_kept addr d s"
  using proxy_thread_Inr [OF assms(4) [unfolded recording_thread_def] connection_new_start [OF assms(1,2)] assms(3)]
  by (auto simp: exchanges_kept_def proxy_flow_def recorded_def
      dest!: tcp.recording_loop_flow tls.recording_loop_flow)

text \<open>C6.  The connection thread of a recording \<open>HTTPProxy\<close>, over TCP or, on port 443, over TLS, for any
  behaviour of the two sockets (but that no \<open>SSL_write\<close> returns 0), of \<open>poll(2)\<close> and of the clock,
  after any number of rounds: the requests written to the server followed by those still waiting
  are the ones that the client's bytes parse to, in order; the responses written to the client
  answer the first of these requests one by one, the rest are outstanding; what the sockets got is
  exactly those messages, printed; and the store has exactly one new record for each answered
  request, in order, which holds the request, the response and the server's address.\<close>

theorem recording_proxy_records:
  assumes "sent sfd = []" "sent cfd = []" "tls_reliable a"
    "recording_thread connects a ks (proxy_conn_new sfd cfd sr cr sw cw lg clk addr d) = Inr outcome"
  shows "case outcome of Inl (r, p, s) \<Rightarrow> exchanges_kept addr d s | Inr (r, p, s) \<Rightarrow> exchanges_kept addr d s"
  by (rule recording_thread_keeps [OF assms])

theorem recording_proxy_records_witness:
  "(\<exists>p s. recording_thread True a_handshake one_exchange (a_connection 80) = Inr (Inl (None, p, s)) \<and>
     answered s = [not_modified] \<and> exchanges_kept (an_address 80) a_store s) \<and>
   (\<exists>p s. recording_thread True a_handshake one_exchange (a_connection 443) = Inr (Inr (None, p, s)) \<and>
     answered s = [not_modified] \<and> exchanges_kept (an_address 443) a_store s)"
proof -
  have fds: "sent (fresh_fd n) = []" for n by (simp add: fresh_fd_def)
  have rel: "tls_reliable a_handshake" by (simp add: tls_reliable_def never_zero_def a_handshake_def)
  have kept: "case outcome of Inl (r, p, s) \<Rightarrow> exchanges_kept (an_address n) a_store s
      | Inr (r, p, s) \<Rightarrow> exchanges_kept (an_address n) a_store s"
    if "recording_thread True a_handshake one_exchange (a_connection n) = Inr outcome" for outcome n
    using recording_proxy_records [OF fds fds rel that [unfolded a_connection_def]] .
  obtain p s where "recording_thread True a_handshake one_exchange (a_connection 80) = Inr (Inl (None, p, s))"
      "answered s = [not_modified]"
    unfolding recording_thread_def
    using tcp_exchange [where loop = "recording_loop tcp_ops" and out = "client_output_saving tcp_ops"
        and tls_loop = "recording_loop tls_ops" and a = a_handshake]
    by (auto simp: recording_loop_def)
  moreover obtain p' s' where "recording_thread True a_handshake one_exchange (a_connection 443) = Inr (Inr (None, p', s'))"
      "answered s' = [not_modified]"
    unfolding recording_thread_def
    using tls_exchange [where tls_loop = "recording_loop tls_ops" and out = "client_output_saving tls_ops"
        and loop = "recording_loop tcp_ops"]
    by (auto simp: recording_loop_def)
  ultimately show ?thesis using kept [of 80] kept [of 443] by fastforce
qed

text \<open>C10.  Both kinds of connection thread, over TCP or TLS, stop, if they do not return, by an
  exception or an assertion, never by behaviour that C++ leaves undefined: no queue of messages is
  read or popped while it is empty, although the interests of all four actions are evaluated before
  the first callback runs, and no loop of a parser runs on.\<close>

theorem proxy_well_defined_thread:
  assumes "sent sfd = []" "sent cfd = []" "tls_reliable a"
  shows "well_defined (plain_thread connects a ks (proxy_conn_new sfd cfd sr cr sw cw lg clk addr d)) \<and>
    well_defined (recording_thread connects a ks (proxy_conn_new sfd cfd sr cr sw cw lg clk addr d))"
  unfolding plain_thread_def recording_thread_def
  using connection_new_start [OF assms(1,2)] assms(3)
  by (blast intro: proxy_thread_well_defined tcp.plain_loop_well_defined tls.plain_loop_well_defined
      tcp.recording_loop_well_defined tls.recording_loop_well_defined)

theorem proxy_well_defined_thread_witness:
  "well_defined (plain_thread True a_handshake [\<lambda>_ _. (1, \<lambda>_. 5)] (a_connection 443)) \<and>
   well_defined (recording_thread True a_handshake [\<lambda>_ _. (1, \<lambda>_. 5)] (a_connection 80))"
proof -
  have "tls_reliable a_handshake" by (simp add: tls_reliable_def never_zero_def a_handshake_def)
  then show ?thesis
    unfolding a_connection_def
    using proxy_well_defined_thread [of "fresh_fd 4" "fresh_fd 5" a_handshake] by (simp add: fresh_fd_def)
qed

end
