(* ===== verification/Child_Process.thy ===== *)
theory Child_Process
  imports Poller Cpp_String
begin

text \<open>
  \<open>src/util/child_process.cc\<close> and \<open>EventLoop::handle_signal\<close> of \<open>src/util/event_loop.cc\<close>.
  The kernel is a parameter: \<open>waits\<close> is what successive calls of \<open>waitid(2)\<close> fill in
  (\<open>None\<close> for an error), \<open>kills\<close> the values that successive calls of \<open>kill(2)\<close> and \<open>raise(3)\<close>
  return.  \<open>signalled\<close> records those calls, with process number 0 for \<open>raise\<close>.
\<close>

section \<open>Signals and the kernel\<close>

definition SIGHUP :: int where "SIGHUP = 1"
definition SIGINT :: int where "SIGINT = 2"
definition SIGQUIT :: int where "SIGQUIT = 3"
definition SIGTERM :: int where "SIGTERM = 15"
definition SIGCHLD :: int where "SIGCHLD = 17"
definition SIGCONT :: int where "SIGCONT = 18"
definition SIGSTOP :: int where "SIGSTOP = 19"

lemmas signal_defs = SIGHUP_def SIGINT_def SIGQUIT_def SIGTERM_def SIGCHLD_def SIGCONT_def SIGSTOP_def

datatype si_code = CLD_EXITED | CLD_KILLED | CLD_DUMPED | CLD_STOPPED | CLD_CONTINUED | Other_code

record siginfo =
  si_pid :: int
  si_signo :: int
  si_code :: si_code
  si_status :: int

record os =
  waits :: "nat \<Rightarrow> siginfo option"
  kills :: "nat \<Rightarrow> int"
  signalled :: "(int \<times> int) list"

definition waitid :: "os \<Rightarrow> (siginfo \<times> os) res" where
  "waitid k =
     (case waits k 0 of
        None \<Rightarrow> Inl (Unix_error ''waitid'')
      | Some i \<Rightarrow> Inr (i, k\<lparr>waits := \<lambda>n. waits k (Suc n)\<rparr>))"

definition send_signal :: "string \<Rightarrow> os \<Rightarrow> int \<Rightarrow> int \<Rightarrow> os res" where
  "send_signal call k pid_arg sig =
     (if kills k 0 < 0 then Inl (Unix_error call)
      else Inr (k\<lparr>kills := \<lambda>n. kills k (Suc n), signalled := signalled k @ [(pid_arg, sig)]\<rparr>))"

section \<open>Child processes\<close>

record child_process =
  child_name :: string
  child_pid :: int
  running :: bool
  terminated :: bool
  exit_status :: int
  died_on_signal :: bool
  graceful_termination_signal :: int
  moved_away :: bool

text \<open>
  \<open>do_clone\<close>, given the link count of \<open>/proc/self/task\<close> (\<open>None\<close> when \<open>stat\<close> fails) and the
  value of \<open>clone\<close>; and the parent's side of the constructor.
\<close>

definition do_clone :: "nat option \<Rightarrow> int \<Rightarrow> int res" where
  "do_clone st_nlink clone_result =
     (case st_nlink of
        None \<Rightarrow> Inl (Unix_error ''stat'')
      | Some n \<Rightarrow>
          if n \<noteq> 3 then Inl (Runtime_error ''ChildProcess constructed in multi-threaded program'')
          else if clone_result < 0 then Inl (Unix_error ''clone'')
          else Inr clone_result)"

definition child_new :: "nat option \<Rightarrow> int \<Rightarrow> string \<Rightarrow> int \<Rightarrow> child_process res" where
  "child_new st_nlink clone_result name termination_signal =
     bindR (do_clone st_nlink clone_result) (\<lambda>pid.
       Inr \<lparr>child_name = name, child_pid = pid, running = True, terminated = False, exit_status = 0,
            died_on_signal = False, graceful_termination_signal = termination_signal,
            moved_away = False\<rparr>)"

text \<open>The move constructor: the new object, and what is left of the old one.\<close>

definition child_move :: "child_process \<Rightarrow> (child_process \<times> child_process) res" where
  "child_move other = assertR (\<not> moved_away other) (Inr (other, other\<lparr>moved_away := True\<rparr>))"

definition child_terminated :: "child_process \<Rightarrow> bool res" where
  "child_terminated c = assertR (\<not> moved_away c) (Inr (terminated c))"

definition child_running :: "child_process \<Rightarrow> bool res" where
  "child_running c = assertR (\<not> moved_away c) (Inr (running c))"

definition child_exit_status :: "child_process \<Rightarrow> int res" where
  "child_exit_status c = assertR (\<not> moved_away c) (assertR (terminated c) (Inr (exit_status c)))"

definition child_died_on_signal :: "child_process \<Rightarrow> bool res" where
  "child_died_on_signal c = assertR (\<not> moved_away c) (assertR (terminated c) (Inr (died_on_signal c)))"

definition int_dec :: "int \<Rightarrow> string" where
  "int_dec i = (if i < 0 then ''-'' @ dec (nat (- i)) else dec (nat i))"

definition child_throw_exception :: "child_process \<Rightarrow> 'a res" where
  "child_throw_exception c =
     assertR (\<not> moved_away c) (
     bindR (child_died_on_signal c) (\<lambda>died.
     bindR (child_exit_status c) (\<lambda>status.
       Inl (Runtime_error ([CHR 0x60] @ child_name c @ [CHR 0x27] @ '': process '' @
             (if died then ''died on signal '' else ''exited with failure status '') @ int_dec status)))))"

definition waitable :: "os \<Rightarrow> child_process \<Rightarrow> (bool \<times> os) res" where
  "waitable k c =
     assertR (\<not> moved_away c) (assertR (\<not> terminated c) (
     bindR (waitid k) (\<lambda>(infop, k').
       if si_pid infop = 0 then Inr (False, k')
       else if si_pid infop = child_pid c then Inr (True, k')
       else Inl (Runtime_error ''waitid: unexpected value in siginfo_t si_pid field (not 0 or pid)''))))"

definition child_wait :: "bool \<Rightarrow> os \<Rightarrow> child_process \<Rightarrow> (child_process \<times> os) res" where
  "child_wait nonblocking k c =
     assertR (\<not> moved_away c) (assertR (\<not> terminated c) (
     bindR (waitid k) (\<lambda>(infop, k').
       if nonblocking \<and> si_pid infop = 0
       then Inl (Runtime_error ''nonblocking wait: process was not waitable'')
       else if si_pid infop \<noteq> child_pid c
       then Inl (Runtime_error ''waitid: unexpected value in siginfo_t si_pid field'')
       else if si_signo infop \<noteq> SIGCHLD
       then Inl (Runtime_error ''waitid: unexpected value in siginfo_t si_signo field (not SIGCHLD)'')
       else case si_code infop of
              CLD_EXITED \<Rightarrow> Inr (c\<lparr>terminated := True, exit_status := si_status infop\<rparr>, k')
            | CLD_KILLED \<Rightarrow> Inr (c\<lparr>terminated := True, exit_status := si_status infop, died_on_signal := True\<rparr>, k')
            | CLD_DUMPED \<Rightarrow> Inr (c\<lparr>terminated := True, exit_status := si_status infop, died_on_signal := True\<rparr>, k')
            | CLD_STOPPED \<Rightarrow> Inr (c\<lparr>running := False\<rparr>, k')
            | CLD_CONTINUED \<Rightarrow> Inr (c\<lparr>running := True\<rparr>, k')
            | Other_code \<Rightarrow> Inl (Runtime_error ''waitid: unexpected siginfo_t si_code''))))"

definition child_signal :: "int \<Rightarrow> os \<Rightarrow> child_process \<Rightarrow> os res" where
  "child_signal sig k c =
     assertR (\<not> moved_away c)
       (if terminated c then Inr k else send_signal ''kill'' k (child_pid c) sig)"

definition child_resume :: "os \<Rightarrow> child_process \<Rightarrow> os res" where
  "child_resume k c =
     assertR (\<not> moved_away c) (if running c then Inr k else child_signal SIGCONT k c)"

text \<open>
  The destructor: it keeps asking the child to go until the child has terminated.  It may
  wait for ever, so its value is an option; an exception is printed and ends it.
\<close>

definition destroy_round :: "os \<Rightarrow> child_process \<Rightarrow> (child_process \<times> os) res" where
  "destroy_round k c =
     bindR (child_resume k c) (\<lambda>k1.
     bindR (child_signal (graceful_termination_signal c) k1 c) (\<lambda>k2. child_wait False k2 c))"

partial_function (option) destroy_loop :: "os \<Rightarrow> child_process \<Rightarrow> (child_process \<times> os) res option" where
  "destroy_loop k c =
     (if terminated c then Some (Inr (c, k))
      else case destroy_round k c of Inl e \<Rightarrow> Some (Inl e) | Inr (c', k') \<Rightarrow> destroy_loop k' c')"

definition child_destroy :: "os \<Rightarrow> child_process \<Rightarrow> (child_process \<times> os) res option" where
  "child_destroy k c = (if moved_away c then Some (Inr (c, k)) else destroy_loop k c)"

section \<open>What a child keeps\<close>

text \<open>A change of state that the kernel may report of the child.\<close>

definition reports :: "siginfo \<Rightarrow> child_process \<Rightarrow> bool" where
  "reports i c \<longleftrightarrow> si_pid i = child_pid c \<and> si_pid i \<noteq> 0 \<and> si_signo i = SIGCHLD \<and> si_code i \<noteq> Other_code"

definition ends :: "siginfo \<Rightarrow> bool" where
  "ends i \<longleftrightarrow> si_code i \<in> {CLD_EXITED, CLD_KILLED, CLD_DUMPED}"

definition same_child :: "child_process \<Rightarrow> child_process \<Rightarrow> bool" where
  "same_child c c' \<longleftrightarrow> child_name c' = child_name c \<and> child_pid c' = child_pid c \<and>
     graceful_termination_signal c' = graceful_termination_signal c \<and> moved_away c' = moved_away c"

lemma same_child_refl [simp]: "same_child c c"
  by (simp add: same_child_def)

lemma child_wait_reports:
  assumes "\<not> moved_away c" "\<not> terminated c" "waits k 0 = Some i" "reports i c"
  obtains c' where "child_wait b k c = Inr (c', k\<lparr>waits := \<lambda>n. waits k (Suc n)\<rparr>)" "same_child c c'"
    "terminated c' \<longleftrightarrow> ends i" "ends i \<Longrightarrow> exit_status c' = si_status i"
    "ends i \<Longrightarrow> died_on_signal c' \<longleftrightarrow> si_code i \<noteq> CLD_EXITED \<or> died_on_signal c"
    "\<not> ends i \<Longrightarrow> running c' \<longleftrightarrow> si_code i = CLD_CONTINUED"
  using assms
  by (cases "si_code i")
    (auto simp: child_wait_def waitid_def reports_def ends_def same_child_def)

lemma child_wait_Inr:
  assumes "child_wait b k c = Inr (c', k')"
  obtains i where "waits k 0 = Some i" "\<not> moved_away c" "\<not> terminated c" "si_pid i = child_pid c"
    "same_child c c'" "k' = k\<lparr>waits := \<lambda>n. waits k (Suc n)\<rparr>" "terminated c' \<longleftrightarrow> ends i"
    "terminated c' \<Longrightarrow> exit_status c' = si_status i"
  using assms
  by (auto simp: child_wait_def waitid_def res_simps ends_def same_child_def
      split: option.splits si_code.splits if_splits)

lemma send_signal_ok:
  "\<forall>n. 0 \<le> kills k n \<Longrightarrow> send_signal call k p sig =
     Inr (k\<lparr>kills := \<lambda>n. kills k (Suc n), signalled := signalled k @ [(p, sig)]\<rparr>)"
  by (simp add: send_signal_def not_less)

lemma destroy_round_eq:
  "destroy_round k c =
     bindR (bindR (child_resume k c) (\<lambda>k1. child_signal (graceful_termination_signal c) k1 c))
       (\<lambda>k2. child_wait False k2 c)"
  by (simp add: destroy_round_def bindR_assoc)

lemma ask_to_end:
  assumes "\<not> moved_away c" "\<not> terminated c" "\<forall>n. 0 \<le> kills k n"
  obtains k2 where
    "bindR (child_resume k c) (\<lambda>k1. child_signal (graceful_termination_signal c) k1 c) = Inr k2"
    "waits k2 = waits k" "\<forall>n. 0 \<le> kills k2 n"
  using assms
  by (cases "running c") (auto simp: child_resume_def child_signal_def send_signal_ok)

text \<open>
  The destructor returns as soon as some report says that the child has ended, whatever the
  stops and continuations before it.
\<close>

lemma destroy_loop_ends:
  "\<not> moved_away c \<Longrightarrow> (\<forall>n \<le> m. \<exists>i. waits k n = Some i \<and> reports i c) \<Longrightarrow>
   (\<forall>i. waits k m = Some i \<longrightarrow> ends i) \<Longrightarrow> \<forall>n. 0 \<le> kills k n \<Longrightarrow>
   \<exists>c' k'. destroy_loop k c = Some (Inr (c', k')) \<and> terminated c' \<and> same_child c c'"
proof (induction m arbitrary: k c)
  case h: 0
  show ?case
  proof (cases "terminated c")
    case True
    then show ?thesis by (simp add: destroy_loop.simps)
  next
    case False
    obtain i where i: "waits k 0 = Some i" "reports i c" using h by auto
    obtain k2 where k2: "bindR (child_resume k c) (\<lambda>k1. child_signal (graceful_termination_signal c) k1 c) = Inr k2"
      "waits k2 = waits k" "\<forall>n. 0 \<le> kills k2 n"
      using ask_to_end [of c k] h False by blast
    obtain c' where "child_wait False k2 c = Inr (c', k2\<lparr>waits := \<lambda>n. waits k2 (Suc n)\<rparr>)" "same_child c c'"
      "terminated c' \<longleftrightarrow> ends i"
      using child_wait_reports [of c k2 i False] h False i k2 by metis
    moreover have "ends i" using h i by simp
    ultimately show ?thesis
      using False k2(1) by (subst destroy_loop.simps) (simp add: destroy_round_eq destroy_loop.simps)
  qed
next
  case (Suc m)
  show ?case
  proof (cases "terminated c")
    case True
    then show ?thesis by (simp add: destroy_loop.simps)
  next
    case False
    obtain i where i: "waits k 0 = Some i" "reports i c" using Suc.prems by auto
    obtain k2 where k2: "bindR (child_resume k c) (\<lambda>k1. child_signal (graceful_termination_signal c) k1 c) = Inr k2"
      "waits k2 = waits k" "\<forall>n. 0 \<le> kills k2 n"
      using ask_to_end [of c k] Suc.prems False by blast
    define k3 where "k3 = k2\<lparr>waits := \<lambda>n. waits k2 (Suc n)\<rparr>"
    obtain c' where c': "child_wait False k2 c = Inr (c', k3)" "same_child c c'"
      using child_wait_reports [of c k2 i False] Suc.prems(1) False i k2 unfolding k3_def by metis
    have "\<exists>c'' k'. destroy_loop k3 c' = Some (Inr (c'', k')) \<and> terminated c'' \<and> same_child c' c''"
      by (rule Suc.IH) (use Suc.prems c' k2 in \<open>auto simp: k3_def reports_def same_child_def\<close>)
    moreover have "destroy_loop k c = destroy_loop k3 c'"
      using False k2(1) c'(1) by (subst destroy_loop.simps) (simp add: destroy_round_eq)
    ultimately show ?thesis using c'(2) by (auto simp: same_child_def)
  qed
qed

end
