(* ===== verification/Event_Loop.thy ===== *)
theory Event_Loop
  imports Child_Process
begin

text \<open>
  \<open>src/util/event_loop.cc\<close> and \<open>src/util/signalfd.cc\<close>: the loop that polls the descriptors of
  an application together with a signal descriptor, and what it does with each signal.
\<close>

section \<open>Signals by descriptor\<close>

text \<open>A mask as a set of signal numbers; \<open>operator==\<close> compares those below \<open>SIGRTMAX\<close> (64).\<close>

type_synonym signal_mask = "int set"

definition event_loop_signals :: signal_mask where
  "event_loop_signals = {SIGCHLD, SIGCONT, SIGHUP, SIGTERM, SIGQUIT, SIGINT}"

definition mask_eq :: "signal_mask \<Rightarrow> signal_mask \<Rightarrow> bool" where
  "mask_eq m n \<longleftrightarrow> (\<forall>signum \<in> set [0..63]. signum \<in> m \<longleftrightarrow> signum \<in> n)"

text \<open>A \<open>signalfd_siginfo\<close> has 128 bytes, of which the first four are \<open>ssi_signo\<close>.\<close>

definition sizeof_siginfo :: nat where "sizeof_siginfo = 128"

definition ssi_signo :: "string \<Rightarrow> int" where
  "ssi_signo s =
     (case map of_char (take 4 s) of
        [a, b, c, d] \<Rightarrow> a + 256 * b + 65536 * c + 16777216 * d | _ \<Rightarrow> 0)"

definition read_signal :: "reads \<Rightarrow> file_descriptor \<Rightarrow> (int \<times> file_descriptor \<times> reads) res" where
  "read_signal r f =
     bindR (fd_read r f sizeof_siginfo) (\<lambda>(s, f', r').
       if length s \<noteq> sizeof_siginfo then Inl (Runtime_error ''signalfd read size mismatch'')
       else Inr (ssi_signo s, f', r'))"

section \<open>The handler\<close>

type_synonym children = "(int \<times> child_process) list"

text \<open>\<open>all_of\<close> the children \<open>terminated()\<close>, in order, up to the first that is not.\<close>

fun all_terminated :: "children \<Rightarrow> bool res" where
  "all_terminated [] = Inr True"
| "all_terminated ((_, c) # cps) =
     bindR (child_terminated c) (\<lambda>t. if t then all_terminated cps else Inr False)"

fun resume_all :: "children \<Rightarrow> os \<Rightarrow> os res" where
  "resume_all [] k = Inr k"
| "resume_all ((_, c) # cps) k = bindR (child_resume k c) (resume_all cps)"

text \<open>The search for waitable children: \<open>pre\<close> are those already looked at.\<close>

fun reap :: "children \<Rightarrow> children \<Rightarrow> os \<Rightarrow> (action_result \<times> children \<times> os) res" where
  "reap pre [] k = Inr ((Continue, 0), pre, k)"
| "reap pre ((continue_status, c) # cps) k =
     bindR (child_terminated c) (\<lambda>over.
     bindR (if over then Inr (False, k) else waitable k c) (\<lambda>(w, k1).
       if \<not> w then reap (pre @ [(continue_status, c)]) cps k1
       else
         bindR (child_wait True k1 c) (\<lambda>(c', k2).
         bindR (child_terminated c') (\<lambda>over'.
           if over' then
             bindR (child_exit_status c') (\<lambda>status.
             if status \<noteq> 0 \<and> status \<noteq> continue_status then child_throw_exception c'
             else
               bindR (all_terminated (pre @ (continue_status, c') # cps)) (\<lambda>all.
                 Inr ((if all then Exit else if status = continue_status then Continue else Exit, 0),
                      pre @ (continue_status, c') # cps, k2)))
           else
             bindR (child_running c') (\<lambda>r.
             bindR (if r then Inr k2 else send_signal ''raise'' k2 0 SIGSTOP) (\<lambda>k3.
               reap (pre @ [(continue_status, c')]) cps k3))))))"

definition handle_signal :: "int \<Rightarrow> children \<Rightarrow> os \<Rightarrow> (action_result \<times> children \<times> os) res" where
  "handle_signal ssi cps k =
     (if ssi = SIGCONT then bindR (resume_all cps k) (\<lambda>k'. Inr ((Continue, 0), cps, k'))
      else if ssi = SIGCHLD then
        if cps = [] then Inl (Runtime_error ''received SIGCHLD without any managed children'')
        else reap [] cps k
      else if ssi \<in> {SIGHUP, SIGTERM, SIGQUIT, SIGINT} then Inr ((Exit, 0), cps, k)
      else Inl (Runtime_error ''EventLoop: unknown signal''))"

section \<open>The loop\<close>

text \<open>What an event loop owns; an application extends the record with its own state.\<close>

record loop_state =
  signal_fd :: file_descriptor
  signal_reads :: reads
  child_processes :: children
  loop_os :: os

definition signal_callback :: "'a loop_state_scheme \<Rightarrow> (action_result \<times> 'a loop_state_scheme) res" where
  "signal_callback s =
     bindR (read_signal (signal_reads s) (signal_fd s)) (\<lambda>(ssi, f, r).
     bindR (handle_signal ssi (child_processes s) (loop_os s)) (\<lambda>(result, cps, k).
       Inr (result, s\<lparr>signal_fd := f, signal_reads := r, child_processes := cps, loop_os := k\<rparr>)))"

definition add_simple_input_handler ::
  "('s \<Rightarrow> file_descriptor) \<Rightarrow> ('s \<Rightarrow> (action_result \<times> 's) res) \<Rightarrow> 's \<Rightarrow> 's poller \<Rightarrow> 's poller" where
  "add_simple_input_handler fd cb s p = add_action (action_new fd In cb (\<lambda>_. True)) s p"

definition add_special_child_process :: "int \<Rightarrow> child_process \<Rightarrow> 'a loop_state_scheme \<Rightarrow> 'a loop_state_scheme" where
  "add_special_child_process continue_status c s =
     s\<lparr>child_processes := child_processes s @ [(continue_status, c)]\<rparr>"

definition add_child_process :: "child_process \<Rightarrow> 'a loop_state_scheme \<Rightarrow> 'a loop_state_scheme" where
  "add_child_process = add_special_child_process (- 1)"

text \<open>The rounds of \<open>internal_loop\<close>: the timeout is computed anew for each call of \<open>poll\<close>.\<close>

fun loop_rounds ::
  "kernel list \<Rightarrow> ('s \<Rightarrow> (int \<times> 's) res) \<Rightarrow> 's poller \<Rightarrow> 's \<Rightarrow> (u32 option \<times> 's poller \<times> 's) res" where
  "loop_rounds [] wait_time p s = Inr (None, p, s)"
| "loop_rounds (k # ks) wait_time p s =
     bindR (wait_time s) (\<lambda>(t, s1).
     bindR (poll k t p s1) (\<lambda>((r, status), p', s').
       if r = Poll_exit then Inr (Some status, p', s') else loop_rounds ks wait_time p' s'))"

text \<open>
  \<open>internal_loop\<close> between the loss of privileges and their return, with its descriptor for signals; the
  whole of it, with both, is \<open>internal_loop\<close> of \<open>Signals\<close>.
\<close>

definition unprivileged_loop ::
  "signal_mask \<Rightarrow> kernel list \<Rightarrow> ('a loop_state_scheme \<Rightarrow> (int \<times> 'a loop_state_scheme) res) \<Rightarrow>
   'a loop_state_scheme poller \<Rightarrow> 'a loop_state_scheme \<Rightarrow>
   (u32 option \<times> 'a loop_state_scheme poller \<times> 'a loop_state_scheme) res" where
  "unprivileged_loop current_mask ks wait_time p s =
     (if \<not> mask_eq event_loop_signals current_mask
      then Inl (Runtime_error ''EventLoop: signal mask has been altered'')
      else loop_rounds ks wait_time
             (add_simple_input_handler signal_fd signal_callback s p) s)"

section \<open>What the handler does with the children\<close>

definition present :: "children \<Rightarrow> bool" where
  "present cps \<longleftrightarrow> (\<forall>x \<in> set cps. \<not> moved_away (snd x))"

definition over :: "int \<times> child_process \<Rightarrow> bool" where
  "over x \<longleftrightarrow> terminated (snd x)"

lemma present_simps [simp]:
  "present []" "present (x # xs) \<longleftrightarrow> \<not> moved_away (snd x) \<and> present xs"
  "present (xs @ ys) \<longleftrightarrow> present xs \<and> present ys"
  by (auto simp: present_def)

lemma all_terminated_eq: "present cps \<Longrightarrow> all_terminated cps = Inr (\<forall>x \<in> set cps. over x)"
  by (induction cps rule: all_terminated.induct) (auto simp: child_terminated_def over_def)

text \<open>
  The outcome of the search, from what the kernel reports.  \<open>looked_at cps rs cps' n\<close>: the search has
  gone through the children \<open>cps\<close>, the calls of \<open>waitid\<close> reported \<open>rs\<close>, none of them an end, the children are
  now \<open>cps'\<close>, and \<open>n\<close> times one was found stopped.  A child that had ended before is not asked for; one of which
  there is nothing to report has the process number 0 in its report; a stop or continuation is
  reported twice, because the first question leaves it waitable.
\<close>

inductive looked_at :: "children \<Rightarrow> siginfo list \<Rightarrow> children \<Rightarrow> nat \<Rightarrow> bool" where
  looked_nil: "looked_at [] [] [] 0"
| looked_over: "over x \<Longrightarrow> looked_at cps rs cps' n \<Longrightarrow> looked_at (x # cps) rs (x # cps') n"
| looked_same: "\<not> over x \<Longrightarrow> si_pid r = 0 \<Longrightarrow> looked_at cps rs cps' n \<Longrightarrow> looked_at (x # cps) (r # rs) (x # cps') n"
| looked_stopped: "\<not> terminated c \<Longrightarrow> si_pid q = child_pid c \<Longrightarrow> reports r c \<Longrightarrow> si_code r = CLD_STOPPED \<Longrightarrow>
    looked_at cps rs cps' n \<Longrightarrow>
    looked_at ((special, c) # cps) (q # r # rs) ((special, c\<lparr>running := False\<rparr>) # cps') (Suc n)"
| looked_continued: "\<not> terminated c \<Longrightarrow> si_pid q = child_pid c \<Longrightarrow> reports r c \<Longrightarrow> si_code r = CLD_CONTINUED \<Longrightarrow>
    looked_at cps rs cps' n \<Longrightarrow>
    looked_at ((special, c) # cps) (q # r # rs) ((special, c\<lparr>running := True\<rparr>) # cps') n"

text \<open>What the kernel reports next, and its state when that was reported and SIGSTOP was raised some times.\<close>

definition reported :: "(nat \<Rightarrow> siginfo option) \<Rightarrow> siginfo list \<Rightarrow> bool" where
  "reported w rs \<longleftrightarrow> (\<forall>i < length rs. w i = Some (rs ! i))"

definition raisable :: "(nat \<Rightarrow> int) \<Rightarrow> nat \<Rightarrow> bool" where
  "raisable f n \<longleftrightarrow> (\<forall>i < n. 0 \<le> f i)"

definition afterwards :: "os \<Rightarrow> siginfo list \<Rightarrow> nat \<Rightarrow> os" where
  "afterwards k rs n = \<lparr>waits = \<lambda>i. waits k (i + length rs), kills = \<lambda>i. kills k (i + n),
     signalled = signalled k @ replicate n (0, SIGSTOP)\<rparr>"

text \<open>The child as the report of its end leaves it.\<close>

definition ended_by :: "siginfo \<Rightarrow> child_process \<Rightarrow> child_process" where
  "ended_by r c = c\<lparr>terminated := True, exit_status := si_status r,
     died_on_signal := (si_code r \<noteq> CLD_EXITED \<or> died_on_signal c)\<rparr>"

lemma reported_simps [simp]:
  "reported w []" "reported w (r # rs) \<longleftrightarrow> w 0 = Some r \<and> reported (\<lambda>i. w (Suc i)) rs"
  by (auto simp: reported_def less_Suc_eq_0_disj nth_Cons split: nat.splits)

lemma reported_append [simp]: "reported w (rs @ ss) \<longleftrightarrow> reported w rs \<and> reported (\<lambda>i. w (i + length rs)) ss"
  by (induction rs arbitrary: w) simp_all

lemma raisable_simps [simp]:
  "raisable f 0" "raisable f (Suc n) \<longleftrightarrow> 0 \<le> f 0 \<and> raisable (\<lambda>i. f (Suc i)) n"
  by (auto simp: raisable_def less_Suc_eq_0_disj)

lemma afterwards_nil [simp]: "afterwards k [] 0 = k"
  by (simp add: afterwards_def)

lemma afterwards_waits [simp]: "waits (afterwards k rs n) = (\<lambda>i. waits k (i + length rs))"
  by (simp add: afterwards_def)

lemma waitable_reported:
  assumes "\<not> moved_away c" "\<not> terminated c" "waits k 0 = Some r"
  shows "si_pid r = 0 \<Longrightarrow> waitable k c = Inr (False, k\<lparr>waits := \<lambda>n. waits k (Suc n)\<rparr>)"
    "si_pid r = child_pid c \<Longrightarrow> si_pid r \<noteq> 0 \<Longrightarrow> waitable k c = Inr (True, k\<lparr>waits := \<lambda>n. waits k (Suc n)\<rparr>)"
  using assms by (simp_all add: waitable_def waitid_def)

lemma waitable_Inr:
  assumes "waitable k c = Inr (w, k')"
  obtains r where "waits k 0 = Some r" "k' = k\<lparr>waits := \<lambda>n. waits k (Suc n)\<rparr>" "\<not> moved_away c" "\<not> terminated c"
    "w \<longleftrightarrow> si_pid r \<noteq> 0" "w \<Longrightarrow> si_pid r = child_pid c"
  using assms by (auto simp: waitable_def waitid_def res_simps split: option.splits if_splits)

lemma child_wait_cases:
  assumes "child_wait True k c = Inr (c', k')"
  obtains r where "waits k 0 = Some r" "k' = k\<lparr>waits := \<lambda>n. waits k (Suc n)\<rparr>" "reports r c"
    "ends r \<and> c' = ended_by r c \<or> si_code r = CLD_STOPPED \<and> c' = c\<lparr>running := False\<rparr> \<or>
     si_code r = CLD_CONTINUED \<and> c' = c\<lparr>running := True\<rparr>"
  using assms
  by (auto simp: child_wait_def waitid_def res_simps ends_def reports_def ended_by_def
      split: option.splits si_code.splits if_splits)

lemma child_wait_ended:
  assumes "\<not> moved_away c" "\<not> terminated c" "waits k 0 = Some r" "reports r c" "ends r"
  shows "child_wait True k c = Inr (ended_by r c, k\<lparr>waits := \<lambda>n. waits k (Suc n)\<rparr>)"
  using assms by (auto simp: child_wait_def waitid_def ends_def reports_def ended_by_def)

lemma child_wait_changed:
  assumes "\<not> moved_away c" "\<not> terminated c" "waits k 0 = Some r" "reports r c" "si_code r = CLD_STOPPED \<or> si_code r = CLD_CONTINUED"
  shows "child_wait True k c = Inr (c\<lparr>running := (si_code r = CLD_CONTINUED)\<rparr>, k\<lparr>waits := \<lambda>n. waits k (Suc n)\<rparr>)"
  using assms by (auto simp: child_wait_def waitid_def reports_def)

text \<open>The search goes past children of which no end is reported.\<close>

lemma reap_looked_at:
  "looked_at cps rs cps' n \<Longrightarrow> reported (waits k) rs \<Longrightarrow> raisable (kills k) n \<Longrightarrow> present cps \<Longrightarrow>
   reap pre (cps @ rest) k = reap (pre @ cps') rest (afterwards k rs n)"
proof (induction arbitrary: pre k rule: looked_at.induct)
  case looked_nil
  then show ?case by simp
next
  case (looked_over x cps rs cps' n)
  obtain special c where x: "x = (special, c)" by (cases x)
  show ?case using looked_over.prems looked_over.hyps(1) looked_over.IH [of k "pre @ [x]"]
    by (simp add: x child_terminated_def over_def)
next
  case (looked_same x r cps rs cps' n)
  obtain special c where x: "x = (special, c)" by (cases x)
  show ?case
    using looked_same.prems looked_same.hyps(1,2) looked_same.IH [of "k\<lparr>waits := \<lambda>n. waits k (Suc n)\<rparr>" "pre @ [x]"]
    by (simp add: x child_terminated_def over_def waitable_reported afterwards_def)
next
  case (looked_stopped c q r cps rs cps' n special)
  let ?k = "k\<lparr>waits := \<lambda>n. waits k (Suc (Suc n)), kills := \<lambda>n. kills k (Suc n), signalled := signalled k @ [(0, SIGSTOP)]\<rparr>"
  have p: "si_pid q \<noteq> 0" using looked_stopped.hyps(2,3) by (simp add: reports_def)
  show ?case
    using looked_stopped.prems looked_stopped.hyps p looked_stopped.IH [of ?k "pre @ [(special, c\<lparr>running := False\<rparr>)]"]
    by (simp add: child_terminated_def waitable_reported child_wait_changed child_running_def send_signal_def afterwards_def)
next
  case (looked_continued c q r cps rs cps' n special)
  let ?k = "k\<lparr>waits := \<lambda>n. waits k (Suc (Suc n))\<rparr>"
  have p: "si_pid q \<noteq> 0" using looked_continued.hyps(2,3) by (simp add: reports_def)
  show ?case
    using looked_continued.prems looked_continued.hyps p looked_continued.IH [of ?k "pre @ [(special, c\<lparr>running := True\<rparr>)]"]
    by (simp add: child_terminated_def waitable_reported child_wait_changed child_running_def afterwards_def)
qed

lemma looked_at_present: "looked_at cps rs cps' n \<Longrightarrow> present cps' \<longleftrightarrow> present cps"
  by (induction rule: looked_at.induct) simp_all

lemma looked_at_length: "looked_at cps rs cps' n \<Longrightarrow> length cps' = length cps"
  by (induction rule: looked_at.induct) simp_all

text \<open>It stops at the first of which an end is reported, and does not look at those after it.\<close>

definition ended_at :: "children \<Rightarrow> siginfo list \<Rightarrow> children \<Rightarrow> nat \<Rightarrow> nat \<Rightarrow> bool" where
  "ended_at cps rs cps' n i \<longleftrightarrow> i < length cps \<and> \<not> over (cps ! i) \<and>
     (\<exists>before q r looked. rs = before @ [q, r] \<and> looked_at (take i cps) before looked n \<and>
        si_pid q = child_pid (snd (cps ! i)) \<and> reports r (snd (cps ! i)) \<and> ends r \<and>
        cps' = looked @ (fst (cps ! i), ended_by r (snd (cps ! i))) # drop (Suc i) cps)"

lemma reap_end:
  assumes "present (pre @ (special, c) # cps)" "\<not> terminated c" "reported (waits k) [q, r]"
    "si_pid q = child_pid c" "reports r c" "ends r"
  shows "reap pre ((special, c) # cps) k =
    (if si_status r \<noteq> 0 \<and> si_status r \<noteq> special then child_throw_exception (ended_by r c)
     else Inr ((if (\<forall>x \<in> set (pre @ (special, ended_by r c) # cps). over x) \<or> si_status r \<noteq> special then Exit else Continue, 0),
       pre @ (special, ended_by r c) # cps, afterwards k [q, r] 0))"
proof -
  let ?k1 = "k\<lparr>waits := \<lambda>n. waits k (Suc n)\<rparr>"
  let ?k2 = "k\<lparr>waits := \<lambda>n. waits k (Suc (Suc n))\<rparr>"
  have p: "\<not> moved_away c" "si_pid q \<noteq> 0" using assms(1,4,5) by (simp_all add: reports_def)
  have w: "waitable k c = Inr (True, ?k1)"
    using waitable_reported(2) [OF p(1) assms(2) _ assms(4) p(2)] assms(3) by simp
  have cw: "child_wait True ?k1 c = Inr (ended_by r c, ?k2)"
    using child_wait_ended [OF p(1) assms(2) _ assms(5,6), of ?k1] assms(3) by simp
  have m: "terminated (ended_by r c)" "\<not> moved_away (ended_by r c)" "exit_status (ended_by r c) = si_status r"
    using p(1) by (simp_all add: ended_by_def)
  have all: "all_terminated (pre @ (special, ended_by r c) # cps) = Inr (\<forall>x \<in> set (pre @ (special, ended_by r c) # cps). over x)"
    by (rule all_terminated_eq) (use assms(1) m(2) in simp)
  have k2: "afterwards k [q, r] 0 = ?k2" by (cases k) (simp add: afterwards_def)
  show ?thesis
    using assms(2) p(1) w cw m all by (simp add: child_terminated_def child_exit_status_def k2)
qed

lemma throw_not_Inr: "child_throw_exception c \<noteq> Inr x"
  by (auto simp: child_throw_exception_def res_simps)

lemma reap_outcome:
  "reap pre cps k = Inr ((t, st), out, k') \<Longrightarrow> present (pre @ cps) \<Longrightarrow>
   \<exists>cps' rs n. st = 0 \<and> out = pre @ cps' \<and> reported (waits k) rs \<and> raisable (kills k) n \<and> k' = afterwards k rs n \<and>
     (t = Continue \<and> looked_at cps rs cps' n \<or>
      (\<exists>i. ended_at cps rs cps' n i \<and>
        (let status = exit_status (snd (cps' ! i)); special = fst (cps ! i) in
          (status = 0 \<or> status = special) \<and>
          t = (if (\<forall>x \<in> set out. over x) \<or> status \<noteq> special then Exit else Continue))))"
proof (induction pre cps k rule: reap.induct)
  case (1 pre k)
  then show ?case by (intro exI [of _ "[]"] exI [of _ 0]) (auto intro: looked_nil)
next
  case (2 pre special c cps k)
  let ?fin = "\<lambda>pre cps k cps' rs n. st = 0 \<and> out = pre @ cps' \<and> reported (waits k) rs \<and> raisable (kills k) n \<and> k' = afterwards k rs n \<and>
     (t = Continue \<and> looked_at cps rs cps' n \<or>
      (\<exists>i. ended_at cps rs cps' n i \<and>
        (let status = exit_status (snd (cps' ! i)); special = fst (cps ! i) in
          (status = 0 \<or> status = special) \<and>
          t = (if (\<forall>x \<in> set out. over x) \<or> status \<noteq> special then Exit else Continue))))"
  have c: "\<not> moved_away c" "present pre" "present cps" using "2.prems"(2) by simp_all
  obtain w k1 where w: "(if terminated c then Inr (False, k) else waitable k c) = Inr (w, k1)"
    using "2.prems"(1) c by (auto simp: res_simps child_terminated_def)
  have looked: ?case
    if fin: "?fin (pre @ [(special, c')]) cps k2 cps' rs n"
      and step: "\<And>cps rs cps' n. looked_at cps rs cps' n \<Longrightarrow> looked_at ((special, c) # cps) (new @ rs) ((special, c') # cps') (raises + n)"
      and new: "reported (waits k) (new @ rs)" "raisable (kills k) (raises + n)" "afterwards k2 rs n = afterwards k (new @ rs) (raises + n)"
    for c' k2 cps' rs n new raises
  proof -
    have "t = Continue \<and> looked_at ((special, c) # cps) (new @ rs) ((special, c') # cps') (raises + n) \<or>
      (\<exists>i. ended_at ((special, c) # cps) (new @ rs) ((special, c') # cps') (raises + n) i \<and>
        (let status = exit_status (snd (((special, c') # cps') ! i)); special = fst (((special, c) # cps) ! i) in
          (status = 0 \<or> status = special) \<and>
          t = (if (\<forall>x \<in> set out. over x) \<or> status \<noteq> special then Exit else Continue)))"
    proof (cases "t = Continue \<and> looked_at cps rs cps' n")
      case True
      with step show ?thesis by blast
    next
      case False
      with fin obtain i where i: "ended_at cps rs cps' n i"
        "let status = exit_status (snd (cps' ! i)); special = fst (cps ! i) in
          (status = 0 \<or> status = special) \<and>
          t = (if (\<forall>x \<in> set out. over x) \<or> status \<noteq> special then Exit else Continue)" by blast
      from i(1) have "ended_at ((special, c) # cps) (new @ rs) ((special, c') # cps') (raises + n) (Suc i)"
        unfolding ended_at_def using step by (fastforce simp: append_assoc [symmetric] simp del: append_assoc)
      with i(2) show ?thesis by (intro disjI2 exI [of _ "Suc i"]) simp
    qed
    with fin new show ?thesis
      by (intro exI [of _ "(special, c') # cps'"] exI [of _ "new @ rs"] exI [of _ "raises + n"]) simp
  qed
  show ?case
  proof (cases w)
    case False
    have r: "reap (pre @ [(special, c)]) cps k1 = Inr ((t, st), out, k')"
      using "2.prems"(1) c w False by (simp add: child_terminated_def)
    with "2.IH"(1) [of "terminated c" "(w, k1)" w k1] c w False obtain cps' rs n
      where fin: "?fin (pre @ [(special, c)]) cps k1 cps' rs n" by (simp add: child_terminated_def) blast
    show ?thesis
    proof (cases "terminated c")
      case True
      with w have "k1 = k" by simp
      with fin True show ?thesis
        by (intro looked [where new = "[]" and raises = 0, OF fin]) (auto intro: looked_over simp: over_def)
    next
      case nt: False
      with w False obtain q where q: "waits k 0 = Some q" "k1 = k\<lparr>waits := \<lambda>n. waits k (Suc n)\<rparr>" "si_pid q = 0"
        by (auto elim: waitable_Inr)
      with fin nt show ?thesis
        by (intro looked [where new = "[q]" and raises = 0, OF fin])
          (auto intro: looked_same simp: over_def afterwards_def)
    qed
  next
    case True
    then have nt: "\<not> terminated c" and wa: "waitable k c = Inr (w, k1)" using w by (auto split: if_splits)
    then obtain q where q: "waits k 0 = Some q" "k1 = k\<lparr>waits := \<lambda>n. waits k (Suc n)\<rparr>" "si_pid q \<noteq> 0" "si_pid q = child_pid c"
      using True by (auto elim: waitable_Inr)
    obtain c' k2 where cw: "child_wait True k1 c = Inr (c', k2)"
      using "2.prems"(1) c wa nt True by (auto simp: res_simps child_terminated_def)
    then obtain r where r: "waits k1 0 = Some r" "k2 = k1\<lparr>waits := \<lambda>n. waits k1 (Suc n)\<rparr>" "reports r c"
      "ends r \<and> c' = ended_by r c \<or> si_code r = CLD_STOPPED \<and> c' = c\<lparr>running := False\<rparr> \<or>
       si_code r = CLD_CONTINUED \<and> c' = c\<lparr>running := True\<rparr>"
      by (rule child_wait_cases)
    have qr: "reported (waits k) [q, r]" using q(1,2) r(1) by simp
    have m: "\<not> moved_away c'" using r(4) c by (auto simp: ended_by_def)
    show ?thesis
    proof (cases "ends r")
      case False
      with r(4) nt have t': "\<not> terminated c'" by auto
      obtain k3 where k3: "(if running c' then Inr k2 else send_signal ''raise'' k2 0 SIGSTOP) = Inr k3"
        using "2.prems"(1) c wa nt True cw m t'
        by (auto simp: res_simps child_terminated_def child_running_def)
      have "reap (pre @ [(special, c')]) cps k3 = Inr ((t, st), out, k')"
        using "2.prems"(1) c wa nt True cw m t' k3
        by (simp add: child_terminated_def child_running_def)
      with "2.IH"(2) [of "terminated c" "(w, k1)" w k1 "(c', k2)" c' k2 "terminated c'" "running c'" k3]
        c wa nt True cw m t' k3 obtain cps' rs n where fin: "?fin (pre @ [(special, c')]) cps k3 cps' rs n"
        by (simp add: child_terminated_def child_running_def) blast
      from r(4) False consider "si_code r = CLD_STOPPED" "c' = c\<lparr>running := False\<rparr>"
        | "si_code r = CLD_CONTINUED" "c' = c\<lparr>running := True\<rparr>" by blast
      then show ?thesis
      proof cases
        case 1
        with k3 have k3': "0 \<le> kills k 0" "k3 = k\<lparr>waits := \<lambda>n. waits k (Suc (Suc n)), kills := \<lambda>n. kills k (Suc n),
            signalled := signalled k @ [(0, SIGSTOP)]\<rparr>"
          using q(2) r(2) by (simp_all add: send_signal_def split: if_splits)
        with 1 fin nt q(4) r(3) qr show ?thesis
          by (intro looked [where new = "[q, r]" and raises = 1, OF fin])
            (auto intro: looked_stopped simp: afterwards_def)
      next
        case 2
        with k3 have k3': "k3 = k\<lparr>waits := \<lambda>n. waits k (Suc (Suc n))\<rparr>" using q(2) r(2) by simp
        with 2 fin nt q(4) r(3) qr show ?thesis
          by (intro looked [where new = "[q, r]" and raises = 0, OF fin])
            (auto intro: looked_continued simp: afterwards_def)
      qed
    next
      case True
      note e = reap_end [OF "2.prems"(2) nt qr q(4) r(3) True]
      note res = "2.prems"(1) [unfolded e]
      then have "\<not> (si_status r \<noteq> 0 \<and> si_status r \<noteq> special)"
        by (auto simp: throw_not_Inr split: if_splits)
      with res have o: "si_status r = 0 \<or> si_status r = special" "st = 0" "out = pre @ (special, ended_by r c) # cps"
        "k' = afterwards k [q, r] 0"
        "t = (if (\<forall>x \<in> set out. over x) \<or> si_status r \<noteq> special then Exit else Continue)"
        by auto
      have "ended_at ((special, c) # cps) [q, r] ((special, ended_by r c) # cps) 0 0"
        using nt q(4) r(3) True by (auto simp: ended_at_def over_def intro: looked_nil)
      with o qr show ?thesis
        by (intro exI [of _ "(special, ended_by r c) # cps"] exI [of _ "[q, r]"] exI [of _ 0] conjI disjI2)
          (simp_all add: Let_def ended_by_def)
    qed
  qed
qed

text \<open>And conversely.\<close>

lemma reap_ended_at:
  assumes "ended_at cps rs cps' n i" "present cps" "reported (waits k) rs" "raisable (kills k) n"
  shows "reap [] cps k =
    (let c = snd (cps' ! i); special = fst (cps ! i) in
     if exit_status c \<noteq> 0 \<and> exit_status c \<noteq> special then child_throw_exception c
     else Inr ((if (\<forall>x \<in> set cps'. over x) \<or> exit_status c \<noteq> special then Exit else Continue, 0), cps', afterwards k rs n))"
proof -
  obtain before q r looked where e: "i < length cps" "\<not> over (cps ! i)" "rs = before @ [q, r]"
    "looked_at (take i cps) before looked n"
    "si_pid q = child_pid (snd (cps ! i))" "reports r (snd (cps ! i))" "ends r"
    "cps' = looked @ (fst (cps ! i), ended_by r (snd (cps ! i))) # drop (Suc i) cps"
    using assms(1) by (auto simp: ended_at_def)
  obtain special c where x: "cps ! i = (special, c)" by (cases "cps ! i")
  have cps: "cps = take i cps @ (special, c) # drop (Suc i) cps" using e(1) by (simp add: x [symmetric] id_take_nth_drop)
  have p: "present (take i cps)" "present (looked @ (special, c) # drop (Suc i) cps)"
    using assms(2) looked_at_present [OF e(4)] by (subst (asm) cps, simp)+
  let ?k = "afterwards k before n"
  have "reap [] cps k = reap looked ((special, c) # drop (Suc i) cps) ?k"
    by (subst cps, subst reap_looked_at [OF e(4) _ assms(4) p(1)]) (use assms(3) e(3) in simp_all)
  also have "\<dots> = (if si_status r \<noteq> 0 \<and> si_status r \<noteq> special then child_throw_exception (ended_by r c)
     else Inr ((if (\<forall>x \<in> set cps'. over x) \<or> si_status r \<noteq> special then Exit else Continue, 0), cps', afterwards ?k [q, r] 0))"
    using reap_end [OF p(2), of ?k q r] e assms(3) by (simp add: x over_def)
  finally show ?thesis
    using e(1,3,8) looked_at_length [OF e(4)] by (simp add: x nth_append Let_def ended_by_def afterwards_def add.assoc)
qed

section \<open>The loop as a client of the poller\<close>

context poller_client
begin

lemma loop_rounds_good:
  assumes "\<And>s t s'. good s \<Longrightarrow> wait_time s = Inr (t, s') \<Longrightarrow> good s'"
  shows "loop_rounds ks wait_time p s = Inr (r, p', s') \<Longrightarrow> good s \<Longrightarrow> like_from 0 (actions p) \<Longrightarrow>
    good s' \<and> like_from 0 (actions p')"
proof (induction ks arbitrary: p s)
  case (Cons k ks)
  obtain t s1 pr st p2 s2 where w: "wait_time s = Inr (t, s1)"
    and po: "poll k t p s1 = Inr ((pr, st), p2, s2)"
    using Cons.prems(1) by (auto simp: res_simps)
  have "good s1" by (rule assms [OF Cons.prems(2) w])
  then have g: "good s2 \<and> like_from 0 (actions p2)" by (rule poll_good [OF po _ Cons.prems(3)])
  show ?case
  proof (cases "pr = Poll_exit")
    case True
    with w po g Cons.prems(1) show ?thesis by simp
  next
    case False
    with w po g Cons show ?thesis by simp
  qed
qed simp

end

end
