(* ===== verification/Ferry_Loop.thy ===== *)
theory Ferry_Loop
  imports Event_Loop Ferry_Queues
begin

text \<open>
  \<open>PacketShell::Ferry::loop\<close> of \<open>src/packet/packetshell.cc\<close>: the event loop that moves
  packets from the TUN device through a ferry queue to the sibling's device.  The handlers of
  the DNS proxy, which are registered on the same loop, do not touch this state and are left
  out.  \<open>pending_output\<close> reads the clock while \<open>poll\<close> collects the interests; those readings
  are a second sequence, so that the time may pass (or jump) before the callback runs.
\<close>

section \<open>The state and the callbacks\<close>

record 'q ferry_world = loop_state +
  ferry_queue_state :: 'q
  tun :: file_descriptor
  tun_reads :: reads
  sibling :: file_descriptor
  sibling_writes :: writes
  ferry_clock :: clock
  interest_clock :: clock
  tun_datagrams :: "string list"        \<comment> \<open>what the TUN device has delivered\<close>

text \<open>A loop of the queue that does not end, which C++ leaves undefined.\<close>

definition returns :: "'a res option \<Rightarrow> 'a res" where
  "returns m = (case m of None \<Rightarrow> Inl (Undefined_behaviour ''loop without end'') | Some r \<Rightarrow> r)"

definition ferry_input :: "'q ferry_ops \<Rightarrow> 'q ferry_world \<Rightarrow> (action_result \<times> 'q ferry_world) res" where
  "ferry_input ops s =
     bindR (fd_read (tun_reads s) (tun s) buffer_size) (\<lambda>(datagram, f, r).
     bindR (returns (f_read ops (ferry_clock s) datagram (ferry_queue_state s))) (\<lambda>(q, c).
       Inr ((Continue, 0), s\<lparr>tun := f, tun_reads := r, tun_datagrams := tun_datagrams s @ [datagram],
                             ferry_queue_state := q, ferry_clock := c\<rparr>)))"

definition ferry_output :: "'q ferry_ops \<Rightarrow> 'q ferry_world \<Rightarrow> (action_result \<times> 'q ferry_world) res" where
  "ferry_output ops s =
     bindR (f_write ops (ferry_clock s) (sibling_writes s) (sibling s) (ferry_queue_state s)) (\<lambda>(q, f, w, c).
       Inr ((Continue, 0), s\<lparr>ferry_queue_state := q, sibling := f, sibling_writes := w, ferry_clock := c\<rparr>))"

definition ferry_exit :: "'q ferry_world \<Rightarrow> (action_result \<times> 'q ferry_world) res" where
  "ferry_exit s = Inr ((Exit, 77), s)"

definition ferry_actions :: "'q ferry_ops \<Rightarrow> 'q ferry_world action list" where
  "ferry_actions ops =
     [action_new tun In (ferry_input ops) (\<lambda>_. True),
      action_new sibling Out (ferry_output ops) (\<lambda>s. f_pending ops (interest_clock s) (ferry_queue_state s)),
      action_new sibling Out ferry_exit (\<lambda>s. f_finished ops (ferry_queue_state s)),
      action_new signal_fd In signal_callback (\<lambda>_. True)]"

text \<open>\<open>wait_time\<close> returns an \<open>unsigned int\<close>, which the loop's \<open>function<int()>\<close> converts.\<close>

definition ferry_wait :: "'q ferry_ops \<Rightarrow> 'q ferry_world \<Rightarrow> (int \<times> 'q ferry_world) res" where
  "ferry_wait ops s =
     bindR (returns (f_wait ops (ferry_clock s) (ferry_queue_state s))) (\<lambda>(ms, q, c).
       Inr (sint ms, s\<lparr>ferry_queue_state := q, ferry_clock := c,
                       interest_clock := \<lambda>n. interest_clock s (Suc n)\<rparr>))"

text \<open>What the ferry does between the loss of privileges by \<open>internal_loop\<close> and their return.\<close>

definition ferry_loop ::
  "'q ferry_ops \<Rightarrow> signal_mask \<Rightarrow> kernel list \<Rightarrow> 'q ferry_world \<Rightarrow>
   (u32 option \<times> 'q ferry_world poller \<times> 'q ferry_world) res" where
  "ferry_loop ops current_mask ks s =
     (let p1 = add_simple_input_handler tun (ferry_input ops) s poller_new;
          p2 = add_action (action_new sibling Out (ferry_output ops)
                 (\<lambda>s. f_pending ops (interest_clock s) (ferry_queue_state s))) s p1;
          p3 = add_action (action_new sibling Out ferry_exit
                 (\<lambda>s. f_finished ops (ferry_queue_state s))) s p2
      in unprivileged_loop current_mask ks (ferry_wait ops) p3 s)"

section \<open>Packets keep their order through the loop\<close>

text \<open>A ferry queue that asks nothing of the packets and of the clock.\<close>

locale open_ferry_queue = ferry_queue +
  assumes any_packet: "inv s \<Longrightarrow> fits c p s"
    and any_clock: "inv s \<Longrightarrow> awake c s"
begin

text \<open>Since the state \<open>s0\<close>: what went out and is held is a subsequence of what came in.\<close>

definition ferried :: "'a ferry_world \<Rightarrow> 'a ferry_world \<Rightarrow> bool" where
  "ferried s0 s \<longleftrightarrow> inv (ferry_queue_state s) \<and>
     (\<exists>came out. tun_datagrams s = tun_datagrams s0 @ came \<and>
        concat (sent (sibling s)) = concat (sent (sibling s0)) @ concat out \<and>
        subseq (out @ held (ferry_queue_state s)) (held (ferry_queue_state s0) @ came))"

lemma ferried_refl: "inv (ferry_queue_state s) \<Longrightarrow> ferried s s"
  by (auto simp: ferried_def intro: exI [of _ "[]"])

lemma ferried_input:
  assumes "ferried s0 s" "ferry_input ops s = Inr (r, s')"
  shows "ferried s0 s' \<and> r = (Continue, 0)"
proof -
  obtain d f rd q c where q: "f_read ops (ferry_clock s) d (ferry_queue_state s) = Some (Inr (q, c))"
    and s': "s' = s\<lparr>tun := f, tun_reads := rd, tun_datagrams := tun_datagrams s @ [d],
      ferry_queue_state := q, ferry_clock := c\<rparr>" "r = (Continue, 0)"
    using assms(2) by (auto simp: ferry_input_def returns_def res_simps split: option.splits)
  obtain came out where o: "inv (ferry_queue_state s)" "tun_datagrams s = tun_datagrams s0 @ came"
    "concat (sent (sibling s)) = concat (sent (sibling s0)) @ concat out"
    "subseq (out @ held (ferry_queue_state s)) (held (ferry_queue_state s0) @ came)"
    using assms(1) by (auto simp: ferried_def)
  have h: "inv q \<and> subseq (held q) (held (ferry_queue_state s) @ [d])"
    by (rule read_ok [OF o(1) any_packet [OF o(1)] q])
  then have "subseq (out @ held q) ((out @ held (ferry_queue_state s)) @ [d])"
    by (simp add: subseq_append')
  also have "subseq \<dots> ((held (ferry_queue_state s0) @ came) @ [d])"
    using o(4) by (simp only: subseq_append)
  finally have "subseq (out @ held q) (held (ferry_queue_state s0) @ (came @ [d]))" by simp
  with h o(2,3) s' show ?thesis by (auto simp: ferried_def intro!: exI [of _ "came @ [d]"] exI [of _ out])
qed

lemma ferried_output:
  assumes "ferried s0 s" "ferry_output ops s = Inr (r, s')"
  shows "ferried s0 s' \<and> r = (Continue, 0)"
proof -
  obtain q f w c where q: "f_write ops (ferry_clock s) (sibling_writes s) (sibling s) (ferry_queue_state s) =
      Inr (q, f, w, c)"
    and s': "s' = s\<lparr>ferry_queue_state := q, sibling := f, sibling_writes := w, ferry_clock := c\<rparr>"
      "r = (Continue, 0)"
    using assms(2) by (auto simp: ferry_output_def res_simps)
  obtain came out where o: "inv (ferry_queue_state s)" "tun_datagrams s = tun_datagrams s0 @ came"
    "concat (sent (sibling s)) = concat (sent (sibling s0)) @ concat out"
    "subseq (out @ held (ferry_queue_state s)) (held (ferry_queue_state s0) @ came)"
    using assms(1) by (auto simp: ferried_def)
  from write_ok [OF o(1) q] obtain out' where "inv q" "held (ferry_queue_state s) = out' @ held q"
    "concat (sent f) = concat (sent (sibling s)) @ concat out'" by blast
  with o s' show ?thesis
    by (auto simp: ferried_def intro!: exI [of _ came] exI [of _ "out @ out'"])
qed

lemma ferried_wait:
  assumes "ferried s0 s" "ferry_wait ops s = Inr (t, s')"
  shows "ferried s0 s'"
proof -
  obtain ms q c where q: "f_wait ops (ferry_clock s) (ferry_queue_state s) = Some (Inr (ms, q, c))"
    and s': "s' = s\<lparr>ferry_queue_state := q, ferry_clock := c,
      interest_clock := \<lambda>n. interest_clock s (Suc n)\<rparr>"
    using assms(2) by (auto simp: ferry_wait_def returns_def res_simps split: option.splits)
  obtain came out where o: "inv (ferry_queue_state s)" "tun_datagrams s = tun_datagrams s0 @ came"
    "concat (sent (sibling s)) = concat (sent (sibling s0)) @ concat out"
    "subseq (out @ held (ferry_queue_state s)) (held (ferry_queue_state s0) @ came)"
    using assms(1) by (auto simp: ferried_def)
  have h: "inv q \<and> subseq (held q) (held (ferry_queue_state s))"
    by (rule wait_ok [OF o(1) any_clock [OF o(1)] q])
  then have "subseq (out @ held q) (out @ held (ferry_queue_state s))" by (simp add: subseq_append')
  also note o(4)
  finally show ?thesis
    using h o(2,3) s' by (auto simp: ferried_def intro!: exI [of _ came] exI [of _ out])
qed

lemma ferried_signal:
  assumes "ferried s0 s" "signal_callback s = Inr (r, s')"
  shows "ferried s0 s'"
  using assms by (auto simp: signal_callback_def res_simps ferried_def)

lemma ferry_index: "i < length (ferry_actions ops) \<longleftrightarrow> i = 0 \<or> i = 1 \<or> i = 2 \<or> i = 3"
  by (auto simp: ferry_actions_def)

lemma ferried_callback:
  assumes "i < length (ferry_actions ops)" "ferried s0 s" "callback (ferry_actions ops ! i) s = Inr (r, s')"
  shows "ferried s0 s'"
proof -
  from assms(1) consider "i = 0" | "i = 1" | "i = 2" | "i = 3" by (auto simp: ferry_index)
  then show ?thesis
  proof cases
    case 1
    with assms(3) have "ferry_input ops s = Inr (r, s')"
      by (simp add: ferry_actions_def action_new_def)
    with ferried_input [OF assms(2)] show ?thesis by blast
  next
    case 2
    with assms(3) have "ferry_output ops s = Inr (r, s')"
      by (simp add: ferry_actions_def action_new_def)
    with ferried_output [OF assms(2)] show ?thesis by blast
  next
    case 3
    with assms(2,3) show ?thesis by (simp add: ferry_actions_def action_new_def ferry_exit_def)
  next
    case 4
    with assms(3) have "signal_callback s = Inr (r, s')"
      by (simp add: ferry_actions_def action_new_def)
    then show ?thesis by (rule ferried_signal [OF assms(2)])
  qed
qed

end

sublocale open_ferry_queue \<subseteq> loop: poller_client "ferry_actions ops" "ferried s0" "\<lambda>_ _. True" "\<lambda>_. True"
  for s0
  by unfold_locales (auto intro: ferried_callback)

context open_ferry_queue
begin

lemma ferry_loop_ferried:
  assumes "inv (ferry_queue_state s)" "ferry_loop ops current_mask ks s = Inr (r, p', s')"
  shows "ferried s s'"
proof -
  define p where "p = add_simple_input_handler signal_fd signal_callback s
    (add_action (action_new sibling Out ferry_exit (\<lambda>s. f_finished ops (ferry_queue_state s))) s
      (add_action (action_new sibling Out (ferry_output ops)
          (\<lambda>s. f_pending ops (interest_clock s) (ferry_queue_state s))) s
        (add_simple_input_handler tun (ferry_input ops) s poller_new)))"
  have "actions p = ferry_actions ops"
    by (simp add: p_def add_simple_input_handler_def add_action_def poller_new_def ferry_actions_def)
  then have l: "loop.like_from 0 (actions p)"
    by (auto simp: loop.like_from_def)
  have "loop_rounds ks (ferry_wait ops) p s = Inr (r, p', s')"
    using assms(2) by (simp add: ferry_loop_def unprivileged_loop_def p_def Let_def split: if_splits)
  from loop.loop_rounds_good [OF _ this ferried_refl [OF assms(1)] l] ferried_wait show ?thesis
    by blast
qed

end

section \<open>The queues of the shells\<close>

interpretation delay_ferry: open_ferry_queue delay_ops "\<lambda>q. map snd (delayed q)" "\<lambda>_. True" "\<lambda>_ _ _. True" "\<lambda>_ _. True"
  by unfold_locales simp_all

interpretation iid_ferry: open_ferry_queue "iid_ops bernoulli" loss_packets "\<lambda>_. True" "\<lambda>_ _ _. True" "\<lambda>_ _. True"
  for bernoulli
  by unfold_locales simp_all

interpretation meter_ferry: open_ferry_queue meter_ops meter_packets "\<lambda>_. True" "\<lambda>_ _ _. True" "\<lambda>_ _. True"
  by unfold_locales simp_all

end
