(* ===== verification/Replay_Server.thy ===== *)
theory Replay_Server
  imports Util Backing_Store Well_Defined
begin

text \<open>
  The CGI programs that answer requests from a recording: \<open>src/frontend/replayserver.cc\<close> and
  \<open>src/frontend/replayserver_delay.cc\<close>, which also delays the answer by what a file says.
  Both have the same selection of the best match, modelled once.
\<close>

section \<open>Does a stored request match?\<close>

definition safe_getenv :: "environment \<Rightarrow> string \<Rightarrow> string res" where
  "safe_getenv env name =
     (case env name of
        None \<Rightarrow> Inl (Runtime_error (''missing environment variable: '' @ name))
      | Some value \<Rightarrow> Inr value)"

definition header_match :: "environment \<Rightarrow> string \<Rightarrow> string \<Rightarrow> http_message \<Rightarrow> bool res" where
  "header_match env env_var_name header_name saved_request =
     (case env env_var_name of
        None \<Rightarrow> Inr (\<not> has_header header_name saved_request)
      | Some env_value \<Rightarrow>
          if has_header header_name saved_request
          then bindR (get_header_value header_name saved_request) (\<lambda>v. Inr (v = env_value))
          else Inr False)"

definition strip_query :: "string \<Rightarrow> string" where
  "strip_query request_line =
     (case str_find request_line ''?'' of
        None \<Rightarrow> request_line
      | Some index \<Rightarrow> take index request_line)"

text \<open>The loop of \<open>match_score\<close>: the first position at which the lines differ.\<close>

function first_difference :: "string \<Rightarrow> string \<Rightarrow> nat \<Rightarrow> nat" where
  "first_difference a b i =
     (let max_match = min (length a) (length b)
      in if i < max_match then if a ! i \<noteq> b ! i then i else first_difference a b (i + 1)
         else max_match)"
  by pat_completeness auto

termination
  by (relation "measure (\<lambda>(a, b, i). min (length a) (length b) - i)") auto

declare first_difference.simps [simp del]

definition match_score :: "environment \<Rightarrow> request_response \<Rightarrow> string \<Rightarrow> bool \<Rightarrow> u32 res" where
  "match_score env saved_record request_line is_https =
     (let saved_request = message_of_protobuf (rr_request saved_record)
      in if is_https \<and> rr_scheme saved_record \<noteq> HTTPS then Inr 0
         else if \<not> is_https \<and> rr_scheme saved_record \<noteq> HTTP then Inr 0
         else bindR (header_match env ''HTTP_HOST'' ''Host'' saved_request) (\<lambda>host.
              if \<not> host then Inr 0
              else bindR (header_match env ''HTTP_USER_AGENT'' ''User-Agent'' saved_request) (\<lambda>agent.
                   if \<not> agent then Inr 0
                   else if strip_query request_line \<noteq> strip_query (first_line saved_request) then Inr 0
                   else Inr (of_nat (first_difference request_line (first_line saved_request) 0)))))"

section \<open>The best match\<close>

text \<open>
  A file of the recording: \<open>None\<close> when it cannot be opened, \<open>Some None\<close> when it is not a
  serialised record.
\<close>

type_synonym record_files = "string \<Rightarrow> request_response option option"

definition load_record :: "record_files \<Rightarrow> string \<Rightarrow> request_response res" where
  "load_record files filename =
     (case files filename of
        None \<Rightarrow> Inl (Unix_error ''open'')
      | Some None \<Rightarrow> Inl (Runtime_error (filename @ '': invalid HTTP request/response''))
      | Some (Some r) \<Rightarrow> Inr r)"

text \<open>The state of the search: the best score so far, and the record that has it (at first an empty one).\<close>

type_synonym search = "u32 \<times> request_response"

definition empty_record :: request_response where
  "empty_record =
     (let none = \<lparr>proto_first_line = [], proto_header = [], proto_body = []\<rparr>
      in \<lparr>rr_ip = [], rr_port = 0, rr_scheme = HTTP, rr_request = none, rr_response = none\<rparr>)"

definition consider_file ::
  "environment \<Rightarrow> record_files \<Rightarrow> string \<Rightarrow> bool \<Rightarrow> string \<Rightarrow> search \<Rightarrow> search res" where
  "consider_file env files request_line is_https filename best =
     (if str_find filename ''save'' \<noteq> None
      then bindR (load_record files filename) (\<lambda>current_record.
           bindR (match_score env current_record request_line is_https) (\<lambda>score.
             Inr (if fst best < score then (score, current_record) else best)))
      else Inr best)"

definition best_match ::
  "environment \<Rightarrow> record_files \<Rightarrow> string \<Rightarrow> bool \<Rightarrow> string list \<Rightarrow> search res" where
  "best_match env files request_line is_https filenames =
     fold_res (consider_file env files request_line is_https) filenames (0, empty_record)"

section \<open>The delay of an answer\<close>

text \<open>\<open>split_line\<close>: the pieces that \<open>getline\<close> with a delimiter returns.\<close>

fun split_line :: "string \<Rightarrow> string \<Rightarrow> char \<Rightarrow> string list" where
  "split_line token [] delimiter = (if token = [] then [] else [token])"
| "split_line token (c # line) delimiter =
     (if c = delimiter then token # split_line [] line delimiter
      else split_line (token @ [c]) line delimiter)"

text \<open>\<open>v[i]\<close> of a vector, which is not checked, and \<open>std::stoi\<close>.\<close>

definition vector_at :: "'a list \<Rightarrow> nat \<Rightarrow> 'a res" where
  "vector_at v i =
     (if i < length v then Inr (v ! i) else Inl (Undefined_behaviour ''index past the end of a vector''))"

definition stoi :: "string \<Rightarrow> int res" where
  "stoi s =
     (let (v, rest, erange) = strtol s 10
      in if rest = s then Inl Invalid_argument
         else if erange \<or> v < - (2 ^ 31) \<or> 2 ^ 31 \<le> v then Inl Out_of_range
         else Inr v)"

text \<open>
  The loop over the lines of the file: the delay of the first one whose first two columns are
  the method and the path of the request.
\<close>

fun find_delay :: "string list \<Rightarrow> string list \<Rightarrow> u32 res" where
  "find_delay splitted [] = Inr 0"
| "find_delay splitted (line # rest) =
     (let splitted2 = split_line [] line (CHR 0x09)
      in bindR (vector_at splitted 0) (\<lambda>method.
         bindR (vector_at splitted2 0) (\<lambda>rule_method.
         if method \<noteq> rule_method then find_delay splitted rest
         else bindR (vector_at splitted 1) (\<lambda>path.
              bindR (vector_at splitted2 1) (\<lambda>rule_path.
              if path \<noteq> rule_path then find_delay splitted rest
              else bindR (vector_at splitted2 2) (\<lambda>delay_column.
                   bindR (stoi delay_column) (\<lambda>delay.
                     Inr (if delay \<ge> 0 then word_of_int delay else 0))))))))"

definition get_server_delay :: "string \<Rightarrow> string option \<Rightarrow> request_response \<Rightarrow> u32 res" where
  "get_server_delay delay_path delay_file matched =
     (let splitted = split_line [] (proto_first_line (rr_request matched)) (CHR '' '')
      in case delay_file of
           None \<Rightarrow> Inl (Runtime_error (''No server-delay file found! Expected path: '' @ delay_path))
         | Some contents \<Rightarrow> find_delay splitted (getlines [] contents))"

section \<open>The programs\<close>

text \<open>
  What the web server and the system give the program: its environment, whether \<open>chdir\<close>
  works, the entries of the recording directory, the files, the delay file.
\<close>

record 'k cgi =
  cgi_credentials :: "'k credentials"
  cgi_kernel :: 'k
  cgi_environment :: environment
  chdir_result :: int
  cgi_directory :: "string list option"
  cgi_files :: record_files
  cgi_delay_file :: "string \<Rightarrow> string option"

text \<open>What the program has printed, its exit status, and the milliseconds it slept.\<close>

record cgi_result =
  cgi_output :: string
  cgi_status :: nat
  slept :: u32

definition cgi_inputs :: "'k cgi \<Rightarrow> (string \<times> string \<times> bool) res" where
  "cgi_inputs w =
     (let env = cgi_environment w
      in bindR (assert_not_root (cgi_credentials w) (cgi_kernel w)) (\<lambda>_.
         bindR (safe_getenv env ''MAHIMAHI_CHDIR'') (\<lambda>working_directory.
         bindR (safe_getenv env ''MAHIMAHI_RECORD_PATH'') (\<lambda>recording_directory.
         bindR (safe_getenv env ''REQUEST_METHOD'') (\<lambda>m.
         bindR (safe_getenv env ''REQUEST_URI'') (\<lambda>u.
         bindR (safe_getenv env ''SERVER_PROTOCOL'') (\<lambda>p.
         bindR (system_call ''chdir'' (chdir_result w)) (\<lambda>_.
           Inr (recording_directory, m @ '' '' @ u @ '' '' @ p, env ''HTTPS'' \<noteq> None)))))))))"

definition not_found :: "string \<Rightarrow> string" where
  "not_found request_line =
     ''HTTP/1.1 404 Not Found'' @ crlf @ ''Content-Type: text/plain'' @ crlf @ crlf @
     ''replayserver: could not find a match for '' @ request_line @ crlf"

text \<open>The body of the \<open>try\<close> block; \<open>delay_of\<close> is what precedes the answer.\<close>

definition replay_answer :: "(string \<Rightarrow> request_response \<Rightarrow> u32 res) \<Rightarrow> 'k cgi \<Rightarrow> cgi_result res" where
  "replay_answer delay_of w =
     bindR (cgi_inputs w) (\<lambda>(recording_directory, request_line, is_https).
     bindR (list_directory_contents (cgi_credentials w) recording_directory (cgi_directory w) (cgi_kernel w)) (\<lambda>files.
     bindR (best_match (cgi_environment w) (cgi_files w) request_line is_https files) (\<lambda>(best_score, r).
       if best_score > 0
       then bindR (delay_of recording_directory r) (\<lambda>delay.
            bindR (message_str (message_of_protobuf (rr_response r))) (\<lambda>s.
              Inr \<lparr>cgi_output = s, cgi_status = 0, slept = delay\<rparr>))
       else Inr \<lparr>cgi_output = not_found request_line, cgi_status = 1, slept = 0\<rparr>)))"

text \<open>
  The handler catches every \<open>std::exception\<close>, and prints a 500 response; \<open>died\<close> is the text
  that \<open>print_exception\<close> prints for it.
\<close>

definition cgi_caught :: "(exn \<Rightarrow> string) \<Rightarrow> cgi_result res \<Rightarrow> cgi_result res" where
  "cgi_caught died m =
     (case m of
        Inr r \<Rightarrow> Inr r
      | Inl e \<Rightarrow>
          if std_exception e
          then Inr \<lparr>cgi_output = ''HTTP/1.1 500 Internal Server Error'' @ crlf @
                      ''Content-Type: text/plain'' @ crlf @ crlf @
                      ''mahimahi mm-webreplay received an exception:'' @ crlf @ crlf @ died e,
                    cgi_status = 1, slept = 0\<rparr>
          else Inl e)"

definition replayserver :: "(exn \<Rightarrow> string) \<Rightarrow> 'k cgi \<Rightarrow> cgi_result res" where
  "replayserver died w = cgi_caught died (replay_answer (\<lambda>_ _. Inr 0) w)"

definition replayserver_delay :: "(exn \<Rightarrow> string) \<Rightarrow> 'k cgi \<Rightarrow> cgi_result res" where
  "replayserver_delay died w =
     cgi_caught died (replay_answer (\<lambda>recording_directory r.
       let delay_path = recording_directory @ ''/../server-delays.txt''
       in get_server_delay delay_path (cgi_delay_file w delay_path) r) w)"

section \<open>The score is the length of the common prefix\<close>

lemma first_difference_prefix:
  "first_difference a b i = (if i \<le> min (length a) (length b)
     then i + length (longest_common_prefix (drop i a) (drop i b)) else min (length a) (length b))"
proof (induction a b i rule: first_difference.induct)
  case (1 a b i)
  show ?case
  proof (cases "i < length a \<and> i < length b")
    case True
    then have "drop i a = a ! i # drop (Suc i) a" "drop i b = b ! i # drop (Suc i) b"
      by (simp_all add: Cons_nth_drop_Suc)
    with "1.IH" [OF refl] True show ?thesis by (simp add: first_difference.simps [of a b i])
  next
    case False
    then show ?thesis by (cases "drop i a"; cases "drop i b") (auto simp: first_difference.simps [of a b i])
  qed
qed

definition common_length :: "string \<Rightarrow> string \<Rightarrow> nat" where
  "common_length a b = length (longest_common_prefix a b)"

lemma first_difference_start: "first_difference a b 0 = common_length a b"
  by (simp add: first_difference_prefix common_length_def)

lemma longest_common_prefix_self [simp]: "longest_common_prefix a a = a"
  by (induction a) auto

lemma common_length_full: "common_length a b = length a \<longleftrightarrow> prefix a b"
  unfolding common_length_def
  by (induction a b rule: longest_common_prefix.induct) auto

lemma common_length_le: "common_length a b \<le> length a"
  unfolding common_length_def by (rule prefix_length_le) (rule longest_common_prefix_prefix1)

text \<open>The value of a header in a stored request, and when a stored request can answer.\<close>

definition saved_header :: "string \<Rightarrow> 'a http_message_scheme \<Rightarrow> string option" where
  "saved_header name m = map_option val (find (\<lambda>h. equivalent_strings (key h) name) (headers m))"

lemma header_match_saved: "header_match env var name m = Inr (env var = saved_header name m)"
proof (cases "find (\<lambda>h. equivalent_strings (key h) name) (headers m)")
  case None
  then have "\<not> has_header name m" by (auto simp: has_header_def find_None_iff)
  with None show ?thesis by (simp add: header_match_def saved_header_def split: option.split)
next
  case (Some h)
  then have "has_header name m" by (auto simp: has_header_def find_Some_iff)
  with Some show ?thesis
    by (auto simp: header_match_def saved_header_def get_header_value_def split: option.split)
qed

definition acceptable :: "environment \<Rightarrow> request_response \<Rightarrow> string \<Rightarrow> bool \<Rightarrow> bool" where
  "acceptable env r request_line is_https \<longleftrightarrow>
     rr_scheme r = (if is_https then HTTPS else HTTP) \<and>
     env ''HTTP_HOST'' = saved_header ''Host'' (message_of_protobuf (rr_request r)) \<and>
     env ''HTTP_USER_AGENT'' = saved_header ''User-Agent'' (message_of_protobuf (rr_request r)) \<and>
     strip_query request_line = strip_query (proto_first_line (rr_request r))"

definition score :: "environment \<Rightarrow> string \<Rightarrow> bool \<Rightarrow> request_response \<Rightarrow> u32" where
  "score env request_line is_https r =
     (if acceptable env r request_line is_https
      then of_nat (common_length request_line (proto_first_line (rr_request r))) else 0)"

lemma match_score_eq: "match_score env r line https = Inr (score env line https r)"
proof -
  have f: "first_line (message_of_protobuf p) = proto_first_line p" for p
    by (simp add: message_of_protobuf_def)
  show ?thesis
    by (cases "rr_scheme r")
      (simp_all add: match_score_def score_def acceptable_def header_match_saved Let_def f
        first_difference_start)
qed

section \<open>The best match is the first one with the highest score\<close>

definition is_save :: "string \<Rightarrow> bool" where
  "is_save filename \<longleftrightarrow> str_find filename ''save'' \<noteq> None"

text \<open>A record of the directory's save files, by the file's name.\<close>

definition saved_in :: "record_files \<Rightarrow> string list \<Rightarrow> string \<Rightarrow> request_response \<Rightarrow> bool" where
  "saved_in files filenames f r \<longleftrightarrow> f \<in> set filenames \<and> is_save f \<and> files f = Some (Some r)"

lemma consider_file_eq:
  assumes "is_save f \<longrightarrow> files f = Some (Some r)"
  shows "consider_file env files line https f (s, b) =
    Inr (if is_save f \<and> s < score env line https r then (score env line https r, r) else (s, b))"
  using assms by (auto simp: consider_file_def is_save_def load_record_def match_score_eq)

definition best_of ::
  "environment \<Rightarrow> record_files \<Rightarrow> string \<Rightarrow> bool \<Rightarrow> string list \<Rightarrow> search \<Rightarrow> bool" where
  "best_of env files line https filenames = (\<lambda>(s, b).
     (\<forall>f r. saved_in files filenames f r \<longrightarrow> score env line https r \<le> s) \<and>
     (if s = 0 then b = empty_record
      else score env line https b = s \<and>
        (\<exists>before f after. filenames = before @ f # after \<and> is_save f \<and> files f = Some (Some b) \<and>
          (\<forall>g r. saved_in files before g r \<longrightarrow> score env line https r < s))))"

lemma best_of_snoc:
  assumes b: "best_of env files line https filenames (s, b)"
    and r: "is_save f \<longrightarrow> files f = Some (Some r)"
  shows "best_of env files line https (filenames @ [f])
    (if is_save f \<and> s < score env line https r then (score env line https r, r) else (s, b))"
proof (cases "is_save f \<and> s < score env line https r")
  case True
  then have "\<forall>g q. saved_in files filenames g q \<longrightarrow> score env line https q < score env line https r"
    using b by (auto simp: best_of_def intro: le_less_trans)
  moreover have "score env line https r \<noteq> 0" using True by auto
  ultimately show ?thesis using True r by (auto simp: best_of_def saved_in_def intro: less_imp_le)
next
  case False
  then have "\<forall>g q. saved_in files (filenames @ [f]) g q \<longrightarrow> score env line https q \<le> s"
    using b r by (auto simp: best_of_def saved_in_def)
  moreover have "\<exists>before g after. filenames @ [f] = before @ g # after \<and> is_save g \<and>
      files g = Some (Some b) \<and> (\<forall>h q. saved_in files before h q \<longrightarrow> score env line https q < s)"
    if "s \<noteq> 0"
  proof -
    from b that obtain before g after where "filenames = before @ g # after" "is_save g"
        "files g = Some (Some b)" "\<forall>h q. saved_in files before h q \<longrightarrow> score env line https q < s"
      unfolding best_of_def prod.case by auto
    then show ?thesis by (intro exI [of _ before] exI [of _ g] exI [of _ "after @ [f]"]) simp
  qed
  ultimately show ?thesis using False b unfolding best_of_def by (simp only: prod.case if_False) auto
qed

lemma best_match_spec:
  assumes "\<And>f. f \<in> set filenames \<Longrightarrow> is_save f \<Longrightarrow> \<exists>r. files f = Some (Some r)"
  shows "\<exists>best. best_match env files line https filenames = Inr best \<and>
    best_of env files line https filenames best"
  using assms
proof (induction filenames rule: rev_induct)
  case Nil
  show ?case by (simp add: best_match_def best_of_def saved_in_def)
next
  case (snoc f filenames)
  then obtain s b where IH: "best_match env files line https filenames = Inr (s, b)"
      "best_of env files line https filenames (s, b)" by auto
  from snoc.prems [of f] obtain r where r: "is_save f \<longrightarrow> files f = Some (Some r)" by auto
  from best_of_snoc [OF IH(2) r] IH(1) show ?case
    by (simp add: best_match_def consider_file_eq [where files = files and f = f, OF r])
qed

section \<open>A recorded exchange is replayed\<close>

text \<open>The environment that the web server sets up for a request.\<close>

definition environment_for :: "environment \<Rightarrow> 'a http_message_scheme \<Rightarrow> bool \<Rightarrow> bool" where
  "environment_for env req is_https \<longleftrightarrow>
     env ''HTTP_HOST'' = saved_header ''Host'' req \<and>
     env ''HTTP_USER_AGENT'' = saved_header ''User-Agent'' req \<and>
     (env ''HTTPS'' \<noteq> None) = is_https \<and>
     (\<exists>m u p. env ''REQUEST_METHOD'' = Some m \<and> env ''REQUEST_URI'' = Some u \<and>
        env ''SERVER_PROTOCOL'' = Some p \<and> first_line req = m @ '' '' @ u @ '' '' @ p)"

text \<open>The program can run: it has lost its privileges and its directories are there.\<close>

definition cgi_runs :: "'k cgi \<Rightarrow> string \<Rightarrow> string list \<Rightarrow> bool" where
  "cgi_runs w folder entries \<longleftrightarrow>
     assert_not_root (cgi_credentials w) (cgi_kernel w) = Inr () \<and> 0 \<le> chdir_result w \<and>
     cgi_environment w ''MAHIMAHI_CHDIR'' \<noteq> None \<and>
     cgi_environment w ''MAHIMAHI_RECORD_PATH'' = Some folder \<and> cgi_directory w = Some entries"

definition listed :: "string \<Rightarrow> string list \<Rightarrow> string list" where
  "listed dir entries = map (\<lambda>d. dir @ d) (filter (\<lambda>d. d \<noteq> ''.'' \<and> d \<noteq> ''..'') entries)"

lemma replay_answer_eq:
  assumes "cgi_runs w folder entries" "environment_for (cgi_environment w) req https"
    and "best_match (cgi_environment w) (cgi_files w) (first_line req) https (listed folder entries) = Inr (s, r)"
    and "0 < s"
  shows "replay_answer delay_of w = bindR (delay_of folder r) (\<lambda>delay.
    bindR (message_str (message_of_protobuf (rr_response r))) (\<lambda>out.
      Inr \<lparr>cgi_output = out, cgi_status = 0, slept = delay\<rparr>))"
proof -
  from assms(2) obtain m u p where e: "cgi_environment w ''REQUEST_METHOD'' = Some m"
      "cgi_environment w ''REQUEST_URI'' = Some u" "cgi_environment w ''SERVER_PROTOCOL'' = Some p"
      "first_line req = m @ '' '' @ u @ '' '' @ p" "(cgi_environment w ''HTTPS'' \<noteq> None) = https"
    by (auto simp: environment_for_def)
  from assms(1) have i: "cgi_inputs w = Inr (folder, first_line req, https)"
    using e by (auto simp: cgi_runs_def cgi_inputs_def safe_getenv_def system_call_def)
  have l: "list_directory_contents (cgi_credentials w) folder (cgi_directory w) (cgi_kernel w) =
      Inr (listed folder entries)"
    using assms(1) by (simp add: cgi_runs_def list_directory_contents_def listed_def)
  show ?thesis using assms(3,4) by (simp add: replay_answer_def i l)
qed

text \<open>
  What \<open>HTTPDiskStore::save\<close> writes of an exchange is acceptable for the same request, with
  the highest score that any record can have.
\<close>

definition saved_exchange :: "http_response \<Rightarrow> address \<Rightarrow> request_response \<Rightarrow> bool" where
  "saved_exchange r a q \<longleftrightarrow>
     rr_scheme q = (if port a = 443 then HTTPS else HTTP) \<and>
     message_to_protobuf (request r) = Inr (rr_request q) \<and> message_to_protobuf r = Inr (rr_response q)"

lemma disk_save_saved_exchange:
  assumes "disk_save r a d = Inr d'"
  shows "\<exists>name q. disk_files d' = disk_files d @ [(name, q)] \<and> saved_exchange r a q"
  using assms by (elim disk_save_Inr) (auto simp: saved_exchange_def)

lemma find_map_header:
  "map_option val (find (\<lambda>h. equivalent_strings (key h) n) (map (\<lambda>h. \<lparr>key = key h, val = val h\<rparr>) hs)) =
   map_option val (find (\<lambda>h. equivalent_strings (key h) n) hs)"
  by (induction hs) simp_all

lemma message_to_protobuf_fields:
  assumes "message_to_protobuf m = Inr p"
  shows "proto_first_line p = first_line m" "saved_header n (message_of_protobuf p) = saved_header n m"
  using assms
  by (auto simp: message_to_protobuf_def message_of_protobuf_def saved_header_def res_simps o_def
      find_map_header)

lemma saved_exchange_score:
  assumes "saved_exchange r a q" "environment_for env (request r) (port a = 443)"
  shows "score env (first_line (request r)) (port a = 443) q = of_nat (length (first_line (request r)))"
proof -
  from assms(1) have p: "message_to_protobuf (request r) = Inr (rr_request q)"
    by (simp add: saved_exchange_def)
  note f = message_to_protobuf_fields [OF p]
  have "acceptable env q (first_line (request r)) (port a = 443)"
    using assms by (simp add: acceptable_def f environment_for_def saved_exchange_def)
  then show ?thesis using common_length_full [of "first_line (request r)" "first_line (request r)"]
    by (simp add: score_def f)
qed

lemma environment_for_nonempty: "environment_for env req https \<Longrightarrow> first_line req \<noteq> []"
  by (auto simp: environment_for_def)

text \<open>
  A saved exchange is answered with the bytes of its response, when no other save file that
  is acceptable has a first line that goes on where this one ends.
\<close>

lemma saved_exchange_found:
  assumes "saved_exchange r a q" "environment_for env (request r) (port a = 443)"
    and "length (first_line (request r)) < 2 ^ 32"
    and "saved_in files filenames name q"
    and "\<And>f. f \<in> set filenames \<Longrightarrow> is_save f \<Longrightarrow> \<exists>p. files f = Some (Some p) \<and>
      (p = q \<or> \<not> acceptable env p (first_line (request r)) (port a = 443) \<or>
       \<not> prefix (first_line (request r)) (proto_first_line (rr_request p)))"
  shows "\<exists>s > 0. best_match env files (first_line (request r)) (port a = 443) filenames = Inr (s, q)"
proof -
  define line https where "line = first_line (request r)" and "https = (port a = 443)"
  note folded = assms [folded line_def https_def]
  have len: "0 < length line" "length line < 2 ^ 32"
    using environment_for_nonempty [OF assms(2)] assms(3) by (simp_all add: line_def)
  have top: "score env line https q = of_nat (length line)"
    using saved_exchange_score [OF assms(1,2)] by (simp add: line_def https_def)
  have below: "score env line https p < of_nat (length line)"
    if "f \<in> set filenames" "is_save f" "files f = Some (Some p)" "p \<noteq> q" for f p
  proof (cases "acceptable env p line https")
    case True
    with folded(5) [of f] that have "\<not> prefix line (proto_first_line (rr_request p))" by auto
    then have "common_length line (proto_first_line (rr_request p)) < length line"
      using common_length_full common_length_le le_neq_implies_less by blast
    then show ?thesis using True len(2) by (simp add: score_def word_less_nat_alt unat_of_nat_small)
  next
    case False
    then show ?thesis using len by (simp add: score_def word_less_nat_alt unat_of_nat_small)
  qed
  obtain s b where b: "best_match env files line https filenames = Inr (s, b)"
      "best_of env files line https filenames (s, b)"
    using best_match_spec [of filenames files env line https] folded(5) by fastforce
  have "score env line https q \<le> s"
    using b(2) folded(4) unfolding best_of_def prod.case by blast
  then have ge: "of_nat (length line) \<le> s" by (simp only: top)
  have s: "s \<noteq> 0"
  proof
    assume "s = 0"
    with ge len show False by (simp add: word_le_nat_alt unat_of_nat_small)
  qed
  with b(2) obtain before f after where f: "filenames = before @ f # after" "is_save f"
      "files f = Some (Some b)" "score env line https b = s"
    unfolding best_of_def prod.case by auto
  then have "f \<in> set filenames" by simp
  then have "b = q" using below [of f b] f(2-4) ge by (auto simp: not_le [symmetric])
  with b(1) s show ?thesis by (simp add: line_def https_def word_gt_0)
qed

section \<open>The delay that is found\<close>

text \<open>The first line whose columns name the request; every line has three columns.\<close>

definition columns :: "string \<Rightarrow> string list" where
  "columns line = split_line [] line (CHR 0x09)"

definition delay_value :: "int \<Rightarrow> u32" where
  "delay_value d = (if 0 \<le> d then word_of_int d else 0)"

lemma find_delay_spec:
  assumes "\<forall>line \<in> set rows. 3 \<le> length (columns line)" "2 \<le> length splitted"
  shows "find_delay splitted rows =
    (case find (\<lambda>line. columns line ! 0 = splitted ! 0 \<and> columns line ! 1 = splitted ! 1) rows of
       None \<Rightarrow> Inr 0
     | Some line \<Rightarrow> bindR (stoi (columns line ! 2)) (\<lambda>d. Inr (delay_value d)))"
  using assms(1)
proof (induction rows)
  case (Cons line rows)
  have IH: "find_delay splitted rows =
      (case find (\<lambda>line. columns line ! 0 = splitted ! 0 \<and> columns line ! 1 = splitted ! 1) rows of
         None \<Rightarrow> Inr 0
       | Some line \<Rightarrow> bindR (stoi (columns line ! 2)) (\<lambda>d. Inr (delay_value d)))"
    using Cons by simp
  have c: "vector_at (columns line) 0 = Inr (columns line ! 0)"
      "vector_at (columns line) 1 = Inr (columns line ! 1)"
      "vector_at (columns line) 2 = Inr (columns line ! 2)"
    using Cons.prems by (auto simp: vector_at_def)
  have s: "vector_at splitted 0 = Inr (splitted ! 0)" "vector_at splitted 1 = Inr (splitted ! 1)"
    using assms(2) by (auto simp: vector_at_def)
  show ?case
  proof (cases "columns line ! 0 = splitted ! 0 \<and> columns line ! 1 = splitted ! 1")
    case True
    then show ?thesis
      unfolding find_delay.simps columns_def [symmetric] Let_def find.simps c s bindR_simps
      by (simp add: delay_value_def)
  next
    case False
    then have "find_delay splitted (line # rows) = find_delay splitted rows"
      unfolding find_delay.simps columns_def [symmetric] Let_def c s bindR_simps by auto
    with False show ?thesis unfolding IH find.simps by (simp only: if_False)
  qed
qed simp

lemma find_delay_blank: "splitted \<noteq> [] \<Longrightarrow>
  find_delay splitted ([] # rows) = Inl (Undefined_behaviour ''index past the end of a vector'')"
  by (simp add: vector_at_def)

section \<open>The load times of a recording as delays\<close>

text \<open>
  \<open>TimeLogger::print_map\<close> writes lines in the format of the delay file.  A time that is printed
  as an integer comes back as it was.
\<close>

definition plain_entry :: "string \<times> string \<times> rat \<Rightarrow> bool" where
  "plain_entry element \<longleftrightarrow>
     (case element of (m, u, v) \<Rightarrow>
        {CHR 0x09, CHR 0x0A} \<inter> set m = {} \<and> {CHR 0x09, CHR 0x0A} \<inter> set u = {} \<and>
        (\<exists>n < 10 ^ 6. v = of_nat n))"

lemma split_line_word:
  "c \<notin> set w \<Longrightarrow> split_line token (w @ c # line) c = (token @ w) # split_line [] line c"
  by (induction w arbitrary: token) auto

lemma split_line_last: "c \<notin> set w \<Longrightarrow> split_line token w c = (if token @ w = [] then [] else [token @ w])"
  by (induction w arbitrary: token) auto

lemma load_line_columns:
  assumes "plain_entry (m, u, v)"
  shows "columns (load_line (m, u, v)) = [m, u, print_float v]" "CHR 0x0A \<notin> set (load_line (m, u, v))"
    "stoi (print_float v) = Inr \<lfloor>v\<rfloor>" "0 \<le> \<lfloor>v\<rfloor>"
proof -
  obtain n where n: "n < 10 ^ 6" "v = of_nat n" using assms by (auto simp: plain_entry_def)
  then have p: "print_float v = dec n" using print_float_nat by blast
  have c: "CHR 0x09 \<notin> set (dec n)" "CHR 0x0A \<notin> set (dec n)" by (simp_all add: dec_control)
  with assms p show "columns (load_line (m, u, v)) = [m, u, print_float v]" "CHR 0x0A \<notin> set (load_line (m, u, v))"
    by (simp_all add: columns_def load_line_def plain_entry_def split_line_word split_line_last)
  show "stoi (print_float v) = Inr \<lfloor>v\<rfloor>" "0 \<le> \<lfloor>v\<rfloor>"
    using n p strtol_dec [of n] dec_nonempty [of n, symmetric] by (simp_all add: stoi_def)
qed

lemma print_map_lines:
  assumes "\<forall>element \<in> set (finals t). plain_entry element"
  shows "getlines [] (print_map t) = map load_line (finals t)"
proof -
  have "\<forall>l \<in> set (map load_line (finals t)). CHR 0x0A \<notin> set l"
    using assms load_line_columns(2) by auto
  from getlines_lines [OF this] show ?thesis by (simp add: print_map_def comp_def)
qed

lemma load_times_delay:
  assumes "\<forall>element \<in> set (finals t). plain_entry element"
    and "CHR '' '' \<notin> set m" "CHR '' '' \<notin> set u"
    and "proto_first_line (rr_request q) = m @ '' '' @ u @ '' '' @ rest"
  shows "get_server_delay path (Some (print_map t)) q =
    Inr (case find (\<lambda>(m', u', v). m' = m \<and> u' = u) (finals t) of
           None \<Rightarrow> 0 | Some (_, _, v) \<Rightarrow> word_of_int \<lfloor>v\<rfloor>)"
proof -
  define words where "words = split_line [] (proto_first_line (rr_request q)) (CHR '' '')"
  have w: "words = m # u # split_line [] rest (CHR '' '')"
    using assms(2-4) by (simp add: words_def split_line_word)
  have "find_delay words (map load_line es) =
      Inr (case find (\<lambda>(m', u', v). m' = m \<and> u' = u) es of None \<Rightarrow> 0 | Some (_, _, v) \<Rightarrow> word_of_int \<lfloor>v\<rfloor>)"
    if "\<forall>element \<in> set es. plain_entry element" for es
    using that
  proof (induction es)
    case (Cons e es)
    obtain m' u' v where e: "e = (m', u', v)" by (cases e) auto
    note l = load_line_columns [of m' u' v]
    have p: "plain_entry (m', u', v)" using Cons.prems e by simp
    have "find_delay words (load_line e # map load_line es) =
        (if m = m' \<and> u = u' then Inr (word_of_int \<lfloor>v\<rfloor>) else find_delay words (map load_line es))"
      unfolding find_delay.simps columns_def [symmetric] Let_def e l(1) [OF p] w
      using l(4) [OF p] by (simp add: vector_at_def l(3) [OF p])
    with Cons e show ?case by auto
  qed simp
  from this [OF assms(1)] show ?thesis
    by (simp add: get_server_delay_def print_map_lines [OF assms(1)] words_def [symmetric])
qed

end
