(* ===== verification/System_Properties.thy ===== *)
theory System_Properties
  imports Ferry_Loop Replay_Server Proxy_Exchange
begin

text \<open>
  What the programs rest on: how an event loop treats its children, the order of the packets
  through the loop of a packet shell, the addresses it takes, the answers of the replay server,
  and the loss of privileges.
\<close>

section \<open>Children\<close>

text \<open>C16.  What \<open>EventLoop::handle_signal\<close> does on SIGCHLD, from what the kernel reports, in both directions: it returns
  normally exactly in two ways.  Either it went through all children and no end was reported, and the loop goes
  on; or it went through those before the \<open>i\<close>-th child, of which an end was reported with status 0 or
  with the special status of the child, stopped there without asking for any child after it, and the
  loop ends unless that status is the special one and some child remains.  Going through a child: one that had ended before
  is not asked for; one with nothing to report stays as it is; a stop or continuation that is reported sets whether it
  is running, and for a stop SIGSTOP is raised once (\<open>looked_at\<close>).  The state of the kernel afterwards has exactly these reports taken and these signals raised.\<close>

theorem sigchld_outcome:
  assumes "present cps"
  shows "handle_signal SIGCHLD cps k = Inr ((t, st), cps', k') \<longleftrightarrow>
    cps \<noteq> [] \<and> st = 0 \<and>
    (\<exists>rs n. reported (waits k) rs \<and> raisable (kills k) n \<and> k' = afterwards k rs n \<and>
      (t = Continue \<and> looked_at cps rs cps' n \<or>
       (\<exists>i. ended_at cps rs cps' n i \<and>
         (let status = exit_status (snd (cps' ! i)); special = fst (cps ! i) in
           (status = 0 \<or> status = special) \<and>
           t = (if (\<forall>x \<in> set cps'. over x) \<or> status \<noteq> special then Exit else Continue)))))"
    (is "?run \<longleftrightarrow> ?outcome")
proof
  assume r: ?run
  then have "cps \<noteq> []" "reap [] cps k = Inr ((t, st), cps', k')"
    by (auto simp: handle_signal_def signal_defs split: if_splits)
  with reap_outcome [OF this(2)] assms show ?outcome by auto
next
  assume o: ?outcome
  then obtain rs n where k: "reported (waits k) rs" "raisable (kills k) n" "k' = afterwards k rs n" "cps \<noteq> []" "st = 0"
    and e: "t = Continue \<and> looked_at cps rs cps' n \<or>
       (\<exists>i. ended_at cps rs cps' n i \<and>
         (let status = exit_status (snd (cps' ! i)); special = fst (cps ! i) in
           (status = 0 \<or> status = special) \<and>
           t = (if (\<forall>x \<in> set cps'. over x) \<or> status \<noteq> special then Exit else Continue)))" by blast
  have "reap [] cps k = Inr ((t, st), cps', k')"
    using e
  proof
    assume l: "t = Continue \<and> looked_at cps rs cps' n"
    with reap_looked_at [of cps rs cps' n k "[]" "[]"] k assms show ?thesis by simp
  next
    assume "\<exists>i. ended_at cps rs cps' n i \<and>
         (let status = exit_status (snd (cps' ! i)); special = fst (cps ! i) in
           (status = 0 \<or> status = special) \<and>
           t = (if (\<forall>x \<in> set cps'. over x) \<or> status \<noteq> special then Exit else Continue))"
    then obtain i where "ended_at cps rs cps' n i"
      "exit_status (snd (cps' ! i)) = 0 \<or> exit_status (snd (cps' ! i)) = fst (cps ! i)"
      "t = (if (\<forall>x \<in> set cps'. over x) \<or> exit_status (snd (cps' ! i)) \<noteq> fst (cps ! i) then Exit else Continue)"
      by (auto simp: Let_def)
    with reap_ended_at [of cps rs cps' n i k] k assms show ?thesis by (auto simp: Let_def)
  qed
  with k(4) show ?run by (simp add: handle_signal_def signal_defs)
qed

definition a_child :: "int \<Rightarrow> child_process" where
  "a_child n = \<lparr>child_name = ''child'', child_pid = n, running = True, terminated = False, exit_status = 0,
     died_on_signal = False, graceful_termination_signal = SIGHUP, moved_away = False\<rparr>"

definition exits :: "int \<Rightarrow> int \<Rightarrow> siginfo" where
  "exits n status = \<lparr>si_pid = n, si_signo = SIGCHLD, si_code = CLD_EXITED, si_status = status\<rparr>"

definition kernel_of :: "siginfo list \<Rightarrow> os" where
  "kernel_of is = \<lparr>waits = \<lambda>n. if n < length is then Some (is ! n) else None, kills = \<lambda>_. 0, signalled = []\<rparr>"

text \<open>Three children: one is found stopped, one ends with its special status, the third is not looked at.\<close>

theorem sigchld_outcome_witness:
  "handle_signal SIGCHLD [(- 1, a_child 9), (77, a_child 10), (- 1, a_child 11)]
     (kernel_of [exits 9 0, exits 9 0\<lparr>si_code := CLD_STOPPED\<rparr>, exits 10 77, exits 10 77, exits 11 0]) =
   Inr ((Continue, 0), [(- 1, a_child 9\<lparr>running := False\<rparr>), (77, ended_by (exits 10 77) (a_child 10)), (- 1, a_child 11)],
     \<lparr>waits = \<lambda>i. waits (kernel_of [exits 9 0, exits 9 0\<lparr>si_code := CLD_STOPPED\<rparr>, exits 10 77, exits 10 77, exits 11 0]) (i + 4),
      kills = \<lambda>_. 0, signalled = [(0, SIGSTOP)]\<rparr>)"
proof -
  let ?cps = "[(- 1, a_child 9), (77, a_child 10), (- 1, a_child 11)]"
  let ?rs = "[exits 9 0, exits 9 0\<lparr>si_code := CLD_STOPPED\<rparr>, exits 10 77, exits 10 77]"
  let ?cps' = "[(- 1, a_child 9\<lparr>running := False\<rparr>), (77, ended_by (exits 10 77) (a_child 10)), (- 1, a_child 11)]"
  let ?k = "kernel_of [exits 9 0, exits 9 0\<lparr>si_code := CLD_STOPPED\<rparr>, exits 10 77, exits 10 77, exits 11 0]"
  have p: "present ?cps" by (simp add: a_child_def)
  have "looked_at [(- 1, a_child 9)] [exits 9 0, exits 9 0\<lparr>si_code := CLD_STOPPED\<rparr>] [(- 1, a_child 9\<lparr>running := False\<rparr>)] (Suc 0)"
    by (rule looked_stopped [OF _ _ _ _ looked_nil]) (simp_all add: a_child_def exits_def reports_def)
  then have "ended_at ?cps ?rs ?cps' 1 1"
    unfolding ended_at_def
    by (intro conjI exI [of _ "[exits 9 0, exits 9 0\<lparr>si_code := CLD_STOPPED\<rparr>]"] exI [of _ "exits 10 77"]
        exI [of _ "[(- 1, a_child 9\<lparr>running := False\<rparr>)]"])
      (simp_all add: over_def a_child_def exits_def reports_def ends_def)
  moreover have "reported (waits ?k) ?rs" "raisable (kills ?k) 1" "afterwards ?k ?rs 1 =
    \<lparr>waits = \<lambda>i. waits ?k (i + 4), kills = \<lambda>_. 0, signalled = [(0, SIGSTOP)]\<rparr>"
    by (simp_all add: kernel_of_def afterwards_def raisable_def numeral_eq_Suc)
  moreover have "exit_status (ended_by (exits 10 77) (a_child 10)) = 77" "\<not> over (- 1, a_child 11)"
    by (simp_all add: ended_by_def exits_def over_def a_child_def)
  ultimately show ?thesis
    by (subst sigchld_outcome [OF p], intro conjI exI [of _ ?rs] exI [of _ 1] disjI2 exI [of _ 1]) (simp_all add: Let_def)
qed

text \<open>C34.  A child anywhere in the list that is reported to have ended with a status that is neither 0 nor its special one,
  or by a signal whose number is neither, ends the loop with an exception that names the child, says whether it
  exited or died on a signal, and has the status; provided that of no child before it an end is reported (they had
  ended before, have nothing to report, or are reported as stopped or continued).  If an earlier child has just
  ended, too, this one is not looked at.\<close>

theorem failed_child_throws:
  assumes "looked_at before rs looked n" "reported (waits k) (rs @ [q, r])" "raisable (kills k) n"
    "present (before @ (special, c) # cps)" "\<not> terminated c"
    "si_pid q = child_pid c" "reports r c" "ends r" "si_status r \<noteq> 0" "si_status r \<noteq> special"
  shows "handle_signal SIGCHLD (before @ (special, c) # cps) k =
    Inl (Runtime_error ([CHR 0x60] @ child_name c @ [CHR 0x27] @ '': process '' @
      (if si_code r = CLD_EXITED \<and> \<not> died_on_signal c then ''exited with failure status '' else ''died on signal '') @
      int_dec (si_status r)))"
proof -
  have p: "present before" "present (looked @ (special, c) # cps)" "\<not> moved_away c"
    using assms(4) looked_at_present [OF assms(1)] by simp_all
  have "reap [] (before @ (special, c) # cps) k = reap looked ((special, c) # cps) (afterwards k rs n)"
    using reap_looked_at [OF assms(1) _ assms(3) p(1), of "[]"] assms(2) by simp
  also have "\<dots> = child_throw_exception (ended_by r c)"
    using reap_end [OF p(2) assms(5) _ assms(6-8)] assms(2,9,10) by simp
  also have "\<dots> = Inl (Runtime_error ([CHR 0x60] @ child_name c @ [CHR 0x27] @ '': process '' @
      (if si_code r = CLD_EXITED \<and> \<not> died_on_signal c then ''exited with failure status '' else ''died on signal '') @
      int_dec (si_status r)))"
    using p(3) by (simp add: child_throw_exception_def child_died_on_signal_def child_exit_status_def ended_by_def)
  finally show ?thesis by (simp add: handle_signal_def signal_defs)
qed

text \<open>Behind a child with nothing to report, one that was killed.\<close>

theorem failed_child_throws_witness:
  "handle_signal SIGCHLD [(77, a_child 9), (- 1, a_child 10)]
     (kernel_of [exits 0 0, exits 10 9\<lparr>si_code := CLD_KILLED\<rparr>, exits 10 9\<lparr>si_code := CLD_KILLED\<rparr>]) =
   Inl (Runtime_error ([CHR 0x60] @ ''child'' @ [CHR 0x27] @ '': process '' @ ''died on signal '' @ int_dec 9))"
proof -
  have "looked_at [(77, a_child 9)] [exits 0 0] [(77, a_child 9)] 0"
    by (rule looked_same [OF _ _ looked_nil]) (simp_all add: over_def a_child_def exits_def)
  from failed_child_throws [OF this, of "kernel_of [exits 0 0, exits 10 9\<lparr>si_code := CLD_KILLED\<rparr>, exits 10 9\<lparr>si_code := CLD_KILLED\<rparr>]"
      "exits 10 9\<lparr>si_code := CLD_KILLED\<rparr>" "exits 10 9\<lparr>si_code := CLD_KILLED\<rparr>" "- 1" "a_child 10" "[]"]
  show ?thesis by (simp add: a_child_def kernel_of_def exits_def reports_def ends_def)
qed

text \<open>C17.  The destructor of \<open>ChildProcess\<close> returns, and the child has ended, as soon as some report
  of the kernel says that it has, whatever stops and continuations are reported before.\<close>

theorem child_destroy_returns:
  assumes "\<not> moved_away c" "\<And>n. n \<le> m \<Longrightarrow> \<exists>i. waits k n = Some i \<and> reports i c"
    "\<And>i. waits k m = Some i \<Longrightarrow> ends i" "\<And>n. 0 \<le> kills k n"
  shows "\<exists>c' k'. child_destroy k c = Some (Inr (c', k')) \<and> terminated c'"
  using destroy_loop_ends [of c m k] assms by (auto simp: child_destroy_def)

theorem child_destroy_returns_witness:
  "\<exists>c' k'. child_destroy (kernel_of [exits 10 0\<lparr>si_code := CLD_STOPPED\<rparr>, exits 10 0]) (a_child 10) =
     Some (Inr (c', k')) \<and> terminated c'"
proof (rule child_destroy_returns [of _ 1])
  fix n :: nat assume "n \<le> 1"
  then have "n = 0 \<or> n = 1" by auto
  then show "\<exists>i. waits (kernel_of [exits 10 0\<lparr>si_code := CLD_STOPPED\<rparr>, exits 10 0]) n = Some i \<and>
      reports i (a_child 10)"
    by (auto simp: kernel_of_def exits_def reports_def a_child_def signal_defs)
qed (simp_all add: a_child_def kernel_of_def exits_def ends_def)

section \<open>The loop of a packet shell\<close>

text \<open>C15.  \<open>Ferry::loop\<close> over a \<open>DelayQueue\<close>, for any behaviour of the devices, of \<open>poll(2)\<close>, of the
  children and of the clock, after any number of rounds: what was written to the sibling's
  device, followed by the packets still held, is a subsequence of the packets held before and
  the datagrams read since, in order.\<close>

theorem delay_shell_fifo:
  assumes "ferry_loop delay_ops current_mask ks s = Inr (r, p, s')"
  shows "\<exists>came out. tun_datagrams s' = tun_datagrams s @ came \<and>
    concat (sent (sibling s')) = concat (sent (sibling s)) @ concat out \<and>
    subseq (out @ map snd (delayed (ferry_queue_state s'))) (map snd (delayed (ferry_queue_state s)) @ came)"
  using delay_ferry.ferry_loop_ferried [OF _ assms] by (auto simp: delay_ferry.ferried_def)

definition a_descriptor :: "int \<Rightarrow> file_descriptor" where
  "a_descriptor n = \<lparr>fd_num = n, eof = False, read_count = 0, write_count = 0, sent = []\<rparr>"

definition a_shell :: "delay_queue ferry_world" where
  "a_shell = \<lparr>signal_fd = a_descriptor 3, signal_reads = \<lambda>_. None, child_processes = [], loop_os = kernel_of [],
     ferry_queue_state = \<lparr>delay_ms = 0, delayed = []\<rparr>, tun = a_descriptor 4, tun_reads = \<lambda>_. Some ''packet'',
     sibling = a_descriptor 5, sibling_writes = \<lambda>_. 6, ferry_clock = \<lambda>_. 7, interest_clock = \<lambda>_. 7,
     tun_datagrams = []\<rparr>"

definition reads_then_writes :: "kernel list" where
  "reads_then_writes = [\<lambda>ps t. (1, \<lambda>i. if i = 0 then 1 else 0), \<lambda>ps t. (1, \<lambda>i. if i = 1 then 4 else 0)]"

lemma a_shell_runs:
  "\<exists>p s. ferry_loop delay_ops event_loop_signals reads_then_writes a_shell = Inr (None, p, s) \<and>
     sent (sibling s) = [''packet'']"
  by (simp add: ferry_loop_def unprivileged_loop_def mask_eq_def reads_then_writes_def a_shell_def a_descriptor_def
      ferry_wait_def returns_def delay_ops_def add_simple_input_handler_def add_action_def poller_new_def
      poll_def Let_def action_new_def wanted_def direction_mask_def error_mask_def ferry_input_def fd_read_def
      buffer_size_def service_count_def ferry_output_def delay_wait_time_def delay_pending_output_def
      delay_read_packet_def delay_write_packets_def fd_write.simps fd_write_some_def timestamp_def
      uint16_max_def)

theorem delay_shell_fifo_witness:
  "\<exists>p s. ferry_loop delay_ops event_loop_signals reads_then_writes a_shell = Inr (None, p, s) \<and>
     sent (sibling s) = [''packet''] \<and> (\<exists>out. concat out = ''packet'' \<and> subseq out (tun_datagrams s))"
proof -
  obtain p s where r: "ferry_loop delay_ops event_loop_signals reads_then_writes a_shell = Inr (None, p, s)"
      "sent (sibling s) = [''packet'']"
    using a_shell_runs by blast
  from delay_shell_fifo [OF r(1)] obtain out where "concat out = ''packet''"
      "subseq (out @ map snd (delayed (ferry_queue_state s))) (tun_datagrams s)"
    using r(2) by (auto simp: a_shell_def a_descriptor_def)
  then have "concat out = ''packet''" "subseq out (tun_datagrams s)"
    by (auto intro: subseq_order.trans [OF list_emb_prefix])
  with r show ?thesis by blast
qed

section \<open>Free addresses\<close>

text \<open>C26.  \<open>two_unassigned_addresses\<close>: the two addresses are different, neither is the one to avoid
  nor one that an interface or a route uses, and they are the first two free ones of
  100.64.0.1 to 100.64.0.255.\<close>

theorem two_unassigned_spec:
  assumes "two_unassigned_addresses ifaddrs all_routes avoid = Inr (one, two)"
    "interfaces_new ifaddrs all_routes = Inr used"
  shows "\<exists>m n. one = cgnat (ucast m) \<and> two = cgnat (ucast n) \<and> 1 \<le> m \<and> m < n \<and> n \<le> (255 :: u16) \<and>
    ip one \<noteq> ip two \<and> (\<forall>a \<in> set (used @ [avoid]). ip a \<noteq> ip one \<and> ip a \<noteq> ip two) \<and>
    (\<forall>j. 1 \<le> j \<longrightarrow> j < n \<longrightarrow> j \<noteq> m \<longrightarrow> (\<exists>a \<in> set (used @ [avoid]). ip a = ip (cgnat (ucast j))))"
  by (rule two_unassigned_first_free [OF assms])

theorem two_unassigned_spec_witness:
  "\<exists>one two. two_unassigned_addresses (Some [cgnat 1, cgnat 3]) (Some []) (cgnat 2) = Inr (one, two) \<and>
     ip one \<noteq> ip two"
proof -
  have i: "interfaces_new (Some [cgnat 1, cgnat 3]) (Some []) = Inr [cgnat 1, cgnat 3]"
    by (simp add: interfaces_new_def)
  have ne: "ip (cgnat b) \<noteq> ip (cgnat c)" if "b \<noteq> c" for b c using cgnat_ip_inj that by blast
  let ?is = "add_address (cgnat 2) [cgnat 1, cgnat 3]"
  have u: "address_in_use ?is (cgnat b) \<longleftrightarrow> b = 1 \<or> b = 2 \<or> b = 3" for b
    using ne by (auto simp: address_in_use_def add_address_def)
  have port: "port (cgnat b) = 0" for b by (simp add: cgnat_def)
  have f: "first_unassigned_address ?is n =
      (if n \<le> 255 then if \<not> (ucast n \<in> {1, 2, 3 :: u8}) then Inr (cgnat (ucast n), n)
         else first_unassigned_address ?is (n + 1)
       else Inl (Runtime_error ''Interfaces: could not find free interface address''))" for n
    by (subst first_unassigned_address.simps) (simp add: u Let_def port)
  have "first_unassigned_address ?is 1 = Inr (cgnat 4, 4)" "first_unassigned_address ?is 5 = Inr (cgnat 5, 5)"
    by (simp_all add: f)
  then have r: "two_unassigned_addresses (Some [cgnat 1, cgnat 3]) (Some []) (cgnat 2) = Inr (cgnat 4, cgnat 5)"
    by (simp add: two_unassigned_addresses_def i Let_def)
  from two_unassigned_spec [OF r i] r show ?thesis by blast
qed

section \<open>The replay server\<close>

text \<open>The search of \<open>replayserver\<close>, when every save file holds a record: it ends without an
  error, no record scores more than the one it finds, and no record in an earlier file as much;
  a record scores 0 unless its scheme, host, user agent and path (the first line up to a question
  mark) are the request's, and then the length of the first lines' common prefix.\<close>

lemma best_match_first:
  assumes "\<And>f. f \<in> set filenames \<Longrightarrow> is_save f \<Longrightarrow> \<exists>r. files f = Some (Some r)"
  shows "\<exists>s b. best_match env files line https filenames = Inr (s, b) \<and>
    (\<forall>f r. saved_in files filenames f r \<longrightarrow> score env line https r \<le> s) \<and>
    (s \<noteq> 0 \<longrightarrow> score env line https b = s \<and>
      (\<exists>before f after. filenames = before @ f # after \<and> files f = Some (Some b) \<and>
        (\<forall>g r. saved_in files before g r \<longrightarrow> score env line https r < s)))"
proof -
  obtain s b where "best_match env files line https filenames = Inr (s, b)"
      "best_of env files line https filenames (s, b)"
    using best_match_spec [of filenames files env line https] assms by auto
  then show ?thesis unfolding best_of_def prod.case
    by (intro exI [of _ s] exI [of _ b]) (auto split: if_splits)
qed

definition browser :: environment where
  "browser = [''HTTP_HOST'' \<mapsto> ''a.b'', ''HTTPS'' \<mapsto> ''on'']"

definition saved_get :: "string \<Rightarrow> request_response" where
  "saved_get line = \<lparr>rr_ip = ''1.2.3.4'', rr_port = 443, rr_scheme = HTTPS,
     rr_request = \<lparr>proto_first_line = line, proto_header = [(''host'', ''a.b'')], proto_body = []\<rparr>,
     rr_response = \<lparr>proto_first_line = ''HTTP/1.1 200 OK'', proto_header = [], proto_body = []\<rparr>\<rparr>"

definition two_saves :: record_files where
  "two_saves = [''/r/save.1'' \<mapsto> Some (saved_get ''GET /p?x=1 H''), ''/r/save.2'' \<mapsto> Some (saved_get ''GET /p?x=2 H'')]"






text \<open>\<open>get_server_delay\<close>: with a file whose lines all have three columns, and a request line of
  at least two words, the delay is the number in the first line whose first two columns are those
  words (0 if it is negative), and 0 if there is none.\<close>

lemma server_delay_first_rule:
  assumes "\<forall>line \<in> set (getlines [] contents). 3 \<le> length (columns line)"
    and "2 \<le> length (split_line [] (proto_first_line (rr_request q)) (CHR '' ''))"
  shows "get_server_delay path (Some contents) q =
    (case find (\<lambda>line. columns line ! 0 = split_line [] (proto_first_line (rr_request q)) (CHR '' '') ! 0 \<and>
          columns line ! 1 = split_line [] (proto_first_line (rr_request q)) (CHR '' '') ! 1)
        (getlines [] contents) of
       None \<Rightarrow> Inr 0
     | Some line \<Rightarrow> bindR (stoi (columns line ! 2)) (\<lambda>d. Inr (if 0 \<le> d then word_of_int d else 0)))"
  using find_delay_spec [OF assms] unfolding delay_value_def by (simp add: get_server_delay_def)

text \<open>C39.  The file of load times that a recording ends with (\<open>TimeLogger::print_map\<close>) is a delay file
  for \<open>replayserver_delay\<close>: an answer to a request for the same method and path waits as many
  milliseconds as the first recorded load of that object took, and not at all if there is none,
  provided that the loads took less than a million milliseconds (longer ones are printed in
  scientific notation) and methods and paths have no tabs and newlines.\<close>

theorem load_times_replayed:
  assumes "\<forall>element \<in> set (finals t). plain_entry element"
    and "CHR '' '' \<notin> set m" "CHR '' '' \<notin> set u"
    and "proto_first_line (rr_request q) = m @ '' '' @ u @ '' '' @ rest"
  shows "get_server_delay path (Some (print_map t)) q =
    Inr (case find (\<lambda>(m', u', v). m' = m \<and> u' = u) (finals t) of
           None \<Rightarrow> 0 | Some (_, _, v) \<Rightarrow> word_of_int \<lfloor>v\<rfloor>)"
  by (rule load_times_delay [OF assms])

theorem load_times_replayed_witness:
  "get_server_delay ''d''
     (Some (print_map \<lparr>rtt_start = Map.empty, object_load_start = Map.empty, rtts = Map.empty,
        finals = [(''POST'', ''/p'', 5), (''GET'', ''/p'', 12), (''GET'', ''/p'', 7)]\<rparr>))
     (saved_get ''GET /p H'') = Inr 12"
proof -
  let ?t = "\<lparr>rtt_start = Map.empty, object_load_start = Map.empty, rtts = Map.empty,
    finals = [(''POST'', ''/p'', 5), (''GET'', ''/p'', 12), (''GET'', ''/p'', 7)]\<rparr> :: time_logger"
  have "\<exists>n < 10 ^ 6. (5 :: rat) = of_nat n" "\<exists>n < 10 ^ 6. (12 :: rat) = of_nat n" "\<exists>n < 10 ^ 6. (7 :: rat) = of_nat n"
    by (rule exI [of _ 5], simp) (rule exI [of _ 12], simp, rule exI [of _ 7], simp)
  then have "\<forall>element \<in> set (finals ?t). plain_entry element" by (simp add: plain_entry_def)
  from load_times_replayed [OF this, where m = "''GET''" and u = "''/p''" and rest = "''H''" and q = "saved_get ''GET /p H''" and path = "''d''"]
  show ?thesis by (simp add: saved_get_def)
qed

section \<open>Privileges\<close>

text \<open>\<open>drop_privileges\<close>, for a process whose real and effective identities differ and any kernel
  on which a failed \<open>seteuid\<close> changes nothing: if it returns, then the effective identities are
  the real ones that the process started with, and the kernel has just refused to give either of
  the old effective ones back.\<close>

lemma privileges_are_gone:
  assumes "drop_privileges c k = Inr (Some k')" "failed_calls_change_nothing c"
    "getgid c k \<noteq> getegid c k" "getuid c k \<noteq> geteuid c k"
  shows "getegid c k' = getgid c k \<and> geteuid c k' = getuid c k \<and>
    fst (seteuid c (geteuid c k) k') = -1 \<and> (\<exists>k2. setegid c (getegid c k) k2 = (-1, k'))"
  by (rule drop_privileges_identities [OF assms])

end
