(* ===== verification/Any_Queue.thy ===== *)
theory Any_Queue
  imports Infinite_Queue CoDel_Queue Pie_Queue
begin

text \<open>
  \<open>get_packet_queue\<close> of \<open>src/frontend/linkshell.cc\<close>: the discipline that the command line asks
  for, behind a pointer to \<open>AbstractPacketQueue\<close>.  The pointer is a value of a datatype with one
  constructor per subclass, and a virtual call is a case distinction.
\<close>

datatype 'g any_queue =
    Infinite fifo_state
  | Drop_tail dropping_queue
  | Drop_head dropping_queue
  | Codel codel_queue
  | Pie "'g pie_queue"

section \<open>Virtual calls\<close>

definition enqueue_as ::
  "('x \<Rightarrow> 'g any_queue) \<Rightarrow> 'x queue_ops \<Rightarrow> clock \<Rightarrow> 'x \<Rightarrow> queued_packet \<Rightarrow> ('g any_queue \<times> clock) res" where
  "enqueue_as C ops c x p = bindR (q_enqueue ops c x p) (\<lambda>(x', c'). Inr (C x', c'))"

definition dequeue_as ::
  "('x \<Rightarrow> 'g any_queue) \<Rightarrow> 'x queue_ops \<Rightarrow> clock \<Rightarrow> 'x \<Rightarrow> (queued_packet \<times> 'g any_queue \<times> clock) res" where
  "dequeue_as C ops c x = bindR (q_dequeue ops c x) (\<lambda>(p, x', c'). Inr (p, C x', c'))"

definition any_ops :: "('g \<Rightarrow> rat \<times> 'g) \<Rightarrow> 'g any_queue queue_ops" where
  "any_ops draw =
     \<lparr>q_enqueue = (\<lambda>c q p. case q of
          Infinite x \<Rightarrow> enqueue_as Infinite infinite_ops c x p
        | Drop_tail x \<Rightarrow> enqueue_as Drop_tail drop_tail_ops c x p
        | Drop_head x \<Rightarrow> enqueue_as Drop_head drop_head_ops c x p
        | Codel x \<Rightarrow> enqueue_as Codel codel_ops c x p
        | Pie x \<Rightarrow> enqueue_as Pie (pie_ops draw) c x p),
      q_dequeue = (\<lambda>c q. case q of
          Infinite x \<Rightarrow> dequeue_as Infinite infinite_ops c x
        | Drop_tail x \<Rightarrow> dequeue_as Drop_tail drop_tail_ops c x
        | Drop_head x \<Rightarrow> dequeue_as Drop_head drop_head_ops c x
        | Codel x \<Rightarrow> dequeue_as Codel codel_ops c x
        | Pie x \<Rightarrow> dequeue_as Pie (pie_ops draw) c x),
      q_empty = (\<lambda>q. case q of
          Infinite x \<Rightarrow> q_empty infinite_ops x
        | Drop_tail x \<Rightarrow> q_empty drop_tail_ops x
        | Drop_head x \<Rightarrow> q_empty drop_head_ops x
        | Codel x \<Rightarrow> q_empty codel_ops x
        | Pie x \<Rightarrow> q_empty (pie_ops draw) x),
      q_to_string = (\<lambda>q. case q of
          Infinite x \<Rightarrow> q_to_string infinite_ops x
        | Drop_tail x \<Rightarrow> q_to_string drop_tail_ops x
        | Drop_head x \<Rightarrow> q_to_string drop_head_ops x
        | Codel x \<Rightarrow> q_to_string codel_ops x
        | Pie x \<Rightarrow> q_to_string (pie_ops draw) x),
      q_size_bytes = (\<lambda>q. case q of
          Infinite x \<Rightarrow> q_size_bytes infinite_ops x
        | Drop_tail x \<Rightarrow> q_size_bytes drop_tail_ops x
        | Drop_head x \<Rightarrow> q_size_bytes drop_head_ops x
        | Codel x \<Rightarrow> q_size_bytes codel_ops x
        | Pie x \<Rightarrow> q_size_bytes (pie_ops draw) x),
      q_size_packets = (\<lambda>q. case q of
          Infinite x \<Rightarrow> q_size_packets infinite_ops x
        | Drop_tail x \<Rightarrow> q_size_packets drop_tail_ops x
        | Drop_head x \<Rightarrow> q_size_packets drop_head_ops x
        | Codel x \<Rightarrow> q_size_packets codel_ops x
        | Pie x \<Rightarrow> q_size_packets (pie_ops draw) x)\<rparr>"

text \<open>\<open>get_packet_queue\<close>; what \<open>usage_error\<close> prints is left out, its exception is not.\<close>

definition link_usage_error :: "'a res" where
  "link_usage_error = Inl (Runtime_error ''invalid arguments'')"

definition get_packet_queue :: "'g \<Rightarrow> clock \<Rightarrow> string \<Rightarrow> string \<Rightarrow> ('g any_queue \<times> clock) res" where
  "get_packet_queue seed c type args =
     (if type = ''infinite'' then bindR (infinite_new args) (\<lambda>q. Inr (Infinite q, c))
      else if type = ''droptail'' then bindR (dropping_new args) (\<lambda>q. Inr (Drop_tail q, c))
      else if type = ''drophead'' then bindR (dropping_new args) (\<lambda>q. Inr (Drop_head q, c))
      else if type = ''codel'' then bindR (codel_new args) (\<lambda>q. Inr (Codel q, c))
      else if type = ''pie'' then bindR (pie_new seed c args) (\<lambda>(q, c'). Inr (Pie q, c'))
      else link_usage_error)"

section \<open>The contract of the interface\<close>

fun any_pkts :: "'g any_queue \<Rightarrow> queued_packet list" where
  "any_pkts (Infinite x) = internal_queue x"
| "any_pkts (Drop_tail x) = internal_queue x"
| "any_pkts (Drop_head x) = internal_queue x"
| "any_pkts (Codel x) = internal_queue x"
| "any_pkts (Pie x) = internal_queue x"

fun any_inv :: "'g any_queue \<Rightarrow> bool" where
  "any_inv (Infinite x) = counters_ok x"
| "any_inv (Drop_tail x) = dropping_inv x"
| "any_inv (Drop_head x) = dropping_inv x"
| "any_inv (Codel x) = codel_inv x"
| "any_inv (Pie x) = pie_inv x"

fun any_room :: "'g any_queue \<Rightarrow> queued_packet \<Rightarrow> bool" where
  "any_room (Infinite x) p = fifo_room x p"
| "any_room (Drop_tail x) p = fifo_room x p"
| "any_room (Drop_head x) p = fifo_room x p"
| "any_room (Codel x) p = codel_room x p"
| "any_room (Pie x) p = fifo_room x p"

definition drops_head :: "'g any_queue \<Rightarrow> bool" where
  "drops_head q = (case q of Drop_head _ \<Rightarrow> True | _ \<Rightarrow> False)"

lemma drops_head_simps [simp]:
  "\<not> drops_head (Infinite x1)" "\<not> drops_head (Drop_tail x2)" "drops_head (Drop_head x3)"
  "\<not> drops_head (Codel x4)" "\<not> drops_head (Pie x5)"
  by (simp_all add: drops_head_def)

lemma dequeue_as_ok:
  "q_dequeue ops c x = Inr (p, x', c') \<Longrightarrow> dequeue_as C ops c x = Inr (p, C x', c')"
  by (simp add: dequeue_as_def)

lemma any_dequeue_ok:
  assumes "any_inv q" "any_pkts q = p # rest"
  shows "\<exists>q' c'. q_dequeue (any_ops draw) c q = Inr (p, q', c') \<and> any_inv q' \<and>
    subseq (any_pkts q') rest \<and> (\<forall>x. any_room q x \<longrightarrow> any_room q' x) \<and> drops_head q' = drops_head q"
proof (cases q)
  case (Infinite x)
  with assms infinite.dequeue_ok [of x p rest c] show ?thesis
    by (fastforce simp: any_ops_def dest: dequeue_as_ok [where C = Infinite])
next
  case (Drop_tail x)
  with assms drop_tail.dequeue_ok [of x p rest c] show ?thesis
    by (fastforce simp: any_ops_def dest: dequeue_as_ok [where C = Drop_tail])
next
  case (Drop_head x)
  with assms drop_head.dequeue_ok [of x p rest c] show ?thesis
    by (fastforce simp: any_ops_def dest: dequeue_as_ok [where C = Drop_head])
next
  case (Codel x)
  with assms codel.dequeue_ok [of x p rest c] show ?thesis
    by (fastforce simp: any_ops_def dest: dequeue_as_ok [where C = Codel])
next
  case (Pie x)
  with assms pie.dequeue_ok [of x p rest draw c] show ?thesis
    by (fastforce simp: any_ops_def dest: dequeue_as_ok [where C = Pie])
qed

lemma any_enqueue_ok:
  assumes "any_inv q" "any_room q p" "q_enqueue (any_ops draw) c q p = Inr (q', c')"
  shows "any_inv q' \<and> subseq (any_pkts q') (any_pkts q @ [p]) \<and> drops_head q' = drops_head q"
proof (cases q)
  case (Infinite x)
  with assms infinite.enqueue_ok [of x p c] show ?thesis
    by (auto simp: any_ops_def enqueue_as_def res_simps)
next
  case (Drop_tail x)
  with assms drop_tail.enqueue_ok [of x p c] show ?thesis
    by (auto simp: any_ops_def enqueue_as_def res_simps)
next
  case (Drop_head x)
  with assms drop_head.enqueue_ok [of x p c] show ?thesis
    by (auto simp: any_ops_def enqueue_as_def res_simps)
next
  case (Codel x)
  with assms codel.enqueue_ok [of x p c] show ?thesis
    by (auto simp: any_ops_def enqueue_as_def res_simps)
next
  case (Pie x)
  with assms pie.enqueue_ok [of x p draw c] show ?thesis
    by (auto simp: any_ops_def enqueue_as_def res_simps)
qed

lemma any_enqueue_total:
  assumes "any_inv q" "any_room q p" "\<not> drops_head q"
  shows "\<exists>q' c'. q_enqueue (any_ops draw) c q p = Inr (q', c')"
proof (cases q)
  case (Infinite x)
  with assms infinite.enqueue_total [of x p c] show ?thesis
    by (auto simp: any_ops_def enqueue_as_def)
next
  case (Drop_tail x)
  with assms drop_tail.enqueue_total [of x p c] show ?thesis
    by (auto simp: any_ops_def enqueue_as_def)
next
  case (Drop_head x)
  with assms show ?thesis by simp
next
  case (Codel x)
  with assms codel.enqueue_total [of x p c] show ?thesis
    by (auto simp: any_ops_def enqueue_as_def)
next
  case (Pie x)
  with assms pie.enqueue_total [of x p draw c] show ?thesis
    by (auto simp: any_ops_def enqueue_as_def)
qed

lemma any_sizes:
  assumes "any_inv q"
  shows "countable (any_pkts q)"
    and "q_empty (any_ops draw) q \<longleftrightarrow> any_pkts q = []"
    and "q_size_bytes (any_ops draw) q = Inr (of_nat (total_bytes (any_pkts q)))"
    and "q_size_packets (any_ops draw) q = Inr (of_nat (length (any_pkts q)))"
  using assms
  by (cases q; simp add: any_ops_def infinite.inv_countable infinite.empty_iff infinite.size_bytes_eq
      infinite.size_packets_eq drop_tail.inv_countable drop_tail.empty_iff drop_tail.size_bytes_eq
      drop_tail.size_packets_eq drop_head.empty_iff drop_head.size_bytes_eq drop_head.size_packets_eq
      codel.inv_countable codel.empty_iff codel.size_bytes_eq codel.size_packets_eq
      pie.inv_countable pie.empty_iff pie.size_bytes_eq pie.size_packets_eq)+

lemma any_room_countable: "any_room q p \<Longrightarrow> countable (any_pkts q @ [p])"
  by (cases q) (simp_all add: codel_room_def)

text \<open>Every discipline keeps the contract, and every one but drop-head takes every packet.\<close>

interpretation any: packet_queue "any_ops draw" any_pkts any_inv any_room for draw
  by unfold_locales
    (simp_all add: any_sizes any_room_countable, use any_dequeue_ok any_enqueue_ok in \<open>blast+\<close>)

abbreviation sturdy_inv :: "'g any_queue \<Rightarrow> bool" where
  "sturdy_inv q \<equiv> any_inv q \<and> \<not> drops_head q"

interpretation sturdy: reliable_packet_queue "any_ops draw" any_pkts sturdy_inv any_room for draw
proof unfold_locales
  fix q :: "'a any_queue" and p rest c
  assume "sturdy_inv q" "any_pkts q = p # rest"
  then show "\<exists>q' c'. q_dequeue (any_ops draw) c q = Inr (p, q', c') \<and> sturdy_inv q' \<and>
      subseq (any_pkts q') rest \<and> (\<forall>x. any_room q x \<longrightarrow> any_room q' x)"
    using any_dequeue_ok [of q p rest draw c] by blast
next
  fix q q' :: "'a any_queue" and p c c'
  assume "sturdy_inv q" "any_room q p" "q_enqueue (any_ops draw) c q p = Inr (q', c')"
  then show "sturdy_inv q' \<and> subseq (any_pkts q') (any_pkts q @ [p])"
    using any_enqueue_ok [of q p draw c q' c'] by blast
qed (simp_all add: any_sizes any_room_countable any_enqueue_total)

section \<open>The queue that is asked for\<close>

lemma get_packet_queue_inv:
  assumes "get_packet_queue seed c type args = Inr (q, c')"
  shows "any_inv q \<and> any_pkts q = [] \<and> (drops_head q \<longleftrightarrow> type = ''drophead'')"
  using assms
  by (auto simp: get_packet_queue_def res_simps link_usage_error_def infinite_new_def counters_ok_def
      countable_def dest!: dropping_new_inv codel_new_inv pie_new_inv split: if_splits)

lemma get_packet_queue_unknown:
  "type \<notin> {''infinite'', ''droptail'', ''drophead'', ''codel'', ''pie''} \<Longrightarrow>
   get_packet_queue seed c type args = Inl (Runtime_error ''invalid arguments'')"
  by (simp add: get_packet_queue_def link_usage_error_def)

end
