(* ===== verification/Command_Line.thy ===== *)
theory Command_Line
  imports Util
begin

text \<open>
  The command lines of the shells.  \<open>shell_quote\<close> of \<open>src/frontend/linkshell.cc\<close> with a reader
  of quoted words to compare it with, glibc's \<open>getopt_long\<close> in its default (permuting) mode,
  and the loops over the options of \<open>linkshell.cc\<close> and \<open>meter.cc\<close>.
\<close>

section \<open>Quoting\<close>

definition shell_quote :: "string \<Rightarrow> string" where
  "shell_quote arg =
     [CHR 0x27] @
     concat (map (\<lambda>ch. if ch \<noteq> CHR 0x27 then [ch] else [CHR 0x27, CHR 0x5C, CHR 0x27, CHR 0x27]) arg) @
     [CHR 0x27]"

text \<open>The line that goes into the log file.\<close>

definition quoted_command_line :: "string \<Rightarrow> string list \<Rightarrow> string" where
  "quoted_command_line argv0 args = foldl (\<lambda>line a. line @ '' '' @ shell_quote a) (shell_quote argv0) args"

text \<open>
  The words that a POSIX shell reads from a line (section 2.2 of the Shell Command Language), for
  lines without expansions and operators: blanks separate words, a backslash takes the next
  character literally (a newline after it vanishes), single quotes take everything literally up
  to the next one.  \<open>None\<close>: the line needs more of the shell than that, or does not end.
\<close>

datatype sh_mode = Between | In_word | Quoted

definition sh_special :: string where
  "sh_special = [CHR 0x0A, CHR 0x22] @ ''|&;<>()$`*?[#~=%!{}''"

fun sh_words :: "sh_mode \<Rightarrow> string \<Rightarrow> string \<Rightarrow> string list option" where
  "sh_words m acc [] =
     (case m of Between \<Rightarrow> Some [] | In_word \<Rightarrow> Some [acc] | Quoted \<Rightarrow> None)"
| "sh_words m acc (c # cs) =
     (if m = Quoted then
        (if c = CHR 0x27 then sh_words In_word acc cs else sh_words Quoted (acc @ [c]) cs)
      else if c = CHR 0x27 then sh_words Quoted acc cs
      else if c = CHR 0x5C then
        (case cs of
           [] \<Rightarrow> None
         | d # ds \<Rightarrow> if d = CHR 0x0A then sh_words m acc ds else sh_words In_word (acc @ [d]) ds)
      else if c = CHR 0x20 \<or> c = CHR 0x09 then
        (if m = In_word then map_option ((#) acc) (sh_words Between [] cs) else sh_words Between [] cs)
      else if c \<in> set sh_special then None
      else sh_words In_word (acc @ [c]) cs)"

lemma sh_words_quoted:
  "sh_words Quoted acc
     (concat (map (\<lambda>ch. if ch \<noteq> CHR 0x27 then [ch] else [CHR 0x27, CHR 0x5C, CHR 0x27, CHR 0x27]) arg) @
      CHR 0x27 # rest) = sh_words In_word (acc @ arg) rest"
  by (induction arg arbitrary: acc) auto

lemma sh_words_shell_quote:
  "sh_words Between [] (shell_quote arg @ rest) = sh_words In_word arg rest"
  using sh_words_quoted [of "[]" arg rest] by (simp add: shell_quote_def)

lemma foldl_quotes:
  "foldl (\<lambda>line a. line @ '' '' @ shell_quote a) x args =
   x @ concat (map (\<lambda>a. '' '' @ shell_quote a) args)"
  by (induction args arbitrary: x) simp_all

lemma sh_words_arguments:
  "sh_words In_word w (concat (map (\<lambda>a. '' '' @ shell_quote a) args)) = Some (w # args)"
  by (induction args arbitrary: w) (simp_all add: sh_words_shell_quote)

text \<open>A shell that reads the logged line back runs the same command with the same arguments.\<close>

lemma quoted_command_line_words:
  "sh_words Between [] (quoted_command_line argv0 args) = Some (argv0 # args)"
  unfolding quoted_command_line_def foldl_quotes sh_words_shell_quote by (rule sh_words_arguments)

section \<open>Options\<close>

text \<open>
  \<open>getopt_long\<close> without \<open>POSIXLY_CORRECT\<close> (the programs have cleared the environment by then):
  options may stand after other arguments, \<open>--\<close> ends them, a long option may be abbreviated and
  may have its argument behind \<open>=\<close> or in the next element.  \<open>longs\<close> are the names with whether
  they require an argument and the value returned, \<open>shorts\<close> the letters.  The result is what
  successive calls return, with \<open>optarg\<close>, and the elements of \<open>argv\<close> from \<open>optind\<close> on.  After
  the first \<open>?\<close> the programs stop, and so does this definition.
\<close>

type_synonym long_options = "(string \<times> bool \<times> char) list"
type_synonym short_options = "(char \<times> bool) list"
type_synonym option_event = "char \<times> string"

definition bad_option :: "option_event list \<times> string list" where
  "bad_option = ([(CHR ''?'', [])], [])"

definition find_long :: "long_options \<Rightarrow> string \<Rightarrow> (bool \<times> char) option" where
  "find_long longs name =
     (case map_of longs name of
        Some v \<Rightarrow> Some v
      | None \<Rightarrow>
          (case filter (\<lambda>(n, _). Sublist.prefix name n) longs of
             [] \<Rightarrow> None
           | (_, v) # others \<Rightarrow> if \<forall>x \<in> set others. snd x = v then Some v else None))"

text \<open>A cluster of short options: what they return, and the last one if it wants the next element.\<close>

fun short_cluster :: "short_options \<Rightarrow> string \<Rightarrow> option_event list \<times> char option" where
  "short_cluster shorts [] = ([], None)"
| "short_cluster shorts (c # cs) =
     (case map_of shorts c of
        None \<Rightarrow> (fst bad_option, None)
      | Some False \<Rightarrow> (let (es, p) = short_cluster shorts cs in ((c, []) # es, p))
      | Some True \<Rightarrow> if cs = [] then ([], Some c) else ([(c, cs)], None))"

definition split_at_equals :: "string \<Rightarrow> string \<times> string option" where
  "split_at_equals s =
     (case dropWhile (\<lambda>c. c \<noteq> CHR ''='') s of
        [] \<Rightarrow> (s, None) | _ # arg \<Rightarrow> (takeWhile (\<lambda>c. c \<noteq> CHR ''='') s, Some arg))"

definition after_option ::
  "option_event list \<Rightarrow> option_event list \<times> string list \<Rightarrow> option_event list \<times> string list" where
  "after_option es r = (es @ fst r, snd r)"

fun getopt_long :: "short_options \<Rightarrow> long_options \<Rightarrow> string list \<Rightarrow> option_event list \<times> string list" where
  "getopt_long shorts longs [] = ([], [])"
| "getopt_long shorts longs (a # as) =
     (if a = ''--'' then ([], as)
      else if take 2 a = ''--'' then
        (let (name, arg) = split_at_equals (drop 2 a)
         in case (find_long longs name, arg) of
              (None, _) \<Rightarrow> bad_option
            | (Some (False, v), Some _) \<Rightarrow> bad_option
            | (Some (False, v), None) \<Rightarrow> after_option [(v, [])] (getopt_long shorts longs as)
            | (Some (True, v), Some x) \<Rightarrow> after_option [(v, x)] (getopt_long shorts longs as)
            | (Some (True, v), None) \<Rightarrow>
                (case as of
                   [] \<Rightarrow> bad_option
                 | b # bs \<Rightarrow> after_option [(v, b)] (getopt_long shorts longs bs)))
      else if take 1 a = ''-'' \<and> a \<noteq> ''-'' then
        (case short_cluster shorts (drop 1 a) of
           (es, None) \<Rightarrow> after_option es (getopt_long shorts longs as)
         | (es, Some c) \<Rightarrow>
             (case as of
                [] \<Rightarrow> after_option es bad_option
              | b # bs \<Rightarrow> after_option (es @ [(c, b)]) (getopt_long shorts longs bs)))
      else (let (es, rest) = getopt_long shorts longs as in (es, a # rest)))"

text \<open>Arguments that do not begin with a dash are no options, wherever they stand.\<close>

lemma getopt_no_options:
  "\<forall>a \<in> set as. take 1 a \<noteq> ''-'' \<Longrightarrow> getopt_long shorts longs as = ([], as)"
proof (induction as)
  case (Cons a as)
  then have "take 1 a \<noteq> ''-''" by simp
  then have "a \<noteq> ''--''" "take 2 a \<noteq> ''--''" by (cases a; simp)+
  with Cons show ?case by simp
qed simp

lemma getopt_double_dash: "getopt_long shorts longs (''--'' # as) = ([], as)"
  by simp

end
