(* ===== verification/System_Runner.thy ===== *)
theory System_Runner
  imports Util Child_Process "HOL-Library.Multiset"
begin

text \<open>
  \<open>src/util/system_runner.cc\<close> and the objects that run commands when they are made and when they
  go: \<open>src/util/nat.cc\<close> and the virtual Ethernet pair of \<open>src/util/netdevice.cc\<close>.

  What the kernel does for one call of \<open>run\<close> (the link count it is asked for, the value of
  \<open>clone\<close>, what it answers to waiting and signalling) is a \<open>spawn\<close>; \<open>spawns\<close> is the sequence of
  these for successive calls.  \<open>executed\<close> records the commands and how they ended.
\<close>

section \<open>Becoming another program\<close>

text \<open>
  \<open>ezexec\<close>, given whether \<open>environ\<close> is not null and the value of \<open>execve\<close> or \<open>execvpe\<close>, if it
  returns (\<open>None\<close>: the process is now the program).
\<close>

definition ezexec ::
  "'k credentials \<Rightarrow> bool \<Rightarrow> bool \<Rightarrow> int option \<Rightarrow> string list \<Rightarrow> 'k \<Rightarrow> string list res" where
  "ezexec c environ path_search exec_result command k =
     (if command = [] then Inl (Runtime_error ''ezexec: empty command'')
      else if (geteuid c k = 0 \<or> getegid c k = 0) \<and> environ
      then Inl (Runtime_error ''BUG: root's environment not cleared'')
      else if (geteuid c k = 0 \<or> getegid c k = 0) \<and> path_search
      then Inl (Runtime_error ''BUG: root should not search PATH'')
      else case exec_result of
             None \<Rightarrow> Inr command
           | Some r \<Rightarrow> bindR (system_call (hd command) r) (\<lambda>_. Inl (Runtime_error ''execve: failed'')))"

text \<open>A program found by way of \<open>PATH\<close>, or started with an environment, does not run as root.\<close>

lemma ezexec_unprivileged:
  "ezexec c environ path_search r command k = Inr prog \<Longrightarrow>
   prog = command \<and> command \<noteq> [] \<and> r = None \<and>
   (environ \<or> path_search \<longrightarrow> geteuid c k \<noteq> 0 \<and> getegid c k \<noteq> 0)"
  by (auto simp: ezexec_def res_simps split: if_splits option.splits)

section \<open>Running a command\<close>

record spawn =
  task_links :: "nat option"
  clone_result :: int
  spawn_os :: os

datatype command_end = Not_started | Ended int | Unknown_end

record runner =
  spawns :: "nat \<Rightarrow> spawn"
  executed :: "(string list \<times> command_end) list"

text \<open>
  The loop of \<open>run\<close>, which may wait for ever; with the exception that ended it, if one did,
  what the destructor of the child finds.
\<close>

partial_function (option) run_wait :: "os \<Rightarrow> child_process \<Rightarrow> (exn option \<times> child_process \<times> os) option" where
  "run_wait k c =
     (if terminated c then Some (None, c, k)
      else case child_wait False k c of
             Inl e \<Rightarrow> Some (Some e, c, k\<lparr>waits := \<lambda>n. waits k (Suc n)\<rparr>)
           | Inr (c', k') \<Rightarrow> run_wait k' c')"

definition run_child :: "spawn \<Rightarrow> string \<Rightarrow> (unit res \<times> command_end) option" where
  "run_child sp name =
     (case child_new (task_links sp) (clone_result sp) name SIGHUP of
        Inl e \<Rightarrow> Some (Inl e, Not_started)
      | Inr c \<Rightarrow>
          (case run_wait (spawn_os sp) c of
             None \<Rightarrow> None
           | Some (Some e, c', k) \<Rightarrow> map_option (\<lambda>_. (Inl e, Unknown_end)) (child_destroy k c')
           | Some (None, c', k) \<Rightarrow>
               Some (bindR (child_exit_status c') (\<lambda>status.
                       if status \<noteq> 0 then child_throw_exception c' else Inr ()),
                     Ended (exit_status c'))))"

type_synonym ('a, 's) run = "'s \<Rightarrow> ('a res \<times> 's) option"

definition run :: "string list \<Rightarrow> (unit, runner) run" where
  "run command r =
     (case join command of
        Inl e \<Rightarrow> Some (Inl e, r)
      | Inr name \<Rightarrow>
          map_option (\<lambda>(result, how). (result, r\<lparr>spawns := \<lambda>n. spawns r (Suc n),
                                                  executed := executed r @ [(command, how)]\<rparr>))
            (run_child (spawns r 0) name))"

text \<open>Sequencing, the unwinding of a finished object when what follows throws, and a destructor.\<close>

definition then_run :: "('a, 's) run \<Rightarrow> ('b, 's) run \<Rightarrow> ('b, 's) run" where
  "then_run m f s =
     (case m s of None \<Rightarrow> None | Some (Inl e, s1) \<Rightarrow> Some (Inl e, s1) | Some (Inr _, s1) \<Rightarrow> f s1)"

definition unwinding :: "('b, 's) run \<Rightarrow> (unit, 's) run \<Rightarrow> ('b, 's) run" where
  "unwinding f destructor s =
     (case f s of
        Some (Inl e, s1) \<Rightarrow> map_option (\<lambda>(_, s2). (Inl e, s2)) (destructor s1)
      | r \<Rightarrow> r)"

definition swallowing :: "(unit, 's) run \<Rightarrow> (unit, 's) run" where
  "swallowing m s = map_option (\<lambda>(_, s'). (Inr (), s')) (m s)"

section \<open>Address translation\<close>

text \<open>The path of iptables comes from the configuration of the build.\<close>

definition nat_rule_new :: "string \<Rightarrow> string list \<Rightarrow> (unit, runner) run" where
  "nat_rule_new iptables arguments = run ([iptables, ''-w'', ''-t'', ''nat'', ''-A''] @ arguments)"

definition nat_rule_delete :: "string \<Rightarrow> string list \<Rightarrow> (unit, runner) run" where
  "nat_rule_delete iptables arguments =
     swallowing (run ([iptables, ''-w'', ''-t'', ''nat'', ''-D''] @ arguments))"

definition nat_pre :: "address \<Rightarrow> int \<Rightarrow> string list" where
  "nat_pre ingress_addr pid =
     [''PREROUTING'', ''-s'', ip ingress_addr, ''-j'', ''CONNMARK'', ''--set-mark'', int_dec pid]"

definition nat_post :: "int \<Rightarrow> string list" where
  "nat_post pid = [''POSTROUTING'', ''-j'', ''MASQUERADE'', ''-m'', ''connmark'', ''--mark'', int_dec pid]"

definition nat_new :: "string \<Rightarrow> address \<Rightarrow> int \<Rightarrow> (unit, runner) run" where
  "nat_new iptables ingress_addr pid =
     then_run (nat_rule_new iptables (nat_pre ingress_addr pid))
       (unwinding (nat_rule_new iptables (nat_post pid)) (nat_rule_delete iptables (nat_pre ingress_addr pid)))"

definition nat_delete :: "string \<Rightarrow> address \<Rightarrow> int \<Rightarrow> (unit, runner) run" where
  "nat_delete iptables ingress_addr pid =
     then_run (nat_rule_delete iptables (nat_post pid)) (nat_rule_delete iptables (nat_pre ingress_addr pid))"

definition dnat_rule :: "address \<Rightarrow> string \<Rightarrow> string list" where
  "dnat_rule listener interface =
     [''PREROUTING'', ''-p'', ''TCP'', ''-i'', interface, ''-j'', ''DNAT'', ''--to-destination'',
      address_str '':'' listener]"

definition dnat_new :: "string \<Rightarrow> address \<Rightarrow> string \<Rightarrow> (unit, runner) run" where
  "dnat_new iptables listener interface = nat_rule_new iptables (dnat_rule listener interface)"

section \<open>Virtual Ethernet devices\<close>

record veth_pair =
  veth_name :: string
  kernel_will_destroy :: bool

definition name_check :: "string \<Rightarrow> unit res" where
  "name_check str =
     (if str_find str ''veth-'' \<noteq> Some 0
      then Inl (Runtime_error (str @ '': name of veth device must start with \"veth-\"'')) else Inr ())"

definition veth_new :: "string \<Rightarrow> string \<Rightarrow> string \<Rightarrow> (veth_pair, runner) run" where
  "veth_new ip_program outside_name inside_name r =
     (case bindR (name_check outside_name) (\<lambda>_. name_check inside_name) of
        Inl e \<Rightarrow> Some (Inl e, r)
      | Inr _ \<Rightarrow>
          map_option (\<lambda>(result, r').
              (bindR result (\<lambda>_. Inr \<lparr>veth_name = outside_name, kernel_will_destroy = False\<rparr>), r'))
            (run [ip_program, ''link'', ''add'', outside_name, ''type'', ''veth'', ''peer'', ''name'', inside_name] r))"

definition set_kernel_will_destroy :: "veth_pair \<Rightarrow> veth_pair" where
  "set_kernel_will_destroy v = v\<lparr>kernel_will_destroy := True\<rparr>"

definition veth_delete :: "string \<Rightarrow> veth_pair \<Rightarrow> (unit, runner) run" where
  "veth_delete ip_program v =
     (if kernel_will_destroy v then (\<lambda>r. Some (Inr (), r))
      else swallowing (run [ip_program, ''link'', ''del'', veth_name v]))"

section \<open>What a run leaves behind\<close>

text \<open>A command that is run is recorded, and \<open>run\<close> returns normally exactly if it exited with 0.\<close>

lemma child_new_fresh: "child_new n p name sig = Inr c \<Longrightarrow> \<not> moved_away c \<and> \<not> terminated c"
  by (auto simp: child_new_def res_simps)

lemma run_wait_terminated:
  assumes "run_wait k c = Some (None, c', k')" "\<not> moved_away c"
  shows "terminated c' \<and> \<not> moved_away c'"
proof -
  define P where "P k c r \<longleftrightarrow>
    (\<not> moved_away c \<longrightarrow> fst r = None \<longrightarrow> terminated (fst (snd r)) \<and> \<not> moved_away (fst (snd r)))"
    for k :: os and c :: child_process and r :: "exn option \<times> child_process \<times> os"
  have "P k c (None, c', k')"
  proof (rule run_wait.raw_induct [where P = P, OF _ assms(1)])
    fix loop k c r
    assume IH: "\<And>k c r. loop k c = Some r \<Longrightarrow> P k c r"
      and r: "(if terminated c then Some (None, c, k)
        else case child_wait False k c of
               Inl e \<Rightarrow> Some (Some e, c, k\<lparr>waits := \<lambda>n. waits k (Suc n)\<rparr>)
             | Inr (c', k') \<Rightarrow> loop k' c') = Some r"
    show "P k c r"
    proof (cases "\<not> terminated c \<and> (\<exists>c1 k1. child_wait False k c = Inr (c1, k1))")
      case True
      then obtain c1 k1 where w: "child_wait False k c = Inr (c1, k1)" "loop k1 c1 = Some r"
        using r by auto
      then have "moved_away c1 = moved_away c" by (auto elim!: child_wait_Inr simp: same_child_def)
      with IH [OF w(2)] show ?thesis by (simp add: P_def)
    next
      case False
      with r show ?thesis by (auto simp: P_def split: sum.splits if_splits)
    qed
  qed
  with assms(2) show ?thesis by (simp add: P_def)
qed

lemma run_child_result:
  assumes "run_child sp name = Some (result, how)"
  shows "result = Inr () \<longleftrightarrow> how = Ended 0"
proof (cases "child_new (task_links sp) (clone_result sp) name SIGHUP")
  case (Inl e)
  with assms show ?thesis by (auto simp: run_child_def)
next
  case (Inr c)
  then have c: "\<not> moved_away c" using child_new_fresh by blast
  from assms Inr obtain x c' k' where w: "run_wait (spawn_os sp) c = Some (x, c', k')"
    by (auto simp: run_child_def split: option.splits)
  show ?thesis
  proof (cases x)
    case None
    with run_wait_terminated [of "spawn_os sp" c c' k'] w c
    have "child_exit_status c' = Inr (exit_status c')" by (simp add: child_exit_status_def)
    with assms Inr w None show ?thesis
      by (auto simp: run_child_def child_throw_exception_def res_simps split: if_splits)
  next
    case (Some e)
    with assms Inr w show ?thesis by (auto simp: run_child_def)
  qed
qed

lemma run_result:
  assumes "run command r = Some (result, r')" "command \<noteq> []"
  obtains how where "executed r' = executed r @ [(command, how)]" "result = Inr () \<longleftrightarrow> how = Ended 0"
proof -
  obtain name where "join command = Inr name" using assms(2) by (cases command) (auto simp: join_def)
  then obtain how where "run_child (spawns r 0) name = Some (result, how)"
    "executed r' = executed r @ [(command, how)]"
    using assms(1) by (auto simp: run_def)
  with run_child_result that show ?thesis by blast
qed

section \<open>No rule is left behind\<close>

text \<open>
  What the commands do to the rules of the table, as iptables documents it: \<open>-A\<close> adds a rule and
  \<open>-D\<close> removes one, if the command succeeds.
\<close>

fun rule_effect :: "string \<Rightarrow> string list \<times> command_end \<Rightarrow> string list multiset \<Rightarrow> string list multiset" where
  "rule_effect iptables (command, how) table =
     (if how \<noteq> Ended 0 \<or> take 4 command \<noteq> [iptables, ''-w'', ''-t'', ''nat''] then table
      else case drop 4 command of
             [] \<Rightarrow> table
           | action # rule \<Rightarrow>
               if action = ''-A'' then add_mset rule table
               else if action = ''-D'' then table - {#rule#} else table)"

definition nat_rules :: "string \<Rightarrow> runner \<Rightarrow> string list multiset" where
  "nat_rules iptables r = fold (rule_effect iptables) (executed r) {#}"

text \<open>Every command is known to have ended, and those that delete a rule have succeeded.\<close>

definition deletion_works :: "string list \<times> command_end \<Rightarrow> bool" where
  "deletion_works x \<longleftrightarrow> snd x \<noteq> Unknown_end \<and> (take 1 (drop 4 (fst x)) = [''-D''] \<longrightarrow> snd x = Ended 0)"

definition deletions_work :: "runner \<Rightarrow> bool" where
  "deletions_work r \<longleftrightarrow> (\<forall>x \<in> set (executed r). deletion_works x)"

lemma nat_rules_step:
  "executed r' = executed r @ [x] \<Longrightarrow> nat_rules iptables r' = rule_effect iptables x (nat_rules iptables r)"
  by (simp add: nat_rules_def)

definition extends :: "runner \<Rightarrow> runner \<Rightarrow> bool" where
  "extends r r' \<longleftrightarrow> (\<exists>more. executed r' = executed r @ more)"

lemma extends_trans: "extends a b \<Longrightarrow> extends b c \<Longrightarrow> extends a c"
  by (auto simp: extends_def)

lemma deletions_work_before: "deletions_work r' \<Longrightarrow> extends r r' \<Longrightarrow> deletions_work r"
  by (auto simp: deletions_work_def extends_def)

lemma nat_rule_new_effect:
  assumes "nat_rule_new iptables rule r = Some (result, r')"
  shows "extends r r' \<and> nat_rules iptables r' =
    (if result = Inr () then add_mset rule (nat_rules iptables r) else nat_rules iptables r)"
proof -
  obtain how where "executed r' = executed r @ [([iptables, ''-w'', ''-t'', ''nat'', ''-A''] @ rule, how)]"
    "result = Inr () \<longleftrightarrow> how = Ended 0"
    using assms unfolding nat_rule_new_def by (rule run_result) simp
  then show ?thesis by (auto simp: nat_rules_step extends_def)
qed

lemma nat_rule_delete_effect:
  assumes "nat_rule_delete iptables rule r = Some (result, r')"
  shows "result = Inr () \<and> extends r r' \<and>
    (deletions_work r' \<longrightarrow> nat_rules iptables r' = nat_rules iptables r - {#rule#})"
proof -
  from assms obtain result0 where
    "run ([iptables, ''-w'', ''-t'', ''nat'', ''-D''] @ rule) r = Some (result0, r')" "result = Inr ()"
    by (auto simp: nat_rule_delete_def swallowing_def)
  moreover from this(1) obtain how where
    "executed r' = executed r @ [([iptables, ''-w'', ''-t'', ''nat'', ''-D''] @ rule, how)]"
    by (rule run_result) simp
  moreover from this have "deletions_work r' \<Longrightarrow> how = Ended 0"
    by (simp add: deletions_work_def deletion_works_def)
  ultimately show ?thesis by (auto simp: nat_rules_step extends_def)
qed

lemma nat_new_effect:
  assumes "nat_new iptables a pid r = Some (result, r')" "deletions_work r'"
  shows "extends r r' \<and> nat_rules iptables r' =
    (if result = Inr () then add_mset (nat_post pid) (add_mset (nat_pre a pid) (nat_rules iptables r))
     else nat_rules iptables r)"
proof -
  from assms(1) obtain x1 r1 where 1: "nat_rule_new iptables (nat_pre a pid) r = Some (x1, r1)"
    by (auto simp: nat_new_def then_run_def split: option.splits)
  note e1 = nat_rule_new_effect [OF 1]
  show ?thesis
  proof (cases x1)
    case (Inl e)
    with assms(1) 1 e1 show ?thesis by (auto simp: nat_new_def then_run_def)
  next
    case (Inr u)
    with assms(1) 1 obtain x2 r2 where 2: "nat_rule_new iptables (nat_post pid) r1 = Some (x2, r2)"
      by (auto simp: nat_new_def then_run_def unwinding_def split: option.splits)
    note e2 = nat_rule_new_effect [OF 2]
    show ?thesis
    proof (cases x2)
      case fail: (Inl e)
      with assms(1) 1 Inr 2 obtain y where
        "nat_rule_delete iptables (nat_pre a pid) r2 = Some (y, r')" "result = Inl e"
        by (auto simp: nat_new_def then_run_def unwinding_def)
      with nat_rule_delete_effect [OF this(1)] e1 e2 fail Inr assms(2) show ?thesis
        by (auto intro: extends_trans)
    next
      case (Inr v)
      with assms(1) 1 \<open>x1 = Inr u\<close> 2 e1 e2 show ?thesis
        by (auto simp: nat_new_def then_run_def unwinding_def intro: extends_trans)
    qed
  qed
qed

lemma nat_delete_effect:
  assumes "nat_delete iptables a pid r = Some (result, r')" "deletions_work r'"
  shows "result = Inr () \<and> extends r r' \<and>
    nat_rules iptables r' = nat_rules iptables r - {#nat_post pid#} - {#nat_pre a pid#}"
proof -
  from assms(1) obtain x1 r1 where 1: "nat_rule_delete iptables (nat_post pid) r = Some (x1, r1)"
    by (auto simp: nat_delete_def then_run_def split: option.splits)
  note e1 = nat_rule_delete_effect [OF 1]
  with assms(1) 1 have 2: "nat_rule_delete iptables (nat_pre a pid) r1 = Some (result, r')"
    by (auto simp: nat_delete_def then_run_def)
  note e2 = nat_rule_delete_effect [OF 2]
  have "deletions_work r1" using deletions_work_before [OF assms(2)] e2 by blast
  with e1 e2 assms(2) show ?thesis by (auto intro: extends_trans)
qed

text \<open>A scope with an object: its destructor runs however the body ends.\<close>

definition scoped :: "(unit, 's) run \<Rightarrow> ('b, 's) run \<Rightarrow> (unit, 's) run \<Rightarrow> ('b, 's) run" where
  "scoped ctor body dtor =
     then_run ctor (\<lambda>s. case body s of
        None \<Rightarrow> None | Some (x, s1) \<Rightarrow> map_option (\<lambda>(_, s2). (x, s2)) (dtor s1))"

lemma scoped_nat_rules:
  assumes "scoped (nat_new iptables a pid) body (nat_delete iptables a pid) r = Some (result, r')"
    and "deletions_work r'"
    and "\<And>s x s'. body s = Some (x, s') \<Longrightarrow> extends s s' \<and> nat_rules iptables s' = nat_rules iptables s"
  shows "extends r r' \<and> nat_rules iptables r' = nat_rules iptables r"
proof -
  from assms(1) obtain x1 r1 where 1: "nat_new iptables a pid r = Some (x1, r1)"
    by (auto simp: scoped_def then_run_def split: option.splits)
  show ?thesis
  proof (cases x1)
    case (Inl e)
    with assms(1) 1 have "r' = r1" by (simp add: scoped_def then_run_def)
    with nat_new_effect [OF 1] assms(2) Inl show ?thesis by simp
  next
    case (Inr u)
    with assms(1) 1 obtain x2 r2 y where 2: "body r1 = Some (x2, r2)"
      and 3: "nat_delete iptables a pid r2 = Some (y, r')"
      by (auto simp: scoped_def then_run_def split: option.splits)
    note e3 = nat_delete_effect [OF 3 assms(2)] and e2 = assms(3) [OF 2]
    have "deletions_work r1"
      using assms(2) e2 e3 extends_trans deletions_work_before by blast
    with nat_new_effect [OF 1] Inr e2 e3 show ?thesis by (auto intro: extends_trans)
  qed
qed

end
