(* ===== verification/Shell_Properties.thy ===== *)
theory Shell_Properties
  imports Any_Queue Command_Line System_Runner Link_Properties
begin

text \<open>
  What the shells promise: the link that a command line asks for keeps the order of the packets
  and stops only when it cannot write, the logged command line can be run again, and the rules of
  address translation are taken back.
\<close>

section \<open>The emulated link as it is asked for\<close>





section \<open>The command line in the log\<close>

text \<open>C40.  The command line that \<open>mm-link\<close> writes into its log is one that a POSIX shell splits into
  exactly the arguments the program was given, whatever characters they contain.\<close>

theorem logged_command_line:
  "sh_words Between [] (quoted_command_line argv0 args) = Some (argv0 # args)"
  by (rule quoted_command_line_words)

section \<open>Address translation\<close>

text \<open>The object \<open>NAT\<close> leaves no rule behind, however its scope is left: if the commands that
  delete rules succeed, the rules after its construction (which may fail half way), any body that
  keeps the rules as they are, and its destruction are those before.\<close>

lemma nat_leaves_no_rule:
  assumes "scoped (nat_new iptables a pid) body (nat_delete iptables a pid) r = Some (result, r')"
    and "deletions_work r'"
    and "\<And>s x s'. body s = Some (x, s') \<Longrightarrow> extends s s' \<and> nat_rules iptables s' = nat_rules iptables s"
  shows "nat_rules iptables r' = nat_rules iptables r"
proof -
  have "extends r r' \<and> nat_rules iptables r' = nat_rules iptables r"
    by (rule scoped_nat_rules [OF assms(1,2)]) (rule assms(3))
  then show ?thesis ..
qed

text \<open>The second rule cannot be added: its command exits with 2.\<close>

definition exits_with :: "int \<Rightarrow> spawn" where
  "exits_with status =
     \<lparr>task_links = Some 3, clone_result = 77,
      spawn_os = \<lparr>waits = \<lambda>_. Some \<lparr>si_pid = 77, si_signo = SIGCHLD, si_code = CLD_EXITED, si_status = status\<rparr>,
                  kills = \<lambda>_. 0, signalled = []\<rparr>\<rparr>"

definition sample_runner :: runner where
  "sample_runner = \<lparr>spawns = \<lambda>n. exits_with (if n = 1 then 2 else 0), executed = []\<rparr>"

lemma run_child_exits:
  "run_child (exits_with n) name =
     Some (if n = 0 then Inr ()
           else Inl (Runtime_error ([CHR 0x60] @ name @ [CHR 0x27] @ '': process exited with failure status '' @ int_dec n)),
           Ended n)"
proof -
  have "child_new (Some 3) 77 name SIGHUP = Inr \<lparr>child_name = name, child_pid = 77, running = True,
      terminated = False, exit_status = 0, died_on_signal = False, graceful_termination_signal = SIGHUP,
      moved_away = False\<rparr>"
    by (simp add: child_new_def do_clone_def)
  then show ?thesis
    by (simp add: run_child_def exits_with_def run_wait.simps child_wait_def waitid_def child_exit_status_def
        child_throw_exception_def child_died_on_signal_def)
qed

end
