(* ===== verification/Netdevice.thy ===== *)
theory Netdevice
  imports Socket
begin

text \<open>
  \<open>src/util/netdevice.cc\<close> without the virtual Ethernet pair (which is in \<open>System_Runner\<close>): requests
  to the kernel about its network devices.  A request is what \<open>ioctl\<close> gets; its answer is given.
\<close>

section \<open>Requests\<close>

datatype ifr_value = Ifr_flags int | Ifr_addr address | Ifr_netmask address

record ifreq =
  ifr_name :: string
  ifr_value :: ifr_value

type_synonym device_request = "string \<times> ifreq"        \<comment> \<open>the name of the request, its argument\<close>

definition IFNAMSIZ :: nat where "IFNAMSIZ = 16"
definition IFF_UP :: int where "IFF_UP = 1"
definition IFF_TUN :: int where "IFF_TUN = 1"

text \<open>\<open>strncpy\<close> of \<open>n\<close> bytes: the string up to its first zero byte, filled with zeros, cut at \<open>n\<close>.\<close>

definition strncpy :: "string \<Rightarrow> nat \<Rightarrow> string" where
  "strncpy str n = take n (takeWhile (\<lambda>c. c \<noteq> CHR 0x00) str @ replicate n (CHR 0x00))"

text \<open>\<open>interface_ioctl\<close> on a descriptor, given the value of \<open>ioctl\<close>: the request that was made.\<close>

definition interface_ioctl_on :: "int \<Rightarrow> string \<Rightarrow> string \<Rightarrow> ifr_value \<Rightarrow> device_request res" where
  "interface_ioctl_on ioctl_result request name v =
     (let ifr = \<lparr>ifr_name = strncpy name IFNAMSIZ, ifr_value = v\<rparr>
      in bindR (system_call (''ioctl '' @ name) ioctl_result) (\<lambda>_. Inr (request, ifr)))"

text \<open>On a temporary socket.\<close>

record ioctl_answers =
  io_socket :: int
  io_fcntl :: int
  io_result :: int

definition interface_ioctl :: "ioctl_answers \<Rightarrow> string \<Rightarrow> string \<Rightarrow> ifr_value \<Rightarrow> device_request res" where
  "interface_ioctl k request name v =
     bindR (udp_new (io_socket k) (io_fcntl k)) (\<lambda>temp. interface_ioctl_on (io_result k) request name v)"

text \<open>The four requests of \<open>assign_address\<close>, with the answers to each.\<close>

definition netmask :: address where
  "netmask = \<lparr>s_addr = - 1, port = 0\<rparr>"

lemma netmask_text: "address_of_ip ''255.255.255.255'' 0 = Inr netmask"
  by (simp add: address_of_ip_def address_from_hints_def inet_aton_def c_number_def digit_val_def
      Let_def network_word_def ipv4_word_def netmask_def)

definition assign_address :: "(nat \<Rightarrow> ioctl_answers) \<Rightarrow> string \<Rightarrow> address \<Rightarrow> address \<Rightarrow> device_request list res" where
  "assign_address k device_name addr peer =
     bindR (interface_ioctl (k 0) ''SIOCSIFADDR'' device_name (Ifr_addr addr)) (\<lambda>r0.
     bindR (interface_ioctl (k 1) ''SIOCSIFDSTADDR'' device_name (Ifr_addr peer)) (\<lambda>r1.
     bindR (address_of_ip ''255.255.255.255'' 0) (\<lambda>mask.
     bindR (interface_ioctl (k 2) ''SIOCSIFNETMASK'' device_name (Ifr_netmask mask)) (\<lambda>r2.
     bindR (interface_ioctl (k 3) ''SIOCSIFFLAGS'' device_name (Ifr_flags IFF_UP)) (\<lambda>r3.
       Inr [r0, r1, r2, r3])))))"

section \<open>TUN devices\<close>

record tun_answers =
  tun_open :: int
  tun_fcntl :: int
  tun_setiff :: int
  tun_assign :: "nat \<Rightarrow> ioctl_answers"

definition tun_device :: "tun_answers \<Rightarrow> string \<Rightarrow> address \<Rightarrow> address \<Rightarrow> (file_descriptor \<times> device_request list) res" where
  "tun_device k name addr peer =
     bindR (system_call ''open /dev/net/tun'' (tun_open k)) (\<lambda>fd.
     bindR (fd_new fd (tun_fcntl k)) (\<lambda>f.
     bindR (interface_ioctl_on (tun_setiff k) ''TUNSETIFF'' name (Ifr_flags IFF_TUN)) (\<lambda>r.
     bindR (assign_address (tun_assign k) name addr peer) (\<lambda>rs. Inr (f, r # rs)))))"

section \<open>The names that the kernel sees\<close>

text \<open>The kernel ends the name after 15 characters (\<open>dev_ioctl\<close> and the TUN driver).\<close>

definition device_of :: "ifreq \<Rightarrow> string" where
  "device_of ifr = takeWhile (\<lambda>c. c \<noteq> CHR 0x00) (take 15 (ifr_name ifr))"

lemma takeWhile_padded:
  "c \<notin> set xs \<Longrightarrow> takeWhile (\<lambda>d. d \<noteq> c) (xs @ replicate n c) = xs"
  by (induction xs) auto

lemma device_of_name:
  assumes "CHR 0x00 \<notin> set name"
  shows "device_of \<lparr>ifr_name = strncpy name IFNAMSIZ, ifr_value = v\<rparr> = take 15 name"
proof -
  have w: "takeWhile (\<lambda>c. c \<noteq> CHR 0x00) name = name"
    using assms by (auto simp: takeWhile_eq_all_conv)
  have "CHR 0x00 \<notin> set (take 15 name)" using assms by (meson in_set_takeD)
  then show ?thesis by (simp add: device_of_def strncpy_def IFNAMSIZ_def w takeWhile_padded)
qed

text \<open>
  So all requests of a device concern the device of that name, if it is short enough; two longer
  names with the same beginning are the same device.
\<close>

lemma tun_device_requests:
  assumes "tun_device k name addr peer = Inr (f, rs)" "CHR 0x00 \<notin> set name"
  shows "map fst rs = [''TUNSETIFF'', ''SIOCSIFADDR'', ''SIOCSIFDSTADDR'', ''SIOCSIFNETMASK'', ''SIOCSIFFLAGS''] \<and>
    map (ifr_value \<circ> snd) rs =
      [Ifr_flags IFF_TUN, Ifr_addr addr, Ifr_addr peer, Ifr_netmask netmask, Ifr_flags IFF_UP] \<and>
    (\<forall>r \<in> set rs. device_of (snd r) = take 15 name)"
  using assms
  by (auto simp: tun_device_def assign_address_def interface_ioctl_def interface_ioctl_on_def netmask_text
      Let_def res_simps device_of_name)

end
