(* ===== verification/Dns_Service.thy ===== *)
theory Dns_Service
  imports Socket Dns_Proxy Event_Loop
begin

text \<open>
  The rest of \<open>src/util/dns_proxy.cc\<close>: its construction, the relay of a datagram and the handlers
  on an event loop; and \<open>start_dnsmasq\<close> of \<open>src/util/dns_server.cc\<close>.
\<close>

section \<open>Construction\<close>

record dns_proxy =
  udp_listener :: udp_socket
  tcp_listener :: file_descriptor
  udp_target :: address
  tcp_target :: address

text \<open>
  The constructor that takes bound sockets, given what \<open>getsockname\<close> says of them and the value
  of \<open>listen\<close>.
\<close>

definition dns_proxy_new ::
  "udp_socket \<Rightarrow> file_descriptor \<Rightarrow> address \<Rightarrow> address \<Rightarrow> int \<times> address \<times> nat \<Rightarrow> int \<times> address \<times> nat \<Rightarrow> int \<Rightarrow>
   dns_proxy res" where
  "dns_proxy_new udp tcp s_udp_target s_tcp_target udp_name tcp_name listen_result =
     bindR (local_address udp_name) (\<lambda>ua.
     if address_eq ua address_any
     then Inl (Runtime_error ''DNSProxy internal error: udp_listener must be bound'')
     else bindR (local_address tcp_name) (\<lambda>ta.
          if address_eq ta address_any
          then Inl (Runtime_error ''DNSProxy internal error: tcp_listener must be bound'')
          else bindR (tcp_listen listen_result) (\<lambda>_.
            Inr \<lparr>udp_listener = udp, tcp_listener = tcp, udp_target = s_udp_target,
                 tcp_target = s_tcp_target\<rparr>)))"

text \<open>
  The answers of the kernel to the making and binding of the two sockets: \<open>getsockname\<close> depends on
  the address that the socket was bound to.
\<close>

record socket_answers =
  sa_socket :: int
  sa_fcntl :: int
  sa_bind :: int
  sa_name :: "address \<Rightarrow> int \<times> address \<times> nat"

definition make_bound_udp :: "socket_answers \<Rightarrow> udp_socket res" where
  "make_bound_udp k =
     bindR (udp_new (sa_socket k) (sa_fcntl k)) (\<lambda>s. bindR (socket_bind (sa_bind k)) (\<lambda>_. Inr s))"

definition make_bound_tcp :: "socket_answers \<Rightarrow> file_descriptor res" where
  "make_bound_tcp k =
     bindR (tcp_new (sa_socket k) (sa_fcntl k)) (\<lambda>s. bindR (socket_bind (sa_bind k)) (\<lambda>_. Inr s))"

definition dns_proxy_listening ::
  "socket_answers \<Rightarrow> socket_answers \<Rightarrow> int \<Rightarrow> address \<Rightarrow> address \<Rightarrow> address \<Rightarrow> dns_proxy res" where
  "dns_proxy_listening uk tk listen_result listen_address s_udp_target s_tcp_target =
     bindR (make_bound_udp uk) (\<lambda>udp.
     bindR (make_bound_tcp tk) (\<lambda>tcp.
       dns_proxy_new udp tcp s_udp_target s_tcp_target (sa_name uk listen_address) (sa_name tk listen_address) listen_result))"

text \<open>\<open>maybe_proxy\<close>: no proxy when the address cannot be bound.\<close>

definition maybe_proxy ::
  "string \<Rightarrow> socket_answers \<Rightarrow> socket_answers \<Rightarrow> int \<Rightarrow> address \<Rightarrow> address \<Rightarrow> address \<Rightarrow> dns_proxy option res" where
  "maybe_proxy strerror uk tk listen_result listen_address s_udp_target s_tcp_target =
     (case dns_proxy_listening uk tk listen_result listen_address s_udp_target s_tcp_target of
        Inr p \<Rightarrow> Inr (Some p)
      | Inl e \<Rightarrow>
          if std_exception e \<and> take 5 (exn_what strerror e) = ''bind:'' then Inr None else Inl e)"

section \<open>One datagram\<close>

text \<open>
  What the thread of one request works with: its socket to the server, the listener it shares with
  the other threads, and the answers of the kernel.
\<close>

record udp_relay =
  request_from :: address
  server_socket :: file_descriptor
  server_reads :: reads
  listener :: udp_socket
  sendto_result :: int

definition udp_reply :: "udp_relay \<Rightarrow> (action_result \<times> udp_relay) res" where
  "udp_reply s =
     bindR (fd_read (server_reads s) (server_socket s) buffer_size) (\<lambda>(reply, f, r).
     bindR (udp_sendto (sendto_result s) (listener s) (request_from s) reply) (\<lambda>l.
       Inr ((Continue, 0), s\<lparr>server_socket := f, server_reads := r, listener := l\<rparr>)))"

definition udp_action :: "udp_relay action" where
  "udp_action = action_new server_socket In udp_reply (\<lambda>_. True)"

text \<open>The thread: the request is sent on, and one call of \<open>poll\<close> waits for the reply.\<close>

definition udp_thread ::
  "kernel \<Rightarrow> int \<Rightarrow> int \<Rightarrow> int \<Rightarrow> writes \<Rightarrow> reads \<Rightarrow> int \<Rightarrow> udp_socket \<Rightarrow> address \<times> string \<Rightarrow>
   (poll_result \<times> udp_relay) res" where
  "udp_thread k socket_result fcntl_result connect_result w r sendto_answer l request =
     bindR (socket_new socket_result fcntl_result) (\<lambda>f.
     bindR (socket_connect connect_result) (\<lambda>_.
     bindR (fd_write w f (snd request)) (\<lambda>(f', w').
       let s = \<lparr>request_from = fst request, server_socket = f', server_reads = r, listener = l,
                sendto_result = sendto_answer\<rparr>
       in bindR (poll k 60000 (add_action udp_action s poller_new) s) (\<lambda>(result, _, s'). Inr (result, s')))))"

text \<open>\<open>handle_udp\<close> up to the start of the thread, and the thread with its handler of exceptions.\<close>

definition handle_udp ::
  "(string \<times> address \<times> nat) option \<Rightarrow> udp_socket \<Rightarrow> ((address \<times> string) \<times> udp_socket) res" where
  "handle_udp answer l = udp_recvfrom answer l"

definition udp_thread_end :: "(poll_result \<times> udp_relay) res \<Rightarrow> unit res" where
  "udp_thread_end outcome = (case outcome of Inr _ \<Rightarrow> Inr () | Inl e \<Rightarrow> if std_exception e then Inr () else Inl e)"

text \<open>
  \<open>register_handlers\<close>: both listeners are read on the event loop; the callbacks start threads and
  only count a read.
\<close>

definition register_handlers ::
  "('s \<Rightarrow> file_descriptor) \<Rightarrow> ('s \<Rightarrow> 's res) \<Rightarrow> ('s \<Rightarrow> file_descriptor) \<Rightarrow> ('s \<Rightarrow> 's res) \<Rightarrow> 's \<Rightarrow>
   's poller \<Rightarrow> 's poller" where
  "register_handlers udp_fd handle_udp_on tcp_fd handle_tcp_on s p =
     add_simple_input_handler tcp_fd (\<lambda>s. bindR (handle_tcp_on s) (\<lambda>s'. Inr ((Continue, 0), s'))) s
       (add_simple_input_handler udp_fd (\<lambda>s. bindR (handle_udp_on s) (\<lambda>s'. Inr ((Continue, 0), s'))) s p)"

text \<open>
  At most one reply goes out, to the source of the request; the server got exactly the request.
\<close>

lemma udp_reply_Inr:
  assumes "udp_reply s = Inr (x, s')"
  obtains reply where "server_reads s 0 = Some reply" "x = (Continue, 0)"
    "datagrams_sent (listener s') = datagrams_sent (listener s) @ [(request_from s, take buffer_size reply)]"
    "sent (server_socket s') = sent (server_socket s)"
  using assms
  by (auto simp: udp_reply_def fd_read_def Let_def res_simps split: option.splits dest!: udp_sendto_records)

lemma udp_thread_relay:
  assumes "udp_thread k i j m w r answer l (requester, request) = Inr (result, s')"
  shows "concat (sent (server_socket s')) = request \<and>
    (datagrams_sent (listener s') = datagrams_sent l \<or>
     (\<exists>reply. r 0 = Some reply \<and>
        datagrams_sent (listener s') = datagrams_sent l @ [(requester, take buffer_size reply)]))"
proof -
  obtain f f' w' where f: "socket_new i j = Inr f" "fd_write w f request = Inr (f', w')"
    using assms by (auto simp: udp_thread_def res_simps)
  define s where "s = \<lparr>request_from = requester, server_socket = f', server_reads = r, listener = l,
    sendto_result = answer\<rparr>"
  obtain p where p: "poll k 60000 (add_action udp_action s poller_new) s = Inr (result, p, s')"
    using assms f by (auto simp: udp_thread_def res_simps s_def Let_def)
  have "sent f = []" using f(1) by (auto simp: socket_new_def fd_new_def res_simps split: if_splits)
  with fd_write_sent [OF f(2)] have out: "concat (sent f') = request" by simp
  have "s' = s \<or> (\<exists>x. udp_reply s = Inr (x, s'))"
    using p
    by (auto simp: poll_def add_action_def poller_new_def udp_action_def action_new_def res_simps Let_def
        split: if_splits prod.splits)
  then show ?thesis
  proof
    assume "s' = s"
    with out show ?thesis by (simp add: s_def)
  next
    assume "\<exists>x. udp_reply s = Inr (x, s')"
    then obtain x where "udp_reply s = Inr (x, s')" ..
    then show ?thesis by (rule udp_reply_Inr) (use out in \<open>simp add: s_def\<close>)
  qed
qed

section \<open>Waiting for dnsmasq\<close>

definition dnsmasq_args :: "string \<Rightarrow> string list \<Rightarrow> string list" where
  "dnsmasq_args dnsmasq extra_arguments =
     [dnsmasq, ''--keep-in-foreground'', ''--no-resolv'', ''--no-hosts'', ''-C'', ''/dev/null''] @ extra_arguments"

text \<open>
  The attempts to write to the server.  A first datagram to a port where nobody listens makes the
  next \<open>write\<close> fail; only that failure is tried again.
\<close>

definition probe :: "writes \<Rightarrow> file_descriptor \<Rightarrow> exn option \<times> file_descriptor \<times> writes" where
  "probe w f =
     (case fd_write w f ''x'' of
        Inl e \<Rightarrow> (Some e, f, \<lambda>n. w (Suc n))
      | Inr (f1, w1) \<Rightarrow>
          (case fd_write w1 f1 ''x'' of
             Inl e \<Rightarrow> (Some e, f1, \<lambda>n. w1 (Suc n))
           | Inr (f2, w2) \<Rightarrow> (None, f2, w2)))"

lemma unat_max_word: "unat (- 1 :: u32) = 4294967295"
  by (simp add: unsigned_minus_1_eq_mask mask_eq_exp_minus_1)

lemma unat_Suc_word:
  assumes "(a :: u32) \<noteq> - 1"
  shows "unat (a + 1) = Suc (unat a)"
proof -
  have "unat a \<noteq> 4294967295" using assms unat_max_word by (metis word_unat_eq_iff)
  moreover have "unat a < 4294967296" using unsigned_less [of a] by simp
  ultimately have "unat a + 1 < 4294967296" by linarith
  then show ?thesis by (simp add: unat_word_ariths mod_less)
qed

function await_dnsmasq :: "string \<Rightarrow> u32 \<Rightarrow> writes \<Rightarrow> file_descriptor \<Rightarrow> u32 res" where
  "await_dnsmasq strerror attempts w f =
     (let attempts = attempts + 1
      in if attempts \<ge> 20
         then Inl (Runtime_error (''dnsmasq: did not start after '' @ dec (unat attempts) @ '' attempts''))
         else case probe w f of
                (None, _) \<Rightarrow> Inr attempts
              | (Some e, f', w') \<Rightarrow>
                  if take 6 (exn_what strerror e) \<noteq> ''write:'' then Inl e
                  else await_dnsmasq strerror attempts w' f')"
  by pat_completeness auto
termination
proof (relation "measure (\<lambda>(_, a, _, _). if a = - 1 then 21 else 20 - unat a)")
  fix a x :: u32 and strerror :: string and w w' :: writes and f f' :: file_descriptor
  assume x: "x = a + 1" "\<not> 20 \<le> x"
  then have l: "unat (a + 1) < 20" by (simp add: word_le_nat_alt)
  show "((strerror, x, w', f'), strerror, a, w, f) \<in> measure (\<lambda>(_, a, _, _). if a = - 1 then 21 else 20 - unat a)"
  proof (cases "a = - 1")
    case False
    then have "unat (a + 1) = Suc (unat a)" by (rule unat_Suc_word)
    moreover have "a + 1 \<noteq> - 1"
    proof
      assume "a + 1 = - 1"
      with l have "unat (- 1 :: u32) < 20" by (simp only:)
      then show False by (simp add: unat_max_word)
    qed
    ultimately show ?thesis using l False x by auto
  qed (use x in simp)
qed simp

declare await_dnsmasq.simps [simp del]

definition start_dnsmasq ::
  "string \<Rightarrow> nat option \<Rightarrow> int \<Rightarrow> socket_answers \<Rightarrow> int \<Rightarrow> writes \<Rightarrow> child_process res \<times> child_process option" where
  "start_dnsmasq strerror st_nlink clone_result k connect_result w =
     (case child_new st_nlink clone_result ''dnsmasq'' SIGTERM of
        Inl e \<Rightarrow> (Inl e, None)
      | Inr dnsmasq \<Rightarrow>
          (case bindR (udp_new (sa_socket k) (sa_fcntl k)) (\<lambda>server.
                bindR (socket_connect connect_result) (\<lambda>_.
                  await_dnsmasq strerror 0 w (file_descriptor.truncate server))) of
             Inl e \<Rightarrow> (Inl e, Some dnsmasq)
           | Inr _ \<Rightarrow> (Inr dnsmasq, None)))"

text \<open>
  From zero attempts there are at most 19: a server that answers is found within them, or the
  twentieth ends with the exception.
\<close>

lemma await_dnsmasq_bounded:
  assumes "a < 20" "await_dnsmasq strerror a w f = Inr n"
  shows "a < n \<and> n < 20"
  using assms
proof (induction strerror a w f rule: await_dnsmasq.induct)
  case (1 strerror a w f)
  have le: "a < a + 1"
  proof -
    have "a \<noteq> - 1" using 1(2) by auto
    then show ?thesis by (simp add: word_less_nat_alt unat_Suc_word)
  qed
  obtain oe f' w' where p: "probe w f = (oe, f', w')" by (metis prod_cases3)
  note r = 1(3) [unfolded await_dnsmasq.simps [of strerror a w f] Let_def p prod.case]
  have n: "\<not> 20 \<le> a + 1" using r by (cases "20 \<le> a + 1") simp_all
  show ?case
  proof (cases oe)
    case None
    then show ?thesis using r n le by (auto simp: not_le)
  next
    case (Some e)
    then have "a + 1 < n \<and> n < 20" using r p n by (intro 1(1)) (auto simp: not_le split: if_splits)
    then show ?thesis using le by auto
  qed
qed

end
