(* ===== verification/Signals.thy ===== *)
theory Signals
  imports Event_Loop Util
begin

text \<open>
  The masks and descriptors of \<open>src/util/signalfd.cc\<close>, the construction of an event loop
  (\<open>src/util/event_loop.cc\<close>) that installs them, and the side of a new child in the constructor of
  \<open>ChildProcess\<close>, which clears its mask.  The state is the signal mask of the process.
\<close>

section \<open>Masks\<close>

text \<open>The values of \<open>sigemptyset\<close>, of each \<open>sigaddset\<close> and of \<open>sigprocmask\<close> are given.\<close>

fun add_signals :: "(nat \<Rightarrow> int) \<Rightarrow> int list \<Rightarrow> signal_mask \<Rightarrow> signal_mask res" where
  "add_signals results [] m = Inr m"
| "add_signals results (signal # signals) m =
     bindR (system_call ''sigaddset'' (results 0)) (\<lambda>_. add_signals (\<lambda>n. results (Suc n)) signals (insert signal m))"

definition signal_mask_new :: "int \<Rightarrow> (nat \<Rightarrow> int) \<Rightarrow> int list \<Rightarrow> signal_mask res" where
  "signal_mask_new empty_result add_results signals =
     bindR (system_call ''sigemptyset'' empty_result) (\<lambda>_. add_signals add_results signals {})"

definition current_mask :: "int \<Rightarrow> signal_mask \<Rightarrow> signal_mask res" where
  "current_mask result process_mask = bindR (system_call ''sigprocmask'' result) (\<lambda>_. Inr process_mask)"

definition SIGKILL :: int where "SIGKILL = 9"

text \<open>The kernel ignores the request to block SIGKILL or SIGSTOP.\<close>

definition set_as_mask :: "int \<Rightarrow> signal_mask \<Rightarrow> signal_mask res" where
  "set_as_mask result m = bindR (system_call ''sigprocmask'' result) (\<lambda>_. Inr (m - {SIGKILL, SIGSTOP}))"

definition signal_fd_new :: "int \<Rightarrow> int \<Rightarrow> file_descriptor res" where
  "signal_fd_new signalfd_result fcntl_result =
     bindR (system_call ''signalfd'' signalfd_result) (\<lambda>fd. fd_new fd fcntl_result)"

section \<open>The construction of an event loop\<close>

text \<open>The mask that the loop keeps, and that of the process.\<close>

definition event_loop_new :: "int \<Rightarrow> (nat \<Rightarrow> int) \<Rightarrow> int \<Rightarrow> (signal_mask \<times> signal_mask) res" where
  "event_loop_new empty_result add_results set_result =
     bindR (signal_mask_new empty_result add_results [SIGCHLD, SIGCONT, SIGHUP, SIGTERM, SIGQUIT, SIGINT]) (\<lambda>signals.
     bindR (set_as_mask set_result signals) (\<lambda>process_mask. Inr (signals, process_mask)))"

text \<open>The answers to the system calls at the start, the mask of the process, and those of \<open>poll\<close>.\<close>

record loop_answers =
  lp_mask_result :: int
  lp_signalfd :: "int \<times> int"
  lp_mask :: signal_mask
  lp_polls :: "kernel list"

text \<open>
  The whole of \<open>internal_loop\<close>: privileges are given up (\<open>TemporarilyUnprivileged\<close>), the mask is
  checked, the descriptor for signals made, and the rounds run; however that ends, the destructor takes the
  privileges back, and the process is terminated if it cannot.  While the loop has not ended (\<open>None\<close>) they are given up.
  The handlers do not change the identities of the process.
\<close>

definition internal_loop ::
  "'k credentials \<Rightarrow> loop_answers \<Rightarrow>
   ('a loop_state_scheme \<Rightarrow> (int \<times> 'a loop_state_scheme) res) \<Rightarrow>
   'a loop_state_scheme poller \<Rightarrow> 'a loop_state_scheme \<Rightarrow> 'k \<Rightarrow>
   ((u32 option \<times> 'a loop_state_scheme poller \<times> 'a loop_state_scheme) \<times> 'k) res" where
  "internal_loop c a wait_time p s k =
     bindR (temporarily_unprivileged c k) (\<lambda>(tu, k1).
       let result =
             bindR (current_mask (lp_mask_result a) (lp_mask a)) (\<lambda>current.
             if \<not> mask_eq event_loop_signals current then Inl (Runtime_error ''EventLoop: signal mask has been altered'')
             else bindR (signal_fd_new (fst (lp_signalfd a)) (snd (lp_signalfd a))) (\<lambda>fd.
                    unprivileged_loop current (lp_polls a) wait_time p (s\<lparr>signal_fd := fd\<rparr>)))
       in case result of
            Inr (None, p', s') \<Rightarrow> Inr ((None, p', s'), k1)
          | _ \<Rightarrow> (case privileged_again c tu k1 of
                   Inl _ \<Rightarrow> Inl Assert_failed
                 | Inr k2 \<Rightarrow> bindR result (\<lambda>r. Inr (r, k2))))"

definition event_loop ::
  "'k credentials \<Rightarrow> loop_answers \<Rightarrow> 'a loop_state_scheme poller \<Rightarrow>
   'a loop_state_scheme \<Rightarrow> 'k \<Rightarrow> ((u32 option \<times> 'a loop_state_scheme poller \<times> 'a loop_state_scheme) \<times> 'k) res" where
  "event_loop c a p s k = internal_loop c a (\<lambda>s. Inr (- 1, s)) p s k"

lemma add_signals_Inr: "add_signals results signals m = Inr m' \<Longrightarrow> m' = set signals \<union> m"
  by (induction results signals m rule: add_signals.induct) (auto simp: res_simps)

text \<open>A loop whose process has the mask that the constructor has set passes its own check.\<close>

lemma event_loop_new_mask:
  assumes "event_loop_new empty_result add_results set_result = Inr (signals, process_mask)"
  shows "signals = event_loop_signals" "process_mask = event_loop_signals" "mask_eq signals process_mask"
proof -
  from assms obtain m where "add_signals add_results [SIGCHLD, SIGCONT, SIGHUP, SIGTERM, SIGQUIT, SIGINT] {} = Inr m"
    "signals = m" "process_mask = m - {SIGKILL, SIGSTOP}"
    by (auto simp: event_loop_new_def signal_mask_new_def set_as_mask_def res_simps simp del: add_signals.simps)
  with add_signals_Inr [OF this(1)] show "signals = event_loop_signals" "process_mask = event_loop_signals"
    by (auto simp: event_loop_signals_def signal_defs SIGKILL_def)
  then show "mask_eq signals process_mask" by (simp add: mask_eq_def)
qed

lemma internal_loop_runs:
  assumes "event_loop_new empty_result add_results set_result = Inr (signals, lp_mask a)"
    and "0 \<le> lp_mask_result a" "signal_fd_new (fst (lp_signalfd a)) (snd (lp_signalfd a)) = Inr f"
    and "temporarily_unprivileged c k = Inr (tu, k1)" "privileged_again c tu k1 = Inr k2"
    and "unprivileged_loop (lp_mask a) (lp_polls a) wait_time p (s\<lparr>signal_fd := f\<rparr>) = Inr (status, p', s')"
  shows "internal_loop c a wait_time p s k =
    Inr ((status, p', s'), if status = None then k1 else k2)"
  using assms(2-6) event_loop_new_mask [OF assms(1)]
  by (cases status) (simp_all add: internal_loop_def current_mask_def system_call_def mask_eq_def)

section \<open>The child's side\<close>

text \<open>
  The child clears its mask, runs its procedure, and ends with the low byte of its result, or with
  1 after an exception.  An exception that is not a \<open>std::exception\<close> is not caught.
\<close>

definition child_main :: "int \<Rightarrow> int \<Rightarrow> int res \<Rightarrow> int res" where
  "child_main empty_result set_result child_procedure =
     (case bindR (signal_mask_new empty_result (\<lambda>_. 0) []) (\<lambda>m.
           bindR (set_as_mask set_result m) (\<lambda>_. child_procedure)) of
        Inr status \<Rightarrow> Inr (status mod 256)
      | Inl e \<Rightarrow> if std_exception e then Inr 1 else Inl e)"

lemma child_main_exception:
  "std_exception e \<Longrightarrow> child_main a b (Inl e) = Inr 1"
  by (auto simp: child_main_def signal_mask_new_def set_as_mask_def bindR_def system_call_def std_exception_def)

text \<open>A procedure that returns a multiple of 256 looks like a success to the parent.\<close>

lemma child_main_truncated: "child_main 0 0 (Inr 256) = Inr 0"
  by (simp add: child_main_def signal_mask_new_def set_as_mask_def system_call_def)

end
