(* ===== verification/Packet_Shell.thy ===== *)
theory Packet_Shell
  imports Netdevice Dns_Service System_Runner Ferry_Loop Signals
begin

text \<open>
  \<open>src/packet/packetshell.cc\<close> without its loop (which is \<open>Ferry_Loop\<close>): the construction of a
  packet shell, and the processes that carry the packets of either direction.  A process has its
  credentials, its environment (\<open>None\<close> while \<open>environ\<close> is null), and what it has asked of the
  kernel: requests about devices and routes, and children, each with what it inherits.  The
  answers of the kernel are given, one record for each process.
\<close>

section \<open>Processes\<close>

text \<open>The route that \<open>SIOCADDRT\<close> adds: destination and mask are 0.0.0.0.\<close>

record route =
  rt_gateway :: address
  rt_dst :: address
  rt_genmask :: address

record 'k process =
  ids :: 'k
  environ :: "environment option"
  device_requests :: "device_request list"
  routes_added :: "route list"
  forked :: "(child_process \<times> 'k \<times> environment option) list"

record fork_answers =
  fk_links :: "nat option"
  fk_clone :: int

definition forks :: "child_process \<Rightarrow> 'k process \<Rightarrow> 'k process" where
  "forks child p = p\<lparr>forked := forked p @ [(child, ids p, environ p)]\<rparr>"

definition fork_child :: "fork_answers \<Rightarrow> string \<Rightarrow> 'k process \<Rightarrow> (child_process \<times> 'k process) res" where
  "fork_child a name p =
     bindR (child_new (fk_links a) (fk_clone a) name SIGHUP) (\<lambda>child. Inr (child, forks child p))"

section \<open>Construction\<close>

record packet_shell =
  user_environment :: environment
  egress_addr :: address
  ingress_addr :: address
  nameserver :: address
  egress_tun :: file_descriptor
  dns_outside :: dns_proxy
  pipe_first :: file_descriptor
  pipe_second :: file_descriptor

record shell_answers =
  sh_ifaddrs :: "address list option"
  sh_routes :: "string option"
  sh_res_init :: int
  sh_nsaddr :: address
  sh_pid :: int
  sh_tun :: tun_answers
  sh_udp :: socket_answers
  sh_tcp :: socket_answers
  sh_listen :: int
  sh_pair :: "int \<times> (int \<times> int) \<times> (int \<times> int)"

text \<open>
  The user's environment is looked at without privileges, and is gone again afterwards.  The
  destructor of \<open>TemporarilyUnprivileged\<close> may not throw: the process is aborted if it does.
\<close>

definition get_mahimahi_base :: "'k credentials \<Rightarrow> environment \<Rightarrow> 'k process \<Rightarrow> (address \<times> 'k process) res" where
  "get_mahimahi_base c user_env p =
     bindR (temporarily_unprivileged c (ids p)) (\<lambda>(tu, k1).
       let result =
             (if environ p \<noteq> None
              then Inl (Runtime_error ''TemporaryEnvironment: cannot be entered recursively'')
              else case user_env ''MAHIMAHI_BASE'' of
                     None \<Rightarrow> Inr address_any
                   | Some mahimahi_base \<Rightarrow> address_of_ip mahimahi_base 0)
       in case privileged_again c tu k1 of
            Inl _ \<Rightarrow> Inl Assert_failed
          | Inr k2 \<Rightarrow> bindR result (\<lambda>base. Inr (base, p\<lparr>ids := k2, environ := None\<rparr>)))"

text \<open>The members up to \<open>dns_outside_\<close>; those after the NAT rules; the constructor's body.\<close>

definition packet_shell_members ::
  "'k credentials \<Rightarrow> shell_answers \<Rightarrow> string \<Rightarrow> environment \<Rightarrow> 'k process \<Rightarrow> (packet_shell \<times> 'k process) res" where
  "packet_shell_members c a device_prefix user_env p =
     bindR (get_mahimahi_base c user_env p) (\<lambda>(base, p1).
     bindR (two_unassigned_addresses (sh_ifaddrs a) (sh_routes a) base) (\<lambda>(egress, ingress).
     bindR (first_nameserver (sh_res_init a) (sh_nsaddr a)) (\<lambda>ns.
     bindR (tun_device (sh_tun a) (device_prefix @ ''-'' @ int_dec (sh_pid a)) egress ingress) (\<lambda>(tun, rs).
     bindR (dns_proxy_listening (sh_udp a) (sh_tcp a) (sh_listen a) egress ns ns) (\<lambda>dns.
       Inr (\<lparr>user_environment = user_env, egress_addr = egress, ingress_addr = ingress, nameserver = ns,
             egress_tun = tun, dns_outside = dns, pipe_first = tun, pipe_second = tun\<rparr>,
            p1\<lparr>device_requests := device_requests p1 @ rs\<rparr>))))))"

definition packet_shell_finish :: "shell_answers \<Rightarrow> 'k process \<Rightarrow> packet_shell \<Rightarrow> packet_shell res" where
  "packet_shell_finish a p sh =
     (let (result, fds, fcntl_results) = sh_pair a
      in bindR (make_pair result fds fcntl_results) (\<lambda>(first, second).
         if environ p \<noteq> None
         then Inl (Runtime_error ''PacketShell: environment was not cleared'')
         else Inr (sh\<lparr>pipe_first := first, pipe_second := second\<rparr>)))"

text \<open>
  The life of a packet shell in \<open>main\<close>: the rules of the address translation are added after the
  members before them were made, and are removed after everything else is gone.
\<close>

definition with_packet_shell ::
  "string \<Rightarrow> 'k credentials \<Rightarrow> shell_answers \<Rightarrow> string \<Rightarrow> environment \<Rightarrow> 'k process \<Rightarrow>
   (packet_shell \<Rightarrow> 'k process \<Rightarrow> 'b res option) \<Rightarrow> ('b, runner) run" where
  "with_packet_shell iptables c a device_prefix user_env p main_body =
     (case packet_shell_members c a device_prefix user_env p of
        Inl e \<Rightarrow> (\<lambda>r. Some (Inl e, r))
      | Inr (sh, p1) \<Rightarrow>
          scoped (nat_new iptables (ingress_addr sh) (sh_pid a))
            (\<lambda>r. case packet_shell_finish a p1 sh of
                   Inl e \<Rightarrow> Some (Inl e, r)
                 | Inr sh1 \<Rightarrow> map_option (\<lambda>result. (result, r)) (main_body sh1 p1))
            (nat_delete iptables (ingress_addr sh) (sh_pid a)))"

section \<open>The process of the uplink\<close>

record dnsmasq_answers =
  dm_strerror :: string
  dm_fork :: fork_answers
  dm_socket :: socket_answers
  dm_connect :: int
  dm_writes :: writes

record uplink_answers =
  up_tun :: tun_answers
  up_lo :: ioctl_answers
  up_route :: ioctl_answers
  up_udp :: socket_answers
  up_tcp :: socket_answers
  up_listen :: int
  up_outside_udp :: "int \<times> address \<times> nat"
  up_outside_tcp :: "int \<times> address \<times> nat"
  up_dnsmasq :: dnsmasq_answers
  up_setenv :: int
  up_command :: fork_answers
  up_sendmsg :: int

definition run_dnsmasq :: "dnsmasq_answers \<Rightarrow> 'k process \<Rightarrow> (child_process \<times> 'k process) res" where
  "run_dnsmasq a p =
     bindR (fst (start_dnsmasq (dm_strerror a) (fk_links (dm_fork a)) (fk_clone (dm_fork a))
                   (dm_socket a) (dm_connect a) (dm_writes a)))
       (\<lambda>child. Inr (child, forks child p))"

text \<open>
  Everything that needs privileges: the device and the routes of the new namespace, and a name
  server on its port 53.  With the device and the children, the arguments of dnsmasq.
\<close>

definition uplink_privileged ::
  "uplink_answers \<Rightarrow> packet_shell \<Rightarrow> 'k process \<Rightarrow>
   (file_descriptor \<times> dns_proxy \<times> string list \<times> child_process \<times> 'k process) res" where
  "uplink_privileged a sh p =
     bindR (tun_device (up_tun a) ''ingress'' (ingress_addr sh) (egress_addr sh)) (\<lambda>(ingress_tun, rs).
     bindR (interface_ioctl (up_lo a) ''SIOCSIFFLAGS'' ''lo'' (Ifr_flags IFF_UP)) (\<lambda>lo.
     bindR (udp_new (io_socket (up_route a)) (io_fcntl (up_route a))) (\<lambda>_.
     bindR (system_call ''ioctl SIOCADDRT'' (io_result (up_route a))) (\<lambda>_.
     let p1 = p\<lparr>device_requests := device_requests p @ rs @ [lo],
                routes_added := routes_added p @ [\<lparr>rt_gateway = egress_addr sh, rt_dst = address_any,
                                                   rt_genmask = address_any\<rparr>]\<rparr>
     in bindR (make_bound_udp (up_udp a)) (\<lambda>udp.
     bindR (tcp_new (sa_socket (up_tcp a)) (sa_fcntl (up_tcp a))) (\<lambda>tcp.
     bindR (local_address (sa_name (up_udp a) (ingress_addr sh))) (\<lambda>udp_address.
     bindR (socket_bind (sa_bind (up_tcp a))) (\<lambda>_.
     bindR (local_address (up_outside_udp a)) (\<lambda>udp_target.
     bindR (local_address (up_outside_tcp a)) (\<lambda>tcp_target.
     bindR (dns_proxy_new udp tcp udp_target tcp_target (sa_name (up_udp a) (ingress_addr sh))
              (sa_name (up_tcp a) udp_address) (up_listen a)) (\<lambda>dns_inside.
     bindR (run_dnsmasq (up_dnsmasq a) p1) (\<lambda>(dnsmasq, p2).
       Inr (ingress_tun, dns_inside, [''-S'', address_str ''#'' udp_address], dnsmasq, p2)))))))))))))"

text \<open>
  After that, and for good, without privileges: the environment of the user, and the command.
  \<open>None\<close>: \<open>drop_privileges\<close> has ended the process.
\<close>

definition set_base :: "address \<Rightarrow> environment \<Rightarrow> environment" where
  "set_base egress env =
     (if env ''MAHIMAHI_BASE'' = None then env(''MAHIMAHI_BASE'' \<mapsto> ip egress) else env)"

definition uplink_command ::
  "'k credentials \<Rightarrow> uplink_answers \<Rightarrow> packet_shell \<Rightarrow> string list \<Rightarrow> 'k process \<Rightarrow>
   (child_process \<times> 'k process) option res" where
  "uplink_command c a sh command p =
     bindR (drop_privileges c (ids p)) (\<lambda>dropped.
     case dropped of
       None \<Rightarrow> Inr None
     | Some k \<Rightarrow>
         bindR (system_call ''setenv'' (up_setenv a)) (\<lambda>_.
         let p1 = p\<lparr>ids := k, environ := Some (set_base (egress_addr sh) (user_environment sh))\<rparr>
         in bindR (join command) (\<lambda>name.
            bindR (fork_child (up_command a) name p1) (\<lambda>x. Inr (Some x)))))"

text \<open>What the child for the command does, given the results of \<open>setenv\<close> and of \<open>execvpe\<close>.\<close>

definition command_child ::
  "'k credentials \<Rightarrow> string \<Rightarrow> string list \<Rightarrow> int \<times> int \<Rightarrow> int option \<Rightarrow> 'k \<times> environment option \<Rightarrow>
   (string list \<times> environment) res" where
  "command_child c shell_prefix command setenv_results exec_result inherited =
     bindR (prepend_shell_prefix shell_prefix setenv_results
              (case snd inherited of None \<Rightarrow> Map.empty | Some env \<Rightarrow> env)) (\<lambda>env.
     bindR (ezexec c True True exec_result command (fst inherited)) (\<lambda>program. Inr (program, env)))"

record uplink =
  ingress_tun :: file_descriptor
  dns_inside :: dns_proxy
  dnsmasq_arguments :: "string list"
  inner_children :: children
  fd_message :: cmsg

definition uplink_child ::
  "'k credentials \<Rightarrow> uplink_answers \<Rightarrow> packet_shell \<Rightarrow> string list \<Rightarrow> 'q res \<Rightarrow> 'k process \<Rightarrow>
   ('q \<times> uplink \<times> 'k process) option res" where
  "uplink_child c a sh command ferry_maker p =
     bindR (uplink_privileged a sh p) (\<lambda>(tun, dns, args, dnsmasq, p1).
     bindR (uplink_command c a sh command p1) (\<lambda>r.
     case r of
       None \<Rightarrow> Inr None
     | Some (child, p2) \<Rightarrow>
         bindR (send_fd (up_sendmsg a) tun (pipe_first sh)) (\<lambda>(message, _).
         bindR ferry_maker (\<lambda>uplink_queue.
           Inr (Some (uplink_queue,
                      \<lparr>ingress_tun = tun, dns_inside = dns, dnsmasq_arguments = args,
                       inner_children = [(- 1, dnsmasq), (- 1, child)], fd_message = message\<rparr>, p2))))))"

section \<open>The process of the downlink\<close>

record downlink_answers =
  dn_recvmsg :: int
  dn_truncated :: bool
  dn_message :: "cmsg option"
  dn_fcntl :: int

definition downlink_child ::
  "'k credentials \<Rightarrow> downlink_answers \<Rightarrow> packet_shell \<Rightarrow> 'q res \<Rightarrow> 'k process \<Rightarrow>
   ('q \<times> file_descriptor \<times> 'k process) option res" where
  "downlink_child c a sh ferry_maker p =
     bindR (drop_privileges c (ids p)) (\<lambda>dropped.
     case dropped of
       None \<Rightarrow> Inr None
     | Some k \<Rightarrow>
         bindR (recv_fd (dn_recvmsg a) (dn_truncated a) (dn_message a) (dn_fcntl a) (pipe_second sh)) (\<lambda>(tun, _).
         bindR ferry_maker (\<lambda>downlink_queue.
           Inr (Some (downlink_queue, tun,
                      p\<lparr>ids := k, environ := Some (user_environment sh)\<rparr>)))))"

section \<open>The main process\<close>

record parent_answers =
  pa_uplink :: fork_answers
  pa_downlink :: fork_answers
  pa_loop :: loop_answers
  pa_signals :: loop_state

text \<open>Both children may end with 77 without ending the shell.\<close>

definition start_uplink :: "fork_answers \<Rightarrow> loop_state \<times> 'k process \<Rightarrow> (loop_state \<times> 'k process) res" where
  "start_uplink a s =
     bindR (fork_child a ''packetshell'' (snd s)) (\<lambda>(child, p).
       Inr (add_special_child_process 77 child (fst s), p))"

definition start_downlink :: "fork_answers \<Rightarrow> loop_state \<times> 'k process \<Rightarrow> (loop_state \<times> 'k process) res" where
  "start_downlink a s =
     bindR (fork_child a ''downlink'' (snd s)) (\<lambda>(child, p).
       Inr (add_special_child_process 77 child (fst s), p))"

definition wait_for_exit ::
  "'k credentials \<Rightarrow> loop_answers \<Rightarrow> loop_state \<Rightarrow> 'k process \<Rightarrow> (u32 option \<times> loop_state \<times> 'k process) res" where
  "wait_for_exit c a s p =
     bindR (event_loop c a poller_new s (ids p)) (\<lambda>((status, _, s'), k). Inr (status, s', p\<lparr>ids := k\<rparr>))"

text \<open>
  What every program does with its packet shell; the arguments of either call are computed before
  it.  \<open>None\<close>: still running after the given calls of \<open>poll\<close>.
\<close>

definition packet_shell_run ::
  "'k credentials \<Rightarrow> parent_answers \<Rightarrow> unit res \<Rightarrow> unit res \<Rightarrow> 'k process \<Rightarrow> (u32 option \<times> loop_state \<times> 'k process) res" where
  "packet_shell_run c a uplink_arguments downlink_arguments p =
     bindR uplink_arguments (\<lambda>_.
     bindR (start_uplink (pa_uplink a) (pa_signals a, p)) (\<lambda>s1.
     bindR downlink_arguments (\<lambda>_.
     bindR (start_downlink (pa_downlink a) s1) (\<lambda>(s2, p2).
     wait_for_exit c (pa_loop a) s2 p2))))"

section \<open>No rule and no privilege is left\<close>

lemma with_packet_shell_rules:
  assumes "with_packet_shell iptables c a device_prefix env p main_body r = Some (result, r')" "deletions_work r'"
  shows "nat_rules iptables r' = nat_rules iptables r"
proof (cases "packet_shell_members c a device_prefix env p")
  case (Inl e)
  with assms(1) show ?thesis by (simp add: with_packet_shell_def)
next
  case (Inr x)
  obtain sh p1 where x: "x = (sh, p1)" by (cases x)
  let ?body = "\<lambda>r. case packet_shell_finish a p1 sh of
    Inl e \<Rightarrow> Some (Inl e, r) | Inr sh1 \<Rightarrow> map_option (\<lambda>result. (result, r)) (main_body sh1 p1)"
  have s: "scoped (nat_new iptables (ingress_addr sh) (sh_pid a)) ?body
      (nat_delete iptables (ingress_addr sh) (sh_pid a)) r = Some (result, r')"
    using assms(1) Inr x by (simp add: with_packet_shell_def)
  have "extends r r' \<and> nat_rules iptables r' = nat_rules iptables r"
    by (rule scoped_nat_rules [OF s assms(2)]) (auto simp: extends_def split: sum.splits)
  then show ?thesis ..
qed

text \<open>The processes that a process forks inherit what it has at that moment.\<close>

lemma fork_child_Inr:
  "fork_child a name p = Inr (child, p') \<Longrightarrow> p' = forks child p \<and> child_name child = name"
  by (auto simp: fork_child_def child_new_def res_simps)

lemma uplink_privileged_Inr:
  assumes "uplink_privileged a sh p = Inr (device, dns, args, dnsmasq, p')"
  shows "ids p' = ids p \<and> environ p' = environ p \<and> forked p' = forked p @ [(dnsmasq, ids p, environ p)] \<and>
    routes_added p' = routes_added p @ [\<lparr>rt_gateway = egress_addr sh, rt_dst = address_any, rt_genmask = address_any\<rparr>]"
  using assms by (auto simp: uplink_privileged_def run_dnsmasq_def forks_def res_simps Let_def)

lemma uplink_command_Inr:
  assumes "uplink_command c a sh command p = Inr (Some (child, p'))"
  shows "drop_privileges c (ids p) = Inr (Some (ids p')) \<and>
    environ p' = Some (set_base (egress_addr sh) (user_environment sh)) \<and>
    forked p' = forked p @ [(child, ids p', environ p')] \<and>
    device_requests p' = device_requests p \<and> routes_added p' = routes_added p"
  using assms
  by (auto simp: uplink_command_def forks_def res_simps Let_def dest!: fork_child_Inr split: option.splits)

lemma uplink_child_Inr:
  assumes "uplink_child c a sh command ferry_maker p = Inr (Some (q, u, p'))"
  obtains dnsmasq child p1 where
    "uplink_privileged a sh p = Inr (ingress_tun u, dns_inside u, dnsmasq_arguments u, dnsmasq, p1)"
    "uplink_command c a sh command p1 = Inr (Some (child, p'))"
    "inner_children u = [(- 1, dnsmasq), (- 1, child)]" "ferry_maker = Inr q"
  using assms by (auto simp: uplink_child_def res_simps split: option.splits)

lemma uplink_command_nonempty:
  "uplink_child c a sh command ferry_maker p = Inr (Some x) \<Longrightarrow> command \<noteq> []"
  by (auto simp: uplink_child_def uplink_command_def join_def res_simps Let_def split: option.splits list.splits)

text \<open>
  The process of the uplink forks twice: dnsmasq before the privileges are dropped, and without an
  environment; the command after that, with the user's.
\<close>

lemma uplink_forks:
  assumes "uplink_child c a sh command ferry_maker p = Inr (Some (q, u, p'))"
    and "failed_calls_change_nothing c" "groups_kept c" "getuid c (ids p) \<noteq> geteuid c (ids p)"
  shows "\<exists>dnsmasq child. inner_children u = [(- 1, dnsmasq), (- 1, child)] \<and>
    forked p' = forked p @ [(dnsmasq, ids p, environ p), (child, ids p', environ p')] \<and>
    geteuid c (ids p') = getuid c (ids p) \<and> getegid c (ids p') = getgid c (ids p) \<and>
    environ p' = Some (set_base (egress_addr sh) (user_environment sh))"
proof (rule uplink_child_Inr [OF assms(1)])
  fix dnsmasq child p1
  assume 1: "uplink_privileged a sh p = Inr (ingress_tun u, dns_inside u, dnsmasq_arguments u, dnsmasq, p1)"
    and 2: "uplink_command c a sh command p1 = Inr (Some (child, p'))"
    and 3: "inner_children u = [(- 1, dnsmasq), (- 1, child)]"
  note i = uplink_privileged_Inr [OF 1] and e = uplink_command_Inr [OF 2]
  have "getegid c (ids p') = getgid c (ids p) \<and> geteuid c (ids p') = getuid c (ids p)"
    by (rule drop_privileges_effective) (use i e assms(2-4) in simp_all)
  with 3 i e show ?thesis by auto
qed

section \<open>Nested shells\<close>

text \<open>The base that a shell finds in its environment is not among the addresses it takes.\<close>

lemma get_mahimahi_base_Inr:
  assumes "get_mahimahi_base c env p = Inr (base, p')"
  shows "(case env ''MAHIMAHI_BASE'' of None \<Rightarrow> base = address_any | Some s \<Rightarrow> address_of_ip s 0 = Inr base) \<and>
    environ p = None \<and> environ p' = None"
proof -
  obtain tu k1 where t: "temporarily_unprivileged c (ids p) = Inr (tu, k1)"
    using assms by (auto simp: get_mahimahi_base_def res_simps)
  then show ?thesis
    using assms
    by (cases "privileged_again c tu k1")
      (auto simp: get_mahimahi_base_def res_simps Let_def split: option.splits if_splits)
qed

lemma packet_shell_members_Inr:
  assumes "packet_shell_members c a device_prefix env p = Inr (sh, p')"
  obtains base p1 where "get_mahimahi_base c env p = Inr (base, p1)"
    "two_unassigned_addresses (sh_ifaddrs a) (sh_routes a) base = Inr (egress_addr sh, ingress_addr sh)"
    "user_environment sh = env"
  using assms by (auto simp: packet_shell_members_def res_simps)

lemma two_unassigned_avoid:
  assumes "two_unassigned_addresses ifaddrs all_routes avoid = Inr (one, two)"
  shows "ip one \<noteq> ip two \<and> ip one \<noteq> ip avoid \<and> ip two \<noteq> ip avoid"
proof -
  obtain used where "interfaces_new ifaddrs all_routes = Inr used"
    using assms by (auto simp: two_unassigned_addresses_def res_simps)
  from two_unassigned_first_free [OF assms this] show ?thesis by auto
qed

lemma set_base_defined: "\<exists>s. set_base a env ''MAHIMAHI_BASE'' = Some s"
  by (auto simp: set_base_def)

text \<open>Whatever the environment already has as its base is passed on, and avoided.\<close>

definition has_base :: "address \<Rightarrow> environment \<Rightarrow> bool" where
  "has_base base env \<longleftrightarrow> env ''MAHIMAHI_BASE'' = Some (ip base)"

lemma has_base_set_base:
  "env ''MAHIMAHI_BASE'' = None \<Longrightarrow> has_base a (set_base a env)"
  "has_base b env \<Longrightarrow> has_base b (set_base a env)"
  by (simp_all add: has_base_def set_base_def)

lemma has_base_prompt:
  "prepend_shell_prefix str results env = Inr env' \<Longrightarrow> has_base b env \<Longrightarrow> has_base b env'"
  by (auto simp: prepend_shell_prefix_def has_base_def res_simps Let_def)

lemma base_avoided:
  assumes "packet_shell_members c a device_prefix env p = Inr (sh, p')" "has_base b env"
  shows "ip (egress_addr sh) \<noteq> ip (ingress_addr sh) \<and> ip (egress_addr sh) \<noteq> ip b \<and> ip (ingress_addr sh) \<noteq> ip b"
proof (rule packet_shell_members_Inr [OF assms(1)])
  fix base p1
  assume g: "get_mahimahi_base c env p = Inr (base, p1)"
    and t: "two_unassigned_addresses (sh_ifaddrs a) (sh_routes a) base = Inr (egress_addr sh, ingress_addr sh)"
  have "ip base = ip b"
    using get_mahimahi_base_Inr [OF g] assms(2) by (simp add: has_base_def address_of_ip_ip) (auto simp: ip_def)
  with two_unassigned_avoid [OF t] show ?thesis by simp
qed

end
