(* ===== verification/Container_Properties.thy ===== *)
theory Container_Properties
  imports Packet_Shell System_Properties Shell_Properties
begin

text \<open>
  What holds of the packet shells: the datagrams of the DNS proxy, the privileges under which the
  user's command runs, the addresses of nested shells and the rules of the address translation.
\<close>

section \<open>Datagrams\<close>

text \<open>C25.  The thread that relays one DNS request over UDP sends the server exactly the request, and
  sends on at most one datagram through the listener, to the requester: the server's reply (up to
  the size of the buffer).\<close>

theorem dns_udp_reply:
  assumes "udp_thread k i j m w r answer l (requester, query) = Inr (result, s')"
  shows "concat (sent (server_socket s')) = query \<and>
    (datagrams_sent (listener s') = datagrams_sent l \<or>
     (\<exists>reply. r 0 = Some reply \<and>
        datagrams_sent (listener s') = datagrams_sent l @ [(requester, take buffer_size reply)]))"
  by (rule udp_thread_relay [OF assms])

definition sample_udp :: udp_socket where
  "sample_udp = file_descriptor.extend sample_fd \<lparr>datagrams_sent = []\<rparr>"

theorem dns_udp_reply_witness:
  "\<exists>result s'.
     udp_thread (\<lambda>_ _. (1, \<lambda>_. 1)) 12 0 0 (\<lambda>_. 2) (\<lambda>_. Some ''ok!'') 3 sample_udp (cgnat 9, ''hi'') =
       Inr (result, s') \<and>
     concat (sent (server_socket s')) = ''hi'' \<and> datagrams_sent (listener s') = [(cgnat 9, ''ok!'')]"
proof -
  obtain result s' where t: "udp_thread (\<lambda>_ _. (1, \<lambda>_. 1)) 12 0 0 (\<lambda>_. 2) (\<lambda>_. Some ''ok!'') 3 sample_udp
      (cgnat 9, ''hi'') = Inr (result, s')" "datagrams_sent (listener s') \<noteq> []"
    by (simp add: udp_thread_def socket_new_def socket_connect_def fd_new_def system_call_def fd_write.simps
        fd_write_some_def Let_def poll_def add_action_def poller_new_def udp_action_def action_new_def wanted_def
        direction_mask_def error_mask_def service_count_def udp_reply_def fd_read_def buffer_size_def
        udp_sendto_def sample_udp_def file_descriptor.defs)
  from dns_udp_reply [OF t(1)] t show ?thesis by (auto simp: sample_udp_def buffer_size_def file_descriptor.defs)
qed

section \<open>Privileges\<close>

text \<open>C18.  In the process of the uplink, started as root by a user who is not: the command of the user
  is the second and last child, forked with the user's real identities as the effective ones and
  with the user's environment (with the base address added if it had none); it is executed as
  given, and not stopped by the check that forbids searching the path as root.  The only child with
  root's privileges is dnsmasq, whose environment is empty.\<close>

theorem user_command_unprivileged:
  assumes "uplink_child c a sh command ferry_maker p = Inr (Some (q, u, p'))"
    and "failed_calls_change_nothing c" "groups_kept c"
    and "geteuid c (ids p) = 0" "getuid c (ids p) \<noteq> 0" "getgid c (ids p) \<noteq> 0"
    and "environ p = None" "forked p = []"
  shows "\<exists>dnsmasq child env. inner_children u = [(- 1, dnsmasq), (- 1, child)] \<and>
    forked p' = [(dnsmasq, ids p, None), (child, ids p', Some env)] \<and>
    env = set_base (egress_addr sh) (user_environment sh) \<and>
    geteuid c (ids p') = getuid c (ids p) \<and> getegid c (ids p') = getgid c (ids p) \<and>
    (\<forall>shell_prefix results. 0 \<le> fst results \<and> 0 \<le> snd results \<longrightarrow>
      (\<exists>env'. command_child c shell_prefix command results None (ids p', Some env) = Inr (command, env')))"
proof -
  from uplink_forks [OF assms(1-3)] assms(4,5) obtain dnsmasq child where
    f: "inner_children u = [(- 1, dnsmasq), (- 1, child)]"
      "forked p' = forked p @ [(dnsmasq, ids p, environ p), (child, ids p', environ p')]"
    and i: "geteuid c (ids p') = getuid c (ids p)" "getegid c (ids p') = getgid c (ids p)"
      "environ p' = Some (set_base (egress_addr sh) (user_environment sh))"
    by auto
  have "command \<noteq> []" using uplink_command_nonempty [OF assms(1)] .
  then have "\<exists>env'. command_child c shell_prefix command results None (ids p', Some env) = Inr (command, env')"
    if "0 \<le> fst results \<and> 0 \<le> snd results" for shell_prefix results env
    using that i assms(5,6)
    by (simp add: command_child_def prepend_shell_prefix_def ezexec_def system_call_def Let_def)
  with f i assms(7,8) show ?thesis by simp
qed

text \<open>A kernel that gives a root's effective identities back until \<open>setreuid\<close> was called.\<close>

definition unix_kernel :: "(u32 \<times> u32 \<times> bool) credentials" where
  "unix_kernel = \<lparr>getuid = \<lambda>_. 1000, geteuid = \<lambda>(u, _, _). u, getgid = \<lambda>_. 100, getegid = \<lambda>(_, g, _). g,
     setregid = \<lambda>_ e (u, g, d). (0, (u, e, d)), setreuid = \<lambda>_ e (u, g, d). (0, (e, g, True)),
     setegid = \<lambda>e (u, g, d). if d \<and> e \<noteq> 100 then (- 1, (u, g, d)) else (0, (u, e, d)),
     seteuid = \<lambda>e (u, g, d). if d \<and> e \<noteq> 1000 then (- 1, (u, g, d)) else (0, (e, g, d))\<rparr>"

lemma unix_kernel_laws: "failed_calls_change_nothing unix_kernel" "groups_kept unix_kernel"
  by (auto simp: failed_calls_change_nothing_def groups_kept_def unix_kernel_def)

definition sample_ioctl :: ioctl_answers where
  "sample_ioctl = \<lparr>io_socket = 20, io_fcntl = 0, io_result = 0\<rparr>"

definition sample_tun :: tun_answers where
  "sample_tun = \<lparr>tun_open = 10, tun_fcntl = 0, tun_setiff = 0, tun_assign = \<lambda>_. sample_ioctl\<rparr>"

definition sample_socket :: socket_answers where
  "sample_socket = \<lparr>sa_socket = 21, sa_fcntl = 0, sa_bind = 0, sa_name = \<lambda>a. (0, a\<lparr>port := 53\<rparr>, 16)\<rparr>"

definition sample_uplink :: uplink_answers where
  "sample_uplink = \<lparr>up_tun = sample_tun, up_lo = sample_ioctl, up_route = sample_ioctl, up_udp = sample_socket,
     up_tcp = sample_socket, up_listen = 0, up_outside_udp = (0, cgnat 1, 16), up_outside_tcp = (0, cgnat 1, 16),
     up_dnsmasq = \<lparr>dm_strerror = [], dm_fork = \<lparr>fk_links = Some 3, fk_clone = 40\<rparr>, dm_socket = sample_socket,
                   dm_connect = 0, dm_writes = \<lambda>_. 1\<rparr>,
     up_setenv = 0, up_command = \<lparr>fk_links = Some 3, fk_clone = 41\<rparr>, up_sendmsg = 0\<rparr>"

definition sample_shell :: "environment \<Rightarrow> packet_shell" where
  "sample_shell env = \<lparr>user_environment = env, egress_addr = cgnat 1, ingress_addr = cgnat 2, nameserver = cgnat 9,
     egress_tun = sample_fd, dns_outside = \<lparr>udp_listener = sample_udp, tcp_listener = sample_fd,
       udp_target = cgnat 9, tcp_target = cgnat 9\<rparr>, pipe_first = sample_fd, pipe_second = sample_fd\<rparr>"

definition sample_process :: "(u32 \<times> u32 \<times> bool) process" where
  "sample_process = \<lparr>ids = (0, 0, False), environ = None, device_requests = [], routes_added = [], forked = []\<rparr>"

lemma sample_dnsmasq: "await_dnsmasq [] 0 (\<lambda>_. 1) f = Inr 1"
  by (subst await_dnsmasq.simps) (simp add: word_le_nat_alt probe_def fd_write.simps fd_write_some_def Let_def)

lemma sample_uplink_runs:
  "\<exists>u p'. uplink_child unix_kernel sample_uplink (sample_shell Map.empty) [''ls''] (Inr ()) sample_process =
     Inr (Some ((), u, p'))"
  by (simp add: uplink_child_def uplink_privileged_def sample_uplink_def sample_tun_def sample_ioctl_def sample_socket_def
      sample_shell_def sample_process_def tun_device_def assign_address_def interface_ioctl_def interface_ioctl_on_def
      udp_new_def socket_new_def fd_new_def system_call_def netmask_text Let_def make_bound_udp_def socket_bind_def
      tcp_new_def local_address_def get_address_def address_sized_def sizeof_storage_def dns_proxy_new_def
      address_eq_iff address_any_def cgnat_def tcp_listen_def run_dnsmasq_def start_dnsmasq_def child_new_def
      do_clone_def sample_dnsmasq forks_def uplink_command_def drop_privileges_def unix_kernel_def
      drop_failed_def kernel_call_def join_def fork_child_def send_fd_def sample_fd_def
      socket_connect_def file_descriptor.defs)

theorem user_command_unprivileged_witness:
  "\<exists>u p'. uplink_child unix_kernel sample_uplink (sample_shell Map.empty) [''ls''] (Inr ()) sample_process =
     Inr (Some ((), u, p')) \<and> length (forked p') = 2 \<and> geteuid unix_kernel (ids p') = 1000"
proof -
  obtain u p' where r: "uplink_child unix_kernel sample_uplink (sample_shell Map.empty) [''ls''] (Inr ())
      sample_process = Inr (Some ((), u, p'))"
    using sample_uplink_runs by blast
  have "geteuid unix_kernel (ids sample_process) = 0" "getuid unix_kernel (ids sample_process) \<noteq> 0"
    "getgid unix_kernel (ids sample_process) \<noteq> 0" "environ sample_process = None" "forked sample_process = []"
    by (simp_all add: unix_kernel_def sample_process_def)
  from user_command_unprivileged [OF r unix_kernel_laws this] obtain dnsmasq child env where
    "forked p' = [(dnsmasq, ids sample_process, None), (child, ids p', Some env)]"
    "geteuid unix_kernel (ids p') = getuid unix_kernel (ids sample_process)"
    by blast
  with r show ?thesis by (simp add: unix_kernel_def)
qed

section \<open>Nested shells\<close>

text \<open>C19.  Shells within shells, to any depth: a command started by a shell (with any prompt) finds in
  its environment the base address of the outermost one; a shell started in that environment takes
  two different addresses, neither of them that base, and passes the same base on.\<close>

theorem nested_shells_avoid_base:
  assumes "has_base b env \<or> env ''MAHIMAHI_BASE'' = None \<and> b = egress_addr outer"
    and "prepend_shell_prefix str results (set_base (egress_addr outer) env) = Inr env'"
    and "packet_shell_members c a device_prefix env' p = Inr (nested, p')"
  shows "ip (egress_addr nested) \<noteq> ip (ingress_addr nested) \<and>
    ip (egress_addr nested) \<noteq> ip b \<and> ip (ingress_addr nested) \<noteq> ip b \<and>
    user_environment nested = env' \<and> has_base b (set_base (egress_addr nested) env')"
proof -
  have "has_base b env'"
    using assms(1) has_base_set_base has_base_prompt [OF assms(2)] by auto
  with base_avoided [OF assms(3)] has_base_set_base(2) packet_shell_members_Inr [OF assms(3)]
  show ?thesis by metis
qed

definition sample_answers :: shell_answers where
  "sample_answers = \<lparr>sh_ifaddrs = Some [], sh_routes = Some [], sh_res_init = 0, sh_nsaddr = cgnat 9, sh_pid = 77,
     sh_tun = sample_tun, sh_udp = sample_socket, sh_tcp = sample_socket, sh_listen = 0,
     sh_pair = (0, (30, 31), (0, 0))\<rparr>"

lemma address_in_use_one: "address_in_use [a] (cgnat b) \<longleftrightarrow> s_addr a = s_addr (cgnat b)"
  by (auto simp: address_in_use_def ip_def dest!: inet_ntop_inj)

lemma cgnat_port: "port (cgnat b) = 0"
  by (simp add: cgnat_def)

lemma bound_somewhere: "a\<lparr>port := 53\<rparr> \<noteq> address_any"
  by (cases a) (simp add: address_any_def)

lemma first_unassigned_one:
  "n \<le> 255 \<Longrightarrow> first_unassigned_address [a] n =
     (if s_addr a = s_addr (cgnat (ucast n)) then first_unassigned_address [a] (n + 1) else Inr (cgnat (ucast n), n))"
  by (subst first_unassigned_address.simps) (simp add: address_in_use_one cgnat_port Let_def)

lemma two_unassigned_one:
  "two_unassigned_addresses (Some []) (Some []) \<lparr>s_addr = s_addr (cgnat 1), port = 0\<rparr> = Inr (cgnat 2, cgnat 3)"
  "two_unassigned_addresses (Some []) (Some []) address_any = Inr (cgnat 1, cgnat 2)"
  by (simp_all add: two_unassigned_addresses_def interfaces_new_def add_address_def first_unassigned_one
      word_le_nat_alt Let_def cgnat_def address_any_def)

lemma sample_members:
  assumes "env ''MAHIMAHI_BASE'' = None \<or> env ''MAHIMAHI_BASE'' = Some (ip (cgnat 1))"
  shows "\<exists>sh p'. packet_shell_members unix_kernel sample_answers ''delay'' env sample_process = Inr (sh, p')"
proof -
  have b: "get_mahimahi_base unix_kernel env sample_process =
      Inr (case env ''MAHIMAHI_BASE'' of None \<Rightarrow> address_any | Some _ \<Rightarrow> \<lparr>s_addr = s_addr (cgnat 1), port = 0\<rparr>,
           sample_process)"
    using assms
    by (auto simp: get_mahimahi_base_def temporarily_unprivileged_def unix_kernel_def sample_process_def
        kernel_call_def system_call_def Util.assert_not_root_def privileged_again_def address_of_ip_ip Let_def)
  show ?thesis
    using assms
    by (auto simp: packet_shell_members_def b sample_answers_def two_unassigned_one first_nameserver_def
        system_call_def sample_tun_def sample_ioctl_def sample_socket_def tun_device_def assign_address_def
        interface_ioctl_def interface_ioctl_on_def udp_new_def socket_new_def fd_new_def netmask_text
        dns_proxy_listening_def make_bound_udp_def make_bound_tcp_def tcp_new_def socket_bind_def dns_proxy_new_def
        local_address_def get_address_def address_sized_def sizeof_storage_def address_eq_iff bound_somewhere
        tcp_listen_def Let_def)
qed

text \<open>A shell within the shell whose outer end is 100.64.0.1.\<close>

theorem nested_shells_avoid_base_witness:
  "\<exists>env' nested p'. prepend_shell_prefix ''[delay] '' (0, 0) (set_base (cgnat 1) Map.empty) = Inr env' \<and>
     packet_shell_members unix_kernel sample_answers ''delay'' env' sample_process = Inr (nested, p') \<and>
     ip (egress_addr nested) \<noteq> ip (cgnat 1)"
proof -
  obtain env' where e: "prepend_shell_prefix ''[delay] '' (0, 0) (set_base (egress_addr (sample_shell Map.empty)) Map.empty) = Inr env'"
    and b: "env' ''MAHIMAHI_BASE'' = Some (ip (cgnat 1))"
    by (simp add: prepend_shell_prefix_def system_call_def set_base_def sample_shell_def Let_def)
  obtain nested p' where m: "packet_shell_members unix_kernel sample_answers ''delay'' env' sample_process = Inr (nested, p')"
    using sample_members b by blast
  have "has_base (cgnat 1) Map.empty \<or> Map.empty ''MAHIMAHI_BASE'' = None \<and> cgnat 1 = egress_addr (sample_shell Map.empty)"
    by (simp add: sample_shell_def)
  from nested_shells_avoid_base [OF this e m] e m show ?thesis by (auto simp: sample_shell_def)
qed

section \<open>Address translation\<close>



end
