(* ===== verification/Shells.thy ===== *)
theory Shells
  imports Packet_Shell Command_Line Any_Queue Adv_Delay_Queue Link_Queue Double_Values
begin

text \<open>
  The programs that run a command behind one ferry queue: \<open>src/frontend/delayshell.cc\<close>,
  \<open>lossshell.cc\<close>, \<open>onoffshell.cc\<close>, \<open>meter.cc\<close>, \<open>advdelayshell.cc\<close> and \<open>linkshell.cc\<close>.  What \<open>main\<close>
  makes of its arguments is a plan: the name of the device, the prefix of the prompt, the command,
  and the arguments of the two queues (for the link they are computed while the packet shell
  exists, and may throw).  \<open>shell_main\<close> is the part that all of them share.
\<close>

section \<open>Plans\<close>

record 'u shell_plan =
  plan_device :: string
  plan_prefix :: string
  plan_command :: "string list"
  plan_uplink :: "'u res"
  plan_downlink :: "'u res"

text \<open>The command is what follows the first \<open>n\<close> arguments, or the user's shell.\<close>

definition command_from :: "nat \<Rightarrow> string list \<Rightarrow> string option \<Rightarrow> string list res" where
  "command_from n argv pw_shell =
     (if length argv = n then bindR (shell_path pw_shell) (\<lambda>s. Inr [s]) else Inr (drop n argv))"

subsection \<open>Delay\<close>

definition delay_plan :: "string option \<Rightarrow> string list \<Rightarrow> u64 shell_plan res" where
  "delay_plan pw_shell argv =
     (if length argv < 2
      then Inl (Runtime_error (''Usage: '' @ argv ! 0 @ '' delay-milliseconds [command...]''))
      else bindR (myatoi (argv ! 1) 10) (\<lambda>v.
           let delay = word_of_int v
           in bindR (command_from 2 argv pw_shell) (\<lambda>command.
              Inr \<lparr>plan_device = ''delay'', plan_prefix = ''[delay '' @ dec (unat delay) @ '' ms] '',
                   plan_command = command, plan_uplink = Inr delay, plan_downlink = Inr delay\<rparr>)))"

subsection \<open>Floating-point arguments\<close>

text \<open>
  What \<open>strtod\<close> finds at the beginning of a string (a parameter: the conversion belongs to the C
  library), how many characters it takes, and whether it sets \<open>errno\<close>.
\<close>

type_synonym strtod = "string \<Rightarrow> double \<times> nat \<times> bool"

definition myatof :: "strtod \<Rightarrow> string \<Rightarrow> double res" where
  "myatof strtod str =
     (if str = [] then Inl (Runtime_error ''Invalid floating-point string: empty'')
      else (let (ret, taken, failed) = strtod str
            in if failed then Inl (Unix_error ''strtod'')
               else if taken \<noteq> length str then Inl (Runtime_error (''Invalid floating-point number: '' @ str))
               else Inr ret))"

subsection \<open>Loss\<close>

definition loss_usage :: "string \<Rightarrow> 'a res" where
  "loss_usage program_name =
     Inl (Runtime_error (''Usage: '' @ program_name @ '' uplink|downlink RATE [COMMAND...]''))"

definition loss_plan :: "strtod \<Rightarrow> string option \<Rightarrow> string list \<Rightarrow> double shell_plan res" where
  "loss_plan strtod pw_shell argv =
     (if length argv < 3 then loss_usage (argv ! 0)
      else bindR (myatof strtod (argv ! 2)) (\<lambda>loss_rate.
           if \<not> (nonnegative loss_rate \<and> at_most_one loss_rate) then loss_usage (argv ! 0)
           else let link = argv ! 1
                in bindR (if link = ''uplink'' then Inr (loss_rate, Finite 0)
                          else if link = ''downlink'' then Inr (Finite 0, loss_rate)
                          else loss_usage (argv ! 0)) (\<lambda>(uplink_loss, downlink_loss).
                   bindR (command_from 3 argv pw_shell) (\<lambda>command.
                   Inr \<lparr>plan_device = ''loss'',
                        plan_prefix = ''[loss '' @ (if link = ''uplink'' then ''up='' else ''down='') @ argv ! 2 @ ''] '',
                        plan_command = command, plan_uplink = Inr uplink_loss,
                        plan_downlink = Inr downlink_loss\<rparr>))))"

subsection \<open>On and off\<close>

definition onoff_usage :: "string \<Rightarrow> 'a res" where
  "onoff_usage program_name =
     Inl (Runtime_error (''Usage: '' @ program_name @ '' uplink|downlink MEAN-ON-TIME MEAN-OFF-TIME [COMMAND...]''))"

text \<open>
  The direction that stays on gets the mean times \<open>numeric_limits<double>::max()\<close> and 0, whose rates are 0 and
  infinite (lemma \<open>always_on_rate\<close> of \<open>Ferry_Queues\<close>).
\<close>

definition onoff_plan :: "strtod \<Rightarrow> string option \<Rightarrow> string list \<Rightarrow> (double \<times> double) shell_plan res" where
  "onoff_plan strtod pw_shell argv =
     (if length argv < 4 then onoff_usage (argv ! 0)
      else bindR (myatof strtod (argv ! 2)) (\<lambda>on_time.
           if \<not> nonnegative on_time then onoff_usage (argv ! 0)
           else bindR (myatof strtod (argv ! 3)) (\<lambda>off_time.
           if \<not> nonnegative off_time then onoff_usage (argv ! 0)
           else if on_time = Finite 0 \<and> off_time = Finite 0 then onoff_usage (argv ! 0)
           else let link = argv ! 1
                in bindR (if link = ''uplink'' then Inr ((on_time, off_time), (double_max, Finite 0))
                          else if link = ''downlink'' then Inr ((double_max, Finite 0), (on_time, off_time))
                          else onoff_usage (argv ! 0)) (\<lambda>(up, down).
                   bindR (command_from 4 argv pw_shell) (\<lambda>command.
                   Inr \<lparr>plan_device = ''onoff'',
                        plan_prefix = ''[onoff '' @ (if link = ''uplink'' then ''(up) on='' else ''(down) on='') @
                          argv ! 2 @ ''s off='' @ argv ! 3 @ ''s] '',
                        plan_command = command, plan_uplink = Inr up, plan_downlink = Inr down\<rparr>)))))"

subsection \<open>Delays by rules\<close>

definition adv_plan ::
  "(string \<Rightarrow> string option) \<Rightarrow> string option \<Rightarrow> string list \<Rightarrow>
   (u64 \<times> delay_rules \<times> bool \<times> string) shell_plan res" where
  "adv_plan files pw_shell argv =
     (if length argv < 4
      then Inl (Runtime_error (''Usage: '' @ argv ! 0 @ '' delay-milliseconds'' @ '' rule-file'' @
                               '' out-path-prefix'' @ '' [command...]''))
      else bindR (myatoi (argv ! 1) 10) (\<lambda>v.
           let delay = word_of_int v
           in bindR (parse_rules (argv ! 2) (files (argv ! 2))) (\<lambda>rs.
              bindR (command_from 4 argv pw_shell) (\<lambda>command.
              Inr \<lparr>plan_device = ''adv-delay'',
                   plan_prefix = ''[adv-delay <def: '' @ dec (unat delay) @ '' ms>] '',
                   plan_command = command, plan_uplink = Inr (delay, rs, True, argv ! 3),
                   plan_downlink = Inr (delay, rs, False, argv ! 3)\<rparr>))))"

subsection \<open>Meter\<close>

text \<open>The elements of \<open>argv\<close> from \<open>optind\<close> on, after its first one and the options.\<close>

definition option_events :: "short_options \<Rightarrow> long_options \<Rightarrow> string list \<Rightarrow> option_event list \<times> string list" where
  "option_events shorts longs argv = getopt_long shorts longs (drop 1 argv)"

definition unexpected_option :: "string \<Rightarrow> char \<Rightarrow> 'a res" where
  "unexpected_option name opt = Inl (Runtime_error (name @ '': unexpected return value '' @ dec (of_char opt)))"

definition meter_options :: long_options where
  "meter_options = [(''meter-uplink'', False, CHR ''u''), (''meter-downlink'', False, CHR ''d'')]"

definition meter_option :: "string \<Rightarrow> option_event \<Rightarrow> bool \<times> bool \<Rightarrow> (bool \<times> bool) res" where
  "meter_option program_name e s =
     (if fst e = CHR ''u'' then Inr (True, snd s)
      else if fst e = CHR ''d'' then Inr (fst s, True)
      else if fst e = CHR ''?''
      then Inl (Runtime_error (''Usage: '' @ program_name @ '' [--meter-uplink] [--meter-downlink] [COMMAND...]''))
      else unexpected_option ''getopt_log'' (fst e))"

definition command_or_shell :: "string list \<Rightarrow> string option \<Rightarrow> string list res" where
  "command_or_shell rest pw_shell = (if rest = [] then bindR (shell_path pw_shell) (\<lambda>s. Inr [s]) else Inr rest)"

definition meter_plan :: "string option \<Rightarrow> string list \<Rightarrow> (string \<times> bool) shell_plan res" where
  "meter_plan pw_shell argv =
     (let (es, rest) = option_events [(CHR ''u'', False), (CHR ''d'', False)] meter_options argv
      in bindR (fold_res (meter_option (argv ! 0)) es (False, False)) (\<lambda>(meter_uplink, meter_downlink).
         bindR (command_or_shell rest pw_shell) (\<lambda>command.
         Inr \<lparr>plan_device = ''meter'', plan_prefix = ''[meter] '', plan_command = command,
              plan_uplink = Inr (''Uplink'', meter_uplink), plan_downlink = Inr (''Downlink'', meter_downlink)\<rparr>)))"

subsection \<open>Link\<close>

record link_options =
  uplink_logfile :: string
  downlink_logfile :: string
  repeat_trace :: bool
  meter_uplink :: bool
  meter_downlink :: bool
  meter_uplink_delay :: bool
  meter_downlink_delay :: bool
  uplink_queue_type :: string
  downlink_queue_type :: string
  uplink_queue_args :: string
  downlink_queue_args :: string

definition link_options_default :: link_options where
  "link_options_default = \<lparr>uplink_logfile = [], downlink_logfile = [], repeat_trace = True, meter_uplink = False,
     meter_downlink = False, meter_uplink_delay = False, meter_downlink_delay = False,
     uplink_queue_type = ''infinite'', downlink_queue_type = ''infinite'', uplink_queue_args = [],
     downlink_queue_args = []\<rparr>"

definition link_long_options :: long_options where
  "link_long_options =
     [(''uplink-log'', True, CHR ''u''), (''downlink-log'', True, CHR ''d''), (''once'', False, CHR ''o''),
      (''meter-uplink'', False, CHR ''m''), (''meter-downlink'', False, CHR ''n''),
      (''meter-uplink-delay'', False, CHR ''x''), (''meter-downlink-delay'', False, CHR ''y''),
      (''meter-all'', False, CHR ''z''), (''uplink-queue'', True, CHR ''q''), (''downlink-queue'', True, CHR ''w''),
      (''uplink-queue-args'', True, CHR ''a''), (''downlink-queue-args'', True, CHR ''b'')]"

definition link_short_options :: short_options where
  "link_short_options = [(CHR ''u'', True), (CHR ''d'', True)]"

definition link_option :: "option_event \<Rightarrow> link_options \<Rightarrow> link_options res" where
  "link_option e s =
     (let (opt, optarg) = e
      in if opt = CHR ''u'' then Inr (s\<lparr>uplink_logfile := optarg\<rparr>)
         else if opt = CHR ''d'' then Inr (s\<lparr>downlink_logfile := optarg\<rparr>)
         else if opt = CHR ''o'' then Inr (s\<lparr>repeat_trace := False\<rparr>)
         else if opt = CHR ''m'' then Inr (s\<lparr>meter_uplink := True\<rparr>)
         else if opt = CHR ''n'' then Inr (s\<lparr>meter_downlink := True\<rparr>)
         else if opt = CHR ''x'' then Inr (s\<lparr>meter_uplink_delay := True\<rparr>)
         else if opt = CHR ''y'' then Inr (s\<lparr>meter_downlink_delay := True\<rparr>)
         else if opt = CHR ''z''
         then Inr (s\<lparr>meter_uplink := True, meter_downlink := True, meter_uplink_delay := True,
                     meter_downlink_delay := True\<rparr>)
         else if opt = CHR ''q'' then Inr (s\<lparr>uplink_queue_type := optarg\<rparr>)
         else if opt = CHR ''w'' then Inr (s\<lparr>downlink_queue_type := optarg\<rparr>)
         else if opt = CHR ''a'' then Inr (s\<lparr>uplink_queue_args := optarg\<rparr>)
         else if opt = CHR ''b'' then Inr (s\<lparr>downlink_queue_args := optarg\<rparr>)
         else if opt = CHR ''?'' then link_usage_error
         else unexpected_option ''getopt_long'' opt)"

record 'g link_arguments =
  la_name :: string
  la_filename :: string
  la_logfile :: string
  la_repeat :: bool
  la_meter :: bool
  la_meter_delay :: bool
  la_queue :: "'g any_queue"
  la_command_line :: string

text \<open>The arguments of the queue for one direction; the random engine of PIE and the clock are given.\<close>

definition link_direction ::
  "'g \<Rightarrow> clock \<Rightarrow> string \<Rightarrow> string \<Rightarrow> string \<Rightarrow> bool \<Rightarrow> bool \<Rightarrow> bool \<Rightarrow> string \<Rightarrow> string \<Rightarrow> string \<Rightarrow>
   'g link_arguments res" where
  "link_direction seed c name filename logfile rep meter_it meter_delay queue_type queue_args command_line =
     bindR (get_packet_queue seed c queue_type queue_args) (\<lambda>(q, _).
       Inr \<lparr>la_name = name, la_filename = filename, la_logfile = logfile, la_repeat = rep, la_meter = meter_it,
            la_meter_delay = meter_delay, la_queue = q, la_command_line = command_line\<rparr>)"

definition link_plan ::
  "'g \<times> clock \<Rightarrow> 'g \<times> clock \<Rightarrow> string option \<Rightarrow> string list \<Rightarrow> 'g link_arguments shell_plan res" where
  "link_plan up down pw_shell argv =
     (if length argv < 3 then link_usage_error
      else let command_line = quoted_command_line (argv ! 0) (drop 1 argv);
               (es, rest) = option_events link_short_options link_long_options argv
           in bindR (fold_res link_option es link_options_default) (\<lambda>s.
              if length rest < 2 then link_usage_error
              else bindR (command_or_shell (drop 2 rest) pw_shell) (\<lambda>command.
                Inr \<lparr>plan_device = ''link'', plan_prefix = ''[link] '', plan_command = command,
                     plan_uplink = link_direction (fst up) (snd up) ''Uplink'' (rest ! 0) (uplink_logfile s)
                       (repeat_trace s) (meter_uplink s) (meter_uplink_delay s) (uplink_queue_type s)
                       (uplink_queue_args s) command_line,
                     plan_downlink = link_direction (fst down) (snd down) ''Downlink'' (rest ! 1) (downlink_logfile s)
                       (repeat_trace s) (meter_downlink s) (meter_downlink_delay s) (downlink_queue_type s)
                       (downlink_queue_args s) command_line\<rparr>)))"

text \<open>The queue that a child makes of them.\<close>

definition link_maker ::
  "('g \<Rightarrow> rat \<times> 'g) \<Rightarrow> link_env \<Rightarrow> clock \<Rightarrow> 'g link_arguments \<Rightarrow> ('g any_queue link_queue \<times> clock) res" where
  "link_maker draw env c a =
     link_new (any_ops draw) env c (la_name a) (la_filename a) (la_logfile a) (la_repeat a) (la_meter a)
       (la_meter_delay a) (la_queue a) (la_command_line a)"

section \<open>What the programs share\<close>

record main_answers =
  ma_dev_null :: int
  ma_ip_forward :: int
  ma_forwarding :: "string res"
  ma_shell :: shell_answers
  ma_parent :: parent_answers

text \<open>
  \<open>main\<close>: the environment is cleared at once; exceptions of the library end the program with
  \<open>EXIT_FAILURE\<close>.
\<close>

definition shell_main ::
  "string \<Rightarrow> 'k credentials \<Rightarrow> main_answers \<Rightarrow> (string list \<Rightarrow> 'u shell_plan res) \<Rightarrow> string list \<Rightarrow> 'k process \<Rightarrow>
   (u32 option \<times> loop_state \<times> 'k process, runner) run" where
  "shell_main iptables c a plan_of argv p r =
     (let user_env = (case environ p of None \<Rightarrow> Map.empty | Some env \<Rightarrow> env);
          p1 = p\<lparr>environ := None\<rparr>
      in case bindR (check_requirements c argv (ma_dev_null a) (environ p1 \<noteq> None) (ma_ip_forward a)
                       (ma_forwarding a) (ids p1)) (\<lambda>_. plan_of argv) of
           Inl e \<Rightarrow> Some (Inl e, r)
         | Inr plan \<Rightarrow>
             with_packet_shell iptables c (ma_shell a) (plan_device plan) user_env p1
               (\<lambda>sh p2. Some (packet_shell_run c (ma_parent a) (bindR (plan_uplink plan) (\<lambda>_. Inr ()))
                                 (bindR (plan_downlink plan) (\<lambda>_. Inr ())) p2)) r)"

definition exit_code :: "(u32 option \<times> 'x) res \<Rightarrow> u32 option res" where
  "exit_code outcome =
     (case outcome of
        Inr (status, _) \<Rightarrow> Inr status
      | Inl e \<Rightarrow> if std_exception e then Inr (Some 1) else Inl e)"

section \<open>Command lines read back\<close>

text \<open>The command line that states every option.\<close>

definition link_option_words :: "link_options \<Rightarrow> string list" where
  "link_option_words s =
     [''--uplink-log='' @ uplink_logfile s, ''--downlink-log='' @ downlink_logfile s] @
     (if repeat_trace s then [] else [''--once'']) @
     (if meter_uplink s then [''--meter-uplink''] else []) @
     (if meter_downlink s then [''--meter-downlink''] else []) @
     (if meter_uplink_delay s then [''--meter-uplink-delay''] else []) @
     (if meter_downlink_delay s then [''--meter-downlink-delay''] else []) @
     [''--uplink-queue='' @ uplink_queue_type s, ''--downlink-queue='' @ downlink_queue_type s,
      ''--uplink-queue-args='' @ uplink_queue_args s, ''--downlink-queue-args='' @ downlink_queue_args s]"

definition link_option_events :: "link_options \<Rightarrow> option_event list" where
  "link_option_events s =
     [(CHR ''u'', uplink_logfile s), (CHR ''d'', downlink_logfile s)] @
     (if repeat_trace s then [] else [(CHR ''o'', [])]) @
     (if meter_uplink s then [(CHR ''m'', [])] else []) @
     (if meter_downlink s then [(CHR ''n'', [])] else []) @
     (if meter_uplink_delay s then [(CHR ''x'', [])] else []) @
     (if meter_downlink_delay s then [(CHR ''y'', [])] else []) @
     [(CHR ''q'', uplink_queue_type s), (CHR ''w'', downlink_queue_type s),
      (CHR ''a'', uplink_queue_args s), (CHR ''b'', downlink_queue_args s)]"

lemma after_option_append: "after_option es (after_option es' r) = after_option (es @ es') r"
  by (simp add: after_option_def)

lemma after_no_option: "after_option [] r = r"
  by (simp add: after_option_def)

text \<open>Words that are read as options, whatever comes after them.\<close>

definition reads_options :: "short_options \<Rightarrow> long_options \<Rightarrow> string list \<Rightarrow> option_event list \<Rightarrow> bool" where
  "reads_options shorts longs ws es \<longleftrightarrow>
     (\<forall>as. getopt_long shorts longs (ws @ as) = after_option es (getopt_long shorts longs as))"

lemma reads_append:
  "reads_options shorts longs ws es \<Longrightarrow> reads_options shorts longs ws' es' \<Longrightarrow>
   reads_options shorts longs (ws @ ws') (es @ es')"
  by (simp add: reads_options_def after_option_append)

lemma reads_none: "reads_options shorts longs [] []"
  by (simp add: reads_options_def after_no_option)

lemma reads_one:
  "(\<And>as. getopt_long shorts longs (w # as) = after_option [e] (getopt_long shorts longs as)) \<Longrightarrow>
   reads_options shorts longs ws es \<Longrightarrow> reads_options shorts longs (w # ws) (e # es)"
  by (simp add: reads_options_def after_option_append)

lemma reads_if:
  "reads_options shorts longs ws es \<Longrightarrow> reads_options shorts longs ws' es' \<Longrightarrow>
   reads_options shorts longs (if b then ws else ws') (if b then es else es')"
  by simp

lemmas reads_intros = reads_append reads_none reads_one reads_if

lemmas link_word_simps = split_at_equals_def find_long_def link_long_options_def Let_def after_option_def

lemma getopt_link_words:
  fixes shorts :: short_options
  defines "g \<equiv> getopt_long shorts link_long_options"
  shows "g ((''--uplink-log='' @ x) # as) = after_option [(CHR ''u'', x)] (g as)"
    "g ((''--downlink-log='' @ x) # as) = after_option [(CHR ''d'', x)] (g as)"
    "g (''--once'' # as) = after_option [(CHR ''o'', [])] (g as)"
    "g (''--meter-uplink'' # as) = after_option [(CHR ''m'', [])] (g as)"
    "g (''--meter-downlink'' # as) = after_option [(CHR ''n'', [])] (g as)"
    "g (''--meter-uplink-delay'' # as) = after_option [(CHR ''x'', [])] (g as)"
    "g (''--meter-downlink-delay'' # as) = after_option [(CHR ''y'', [])] (g as)"
    "g ((''--uplink-queue='' @ x) # as) = after_option [(CHR ''q'', x)] (g as)"
    "g ((''--downlink-queue='' @ x) # as) = after_option [(CHR ''w'', x)] (g as)"
    "g ((''--uplink-queue-args='' @ x) # as) = after_option [(CHR ''a'', x)] (g as)"
    "g ((''--downlink-queue-args='' @ x) # as) = after_option [(CHR ''b'', x)] (g as)"
  unfolding g_def by (simp_all add: link_word_simps)

lemma reads_link_option_words:
  "reads_options shorts link_long_options (link_option_words s) (link_option_events s)"
  unfolding link_option_words_def link_option_events_def
  by (intro reads_intros getopt_link_words)

lemma link_events_fold:
  "fold_res link_option (link_option_events s) link_options_default = Inr s"
  unfolding link_option_events_def link_options_default_def
  by (cases s) (simp add: link_option_def)

lemma link_plan_words:
  assumes "command \<noteq> []"
  shows "\<exists>plan. link_plan up down pw_shell (argv0 # link_option_words s @ [''--'', up_trace, down_trace] @ command) = Inr plan \<and>
    plan_command plan = command \<and>
    plan_uplink plan = link_direction (fst up) (snd up) ''Uplink'' up_trace (uplink_logfile s) (repeat_trace s)
      (meter_uplink s) (meter_uplink_delay s) (uplink_queue_type s) (uplink_queue_args s)
      (quoted_command_line argv0 (link_option_words s @ [''--'', up_trace, down_trace] @ command)) \<and>
    plan_downlink plan = link_direction (fst down) (snd down) ''Downlink'' down_trace (downlink_logfile s) (repeat_trace s)
      (meter_downlink s) (meter_downlink_delay s) (downlink_queue_type s) (downlink_queue_args s)
      (quoted_command_line argv0 (link_option_words s @ [''--'', up_trace, down_trace] @ command))"
proof -
  have "getopt_long link_short_options link_long_options (link_option_words s @ [''--'', up_trace, down_trace] @ command) =
      (link_option_events s, [up_trace, down_trace] @ command)"
    using reads_link_option_words [of link_short_options s] unfolding reads_options_def
    by (simp add: getopt_double_dash after_option_def)
  then have "option_events link_short_options link_long_options
      (argv0 # link_option_words s @ [''--'', up_trace, down_trace] @ command) =
      (link_option_events s, [up_trace, down_trace] @ command)"
    by (simp add: option_events_def)
  with assms show ?thesis
    by (simp add: link_plan_def link_events_fold command_or_shell_def Let_def)
qed

section \<open>Every plan has a command\<close>

lemma command_from_nonempty:
  "command_from n argv pw_shell = Inr command \<Longrightarrow> n \<le> length argv \<Longrightarrow> command \<noteq> []"
  by (auto simp: command_from_def res_simps split: if_splits)

lemma command_or_shell_nonempty: "command_or_shell rest pw_shell = Inr command \<Longrightarrow> command \<noteq> []"
  by (auto simp: command_or_shell_def res_simps split: if_splits)

lemmas plan_defs = delay_plan_def loss_plan_def onoff_plan_def adv_plan_def meter_plan_def link_plan_def
  loss_usage_def onoff_usage_def link_usage_error_def

lemma plans_have_commands:
  "delay_plan pw argv = Inr p1 \<Longrightarrow> plan_command p1 \<noteq> []"
  "loss_plan strtod pw argv = Inr p2 \<Longrightarrow> plan_command p2 \<noteq> []"
  "onoff_plan strtod pw argv = Inr p3 \<Longrightarrow> plan_command p3 \<noteq> []"
  "adv_plan files pw argv = Inr p4 \<Longrightarrow> plan_command p4 \<noteq> []"
  "meter_plan pw argv = Inr p5 \<Longrightarrow> plan_command p5 \<noteq> []"
  "link_plan up down pw argv = Inr p6 \<Longrightarrow> plan_command p6 \<noteq> []"
  by (auto simp: plan_defs res_simps Let_def split: if_splits prod.splits
      dest!: command_from_nonempty command_or_shell_nonempty)

section \<open>What the other plans say\<close>

lemma loss_plan_direction:
  assumes "loss_plan strtod pw argv = Inr plan"
  obtains rate where "0 \<le> rate" "rate \<le> 1" "myatof strtod (argv ! 2) = Inr (Finite rate)"
    "argv ! 1 = ''uplink'' \<and> plan_uplink plan = Inr (Finite rate) \<and> plan_downlink plan = Inr (Finite 0) \<or>
     argv ! 1 = ''downlink'' \<and> plan_uplink plan = Inr (Finite 0) \<and> plan_downlink plan = Inr (Finite rate)"
proof -
  obtain x where x: "myatof strtod (argv ! 2) = Inr x" "nonnegative x \<and> at_most_one x"
    using assms by (auto simp: loss_plan_def loss_usage_def res_simps split: if_splits)
  then obtain rate where "x = Finite rate" "0 \<le> rate" "rate \<le> 1" by (cases x) auto
  with x assms that show ?thesis
    by (auto simp: loss_plan_def loss_usage_def res_simps Let_def split: if_splits)
qed

lemma onoff_plan_times:
  assumes "onoff_plan strtod pw argv = Inr plan"
  obtains on off where "nonnegative on" "nonnegative off" "(on, off) \<noteq> (Finite 0, Finite 0)"
    "argv ! 1 = ''uplink'' \<and> plan_uplink plan = Inr (on, off) \<and> plan_downlink plan = Inr (double_max, Finite 0) \<or>
     argv ! 1 = ''downlink'' \<and> plan_uplink plan = Inr (double_max, Finite 0) \<and> plan_downlink plan = Inr (on, off)"
  using assms
  by (auto simp: onoff_plan_def onoff_usage_def res_simps Let_def split: if_splits)

text \<open>A negative delay is taken for one of many millions of years.\<close>

lemma negative_delay:
  "\<exists>plan. delay_plan pw [''mm-delay'', ''-1'', ''ls''] = Inr plan \<and> plan_uplink plan = Inr 18446744073709551615"
proof -
  have "myatoi ''-1'' 10 = Inr (- 1)" by code_simp
  then show ?thesis by (simp add: delay_plan_def command_from_def Let_def)
qed

text \<open>Without a double dash the options of the command are taken for those of the program.\<close>

lemma option_of_the_command:
  "meter_plan pw [''mm-meter'', ''ls'', ''-l''] =
     Inl (Runtime_error ''Usage: mm-meter [--meter-uplink] [--meter-downlink] [COMMAND...]'')"
  "\<exists>plan. meter_plan pw [''mm-meter'', ''ls'', ''-u''] = Inr plan \<and> plan_command plan = [''ls''] \<and>
     plan_uplink plan = Inr (''Uplink'', True)"
  by (simp_all add: meter_plan_def option_events_def meter_option_def command_or_shell_def bad_option_def
      after_option_def Let_def)

text \<open>
  The names of the devices of the rule-based shell are too long for numbers of six digits: two
  shells whose numbers begin alike ask for the same device.
\<close>

lemma adv_device_names:
  "device_of \<lparr>ifr_name = strncpy (''adv-delay'' @ ''-'' @ int_dec 123456) IFNAMSIZ, ifr_value = v\<rparr> =
   device_of \<lparr>ifr_name = strncpy (''adv-delay'' @ ''-'' @ int_dec 123457) IFNAMSIZ, ifr_value = v\<rparr>"
proof -
  have "int_dec 123456 = ''123456''" "int_dec 123457 = ''123457''" by (simp_all add: int_dec_def dec.simps digit_char_def decimal_digits_def)
  then show ?thesis by (simp add: device_of_def strncpy_def IFNAMSIZ_def)
qed

end
