(* ===== verification/Program_Properties.thy ===== *)
theory Program_Properties
  imports Shells
begin

text \<open>
  What the programs make of their command lines.
\<close>

section \<open>The link's options\<close>

text \<open>C27.  A command line of \<open>mm-link\<close> that states the options, a double dash, the two traces and a
  command is read as just these, whatever characters the values contain and whatever words the
  command has; each queue gets its own trace, log, kind and arguments, and the log the whole line.\<close>

theorem link_command_line_read:
  assumes "command \<noteq> []"
  shows "\<exists>plan. link_plan up down pw_shell (argv0 # link_option_words s @ [''--'', up_trace, down_trace] @ command) = Inr plan \<and>
    plan_command plan = command \<and>
    plan_uplink plan = link_direction (fst up) (snd up) ''Uplink'' up_trace (uplink_logfile s) (repeat_trace s)
      (meter_uplink s) (meter_uplink_delay s) (uplink_queue_type s) (uplink_queue_args s)
      (quoted_command_line argv0 (link_option_words s @ [''--'', up_trace, down_trace] @ command)) \<and>
    plan_downlink plan = link_direction (fst down) (snd down) ''Downlink'' down_trace (downlink_logfile s) (repeat_trace s)
      (meter_downlink s) (meter_downlink_delay s) (downlink_queue_type s) (downlink_queue_args s)
      (quoted_command_line argv0 (link_option_words s @ [''--'', up_trace, down_trace] @ command))"
  by (rule link_plan_words [OF assms])

theorem link_command_line_read_witness:
  "\<exists>plan. link_plan ((), \<lambda>_. 0) ((), \<lambda>_. 0) None
      (''mm-link'' # link_option_words (link_options_default\<lparr>uplink_queue_type := ''droptail'',
        uplink_queue_args := ''packets=3'', repeat_trace := False\<rparr>) @ [''--'', ''up'', ''down''] @ [''ls'', ''-l'']) = Inr plan \<and>
     plan_command plan = [''ls'', ''-l'']"
  using link_command_line_read [of "[''ls'', ''-l'']" "((), \<lambda>_. 0)" "((), \<lambda>_. 0)" None "''mm-link''"
      "link_options_default\<lparr>uplink_queue_type := ''droptail'', uplink_queue_args := ''packets=3'', repeat_trace := False\<rparr>"
      "''up''" "''down''"]
  by blast

section \<open>The other command lines\<close>

text \<open>The command that is run: what follows the arguments, or the user's shell.\<close>

definition runs_command :: "string option \<Rightarrow> string list \<Rightarrow> string list \<Rightarrow> bool" where
  "runs_command pw_shell rest command \<longleftrightarrow>
     (if rest = [] then \<exists>s. pw_shell = Some s \<and> command = [if s = [] then ''/bin/sh'' else s] else command = rest)"

text \<open>A number that the C library reads in the whole of a string.\<close>

definition reads_as :: "strtod \<Rightarrow> string \<Rightarrow> double \<Rightarrow> bool" where
  "reads_as strtod str x \<longleftrightarrow> str \<noteq> [] \<and> strtod str = (x, length str, False)"

definition meter_words :: "bool \<Rightarrow> bool \<Rightarrow> string list" where
  "meter_words up down = (if up then [''--meter-uplink''] else []) @ (if down then [''--meter-downlink''] else [])"

lemma command_from_runs: "n \<le> length argv \<Longrightarrow> command_from n argv pw = Inr command \<longleftrightarrow> runs_command pw (drop n argv) command"
  by (auto simp: command_from_def runs_command_def shell_path_def split: option.splits)

lemma myatof_reads: "myatof strtod str = Inr x \<longleftrightarrow> reads_as strtod str x"
  by (auto simp: myatof_def reads_as_def split: prod.split)

lemma loss_rate:
  "(\<exists>x. P x \<and> nonnegative x \<and> at_most_one x \<and> Q x) \<longleftrightarrow> (\<exists>rate. P (Finite rate) \<and> 0 \<le> rate \<and> rate \<le> 1 \<and> Q (Finite rate))"
  (is "?l \<longleftrightarrow> ?r")
proof
  assume ?l
  then obtain x where "P x" "nonnegative x" "at_most_one x" "Q x" by blast
  then show ?r by (cases x) auto
next
  assume ?r
  then obtain rate where "P (Finite rate)" "0 \<le> rate" "rate \<le> 1" "Q (Finite rate)" by blast
  then show ?l by (intro exI [of _ "Finite rate"]) simp
qed

lemma loss_plan_Inr:
  "loss_plan strtod pw argv = Inr plan \<longleftrightarrow> 3 \<le> length argv \<and>
     (\<exists>x. myatof strtod (argv ! 2) = Inr x \<and> nonnegative x \<and> at_most_one x \<and> (\<exists>command. command_from 3 argv pw = Inr command \<and>
       (argv ! 1 = ''uplink'' \<and> plan = \<lparr>plan_device = ''loss'', plan_prefix = ''[loss up='' @ argv ! 2 @ ''] '',
          plan_command = command, plan_uplink = Inr x, plan_downlink = Inr (Finite 0)\<rparr> \<or>
        argv ! 1 = ''downlink'' \<and> plan = \<lparr>plan_device = ''loss'', plan_prefix = ''[loss down='' @ argv ! 2 @ ''] '',
          plan_command = command, plan_uplink = Inr (Finite 0), plan_downlink = Inr x\<rparr>)))"
  by (cases "argv ! 1 = ''uplink''"; cases "argv ! 1 = ''downlink''")
    (auto simp: loss_plan_def loss_usage_def res_simps Let_def not_less not_le)

lemma onoff_plan_Inr:
  "onoff_plan strtod pw argv = Inr plan \<longleftrightarrow> 4 \<le> length argv \<and>
     (\<exists>on off command. myatof strtod (argv ! 2) = Inr on \<and> nonnegative on \<and> myatof strtod (argv ! 3) = Inr off \<and>
       nonnegative off \<and> (on, off) \<noteq> (Finite 0, Finite 0) \<and> command_from 4 argv pw = Inr command \<and>
       (argv ! 1 = ''uplink'' \<and> plan = \<lparr>plan_device = ''onoff'',
          plan_prefix = ''[onoff (up) on='' @ argv ! 2 @ ''s off='' @ argv ! 3 @ ''s] '',
          plan_command = command, plan_uplink = Inr (on, off), plan_downlink = Inr (double_max, Finite 0)\<rparr> \<or>
        argv ! 1 = ''downlink'' \<and> plan = \<lparr>plan_device = ''onoff'',
          plan_prefix = ''[onoff (down) on='' @ argv ! 2 @ ''s off='' @ argv ! 3 @ ''s] '',
          plan_command = command, plan_uplink = Inr (double_max, Finite 0), plan_downlink = Inr (on, off)\<rparr>))"
  by (cases "argv ! 1 = ''uplink''"; cases "argv ! 1 = ''downlink''")
    (auto simp: onoff_plan_def onoff_usage_def res_simps Let_def not_less not_le)

text \<open>C28.  What the other programs read, in both directions where the line decides it.  \<open>mm-delay\<close> with a number below
  2^63, printed in decimal, and a command delays both directions by just that number.  \<open>mm-meter\<close> plots the
  directions whose options stand before the double dash, and runs the command behind it.  \<open>mm-loss\<close> and \<open>mm-onoff\<close>
  go on exactly if they have enough arguments, the first says \<open>uplink\<close> or \<open>downlink\<close>, the numbers are read
  completely, a loss rate lies between 0 and 1, mean times are not negative (nor not a number) and not both
  0, and a command or a user's shell is there; then the direction that is named gets the rate or the times, the
  other one the rate 0, or the mean times \<open>numeric_limits<double>::max()\<close> and 0, and the command is all that follows, or the shell.\<close>

theorem plans_as_asked:
  "(n < 2 ^ 63 \<and> command \<noteq> [] \<longrightarrow>
      delay_plan pw (argv0 # dec n # command) =
        Inr \<lparr>plan_device = ''delay'', plan_prefix = ''[delay '' @ dec n @ '' ms] '', plan_command = command,
             plan_uplink = Inr (of_nat n), plan_downlink = Inr (of_nat n)\<rparr>) \<and>
   (command \<noteq> [] \<longrightarrow>
      meter_plan pw (argv0 # meter_words up down @ ''--'' # command) =
        Inr \<lparr>plan_device = ''meter'', plan_prefix = ''[meter] '', plan_command = command,
             plan_uplink = Inr (''Uplink'', up), plan_downlink = Inr (''Downlink'', down)\<rparr>) \<and>
   (loss_plan strtod pw argv = Inr lossy \<longleftrightarrow>
      3 \<le> length argv \<and> runs_command pw (drop 3 argv) (plan_command lossy) \<and> plan_device lossy = ''loss'' \<and>
      (\<exists>rate. reads_as strtod (argv ! 2) (Finite rate) \<and> 0 \<le> rate \<and> rate \<le> 1 \<and>
        (argv ! 1 = ''uplink'' \<and> plan_prefix lossy = ''[loss up='' @ argv ! 2 @ ''] '' \<and>
           plan_uplink lossy = Inr (Finite rate) \<and> plan_downlink lossy = Inr (Finite 0) \<or>
         argv ! 1 = ''downlink'' \<and> plan_prefix lossy = ''[loss down='' @ argv ! 2 @ ''] '' \<and>
           plan_uplink lossy = Inr (Finite 0) \<and> plan_downlink lossy = Inr (Finite rate)))) \<and>
   (onoff_plan strtod pw argv = Inr outages \<longleftrightarrow>
      4 \<le> length argv \<and> runs_command pw (drop 4 argv) (plan_command outages) \<and> plan_device outages = ''onoff'' \<and>
      (\<exists>on off. reads_as strtod (argv ! 2) on \<and> reads_as strtod (argv ! 3) off \<and> nonnegative on \<and> nonnegative off \<and>
        (on, off) \<noteq> (Finite 0, Finite 0) \<and>
        (argv ! 1 = ''uplink'' \<and> plan_prefix outages = ''[onoff (up) on='' @ argv ! 2 @ ''s off='' @ argv ! 3 @ ''s] '' \<and>
           plan_uplink outages = Inr (on, off) \<and> plan_downlink outages = Inr (double_max, Finite 0) \<or>
         argv ! 1 = ''downlink'' \<and> plan_prefix outages = ''[onoff (down) on='' @ argv ! 2 @ ''s off='' @ argv ! 3 @ ''s] '' \<and>
           plan_uplink outages = Inr (double_max, Finite 0) \<and> plan_downlink outages = Inr (on, off))))"
    (is "?delay \<and> ?meter \<and> ?loss \<and> ?onoff")
proof (intro conjI)
  have "unat (of_nat n :: u64) = n" if "n < 2 ^ 63"
    using that by (simp add: unat_of_nat)
  moreover have "(word_of_int (int n) :: u64) = of_nat n" by simp
  ultimately show ?delay
    by (auto simp: delay_plan_def myatoi_dec command_from_def Let_def simp del: of_int_of_nat_eq)
  show ?meter
    by (cases up; cases down)
      (simp_all add: meter_plan_def meter_words_def option_events_def meter_options_def meter_option_def find_long_def
        split_at_equals_def after_option_def command_or_shell_def Let_def)
  show ?loss
    unfolding loss_plan_Inr loss_rate
    by (cases lossy) (auto simp: command_from_runs myatof_reads)
  show ?onoff
    by (cases outages) (auto simp: onoff_plan_Inr command_from_runs myatof_reads)
qed

text \<open>A loss rate of one half downwards, and one that is not a number.\<close>

definition sample_strtod :: strtod where
  "sample_strtod str = (if str = ''0.5'' then Finite (1 / 2) else Not_a_number, length str, False)"

theorem plans_as_asked_witness:
  "delay_plan None [''mm-delay'', dec 20, ''ls''] =
     Inr \<lparr>plan_device = ''delay'', plan_prefix = ''[delay 20 ms] '', plan_command = [''ls''],
          plan_uplink = Inr 20, plan_downlink = Inr 20\<rparr> \<and>
   loss_plan sample_strtod None [''mm-loss'', ''downlink'', ''0.5'', ''ls''] =
     Inr \<lparr>plan_device = ''loss'', plan_prefix = ''[loss down=0.5] '', plan_command = [''ls''],
          plan_uplink = Inr (Finite 0), plan_downlink = Inr (Finite (1 / 2))\<rparr> \<and>
   (\<forall>plan. loss_plan sample_strtod None [''mm-loss'', ''downlink'', ''nan'', ''ls''] \<noteq> Inr plan)"
proof -
  have "dec 20 = ''20''" by (simp add: dec.simps digit_char_def decimal_digits_def)
  then have d: "delay_plan None [''mm-delay'', dec 20, ''ls''] =
     Inr \<lparr>plan_device = ''delay'', plan_prefix = ''[delay 20 ms] '', plan_command = [''ls''],
          plan_uplink = Inr 20, plan_downlink = Inr 20\<rparr>"
    using plans_as_asked [of 20 "[''ls'']" None "''mm-delay''"] by simp
  have l: "loss_plan sample_strtod None [''mm-loss'', ''downlink'', ''0.5'', ''ls''] =
     Inr \<lparr>plan_device = ''loss'', plan_prefix = ''[loss down=0.5] '', plan_command = [''ls''],
          plan_uplink = Inr (Finite 0), plan_downlink = Inr (Finite (1 / 2))\<rparr>"
  proof -
    let ?plan = "\<lparr>plan_device = ''loss'', plan_prefix = ''[loss down=0.5] '', plan_command = [''ls''],
          plan_uplink = Inr (Finite 0), plan_downlink = Inr (Finite (1 / 2))\<rparr>"
    have "\<exists>rate. reads_as sample_strtod ''0.5'' (Finite rate) \<and> 0 \<le> rate \<and> rate \<le> 1 \<and> rate * 2 = 1"
      by (rule exI [of _ "1 / 2"]) (simp add: reads_as_def sample_strtod_def)
    moreover have "runs_command None [''ls''] [''ls'']"
      by (simp add: runs_command_def)
    moreover have "loss_plan sample_strtod None [''mm-loss'', ''downlink'', ''0.5'', ''ls''] = Inr ?plan \<longleftrightarrow>
      3 \<le> length [''mm-loss'', ''downlink'', ''0.5'', ''ls''] \<and>
      runs_command None (drop 3 [''mm-loss'', ''downlink'', ''0.5'', ''ls'']) (plan_command ?plan) \<and> plan_device ?plan = ''loss'' \<and>
      (\<exists>rate. reads_as sample_strtod ([''mm-loss'', ''downlink'', ''0.5'', ''ls''] ! 2) (Finite rate) \<and> 0 \<le> rate \<and> rate \<le> 1 \<and>
        ([''mm-loss'', ''downlink'', ''0.5'', ''ls''] ! 1 = ''uplink'' \<and>
           plan_prefix ?plan = ''[loss up='' @ [''mm-loss'', ''downlink'', ''0.5'', ''ls''] ! 2 @ ''] '' \<and>
           plan_uplink ?plan = Inr (Finite rate) \<and> plan_downlink ?plan = Inr (Finite 0) \<or>
         [''mm-loss'', ''downlink'', ''0.5'', ''ls''] ! 1 = ''downlink'' \<and>
           plan_prefix ?plan = ''[loss down='' @ [''mm-loss'', ''downlink'', ''0.5'', ''ls''] ! 2 @ ''] '' \<and>
           plan_uplink ?plan = Inr (Finite 0) \<and> plan_downlink ?plan = Inr (Finite rate)))"
      using plans_as_asked by blast
    ultimately show ?thesis by simp
  qed
  have "\<forall>plan. loss_plan sample_strtod None [''mm-loss'', ''downlink'', ''nan'', ''ls''] \<noteq> Inr plan"
    using plans_as_asked [where strtod = sample_strtod and pw = None and argv = "[''mm-loss'', ''downlink'', ''nan'', ''ls'']"]
    by (simp add: reads_as_def sample_strtod_def)
  with d l show ?thesis by blast
qed

end
