(* ===== verification/Web_Server.thy ===== *)
theory Web_Server
  imports System_Runner Backing_Store
begin

text \<open>
  \<open>src/frontend/web_server.cc\<close>: the web servers that answer for the recorded hosts, with the texts of
  \<open>src/httpserver/apache_configuration.hh\<close>.  The paths that the configuration of the build defines
  are fields of a record.
\<close>

section \<open>The configuration\<close>

record build_config =
  mod_dir :: string
  mod_mpm_prefork :: string
  mod_mime :: string
  mod_authz_core :: string
  mod_cgi :: string
  exec_dir :: string
  mod_rewrite :: string
  mod_env :: string
  mod_ssl :: string
  mod_ssl_certificate_file :: string
  mod_ssl_key :: string
  replayserver_program :: string
  replayserver_delay_program :: string
  apache2 :: string
  ip_program :: string

definition newline :: string where "newline = [CHR 0x0A]"

text \<open>Lines, each with its newline.\<close>

definition lines_text :: "string list \<Rightarrow> string" where
  "lines_text ls = concat (map (\<lambda>l. l @ newline) ls)"

definition main_config_lines :: "build_config \<Rightarrow> string \<Rightarrow> string list" where
  "main_config_lines b program =
     [''LoadModule dir_module '' @ mod_dir b,
      ''LoadModule mpm_prefork_module '' @ mod_mpm_prefork b,
      ''LoadModule mime_module '' @ mod_mime b,
      ''<IfModule mod_mime.c>'',
      ''TypesConfig /etc/mime.types'',
      ''AddHandler cgi-script .cgi'',
      ''</IfModule>'',
      ''LoadModule authz_core_module '' @ mod_authz_core b,
      ''LoadModule cgi_module '' @ mod_cgi b,
      ''Mutex pthread'',
      ''<Directory '' @ exec_dir b @ ''>'',
      ''AllowOverride None'',
      ''Options +ExecCGI'',
      ''Require all granted'',
      ''</Directory>'',
      ''LoadModule rewrite_module '' @ mod_rewrite b,
      ''RewriteEngine On'',
      ''RewriteRule ^(.*)$ '' @ program,
      ''LoadModule env_module '' @ mod_env b]"

definition apache_main_config :: "build_config \<Rightarrow> string" where
  "apache_main_config b = lines_text (main_config_lines b (replayserver_program b))"

definition apache_main_config_for_delay_replayserver :: "build_config \<Rightarrow> string" where
  "apache_main_config_for_delay_replayserver b = lines_text (main_config_lines b (replayserver_delay_program b))"

definition apache_ssl_config :: "build_config \<Rightarrow> string" where
  "apache_ssl_config b =
     lines_text [''LoadModule ssl_module '' @ mod_ssl b, ''SSLEngine on'',
                 ''SSLCertificateFile      '' @ mod_ssl_certificate_file b,
                 ''SSLCertificateKeyFile '' @ mod_ssl_key b]"

record web_answers =
  wa_mkstemp :: mkstemp
  wa_fcntl :: int
  wa_writes :: writes
  wa_pid :: int
  wa_random :: int
  wa_uid :: u32
  wa_gid :: u32

text \<open>
  What the constructors write, call by call; \<open>delay\<close>: the one with a type, and the type is
  \<open>"delay"\<close>.
\<close>

definition config_writes ::
  "build_config \<Rightarrow> web_answers \<Rightarrow> bool \<Rightarrow> address \<Rightarrow> string \<Rightarrow> string \<Rightarrow> string list" where
  "config_writes b a delay addr working_directory record_path =
     [if delay then apache_main_config_for_delay_replayserver b else apache_main_config b,
      ''SetEnv MAHIMAHI_CHDIR '' @ working_directory @ newline,
      ''SetEnv MAHIMAHI_RECORD_PATH '' @ record_path @ newline] @
     (if port addr = 443 then [apache_ssl_config b] else []) @
     [''PidFile /tmp/replayshell_apache_pid.'' @ int_dec (wa_pid a) @ ''.'' @ int_dec (wa_random a) @ newline,
      ''ServerName mahimahi.'' @ newline,
      ''ErrorLog /dev/null'' @ newline,
      ''CustomLog /dev/null common'' @ newline,
      ''User #'' @ dec (unat (wa_uid a)) @ newline,
      ''Group #'' @ dec (unat (wa_gid a)) @ newline,
      ''Listen '' @ address_str '':'' addr]"

fun write_each :: "string list \<Rightarrow> unique_file \<Rightarrow> writes \<Rightarrow> (unique_file \<times> writes) res" where
  "write_each [] u w = Inr (u, w)"
| "write_each (s # ss) u w = bindR (unique_file_write w s u) (\<lambda>(u', w'). write_each ss u' w')"

definition config_file_new ::
  "build_config \<Rightarrow> web_answers \<Rightarrow> bool \<Rightarrow> address \<Rightarrow> string \<Rightarrow> string \<Rightarrow> (string \<times> unique_file) res" where
  "config_file_new b a delay addr working_directory record_path =
     bindR (unique_file_new (wa_mkstemp a) (wa_fcntl a) ''/tmp/replayshell_apache_config'') (\<lambda>u.
     bindR (write_each (config_writes b a delay addr working_directory record_path) u (wa_writes a)) (\<lambda>(u', _).
     bindR (unique_file_name u') (\<lambda>name. Inr (name, u'))))"

section \<open>Servers\<close>

record web_server =
  config_file :: unique_file
  server_moved_away :: bool

definition server_command :: "build_config \<Rightarrow> string \<Rightarrow> string \<Rightarrow> string list" where
  "server_command b name action = [apache2 b, ''-f'', name, ''-k'', action]"

definition web_server_new ::
  "build_config \<Rightarrow> web_answers \<Rightarrow> bool \<Rightarrow> address \<Rightarrow> string \<Rightarrow> string \<Rightarrow> (web_server, runner) run" where
  "web_server_new b a delay addr working_directory record_path r =
     (case config_file_new b a delay addr working_directory record_path of
        Inl e \<Rightarrow> Some (Inl e, r)
      | Inr (name, u) \<Rightarrow>
          map_option (\<lambda>(result, r').
              (bindR result (\<lambda>_. Inr \<lparr>config_file = u, server_moved_away = False\<rparr>), r'))
            (run (server_command b name ''start'') r))"

text \<open>The assertion in \<open>name()\<close> would end the process.\<close>

definition web_server_delete :: "build_config \<Rightarrow> web_server \<Rightarrow> (unit, runner) run" where
  "web_server_delete b s r =
     (if server_moved_away s then Some (Inr (), r)
      else case unique_file_name (config_file s) of
             Inl e \<Rightarrow> Some (Inl e, r)
           | Inr name \<Rightarrow> swallowing (run (server_command b name ''graceful-stop'')) r)"

definition web_server_move :: "web_server \<Rightarrow> web_server \<times> web_server" where
  "web_server_move s =
     (let (new_file, old_file) = unique_file_move (config_file s)
      in (\<lparr>config_file = new_file, server_moved_away = False\<rparr>,
          \<lparr>config_file = old_file, server_moved_away = True\<rparr>))"

section \<open>A vector of servers\<close>

text \<open>
  \<open>emplace_back\<close> of a \<open>std::vector\<close>: when it is full, its elements are moved to new storage of
  twice the size, and the old ones are destroyed.
\<close>

record server_vector =
  servers :: "web_server list"
  capacity :: nat

definition vector_emplace :: "web_server \<Rightarrow> server_vector \<Rightarrow> server_vector \<times> web_server list" where
  "vector_emplace s v =
     (if length (servers v) < capacity v then (v\<lparr>servers := servers v @ [s]\<rparr>, [])
      else (\<lparr>servers = map (fst \<circ> web_server_move) (servers v) @ [s], capacity = max 1 (2 * capacity v)\<rparr>,
            map (snd \<circ> web_server_move) (servers v)))"

fun delete_servers :: "build_config \<Rightarrow> web_server list \<Rightarrow> (unit, runner) run" where
  "delete_servers b [] = (\<lambda>r. Some (Inr (), r))"
| "delete_servers b (s # ss) = then_run (web_server_delete b s) (delete_servers b ss)"

text \<open>The loop that starts a server for each address; the exception that ended it, if one did.\<close>

fun start_servers ::
  "build_config \<Rightarrow> (nat \<Rightarrow> web_answers) \<Rightarrow> bool \<Rightarrow> string \<Rightarrow> string \<Rightarrow> address list \<Rightarrow> server_vector \<Rightarrow> runner \<Rightarrow>
   (exn option \<times> server_vector \<times> runner) option" where
  "start_servers b answers delay working_directory record_path [] v r = Some (None, v, r)"
| "start_servers b answers delay working_directory record_path (addr # addrs) v r =
     (case web_server_new b (answers 0) delay addr working_directory record_path r of
        None \<Rightarrow> None
      | Some (Inl e, r1) \<Rightarrow> Some (Some e, v, r1)
      | Some (Inr s, r1) \<Rightarrow>
          let (v', old) = vector_emplace s v
          in (case delete_servers b old r1 of
                None \<Rightarrow> None
              | Some (Inl e, r2) \<Rightarrow> Some (Some e, v', r2)
              | Some (Inr _, r2) \<Rightarrow>
                  start_servers b (\<lambda>n. answers (Suc n)) delay working_directory record_path addrs v' r2))"

definition no_servers :: server_vector where
  "no_servers = \<lparr>servers = [], capacity = 0\<rparr>"

definition with_web_servers ::
  "build_config \<Rightarrow> (nat \<Rightarrow> web_answers) \<Rightarrow> bool \<Rightarrow> string \<Rightarrow> string \<Rightarrow> address list \<Rightarrow> ('b, runner) run \<Rightarrow>
   ('b, runner) run" where
  "with_web_servers b answers delay working_directory record_path addrs main_body r =
     (case start_servers b answers delay working_directory record_path addrs no_servers r of
        None \<Rightarrow> None
      | Some (Some e, v, r1) \<Rightarrow> map_option (\<lambda>(_, r2). (Inl e, r2)) (delete_servers b (servers v) r1)
      | Some (None, v, r1) \<Rightarrow>
          (case main_body r1 of
             None \<Rightarrow> None
           | Some (result, r2) \<Rightarrow> map_option (\<lambda>(_, r3). (result, r3)) (delete_servers b (servers v) r2)))"

section \<open>Every server is stopped\<close>

text \<open>The servers that run, by the name of their configuration: what starting and stopping do.\<close>

definition server_effect :: "build_config \<Rightarrow> string list \<times> command_end \<Rightarrow> string multiset \<Rightarrow> string multiset" where
  "server_effect b x t =
     (let (command, how) = x; name = command ! 2
      in if how \<noteq> Ended 0 then t
         else if command = server_command b name ''start'' then add_mset name t
         else if command = server_command b name ''graceful-stop'' then t - {#name#}
         else t)"

definition running_servers :: "build_config \<Rightarrow> runner \<Rightarrow> string multiset" where
  "running_servers b r = fold (server_effect b) (executed r) {#}"

text \<open>Every stop succeeds.\<close>

definition stops_work :: "build_config \<Rightarrow> runner \<Rightarrow> bool" where
  "stops_work b r \<longleftrightarrow> (\<forall>(command, how) \<in> set (executed r).
     command = server_command b (command ! 2) ''graceful-stop'' \<longrightarrow> how = Ended 0)"

lemma running_servers_step:
  "executed r' = executed r @ [x] \<Longrightarrow> running_servers b r' = server_effect b x (running_servers b r)"
  by (simp add: running_servers_def)

lemma stops_work_before: "stops_work b r' \<Longrightarrow> extends r r' \<Longrightarrow> stops_work b r"
  by (auto simp: stops_work_def extends_def)

definition named :: "web_server \<Rightarrow> string \<Rightarrow> bool" where
  "named s name \<longleftrightarrow> \<not> server_moved_away s \<and> unique_file_name (config_file s) = Inr name"

lemma named_moved: "named s name \<Longrightarrow> named (fst (web_server_move s)) name"
  by (auto simp: named_def web_server_move_def unique_file_move_def unique_file_name_def fd_move_def
      split: prod.splits)

lemma moved_away: "server_moved_away (snd (web_server_move s))"
  by (simp add: web_server_move_def split: prod.splits)

lemma delete_moved: "\<forall>s \<in> set ss. server_moved_away s \<Longrightarrow> delete_servers b ss r = Some (Inr (), r)"
  by (induction ss) (auto simp: then_run_def web_server_delete_def)

lemma web_server_new_effect:
  assumes "web_server_new b a delay addr wd path r = Some (result, r')"
  shows "extends r r' \<and> (case result of
    Inl _ \<Rightarrow> running_servers b r' = running_servers b r
  | Inr s \<Rightarrow> \<exists>name. named s name \<and> running_servers b r' = add_mset name (running_servers b r))"
proof (cases "config_file_new b a delay addr wd path")
  case (Inl e)
  with assms show ?thesis by (auto simp: web_server_new_def extends_def)
next
  case (Inr x)
  obtain name u where x: "x = (name, u)" by (cases x)
  have n: "unique_file_name u = Inr name"
    using Inr x by (auto simp: config_file_new_def res_simps)
  from assms Inr x obtain result0 where r: "run (server_command b name ''start'') r = Some (result0, r')"
    "result = bindR result0 (\<lambda>_. Inr \<lparr>config_file = u, server_moved_away = False\<rparr>)"
    by (auto simp: web_server_new_def)
  obtain how where h: "executed r' = executed r @ [(server_command b name ''start'', how)]"
    "result0 = Inr () \<longleftrightarrow> how = Ended 0"
    using r(1) by (rule run_result) (simp add: server_command_def)
  have e: "running_servers b r' = (if how = Ended 0 then add_mset name (running_servers b r) else running_servers b r)"
    using running_servers_step [OF h(1)] by (simp add: server_effect_def server_command_def)
  show ?thesis
  proof (cases result0)
    case Inl
    with r h e show ?thesis by (auto simp: extends_def)
  next
    case Inr
    with r h e n show ?thesis by (auto simp: extends_def named_def)
  qed
qed

lemma web_server_delete_effect:
  assumes "web_server_delete b s r = Some (result, r')" "named s name" "stops_work b r'"
  shows "result = Inr () \<and> extends r r' \<and> running_servers b r' = running_servers b r - {#name#}"
proof -
  from assms(1,2) obtain result0 where "run (server_command b name ''graceful-stop'') r = Some (result0, r')"
    "result = Inr ()"
    by (auto simp: web_server_delete_def named_def swallowing_def)
  moreover from this(1) obtain how where
    h: "executed r' = executed r @ [(server_command b name ''graceful-stop'', how)]"
    by (rule run_result) (simp add: server_command_def)
  moreover have "how = Ended 0"
    using assms(3) h by (simp add: stops_work_def server_command_def)
  ultimately show ?thesis
    using running_servers_step [OF h] by (auto simp: server_effect_def server_command_def extends_def)
qed

lemma delete_servers_effect:
  "delete_servers b ss r = Some (result, r') \<Longrightarrow> list_all2 named ss names \<Longrightarrow> stops_work b r' \<Longrightarrow>
   result = Inr () \<and> extends r r' \<and> running_servers b r' = running_servers b r - mset names"
proof (induction ss arbitrary: r names)
  case Nil
  then show ?case by (auto simp: extends_def)
next
  case (Cons s ss)
  then obtain name names' where n: "names = name # names'" "named s name" "list_all2 named ss names'"
    by (auto simp: list_all2_Cons1)
  from Cons.prems(1) obtain x r1 where 1: "web_server_delete b s r = Some (x, r1)"
    by (auto simp: then_run_def split: option.splits)
  have x: "x = Inr ()"
    using 1 n(2) by (auto simp: web_server_delete_def named_def swallowing_def)
  with 1 Cons.prems(1) have 2: "delete_servers b ss r1 = Some (result, r')" by (simp add: then_run_def)
  note e2 = Cons.IH [OF 2 n(3) Cons.prems(3)]
  then have "stops_work b r1" using stops_work_before Cons.prems(3) by blast
  from web_server_delete_effect [OF 1 n(2) this] e2 show ?case
    by (auto simp: n(1) intro: extends_trans)
qed

lemma vector_emplace_named:
  assumes "vector_emplace s v = (v', old)" "list_all2 named (servers v) names" "named s name"
  shows "list_all2 named (servers v') (names @ [name]) \<and> (\<forall>x \<in> set old. server_moved_away x)"
proof -
  have "list_all2 named (map (fst \<circ> web_server_move) (servers v)) names"
    using assms(2) by (simp add: list_all2_map1 list_all2_mono [OF _ named_moved])
  with assms show ?thesis
    by (auto simp: vector_emplace_def moved_away list_all2_appendI split: if_splits)
qed

lemma start_servers_effect:
  "start_servers b answers delay wd path addrs v r = Some (x, v', r') \<Longrightarrow> list_all2 named (servers v) names \<Longrightarrow>
   \<exists>more. list_all2 named (servers v') (names @ more) \<and> extends r r' \<and>
     running_servers b r' = running_servers b r + mset more \<and> (x = None \<longrightarrow> length more = length addrs)"
proof (induction addrs arbitrary: answers v r names)
  case Nil
  then show ?case by (auto simp: extends_def intro!: exI [of _ "[]"])
next
  case (Cons addr addrs)
  from Cons.prems(1) obtain y r1 where 1: "web_server_new b (answers 0) delay addr wd path r = Some (y, r1)"
    by (auto split: option.splits)
  note e1 = web_server_new_effect [OF 1]
  show ?case
  proof (cases y)
    case (Inl e)
    with Cons.prems 1 e1 show ?thesis by (auto intro!: exI [of _ "[]"])
  next
    case (Inr s)
    with e1 obtain name where n: "named s name" "running_servers b r1 = add_mset name (running_servers b r)" "extends r r1"
      by auto
    obtain v1 old where v1: "vector_emplace s v = (v1, old)" by (cases "vector_emplace s v")
    note ve = vector_emplace_named [OF v1 Cons.prems(2) n(1)]
    with Cons.prems(1) 1 Inr v1
    have 2: "start_servers b (\<lambda>n. answers (Suc n)) delay wd path addrs v1 r1 = Some (x, v', r')"
      by (simp add: delete_moved)
    obtain more where "list_all2 named (servers v') ((names @ [name]) @ more)" "extends r1 r'"
      "running_servers b r' = running_servers b r1 + mset more" "x = None \<longrightarrow> length more = length addrs"
      using Cons.IH [OF 2, of "names @ [name]"] ve by blast
    with n show ?thesis
      by (intro exI [of _ "name # more"]) (auto intro: extends_trans)
  qed
qed

lemma with_web_servers_effect:
  assumes "with_web_servers b answers delay wd path addrs main_body r = Some (result, r')"
    and "stops_work b r'"
    and "\<And>s x s'. main_body s = Some (x, s') \<Longrightarrow> extends s s' \<and> running_servers b s' = running_servers b s"
  shows "extends r r' \<and> running_servers b r' = running_servers b r"
proof -
  obtain x v r1 where 1: "start_servers b answers delay wd path addrs no_servers r = Some (x, v, r1)"
    using assms(1) by (auto simp: with_web_servers_def split: option.splits)
  obtain names where n: "list_all2 named (servers v) names" "extends r r1"
    "running_servers b r1 = running_servers b r + mset names"
    using start_servers_effect [OF 1, of "[]"] by (auto simp: no_servers_def)
  obtain r2 y where 2: "delete_servers b (servers v) r2 = Some (y, r')" "extends r1 r2"
    "running_servers b r2 = running_servers b r1"
  proof (cases x)
    case (Some e)
    with assms(1) 1 obtain y where "delete_servers b (servers v) r1 = Some (y, r')"
      by (auto simp: with_web_servers_def)
    then show ?thesis by (rule that) (simp_all add: extends_def)
  next
    case None
    with assms(1) 1 obtain z r2 y where "main_body r1 = Some (z, r2)" "delete_servers b (servers v) r2 = Some (y, r')"
      by (auto simp: with_web_servers_def split: option.splits)
    with assms(3) that show ?thesis by blast
  qed
  from delete_servers_effect [OF 2(1) n(1) assms(2)] 2 n show ?thesis
    by (auto intro: extends_trans)
qed

section \<open>What a server reads\<close>

text \<open>The file has what was written to it.\<close>

lemma write_each_sent:
  "write_each ss u w = Inr (u', w') \<Longrightarrow>
   concat (sent (file_fd u')) = concat (sent (file_fd u)) @ concat ss"
proof (induction ss arbitrary: u w)
  case (Cons s ss)
  then obtain f w1 where "fd_write w (file_fd u) s = Inr (f, w1)" "write_each ss (u\<lparr>file_fd := f\<rparr>) w1 = Inr (u', w')"
    by (auto simp: unique_file_write_def res_simps)
  with Cons.IH [OF this(2)] fd_write_sent [OF this(1)] show ?case by simp
qed simp

lemma config_file_contents:
  assumes "config_file_new b a delay addr wd path = Inr (name, u)"
  shows "concat (sent (file_fd u)) = concat (config_writes b a delay addr wd path)"
  using assms
  by (auto simp: config_file_new_def unique_file_new_def fd_new_def res_simps Let_def
      dest!: write_each_sent split: prod.splits if_splits)

text \<open>
  The name of the directory, which the user chooses, is written as it is: with a newline it adds
  lines of the user's choice to the configuration that Apache reads as root.
\<close>

lemma config_injection:
  "\<exists>before after. concat (config_writes b a delay addr wd (path @ newline @ directive @ newline @ rest)) =
     before @ newline @ directive @ newline @ after"
proof -
  have "concat (config_writes b a delay addr wd (path @ newline @ directive @ newline @ rest)) =
      ((if delay then apache_main_config_for_delay_replayserver b else apache_main_config b) @
       ''SetEnv MAHIMAHI_CHDIR '' @ wd @ newline @ ''SetEnv MAHIMAHI_RECORD_PATH '' @ path) @
      newline @ directive @ newline @ rest @ newline @ concat (drop 3 (config_writes b a delay addr wd path))"
    by (simp add: config_writes_def)
  then show ?thesis by blast
qed

end
