(* ===== verification/Replay_Shell.thy ===== *)
theory Replay_Shell
  imports Web_Server Packet_Shell Replay_Server
begin

text \<open>
  \<open>src/frontend/replayshell.cc\<close> and \<open>replay_delay_shell.cc\<close>, which differs in the program that the
  web servers run and in the prompt: a namespace in which the recorded hosts live again.
\<close>

section \<open>Arguments\<close>

text \<open>The directory of a recording, with a slash at its end.\<close>

definition clean_directory :: "string \<Rightarrow> string \<Rightarrow> string res" where
  "clean_directory argv0 directory =
     (if directory = [] then Inl (Runtime_error (argv0 @ '': directory name must be non-empty''))
      else Inr (if last directory \<noteq> CHR ''/'' then directory @ ''/'' else directory))"

definition command_after_directory :: "string list \<Rightarrow> string option \<Rightarrow> string list res" where
  "command_after_directory argv pw_shell =
     (if length argv = 2 then bindR (shell_path pw_shell) (\<lambda>s. Inr [s]) else Inr (drop 2 argv))"

section \<open>What has to be served\<close>

text \<open>
  The addresses, the addresses with their ports (both sets of the library, ascending), and the
  hosts with theirs, in the order of the files.
\<close>

record to_serve =
  unique_ip :: "address list"
  unique_ip_and_port :: "address list"
  hostname_to_ip :: "(string \<times> address) list"

definition nothing_to_serve :: to_serve where
  "nothing_to_serve = \<lparr>unique_ip = [], unique_ip_and_port = [], hostname_to_ip = []\<rparr>"

definition consider_recording :: "record_files \<Rightarrow> string \<Rightarrow> to_serve \<Rightarrow> to_serve res" where
  "consider_recording files filename t =
     (if str_find filename ''save'' \<noteq> None
      then bindR (load_record files filename) (\<lambda>protobuf.
           bindR (address_of_ip (rr_ip protobuf) (ucast (rr_port protobuf))) (\<lambda>a.
           bindR (address_of_ip (ip a) 0) (\<lambda>without_port.
           bindR (get_header_value ''Host'' (message_of_protobuf (rr_request protobuf))) (\<lambda>host.
             Inr \<lparr>unique_ip = set_emplace without_port (unique_ip t),
                  unique_ip_and_port = set_emplace a (unique_ip_and_port t),
                  hostname_to_ip = hostname_to_ip t @ [(host, a)]\<rparr>))))
      else Inr t)"

definition collect_recordings :: "record_files \<Rightarrow> string list \<Rightarrow> to_serve res" where
  "collect_recordings files filenames = fold_res (consider_recording files) filenames nothing_to_serve"

text \<open>The directory is read without privileges, which are taken back however that ends.\<close>

definition read_recordings ::
  "'k credentials \<Rightarrow> record_files \<Rightarrow> string \<Rightarrow> string list option \<Rightarrow> 'k \<Rightarrow> (to_serve \<times> 'k) res" where
  "read_recordings c files directory entries k =
     bindR (temporarily_unprivileged c k) (\<lambda>(tu, k1).
       let result = bindR (list_directory_contents c directory entries k1) (collect_recordings files)
       in case privileged_again c tu k1 of
            Inl _ \<Rightarrow> Inl Assert_failed
          | Inr k2 \<Rightarrow> bindR result (\<lambda>t. Inr (t, k2)))"

text \<open>A line of the hosts file for each record.\<close>

definition hosts_writes :: "(string \<times> address) list \<Rightarrow> string list" where
  "hosts_writes mappings = map (\<lambda>(host, a). ip a @ '' '' @ host @ newline) mappings"

section \<open>Interfaces\<close>

text \<open>Sequencing that passes a value on, and a computation that runs no command.\<close>

definition bind_run :: "('a, 's) run \<Rightarrow> ('a \<Rightarrow> ('b, 's) run) \<Rightarrow> ('b, 's) run" where
  "bind_run m f s =
     (case m s of None \<Rightarrow> None | Some (Inl e, s1) \<Rightarrow> Some (Inl e, s1) | Some (Inr x, s1) \<Rightarrow> f x s1)"

definition no_run :: "'a res \<Rightarrow> ('a, 's) run" where
  "no_run x s = Some (x, s)"

definition add_dummy_interface ::
  "build_config \<Rightarrow> (nat \<Rightarrow> ioctl_answers) \<Rightarrow> string \<Rightarrow> address \<Rightarrow> (device_request list, runner) run" where
  "add_dummy_interface b k name addr =
     then_run (run [ip_program b, ''link'', ''add'', name, ''type'', ''dummy''])
       (no_run (bindR (interface_ioctl (k 0) ''SIOCSIFFLAGS'' name (Ifr_flags IFF_UP)) (\<lambda>r0.
                bindR (interface_ioctl (k 1) ''SIOCSIFADDR'' name (Ifr_addr addr)) (\<lambda>r1. Inr [r0, r1]))))"

text \<open>The names carry a number, counted from 0.\<close>

fun add_numbered ::
  "build_config \<Rightarrow> (nat \<Rightarrow> nat \<Rightarrow> ioctl_answers) \<Rightarrow> string \<Rightarrow> nat \<Rightarrow> address list \<Rightarrow> (device_request list, runner) run" where
  "add_numbered b k name n [] = no_run (Inr [])"
| "add_numbered b k name n (a # as) =
     bind_run (add_dummy_interface b (k n) (name @ dec n) a) (\<lambda>rs.
     bind_run (add_numbered b k name (Suc n) as) (\<lambda>rss. no_run (Inr (rs @ rss))))"

section \<open>The program\<close>

record replay_answers =
  rp_dev_null :: int
  rp_ip_forward :: int
  rp_forwarding :: "string res"
  rp_cwd :: "string option"
  rp_chdir :: int
  rp_pw_shell :: "string option"
  rp_unshare :: int
  rp_lo :: ioctl_answers
  rp_entries :: "string list option"
  rp_files :: record_files
  rp_sharded :: "nat \<Rightarrow> nat \<Rightarrow> ioctl_answers"
  rp_web :: "nat \<Rightarrow> web_answers"
  rp_mkstemp :: mkstemp
  rp_fcntl :: int
  rp_writes :: writes
  rp_res_init :: int
  rp_nameservers :: "address list"
  rp_nameserver :: "nat \<Rightarrow> nat \<Rightarrow> ioctl_answers"
  rp_dnsmasq :: dnsmasq_answers
  rp_command :: fork_answers
  rp_loop :: loop_answers
  rp_signals :: loop_state

text \<open>What is known before any command was run.\<close>

record replay_setup =
  rs_directory :: string
  rs_working_directory :: string
  rs_command :: "string list"
  rs_serve :: to_serve

definition replay_setup_of ::
  "'k credentials \<Rightarrow> replay_answers \<Rightarrow> string list \<Rightarrow> 'k process \<Rightarrow> (replay_setup \<times> 'k process) res" where
  "replay_setup_of c a argv p =
     bindR (check_requirements c argv (rp_dev_null a) (environ p \<noteq> None) (rp_ip_forward a) (rp_forwarding a) (ids p)) (\<lambda>_.
     if length argv < 2 then Inl (Runtime_error (''Usage: '' @ argv ! 0 @ '' directory [command...]''))
     else bindR (clean_directory (argv ! 0) (argv ! 1)) (\<lambda>directory.
          bindR (get_working_directory (rp_cwd a)) (\<lambda>working_directory.
          bindR (system_call ''chdir'' (rp_chdir a)) (\<lambda>_.
          bindR (command_after_directory argv (rp_pw_shell a)) (\<lambda>command.
          bindR (system_call ''unshare'' (rp_unshare a)) (\<lambda>_.
          bindR (interface_ioctl (rp_lo a) ''SIOCSIFFLAGS'' ''lo'' (Ifr_flags IFF_UP)) (\<lambda>lo.
          bindR (read_recordings c (rp_files a) directory (rp_entries a) (ids p)) (\<lambda>(t, k).
            Inr (\<lparr>rs_directory = directory, rs_working_directory = working_directory, rs_command = command,
                  rs_serve = t\<rparr>,
                 p\<lparr>ids := k, device_requests := device_requests p @ [lo]\<rparr>)))))))))"

definition hosts_file :: "replay_answers \<Rightarrow> (string \<times> address) list \<Rightarrow> (string \<times> unique_file) res" where
  "hosts_file a mappings =
     bindR (unique_file_new (rp_mkstemp a) (rp_fcntl a) ''/tmp/replayshell_hosts'') (\<lambda>u.
     bindR (write_each (hosts_writes mappings) u (rp_writes a)) (\<lambda>(u', _).
     bindR (unique_file_name u') (\<lambda>name. Inr (name, u'))))"

text \<open>
  With the servers running: the name servers, dnsmasq and the command, and the loop until the end.
  The child of the command has dropped the privileges itself.
\<close>

definition replay_body ::
  "build_config \<Rightarrow> 'k credentials \<Rightarrow> replay_answers \<Rightarrow> replay_setup \<Rightarrow> 'k process \<Rightarrow>
   (u32 option \<times> loop_state \<times> 'k process \<times> string list, runner) run" where
  "replay_body b c a s p =
     bind_run (no_run (hosts_file a (hostname_to_ip (rs_serve s)))) (\<lambda>(hosts_name, _).
     bind_run (no_run (all_nameservers (rp_res_init a) (rp_nameservers a))) (\<lambda>nameservers.
     bind_run (add_numbered b (rp_nameserver a) ''nameserver'' 0 nameservers) (\<lambda>rs.
     no_run (
       bindR (run_dnsmasq (rp_dnsmasq a) (p\<lparr>device_requests := device_requests p @ rs\<rparr>)) (\<lambda>(dnsmasq, p1).
       bindR (join (rs_command s)) (\<lambda>name.
       bindR (fork_child (rp_command a) name p1) (\<lambda>(child, p2).
       bindR (wait_for_exit c (rp_loop a)
                (add_child_process child (add_child_process dnsmasq (rp_signals a))) p2) (\<lambda>(status, l, p3).
         Inr (status, l, p3, [''-H'', hosts_name])))))))))"

definition replay_shell ::
  "bool \<Rightarrow> build_config \<Rightarrow> 'k credentials \<Rightarrow> replay_answers \<Rightarrow> string list \<Rightarrow> 'k process \<Rightarrow>
   (u32 option \<times> loop_state \<times> 'k process \<times> string list, runner) run" where
  "replay_shell delay b c a argv p0 =
     bind_run (no_run (replay_setup_of c a argv (p0\<lparr>environ := None\<rparr>))) (\<lambda>(s, p).
     bind_run (add_numbered b (rp_sharded a) ''sharded'' 0 (unique_ip (rs_serve s))) (\<lambda>rs.
       with_web_servers b (rp_web a) delay (rs_working_directory s) (rs_directory s)
         (unique_ip_and_port (rs_serve s))
         (replay_body b c a s (p\<lparr>device_requests := device_requests p @ rs\<rparr>))))"

text \<open>What the child for the command does.\<close>

definition replay_command_child ::
  "bool \<Rightarrow> 'k credentials \<Rightarrow> environment \<Rightarrow> string list \<Rightarrow> int \<times> int \<Rightarrow> int option \<Rightarrow> 'k \<Rightarrow>
   (string list \<times> environment \<times> 'k) option res" where
  "replay_command_child delay c user_env command setenv_results exec_result k =
     bindR (drop_privileges c k) (\<lambda>dropped.
     case dropped of
       None \<Rightarrow> Inr None
     | Some k' \<Rightarrow>
         bindR (command_child c (if delay then ''[replay-delay] '' else ''[replay] '') command setenv_results exec_result
                  (k', Some user_env)) (\<lambda>(program, env). Inr (Some (program, env, k'))))"

section \<open>Every recording is served\<close>

definition without_port :: "address \<Rightarrow> address" where
  "without_port a = a\<lparr>port := 0\<rparr>"

text \<open>What is collected belongs together: the three collections describe the same records.\<close>

definition serves :: "to_serve \<Rightarrow> bool" where
  "serves t \<longleftrightarrow>
     set (unique_ip_and_port t) = snd ` set (hostname_to_ip t) \<and>
     set (unique_ip t) = without_port ` set (unique_ip_and_port t) \<and>
     sorted_wrt address_less (unique_ip t) \<and> sorted_wrt address_less (unique_ip_and_port t)"

text \<open>The host and the address of a record.\<close>

definition recorded_at :: "request_response \<Rightarrow> string \<times> address \<Rightarrow> bool" where
  "recorded_at r x \<longleftrightarrow> address_of_ip (rr_ip r) (ucast (rr_port r)) = Inr (snd x) \<and>
     get_header_value ''Host'' (message_of_protobuf (rr_request r)) = Inr (fst x)"

lemma consider_recording_serves:
  assumes "consider_recording files f t = Inr t'" "serves t"
  shows "serves t' \<and> (if is_save f
    then \<exists>r x. files f = Some (Some r) \<and> recorded_at r x \<and> hostname_to_ip t' = hostname_to_ip t @ [x]
    else t' = t)"
proof (cases "is_save f")
  case False
  with assms show ?thesis by (simp add: consider_recording_def is_save_def)
next
  case True
  with assms(1) obtain r a b host where r: "load_record files f = Inr r"
    "address_of_ip (rr_ip r) (ucast (rr_port r)) = Inr a" "address_of_ip (ip a) 0 = Inr b"
    "get_header_value ''Host'' (message_of_protobuf (rr_request r)) = Inr host"
    and t': "t' = \<lparr>unique_ip = set_emplace b (unique_ip t), unique_ip_and_port = set_emplace a (unique_ip_and_port t),
      hostname_to_ip = hostname_to_ip t @ [(host, a)]\<rparr>"
    by (auto simp: consider_recording_def is_save_def res_simps)
  have "b = without_port a" using r(3) by (cases a) (auto simp: address_of_ip_ip without_port_def)
  with assms(2) have "serves t'"
    by (simp add: t' serves_def set_emplace_set set_emplace_sorted)
  moreover have "files f = Some (Some r)"
    using r(1) by (auto simp: load_record_def split: option.splits)
  ultimately show ?thesis using True r t' by (auto simp: recorded_at_def)
qed

lemma collect_recordings_serve:
  "fold_res (consider_recording files) fs t = Inr t' \<Longrightarrow> serves t \<Longrightarrow>
   serves t' \<and> (\<exists>xs rs. map files (filter is_save fs) = map (\<lambda>r. Some (Some r)) rs \<and>
     list_all2 recorded_at rs xs \<and> hostname_to_ip t' = hostname_to_ip t @ xs)"
proof (induction fs arbitrary: t)
  case (Cons f fs)
  then obtain t1 where 1: "consider_recording files f t = Inr t1" "fold_res (consider_recording files) fs t1 = Inr t'"
    by (auto simp: res_simps)
  note s = consider_recording_serves [OF 1(1) Cons.prems(2)]
  then obtain xs rs where x: "serves t'" "map files (filter is_save fs) = map (\<lambda>r. Some (Some r)) rs"
    "list_all2 recorded_at rs xs" "hostname_to_ip t' = hostname_to_ip t1 @ xs"
    using Cons.IH [OF 1(2)] by blast
  show ?case
  proof (cases "is_save f")
    case False
    with s x show ?thesis by auto
  next
    case True
    with s obtain r x1 where "files f = Some (Some r)" "recorded_at r x1" "hostname_to_ip t1 = hostname_to_ip t @ [x1]"
      by auto
    with True x show ?thesis by (intro conjI exI [of _ "x1 # xs"] exI [of _ "r # rs"]) simp_all
  qed
qed simp

section \<open>No server is left\<close>

lemma run_extends: "run command r = Some (x, r') \<Longrightarrow> command \<noteq> [] \<Longrightarrow> extends r r'"
  by (erule run_result) (auto simp: extends_def)

lemma run_no_server:
  assumes "run (ip_program b # args) r = Some (x, r')" "ip_program b \<noteq> apache2 b"
  shows "extends r r' \<and> running_servers b r' = running_servers b r"
proof -
  obtain how where "executed r' = executed r @ [(ip_program b # args, how)]"
    using assms(1) by (rule run_result) simp
  with assms(2) show ?thesis
    by (auto simp: extends_def running_servers_step server_effect_def server_command_def Let_def)
qed

lemma add_dummy_interface_no_server:
  assumes "add_dummy_interface b k name addr r = Some (x, r')" "ip_program b \<noteq> apache2 b"
  shows "extends r r' \<and> running_servers b r' = running_servers b r"
proof -
  obtain y where "run [ip_program b, ''link'', ''add'', name, ''type'', ''dummy''] r = Some (y, r')"
    using assms(1) by (auto simp: add_dummy_interface_def then_run_def no_run_def split: option.splits sum.splits)
  from run_no_server [OF this assms(2)] show ?thesis .
qed

lemma add_numbered_no_server:
  "add_numbered b k name n as r = Some (x, r') \<Longrightarrow> ip_program b \<noteq> apache2 b \<Longrightarrow>
   extends r r' \<and> running_servers b r' = running_servers b r"
proof (induction as arbitrary: n r x)
  case Nil
  then show ?case by (simp add: no_run_def extends_def)
next
  case (Cons a as)
  from Cons.prems(1) obtain y r1 where 1: "add_dummy_interface b (k n) (name @ dec n) a r = Some (y, r1)"
    by (auto simp: bind_run_def split: option.splits)
  note e1 = add_dummy_interface_no_server [OF 1 Cons.prems(2)]
  show ?case
  proof (cases y)
    case (Inl e)
    with Cons.prems(1) 1 e1 show ?thesis by (simp add: bind_run_def)
  next
    case (Inr rs)
    with Cons.prems(1) 1 obtain z where "add_numbered b k name (Suc n) as r1 = Some (z, r')"
      by (auto simp: bind_run_def no_run_def split: option.splits sum.splits)
    from Cons.IH [OF this Cons.prems(2)] e1 show ?thesis by (auto intro: extends_trans)
  qed
qed

lemma replay_body_no_server:
  assumes "replay_body b c a s p r = Some (x, r')" "ip_program b \<noteq> apache2 b"
  shows "extends r r' \<and> running_servers b r' = running_servers b r"
proof -
  have "r' = r \<or> (\<exists>nameservers y. add_numbered b (rp_nameserver a) ''nameserver'' 0 nameservers r = Some (y, r'))"
    using assms(1)
    by (auto simp: replay_body_def bind_run_def no_run_def split: option.splits sum.splits)
  with add_numbered_no_server assms(2) show ?thesis by (auto simp: extends_def)
qed

lemma replay_shell_servers:
  assumes "replay_shell delay b c a argv p r = Some (result, r')" "stops_work b r'" "ip_program b \<noteq> apache2 b"
  shows "running_servers b r' = running_servers b r"
proof (cases "replay_setup_of c a argv (p\<lparr>environ := None\<rparr>)")
  case (Inl e)
  with assms(1) show ?thesis by (simp add: replay_shell_def bind_run_def no_run_def)
next
  case (Inr x)
  obtain s p1 where x: "x = (s, p1)" by (cases x)
  with assms(1) Inr obtain y r1 where 1: "add_numbered b (rp_sharded a) ''sharded'' 0 (unique_ip (rs_serve s)) r = Some (y, r1)"
    by (auto simp: replay_shell_def bind_run_def no_run_def split: option.splits)
  note e1 = add_numbered_no_server [OF 1 assms(3)]
  show ?thesis
  proof (cases y)
    case (Inl e)
    with assms(1) Inr x 1 e1 show ?thesis by (simp add: replay_shell_def bind_run_def no_run_def)
  next
    case (Inr rs)
    have "extends r1 r' \<and> running_servers b r' = running_servers b r1"
    proof (rule with_web_servers_effect [OF _ assms(2)])
      show "with_web_servers b (rp_web a) delay (rs_working_directory s) (rs_directory s) (unique_ip_and_port (rs_serve s))
          (replay_body b c a s (p1\<lparr>device_requests := device_requests p1 @ rs\<rparr>)) r1 = Some (result, r')"
        using assms(1) \<open>replay_setup_of c a argv (p\<lparr>environ := None\<rparr>) = Inr x\<close> x 1 Inr
        by (simp add: replay_shell_def bind_run_def no_run_def)
    qed (rule replay_body_no_server [OF _ assms(3)])
    with e1 show ?thesis by simp
  qed
qed

end
