(* ===== verification/Time_Report.thy ===== *)
theory Time_Report
  imports Time_Logger
begin

text \<open>
  The statistics of \<open>src/httpserver/timelogger.hh\<close>: \<open>save_rtt\<close>, which summarises the round trips
  of each address, and \<open>printFinals\<close>.  Numbers are printed as a stream does by default, in the
  format \<open>%g\<close> with 6 digits.
\<close>

section \<open>Printing a number\<close>

text \<open>The decimal exponent of a positive number.\<close>

definition exponent10 :: "rat \<Rightarrow> int" where
  "exponent10 v =
     (if 1 \<le> v then int (length (dec (nat \<lfloor>v\<rfloor>))) - 1 else - int (length (dec (nat (\<lceil>1 / v\<rceil> - 1)))))"

text \<open>Six significant digits and the exponent of the first.\<close>

definition six_digits :: "rat \<Rightarrow> nat \<times> int" where
  "six_digits v =
     (let e = exponent10 v; m = nat (round_even (v / 10 powi (e - 5)))
      in if m = 10 ^ 6 then (10 ^ 5, e + 1) else (m, e))"

definition drop_zeros :: "string \<Rightarrow> string" where
  "drop_zeros s = rev (dropWhile (\<lambda>c. c = CHR ''0'') (rev s))"

definition with_point :: "string \<Rightarrow> string \<Rightarrow> string" where
  "with_point whole fraction =
     (let f = drop_zeros fraction in if f = [] then whole else whole @ ''.'' @ f)"

definition print_g :: "rat \<Rightarrow> string" where
  "print_g v =
     (if v = 0 then ''0''
      else let (m, e) = six_digits \<bar>v\<bar>; digits = dec m
           in (if v < 0 then ''-'' else []) @
              (if e < - 4 \<or> 6 \<le> e then
                 with_point (take 1 digits) (drop 1 digits) @ (if e < 0 then ''e-'' else ''e+'') @
                 (if \<bar>e\<bar> < 10 then ''0'' else []) @ dec (nat \<bar>e\<bar>)
               else if 0 \<le> e then with_point (take (nat e + 1) digits) (drop (nat e + 1) digits)
               else with_point ''0'' (replicate (nat (- e) - 1) (CHR ''0'') @ digits)))"

section \<open>The statistics of an address\<close>

text \<open>
  The square root of a \<open>double\<close>: of enough binary digits below the last place of the result, with
  whether any more follow, so that the rounding is that of the exact root.
\<close>

definition sqrt_double :: "rat \<Rightarrow> rat" where
  "sqrt_double x =
     (if x \<le> 0 then 0
      else let n = nat (max 0 (- flog2 x)) + 64; y = x * 4 ^ n; s = isqrt \<lfloor>y\<rfloor>
           in dbl ((of_int s + (if of_int (s * s) = y then 0 else 1 / 2)) / 2 ^ n))"

definition sum_double :: "rat list \<Rightarrow> rat" where
  "sum_double v = foldl (\<lambda>acc x. dbl (acc + x)) 0 v"

definition mean_of :: "rat list \<Rightarrow> rat" where
  "mean_of v = dbl (sum_double v / of_nat (length v))"

definition stdev_of :: "rat list \<Rightarrow> rat" where
  "stdev_of v =
     (let mean = mean_of v;
          diff = map (\<lambda>x. dbl (x - mean)) v;
          sq_sum = foldl (\<lambda>acc d. dbl (acc + dbl (d * d))) 0 diff
      in sqrt_double (dbl (sq_sum / of_nat (length v))))"

text \<open>The largest and smallest element of no elements is undefined.\<close>

definition tab :: string where "tab = [CHR 0x09]"

definition rtt_row :: "string \<times> rat list \<Rightarrow> string res" where
  "rtt_row element =
     (let (addr, v) = element;
          colon = str_find addr '':''
      in if v = [] then Inl (Undefined_behaviour ''dereference of the end'')
         else let ip = (case colon of None \<Rightarrow> addr | Some n \<Rightarrow> take n addr);
                  port = (case colon of None \<Rightarrow> addr | Some n \<Rightarrow> drop (n + 1) addr)
              in Inr (ip @ tab @ port @ tab @ print_g (Min (set v)) @ tab @ print_g (Max (set v)) @ tab @
                      print_g (mean_of v) @ tab @ print_g (stdev_of v) @ [CHR 0x0A]))"

fun rtt_rows :: "(string \<times> rat list) list \<Rightarrow> string res" where
  "rtt_rows [] = Inr []"
| "rtt_rows (x # xs) = bindR (rtt_row x) (\<lambda>row. bindR (rtt_rows xs) (\<lambda>rows. Inr (row @ rows)))"

text \<open>\<open>order\<close> are the addresses of the hash map, in the order in which it yields them.\<close>

definition save_rtt :: "string list \<Rightarrow> time_logger \<Rightarrow> string res" where
  "save_rtt order t =
     bindR (rtt_rows (map (\<lambda>addr. (addr, at_key [] (rtts t) addr)) order)) (\<lambda>rows.
       Inr (''IP'' @ tab @ ''Port'' @ tab @ ''Min'' @ tab @ ''Max'' @ tab @ ''Mean'' @ tab @ ''StdDev'' @ [CHR 0x0A] @ rows))"

definition print_finals :: "time_logger \<Rightarrow> string" where
  "print_finals t = concat (map (\<lambda>(m, u, v). m @ ''::'' @ u @ ''::'' @ print_g v @ [CHR 0x0A]) (finals t))"

section \<open>No address without a measurement\<close>

definition measured :: "time_logger \<Rightarrow> bool" where
  "measured t \<longleftrightarrow> (\<forall>v \<in> ran (rtts t). v \<noteq> [])"

lemma measuredI: "(\<And>a v. rtts t a = Some v \<Longrightarrow> v \<noteq> []) \<Longrightarrow> measured t"
  by (auto simp: measured_def ran_def)

lemma measuredD: "measured t \<Longrightarrow> rtts t a \<noteq> Some []"
  by (auto simp: measured_def ran_def)

lemma measured_timers:
  "measured time_logger_new"
  "measured t \<Longrightarrow> measured (start_rtt_timer now addr t)"
  "measured t \<Longrightarrow> measured (stop_rtt_timer now addr t)"
  "measured t \<Longrightarrow> start_obj_load_timer now r t = Inr t' \<Longrightarrow> measured t'"
  "measured t \<Longrightarrow> stop_obj_load_timer now r t = Inr t' \<Longrightarrow> measured t'"
  by (auto intro!: measuredI dest: measuredD simp: time_logger_new_def start_rtt_timer_def stop_rtt_timer_def
      start_obj_load_timer_def stop_obj_load_timer_def res_simps Let_def split: if_splits)

lemma rtt_rows_Inr: "\<forall>x \<in> set xs. snd x \<noteq> [] \<Longrightarrow> \<exists>rows. rtt_rows xs = Inr rows"
  by (induction xs) (auto simp: rtt_row_def Let_def split: prod.splits)

text \<open>So the report is written whatever was timed.\<close>

lemma save_rtt_defined:
  assumes "measured t" "set order = dom (rtts t)"
  shows "\<exists>report. save_rtt order t = Inr report"
proof -
  have "at_key [] (rtts t) addr \<noteq> []" if "addr \<in> set order" for addr
    using assms that by (auto simp: measured_def at_key_def ran_def dom_def)
  then obtain rows where "rtt_rows (map (\<lambda>addr. (addr, at_key [] (rtts t) addr)) order) = Inr rows"
    using rtt_rows_Inr [of "map (\<lambda>addr. (addr, at_key [] (rtts t) addr)) order"] by auto
  then show ?thesis by (simp add: save_rtt_def)
qed

end
