(* ===== verification/Record_Shell.thy ===== *)
theory Record_Shell
  imports Replay_Shell Http_Proxy Time_Report Signals
begin

text \<open>
  \<open>src/frontend/recordshell.cc\<close> and \<open>proxyshell.cc\<close>, which differs in that it stores no exchange, in
  names and in one missing check: a container whose TCP connections go through the HTTP proxy,
  in a process of its own.  Also the construction of the proxy and its handler
  (\<open>src/httpserver/http_proxy.cc\<close>).
\<close>

section \<open>The proxy's listener\<close>

text \<open>The contexts of OpenSSL, for the side of the clients and that of the servers, are members.\<close>

definition http_proxy_new ::
  "socket_answers \<Rightarrow> int \<Rightarrow> context_answers \<times> context_answers \<Rightarrow> file_descriptor res" where
  "http_proxy_new k listen_result contexts =
     bindR (tcp_new (sa_socket k) (sa_fcntl k)) (\<lambda>listener.
     bindR (ssl_context_new SERVER (fst contexts)) (\<lambda>_.
     bindR (ssl_context_new CLIENT (snd contexts)) (\<lambda>_.
     bindR (socket_bind (sa_bind k)) (\<lambda>_.
     bindR (tcp_listen listen_result) (\<lambda>_. Inr listener)))))"

text \<open>\<open>handle_tcp\<close> up to the start of the thread; the thread is \<open>proxy_thread\<close>.\<close>

record accept_answers =
  ac_accept :: int
  ac_fcntl :: int
  ac_domain :: sockopt
  ac_type :: sockopt

definition handle_tcp_accept ::
  "accept_answers \<Rightarrow> file_descriptor \<Rightarrow> (file_descriptor \<times> file_descriptor) res" where
  "handle_tcp_accept a sock = tcp_accept (ac_accept a) (ac_fcntl a) (ac_domain a) (ac_type a) sock"

definition register_proxy_handlers ::
  "('s \<Rightarrow> file_descriptor) \<Rightarrow> ('s \<Rightarrow> 's res) \<Rightarrow> 's \<Rightarrow> 's poller \<Rightarrow> 's poller" where
  "register_proxy_handlers listener_fd handle_tcp_on s p =
     add_simple_input_handler listener_fd (\<lambda>s. bindR (handle_tcp_on s) (\<lambda>s'. Inr ((Continue, 0), s'))) s p"

section \<open>Arguments\<close>

text \<open>\<open>proxyshell\<close> looks at the last character of a directory name that may be empty.\<close>

definition proxy_directory :: "string \<Rightarrow> string res" where
  "proxy_directory directory =
     (if directory = [] then Inl (Undefined_behaviour ''back of an empty string'')
      else Inr (if last directory \<noteq> CHR ''/'' then directory @ ''/'' else directory))"

record record_answers =
  rc_dev_null :: int
  rc_ip_forward :: int
  rc_forwarding :: "string res"
  rc_pw_shell :: "string option"
  rc_res_init :: int
  rc_nsaddr :: address
  rc_ifaddrs :: "address list option"
  rc_routes :: "string option"
  rc_pid :: int
  rc_assign :: "nat \<Rightarrow> ioctl_answers"
  rc_dns_udp :: socket_answers
  rc_dns_tcp :: socket_answers
  rc_dns_listen :: int
  rc_http :: socket_answers
  rc_http_listen :: int
  rc_contexts :: "context_answers \<times> context_answers"
  rc_pair :: "int \<times> (int \<times> int) \<times> (int \<times> int)"
  rc_container :: fork_answers
  rc_write :: writes
  rc_recorder :: fork_answers
  rc_loop :: loop_answers
  rc_signals :: loop_state

record record_setup =
  rd_directory :: string
  rd_command :: "string list"
  rd_nameserver :: address
  rd_egress :: address
  rd_ingress :: address

definition record_setup_of ::
  "bool \<Rightarrow> 'k credentials \<Rightarrow> record_answers \<Rightarrow> string list \<Rightarrow> 'k process \<Rightarrow> record_setup res" where
  "record_setup_of proxy_only c a argv p =
     bindR (check_requirements c argv (rc_dev_null a) (environ p \<noteq> None) (rc_ip_forward a) (rc_forwarding a) (ids p)) (\<lambda>_.
     if length argv < 2 then Inl (Runtime_error (''Usage: '' @ argv ! 0 @ '' directory [command...]''))
     else bindR (if proxy_only then proxy_directory (argv ! 1) else clean_directory (argv ! 0) (argv ! 1)) (\<lambda>directory.
          bindR (command_after_directory argv (rc_pw_shell a)) (\<lambda>command.
          bindR (first_nameserver (rc_res_init a) (rc_nsaddr a)) (\<lambda>ns.
          bindR (two_unassigned_addresses (rc_ifaddrs a) (rc_routes a) address_any) (\<lambda>(egress, ingress).
            Inr \<lparr>rd_directory = directory, rd_command = command, rd_nameserver = ns, rd_egress = egress,
                 rd_ingress = ingress\<rparr>)))))"

section \<open>The main process\<close>

text \<open>
  The pair of devices is removed at the end unless its inner end went into the container's
  namespace: the body says whether it did, whatever its result.
\<close>

definition with_veth :: "string \<Rightarrow> string \<Rightarrow> string \<Rightarrow> ('b res \<times> bool, runner) run \<Rightarrow> ('b, runner) run" where
  "with_veth ip_path outside_name inside_name main_body r =
     (case veth_new ip_path outside_name inside_name r of
        None \<Rightarrow> None
      | Some (Inl e, r1) \<Rightarrow> Some (Inl e, r1)
      | Some (Inr v, r1) \<Rightarrow>
          (case main_body r1 of
             None \<Rightarrow> None
           | Some (outcome, r2) \<Rightarrow>
               let (result, given_away) = (case outcome of Inl e \<Rightarrow> (Inl e, False) | Inr x \<Rightarrow> x);
                   v' = (if given_away then set_kernel_will_destroy v else v)
               in map_option (\<lambda>(_, r3). (result, r3)) (veth_delete ip_path v' r2)))"

definition device_names :: "int \<Rightarrow> string \<times> string" where
  "device_names pid = (''veth-'' @ int_dec pid, ''veth-i'' @ int_dec pid)"

text \<open>The outcome of a computation as a value.\<close>

definition outcome_of :: "('a, 's) run \<Rightarrow> ('a res, 's) run" where
  "outcome_of m r = map_option (\<lambda>(x, r'). (Inr x, r')) (m r)"

text \<open>
  The container's process is started, given the inner device and told to go on; then the second
  child, and the loop.
\<close>

definition record_children ::
  "bool \<Rightarrow> string \<Rightarrow> 'k credentials \<Rightarrow> record_answers \<Rightarrow> 'k process \<Rightarrow> ((u32 option \<times> loop_state \<times> 'k process) res \<times> bool, runner) run" where
  "record_children proxy_only ip_path c a p =
     (let (pair_result, fds, fcntls) = rc_pair a
      in case bindR (make_pair pair_result fds fcntls) (\<lambda>(first, second).
              bindR (fork_child (rc_container a) (if proxy_only then ''proxyshell'' else ''recordshell'') p)
                (\<lambda>(container, p1). Inr (first, container, p1))) of
           Inl e \<Rightarrow> no_run (Inr (Inl e, False))
         | Inr (first, container, p1) \<Rightarrow>
             bind_run (outcome_of (run [ip_path, ''link'', ''set'', ''dev'', snd (device_names (rc_pid a)), ''netns'',
                                        int_dec (child_pid container)]))
               (\<lambda>moved.
                case moved of
                  Inl e \<Rightarrow> no_run (Inr (Inl e, False))
                | Inr _ \<Rightarrow>
                    no_run (Inr
                      (bindR (fd_write (rc_write a) first ''x'') (\<lambda>_.
                       bindR (fork_child (rc_recorder a) (if proxy_only then ''proxy'' else ''recorder'') p1) (\<lambda>(recorder, p2).
                       wait_for_exit c (rc_loop a)
                         (add_child_process recorder (add_child_process container (rc_signals a))) p2)),
                       True))))"

text \<open>
  Around that, in the order of construction: the devices, the DNS proxy, the rules of the address
  translation, the HTTP proxy and the rule that sends the connections to it.
\<close>

definition record_shell ::
  "bool \<Rightarrow> string \<Rightarrow> string \<Rightarrow> 'k credentials \<Rightarrow> record_answers \<Rightarrow> string list \<Rightarrow> 'k process \<Rightarrow>
   (u32 option \<times> loop_state \<times> 'k process, runner) run" where
  "record_shell proxy_only iptables ip_path c a argv p0 =
     bind_run (no_run (record_setup_of proxy_only c a argv (p0\<lparr>environ := None\<rparr>))) (\<lambda>s.
     let (egress_name, ingress_name) = device_names (rc_pid a)
     in with_veth ip_path egress_name ingress_name (
          bind_run (no_run (
            bindR (assign_address (rc_assign a) egress_name (rd_egress s) (rd_ingress s)) (\<lambda>rs.
            bindR (dns_proxy_listening (rc_dns_udp a) (rc_dns_tcp a) (rc_dns_listen a) (rd_egress s)
                     (rd_nameserver s) (rd_nameserver s)) (\<lambda>_. Inr rs)))) (\<lambda>rs.
          scoped (nat_new iptables (rd_ingress s) (rc_pid a))
            (bind_run (no_run (
               bindR (http_proxy_new (rc_http a) (rc_http_listen a) (rc_contexts a)) (\<lambda>_.
                 local_address (sa_name (rc_http a) (rd_egress s))))) (\<lambda>listener.
             scoped (dnat_new iptables listener egress_name)
               (record_children proxy_only ip_path c a
                  (p0\<lparr>environ := None, device_requests := device_requests p0 @ rs\<rparr>))
               (nat_rule_delete iptables (dnat_rule listener egress_name))))
            (nat_delete iptables (rd_ingress s) (rc_pid a)))))"

section \<open>The container\<close>

record container_answers =
  ct_reads :: reads
  ct_lo :: ioctl_answers
  ct_assign :: "nat \<Rightarrow> ioctl_answers"
  ct_route :: ioctl_answers
  ct_outside_udp :: "int \<times> address \<times> nat"
  ct_outside_tcp :: "int \<times> address \<times> nat"
  ct_strerror :: string
  ct_udp :: socket_answers
  ct_tcp :: socket_answers
  ct_listen :: int
  ct_command :: fork_answers

text \<open>
  What the process of the container does up to its loop: \<open>None\<close> when \<open>drop_privileges\<close> has ended
  it.  The command's child takes the environment of the user itself (\<open>command_child\<close>).
\<close>

definition container_child ::
  "'k credentials \<Rightarrow> container_answers \<Rightarrow> record_setup \<Rightarrow> string \<Rightarrow> file_descriptor \<Rightarrow> 'k process \<Rightarrow>
   (child_process \<times> dns_proxy option \<times> 'k process) option res" where
  "container_child c a s ingress_name pipe p =
     bindR (fd_read (ct_reads a) pipe buffer_size) (\<lambda>_.
     bindR (interface_ioctl (ct_lo a) ''SIOCSIFFLAGS'' ''lo'' (Ifr_flags IFF_UP)) (\<lambda>lo.
     bindR (assign_address (ct_assign a) ingress_name (rd_ingress s) (rd_egress s)) (\<lambda>rs.
     bindR (udp_new (io_socket (ct_route a)) (io_fcntl (ct_route a))) (\<lambda>_.
     bindR (system_call ''ioctl SIOCADDRT'' (io_result (ct_route a))) (\<lambda>_.
     let p1 = p\<lparr>device_requests := device_requests p @ lo # rs,
                routes_added := routes_added p @ [\<lparr>rt_gateway = rd_egress s, rt_dst = address_any,
                                                   rt_genmask = address_any\<rparr>]\<rparr>
     in bindR (local_address (ct_outside_udp a)) (\<lambda>udp_target.
     bindR (local_address (ct_outside_tcp a)) (\<lambda>tcp_target.
     bindR (maybe_proxy (ct_strerror a) (ct_udp a) (ct_tcp a) (ct_listen a) (rd_nameserver s) udp_target tcp_target) (\<lambda>dns_inside.
     bindR (drop_privileges c (ids p1)) (\<lambda>dropped.
     case dropped of
       None \<Rightarrow> Inr None
     | Some k \<Rightarrow>
         bindR (join (rd_command s)) (\<lambda>name.
         bindR (fork_child (ct_command a) name (p1\<lparr>ids := k\<rparr>)) (\<lambda>(child, p2).
           Inr (Some (child, dns_inside, p2)))))))))))))"

section \<open>The recorder\<close>

text \<open>
  Before its loop the recorder gives up its privileges and makes the directory; after it the
  load times and the statistics of the round trips are written there.  The proxy without a store makes no directory.
\<close>

definition recorder_begin ::
  "bool \<Rightarrow> 'k credentials \<Rightarrow> int \<Rightarrow> string \<Rightarrow> 'k process \<Rightarrow> 'k process option res" where
  "recorder_begin proxy_only c mkdir_result directory p =
     bindR (drop_privileges c (ids p)) (\<lambda>dropped.
     case dropped of
       None \<Rightarrow> Inr None
     | Some k \<Rightarrow>
         bindR (if proxy_only then Inr () else make_directory c directory mkdir_result k) (\<lambda>_.
           Inr (Some (p\<lparr>ids := k\<rparr>))))"

definition recorder_end :: "bool \<Rightarrow> string \<Rightarrow> string list \<Rightarrow> time_logger \<Rightarrow> (string \<times> string) list res" where
  "recorder_end proxy_only directory order t =
     (if proxy_only then Inr [(directory @ ''/request_delays.txt'', print_map t)]
      else bindR (save_rtt order t) (\<lambda>report.
             Inr [(directory @ ''/request_delays.txt'', print_map t), (directory @ ''/rtts.txt'', report)]))"

section \<open>No rule is left\<close>

text \<open>A command that is not one of iptables' leaves the rules alone.\<close>

lemma run_link_rules:
  assumes "run (program # ''link'' # args) r = Some (x, r')"
  shows "extends r r' \<and> nat_rules iptables r' = nat_rules iptables r"
proof -
  obtain how where "executed r' = executed r @ [(program # ''link'' # args, how)]"
    using assms by (rule run_result) simp
  then show ?thesis by (simp add: extends_def nat_rules_step)
qed

text \<open>What a scope adds its destructor takes away, whatever scopes are inside it.\<close>

definition keeps_rules :: "string \<Rightarrow> ('b, runner) run \<Rightarrow> bool" where
  "keeps_rules iptables f \<longleftrightarrow> (\<forall>s x s'. f s = Some (x, s') \<longrightarrow> deletions_work s' \<longrightarrow>
     extends s s' \<and> nat_rules iptables s' = nat_rules iptables s)"

lemma keeps_rulesD:
  "keeps_rules iptables f \<Longrightarrow> f s = Some (x, s') \<Longrightarrow> deletions_work s' \<Longrightarrow>
   extends s s' \<and> nat_rules iptables s' = nat_rules iptables s"
  by (simp add: keeps_rules_def)

lemma keeps_no_run: "keeps_rules iptables (no_run x)"
  by (simp add: keeps_rules_def no_run_def extends_def)

lemma keeps_link_run: "keeps_rules iptables (run (program # ''link'' # args))"
  by (simp add: keeps_rules_def run_link_rules)

lemma keeps_bind_run:
  assumes "keeps_rules iptables m" "\<And>x. keeps_rules iptables (f x)"
  shows "keeps_rules iptables (bind_run m f)"
  unfolding keeps_rules_def
proof (intro allI impI)
  fix s x s'
  assume b: "bind_run m f s = Some (x, s')" and d: "deletions_work s'"
  obtain y s1 where 1: "m s = Some (y, s1)" using b by (auto simp: bind_run_def split: option.splits)
  show "extends s s' \<and> nat_rules iptables s' = nat_rules iptables s"
  proof (cases y)
    case (Inl e)
    with b 1 d keeps_rulesD [OF assms(1) 1] show ?thesis by (simp add: bind_run_def)
  next
    case (Inr z)
    with b 1 have 2: "f z s1 = Some (x, s')" by (simp add: bind_run_def)
    note e2 = keeps_rulesD [OF assms(2) 2 d]
    then have "deletions_work s1" using deletions_work_before d by blast
    from keeps_rulesD [OF assms(1) 1 this] e2 show ?thesis by (auto intro: extends_trans)
  qed
qed

lemma keeps_scoped:
  assumes ctor: "\<And>s x s'. ctor s = Some (x, s') \<Longrightarrow> deletions_work s' \<Longrightarrow> extends s s' \<and>
      nat_rules iptables s' = (if x = Inr () then added + nat_rules iptables s else nat_rules iptables s)"
    and f: "keeps_rules iptables f"
    and dtor: "\<And>s x s'. dtor s = Some (x, s') \<Longrightarrow> deletions_work s' \<Longrightarrow> extends s s' \<and>
      nat_rules iptables s' = nat_rules iptables s - added"
  shows "keeps_rules iptables (scoped ctor f dtor)"
  unfolding keeps_rules_def
proof (intro allI impI)
  fix s x s'
  assume b: "scoped ctor f dtor s = Some (x, s')" and d: "deletions_work s'"
  obtain y s1 where 1: "ctor s = Some (y, s1)"
    using b by (auto simp: scoped_def then_run_def split: option.splits)
  show "extends s s' \<and> nat_rules iptables s' = nat_rules iptables s"
  proof (cases y)
    case (Inl e)
    with b 1 d ctor [OF 1] show ?thesis by (simp add: scoped_def then_run_def)
  next
    case (Inr u)
    with b 1 obtain z s2 t where 2: "f s1 = Some (z, s2)" and 3: "dtor s2 = Some (t, s')"
      by (auto simp: scoped_def then_run_def split: option.splits)
    note e3 = dtor [OF 3 d]
    then have d2: "deletions_work s2" using deletions_work_before d by blast
    note e2 = keeps_rulesD [OF f 2 d2]
    then have "deletions_work s1" using deletions_work_before d2 by blast
    from ctor [OF 1 this] e2 e3 Inr show ?thesis by (auto intro: extends_trans)
  qed
qed

lemma keeps_nat:
  "keeps_rules iptables f \<Longrightarrow> keeps_rules iptables (scoped (nat_new iptables a pid) f (nat_delete iptables a pid))"
proof (rule keeps_scoped [where added = "{#nat_post pid, nat_pre a pid#}"])
  fix s x s'
  assume "nat_new iptables a pid s = Some (x, s')" "deletions_work s'"
  from nat_new_effect [OF this]
  show "extends s s' \<and> nat_rules iptables s' =
      (if x = Inr () then {#nat_post pid, nat_pre a pid#} + nat_rules iptables s else nat_rules iptables s)"
    by simp
next
  fix s x s'
  assume "nat_delete iptables a pid s = Some (x, s')" "deletions_work s'"
  from nat_delete_effect [OF this]
  show "extends s s' \<and> nat_rules iptables s' = nat_rules iptables s - {#nat_post pid, nat_pre a pid#}"
    by (simp add: add_mset_commute)
qed

lemma keeps_dnat:
  "keeps_rules iptables f \<Longrightarrow>
   keeps_rules iptables (scoped (dnat_new iptables l i) f (nat_rule_delete iptables (dnat_rule l i)))"
proof (rule keeps_scoped [where added = "{#dnat_rule l i#}"])
  fix s x s'
  assume "dnat_new iptables l i s = Some (x, s')"
  from nat_rule_new_effect [OF this [unfolded dnat_new_def]]
  show "extends s s' \<and> nat_rules iptables s' =
      (if x = Inr () then {#dnat_rule l i#} + nat_rules iptables s else nat_rules iptables s)"
    by simp
next
  fix s x s'
  assume "nat_rule_delete iptables (dnat_rule l i) s = Some (x, s')" "deletions_work s'"
  with nat_rule_delete_effect [OF this(1)]
  show "extends s s' \<and> nat_rules iptables s' = nat_rules iptables s - {#dnat_rule l i#}" by simp
qed

lemma keeps_outcome_of: "keeps_rules iptables f \<Longrightarrow> keeps_rules iptables (outcome_of f)"
  by (auto simp: keeps_rules_def outcome_of_def)

lemma keeps_veth:
  assumes "keeps_rules iptables f"
  shows "keeps_rules iptables (with_veth ip_path out in_name f)"
  unfolding keeps_rules_def
proof (intro allI impI)
  fix s x s'
  assume b: "with_veth ip_path out in_name f s = Some (x, s')" and d: "deletions_work s'"
  have new: "keeps_rules iptables (veth_new ip_path out in_name)"
    using run_link_rules by (fastforce simp: keeps_rules_def veth_new_def extends_def split: sum.splits)
  have del: "keeps_rules iptables (veth_delete ip_path v)" for v
    using run_link_rules by (fastforce simp: keeps_rules_def veth_delete_def swallowing_def extends_def)
  obtain y s1 where 1: "veth_new ip_path out in_name s = Some (y, s1)"
    using b by (auto simp: with_veth_def split: option.splits)
  show "extends s s' \<and> nat_rules iptables s' = nat_rules iptables s"
  proof (cases y)
    case (Inl e)
    with b 1 d keeps_rulesD [OF new 1] show ?thesis by (simp add: with_veth_def)
  next
    case (Inr v)
    with b 1 obtain z s2 t v' where 2: "f s1 = Some (z, s2)" and 3: "veth_delete ip_path v' s2 = Some (t, s')"
      by (auto simp: with_veth_def Let_def split: option.splits prod.splits)
    note e3 = keeps_rulesD [OF del 3 d]
    then have d2: "deletions_work s2" using deletions_work_before d by blast
    note e2 = keeps_rulesD [OF assms 2 d2]
    then have "deletions_work s1" using deletions_work_before d2 by blast
    from keeps_rulesD [OF new 1 this] e2 e3 show ?thesis by (auto intro: extends_trans)
  qed
qed

lemma keeps_record_children: "keeps_rules iptables (record_children proxy_only ip_path c a p)"
  unfolding record_children_def Let_def
  by (auto split: prod.splits sum.splits
      intro!: keeps_bind_run keeps_no_run keeps_outcome_of keeps_link_run)

lemma keeps_record_shell: "keeps_rules iptables (record_shell proxy_only iptables ip_path c a argv p)"
  unfolding record_shell_def Let_def
  by (auto split: prod.splits intro!: keeps_bind_run keeps_no_run keeps_veth keeps_nat keeps_dnat keeps_record_children)

end
