(* ===== verification/Recording_Properties.thy ===== *)
theory Recording_Properties
  imports Record_Shell Container_Properties Proxy_Properties
begin

text \<open>
  The shells that record and replay: what a recording is served as, and what the programs leave behind.
\<close>

section \<open>Replaying\<close>

text \<open>C21.  What \<open>mm-webreplay\<close> collects from the files of a recording, if it does not stop with an error:
  every save file held a record, and each record, in the order of the files, gives one line of the
  hosts file with its \<open>Host\<close> and its address; a web server is started for exactly the addresses and
  ports of the records, each once, and a device is made for exactly their IP addresses, each once.\<close>

theorem replay_serves_recordings:
  assumes "collect_recordings files filenames = Inr t"
  shows "\<exists>rs. map files (filter is_save filenames) = map (\<lambda>r. Some (Some r)) rs \<and>
    list_all2 recorded_at rs (hostname_to_ip t) \<and>
    set (unique_ip_and_port t) = snd ` set (hostname_to_ip t) \<and> distinct (unique_ip_and_port t) \<and>
    set (unique_ip t) = without_port ` set (unique_ip_and_port t) \<and> distinct (unique_ip t)"
proof -
  have "serves nothing_to_serve" by (simp add: serves_def nothing_to_serve_def)
  with collect_recordings_serve assms obtain xs rs where
    "serves t" "map files (filter is_save filenames) = map (\<lambda>r. Some (Some r)) rs" "list_all2 recorded_at rs xs"
    "hostname_to_ip t = hostname_to_ip nothing_to_serve @ xs"
    unfolding collect_recordings_def by blast
  then show ?thesis
    by (auto simp: serves_def nothing_to_serve_def address_sorted_distinct intro!: exI [of _ rs])
qed

definition a_recording :: "string \<Rightarrow> u32 \<Rightarrow> request_response" where
  "a_recording host p = \<lparr>rr_ip = ip (cgnat 5), rr_port = p, rr_scheme = HTTP,
     rr_request = \<lparr>proto_first_line = ''GET / HTTP/1.1'', proto_header = [(''Host'', host)], proto_body = []\<rparr>,
     rr_response = \<lparr>proto_first_line = ''HTTP/1.1 200 OK'', proto_header = [], proto_body = []\<rparr>\<rparr>"

definition sample_files :: record_files where
  "sample_files = [''d/save.1'' \<mapsto> Some (a_recording ''a.org'' 80), ''d/save.2'' \<mapsto> Some (a_recording ''b.org'' 80)]"

lemma sample_collected:
  "collect_recordings sample_files [''d/save.1'', ''d/log'', ''d/save.2''] =
     Inr \<lparr>unique_ip = [cgnat 5], unique_ip_and_port = [(cgnat 5)\<lparr>port := 80\<rparr>],
          hostname_to_ip = [(''a.org'', (cgnat 5)\<lparr>port := 80\<rparr>), (''b.org'', (cgnat 5)\<lparr>port := 80\<rparr>)]\<rparr>"
proof -
  have h: "get_header_value ''Host'' (message_of_protobuf (rr_request (a_recording host p))) = Inr host" for host p
    by (simp add: a_recording_def message_of_protobuf_def get_header_value_def equivalent_strings_def Let_def
        list.rel_refl)
  have a: "address_of_ip (rr_ip (a_recording host 80)) 80 = Inr ((cgnat 5)\<lparr>port := 80\<rparr>)"
    "ucast (rr_port (a_recording host 80)) = (80 :: u16)" for host
    by (simp_all add: a_recording_def address_of_ip_ip cgnat_def)
  have i: "address_of_ip (ip ((cgnat 5)\<lparr>port := 80\<rparr>)) 0 = Inr (cgnat 5)"
    by (simp add: address_of_ip_ip cgnat_def)
  show ?thesis
    by (simp add: collect_recordings_def consider_recording_def nothing_to_serve_def load_record_def
        sample_files_def h a i address_less_order)
qed

theorem replay_serves_recordings_witness:
  "\<exists>t. collect_recordings sample_files [''d/save.1'', ''d/log'', ''d/save.2''] = Inr t \<and>
     length (hostname_to_ip t) = 2 \<and> unique_ip_and_port t = [(cgnat 5)\<lparr>port := 80\<rparr>] \<and>
     set (unique_ip_and_port t) = snd ` set (hostname_to_ip t)"
  using replay_serves_recordings [OF sample_collected] sample_collected by auto

section \<open>What was recorded is served\<close>

text \<open>The store and the answers that a connection leaves, whichever its sockets.\<close>

definition connection_result ::
  "(u32 option \<times> (reads, writes) proxy_conn poller \<times> (reads, writes) proxy_conn) +
   (u32 option \<times> (ssl_reads, ssl_writes) proxy_conn poller \<times> (ssl_reads, ssl_writes) proxy_conn) \<Rightarrow>
   disk_store \<times> http_response list" where
  "connection_result outcome =
     (case outcome of Inl (_, _, s) \<Rightarrow> (backing_store s, answered s) | Inr (_, _, s) \<Rightarrow> (backing_store s, answered s))"

text \<open>The files of the store, as the replay reads them, and the hosts and addresses they tell of.\<close>

definition files_of :: "disk_store \<Rightarrow> record_files" where
  "files_of d name = map_option Some (map_of (disk_files d) name)"

definition hosts_of :: "disk_store \<Rightarrow> (string \<times> address) set" where
  "hosts_of d = {x. \<exists>q \<in> snd ` set (disk_files d). recorded_at q x}"

lemma recorded_at_unique: "recorded_at q x \<Longrightarrow> recorded_at q y \<Longrightarrow> x = y"
  by (auto simp: recorded_at_def prod_eq_iff)

lemma collect_recordings_ends:
  "\<forall>f \<in> set names. is_save f \<longrightarrow> (\<exists>q x. files f = Some (Some q) \<and> recorded_at q x) \<Longrightarrow>
   \<exists>t'. fold_res (consider_recording files) names t = Inr t'"
proof (induction names arbitrary: t)
  case (Cons f names)
  have "\<exists>t1. consider_recording files f t = Inr t1"
    using Cons.prems
    by (auto simp: consider_recording_def is_save_def load_record_def recorded_at_def address_of_ip_ip)
  with Cons show ?case by (auto simp: res_simps)
qed simp

lemma get_header_saved:
  "get_header_value h m =
     (case saved_header h m of None \<Rightarrow> Inl (Runtime_error (''HTTPMessage header not found: '' @ h)) | Some v \<Rightarrow> Inr v)"
  by (simp add: get_header_value_def saved_header_def split: option.split)

lemma header_of_protobuf:
  "message_to_protobuf m = Inr p \<Longrightarrow> get_header_value h (message_of_protobuf p) = get_header_value h m"
  by (simp add: get_header_saved message_to_protobuf_fields(2))

lemma port_through_record: "(ucast (ucast (p :: u16) :: u32) :: u16) = p"
  by (rule bit_word_eqI) (simp add: bit_unsigned_iff)

lemma records_recorded_at:
  assumes "records addr m (name, q)" "get_header_value ''Host'' (request m) = Inr h"
  shows "recorded_at q (h, addr)"
  using assms header_of_protobuf [of "request m" "rr_request q" "''Host''"]
  by (cases addr) (simp add: records_def recorded_at_def address_of_ip_ip port_through_record)

text \<open>A recorded request without a \<open>Host\<close> header, as HTTP/1.0 allows, keeps the recording from being replayed.\<close>

lemma hostless_recording:
  assumes "is_save f" "files f = Some (Some q)" "address_of_ip (rr_ip q) (ucast (rr_port q)) = Inr a"
    and "get_header_value ''Host'' (message_of_protobuf (rr_request q)) = Inl e"
  shows "collect_recordings files (f # fs) = Inl e"
  using assms by (simp add: collect_recordings_def consider_recording_def is_save_def load_record_def address_of_ip_ip)

text \<open>The records of a connection and its answers tell of the same hosts.\<close>

lemma saved_hosts:
  assumes "list_all2 (records addr) answers saved"
    "\<forall>m \<in> set answers. get_header_value ''Host'' (request m) = Inr (host m)"
  shows "list_all2 (\<lambda>m q. recorded_at q (host m, addr)) answers (map snd saved)"
  using assms by (induction) (auto simp: records_recorded_at)

lemma hosts_of_list:
  assumes "list_all2 (\<lambda>m q. recorded_at q (f m)) ms qs"
  shows "{x. \<exists>q \<in> set qs. recorded_at q x} = f ` set ms"
  using assms by induction (auto dest: recorded_at_unique)

lemma hosts_exist:
  assumes "list_all2 (\<lambda>m q. recorded_at q (f m)) ms qs"
  shows "\<forall>q \<in> set qs. \<exists>x. recorded_at q x"
  using assms
proof induction
  case (Cons m ms q qs)
  from Cons.hyps(1) have "\<exists>x. recorded_at q x" ..
  with Cons.IH show ?case by simp
qed simp

lemma hosts_of_served:
  assumes "list_all2 recorded_at qs xs"
  shows "set xs = {x. \<exists>q \<in> set qs. recorded_at q x}"
  using assms by induction (auto dest: recorded_at_unique)

lemma collect_store:
  assumes "\<forall>q \<in> snd ` set (disk_files store). \<exists>x. recorded_at q x"
    and "distinct (map fst (disk_files store))" "set (filter is_save names) = fst ` set (disk_files store)"
  shows "\<exists>t. collect_recordings (files_of store) names = Inr t \<and> set (hostname_to_ip t) = hosts_of store \<and>
    set (unique_ip_and_port t) = snd ` set (hostname_to_ip t)"
proof -
  let ?files = "files_of store"
  have files: "?files f = Some (Some q) \<longleftrightarrow> (f, q) \<in> set (disk_files store)" for f q
    using assms(2) by (simp add: files_of_def)
  have "\<exists>q x. ?files f = Some (Some q) \<and> recorded_at q x" if f: "f \<in> set names" "is_save f" for f
  proof -
    have "f \<in> fst ` set (disk_files store)" using f assms(3) by auto
    then obtain q where q: "(f, q) \<in> set (disk_files store)" by auto
    moreover from q have "q \<in> snd ` set (disk_files store)" by force
    ultimately show ?thesis using assms(1) files by blast
  qed
  then obtain t where t: "fold_res (consider_recording ?files) names nothing_to_serve = Inr t"
    using collect_recordings_ends by blast
  have "serves nothing_to_serve" by (simp add: serves_def nothing_to_serve_def)
  from collect_recordings_serve [OF t this] obtain xs rs where *: "serves t"
    "map ?files (filter is_save names) = map (\<lambda>r. Some (Some r)) rs" "list_all2 recorded_at rs xs"
    "hostname_to_ip t = hostname_to_ip nothing_to_serve @ xs" by blast
  have "(\<lambda>r. Some (Some r)) ` set rs = ?files ` fst ` set (disk_files store)"
    using arg_cong [OF *(2), of set] assms(3) by simp
  also have "\<dots> = (\<lambda>r. Some (Some r)) ` snd ` set (disk_files store)"
    unfolding image_image by (rule image_cong) (auto simp: files)
  finally have "set rs = snd ` set (disk_files store)" by (simp add: inj_image_eq_iff inj_def)
  with hosts_of_served [OF *(3)] have "set xs = hosts_of store" by (simp add: hosts_of_def)
  with t * show ?thesis by (simp add: collect_recordings_def serves_def nothing_to_serve_def)
qed

text \<open>C8.  Recording and replaying, for a whole connection: after the thread of a recording proxy has
  handled a connection to \<open>addr\<close> (over TCP or TLS), and its store had recordings with hosts before,
  \<open>mm-webreplay\<close> on a directory with the files of the store, in any order and among others that
  are not recordings, does not stop with an error, and its hosts file has exactly the hosts of
  before and those that the client asked for on this connection, at \<open>addr\<close>, for which a web server
  is started.  Every request must have had a \<open>Host\<close> header.\<close>

theorem recorded_connection_served:
  assumes "sent sfd = []" "sent cfd = []" "tls_reliable a"
    "recording_thread connects a ks (proxy_conn_new sfd cfd sr cr sw cw lg clk addr d) = Inr outcome"
    "connection_result outcome = (store, answers)"
    and "\<forall>m \<in> set answers. get_header_value ''Host'' (request m) = Inr (host m)"
    and "\<forall>q \<in> snd ` set (disk_files d). \<exists>x. recorded_at q x"
    and "distinct (map fst (disk_files store))" "set (filter is_save names) = fst ` set (disk_files store)"
  shows "\<exists>t. collect_recordings (files_of store) names = Inr t \<and>
    set (hostname_to_ip t) = hosts_of d \<union> (\<lambda>m. (host m, addr)) ` set answers \<and>
    set (unique_ip_and_port t) = snd ` set (hostname_to_ip t)"
proof -
  from recording_thread_keeps [OF assms(1-4)] assms(5) obtain saved where
    saved: "disk_files store = disk_files d @ saved" "list_all2 (records addr) answers saved"
    by (auto simp: connection_result_def exchanges_kept_def split: sum.splits prod.splits)
  note new = saved_hosts [OF saved(2) assms(6)]
  then have "\<forall>q \<in> snd ` set saved. \<exists>x. recorded_at q x" using hosts_exist by fastforce
  with assms(7) have "\<forall>q \<in> snd ` set (disk_files store). \<exists>x. recorded_at q x" by (auto simp: saved(1))
  moreover have "hosts_of store = hosts_of d \<union> (\<lambda>m. (host m, addr)) ` set answers"
    using hosts_of_list [OF new] by (auto simp: hosts_of_def saved(1))
  ultimately show ?thesis using collect_store [OF _ assms(8,9)] by simp
qed

theorem recorded_connection_served_witness:
  "\<exists>p s t. recording_thread True a_handshake one_exchange (a_connection 80) = Inr (Inl (None, p, s)) \<and>
     collect_recordings (files_of (backing_store s)) [''/r/log'', ''/r/save.XXXXXX''] = Inr t \<and>
     set (hostname_to_ip t) = {(''a.org'', an_address 80)} \<and> set (unique_ip_and_port t) = {an_address 80}"
proof -
  obtain p s where r: "recording_thread True a_handshake one_exchange (a_connection 80) = Inr (Inl (None, p, s))"
      "answered s = [not_modified]" "disk_save not_modified (an_address 80) a_store = Inr (backing_store s)"
    unfolding recording_thread_def
    using tcp_exchange [where loop = "recording_loop tcp_ops" and out = "client_output_saving tcp_ops"
        and tls_loop = "recording_loop tls_ops" and a = a_handshake]
    by (auto simp: recording_loop_def)
  have "\<exists>d. disk_save not_modified (an_address 80) a_store = Inr d \<and> map fst (disk_files d) = [''/r/save.XXXXXX'']"
    by (simp add: disk_save_def a_store_def unique_file_new_def fd_new_def to_mutable_def unique_file_name_def
        message_to_protobuf_def get_root_def not_modified_def Let_def)
  with r(3) have names: "map fst (disk_files (backing_store s)) = [''/r/save.XXXXXX'']" by simp
  then have set_names: "fst ` set (disk_files (backing_store s)) = {''/r/save.XXXXXX''}"
    by (metis list.set(1) list.set(2) list.set_map)
  have saves: "is_save ''/r/save.XXXXXX''" "\<not> is_save ''/r/log''" by code_simp+
  have host: "get_header_value ''Host'' (request not_modified) = Inr ''a.org''"
    by (simp add: not_modified_def get_root_def get_header_value_def equivalent_strings_def Let_def list.rel_refl)
  have "tls_reliable a_handshake" by (simp add: tls_reliable_def never_zero_def a_handshake_def)
  from recorded_connection_served [OF _ _ this r(1) [unfolded a_connection_def], where names = "[''/r/log'', ''/r/save.XXXXXX'']"
      and host = "\<lambda>_. ''a.org''"] obtain t where
    "collect_recordings (files_of (backing_store s)) [''/r/log'', ''/r/save.XXXXXX''] = Inr t"
    "set (hostname_to_ip t) = {(''a.org'', an_address 80)}" "set (unique_ip_and_port t) = snd ` set (hostname_to_ip t)"
    using r(2) by (auto simp: fresh_fd_def connection_result_def host a_store_def hosts_of_def names set_names saves)
  with r(1) show ?thesis by auto
qed















section \<open>Recording\<close>






end
