(* ===== verification/Display.thy ===== *)
theory Display
  imports Cpp_String
begin

text \<open>
  \<open>src/graphing/display.cc\<close>: the window and the pixmaps of the X server.  What the server answers
  is a parameter: the events that it will send, the error of a checked request (\<open>None\<close> for none).
  The requests that change what the server holds are values, in the order in which they are made.
\<close>

definition check_noreply :: "string \<Rightarrow> nat option \<Rightarrow> unit res" where
  "check_noreply context answer =
     (case answer of
        None \<Rightarrow> Inr ()
      | Some code \<Rightarrow> Inl (Runtime_error (context @ '': returned error '' @ dec code)))"

definition notnull :: "string \<Rightarrow> 'a option \<Rightarrow> 'a res" where
  "notnull context x =
     (case x of Some y \<Rightarrow> Inr y | None \<Rightarrow> Inl (Runtime_error (context @ '': returned null pointer'')))"

lemma check_noreply_error: "check_noreply context answer = Inl e \<Longrightarrow> \<exists>msg. e = Runtime_error msg"
  by (auto simp: check_noreply_def split: option.splits)

lemma notnull_error: "notnull context x = Inl e \<Longrightarrow> \<exists>msg. e = Runtime_error msg"
  by (auto simp: notnull_def split: option.splits)

section \<open>Questions to the server\<close>

text \<open>What the server knows of the window's visual, and the visuals of each depth of its screen.\<close>

record x_server =
  window_visual :: "nat option"
  depths :: "nat list list"

fun find_visual :: "nat \<Rightarrow> nat list list \<Rightarrow> nat option" where
  "find_visual v [] = None"
| "find_visual v (visuals # ds) = (case find (\<lambda>x. v = x) visuals of Some x \<Rightarrow> Some x | None \<Rightarrow> find_visual v ds)"

definition xcb_visual :: "x_server \<Rightarrow> nat res" where
  "xcb_visual x =
     bindR (notnull ''xcb_get_attributes_reply'' (window_visual x)) (\<lambda>v.
       case find_visual v (depths x) of
         Some i \<Rightarrow> Inr i
       | None \<Rightarrow> Inl (Runtime_error ''xcb_visual: no matching visualtype_t found''))"

lemma xcb_visual_ok:
  "xcb_visual x = Inr i \<longleftrightarrow> window_visual x = Some i \<and> (\<exists>visuals \<in> set (depths x). i \<in> set visuals)"
proof -
  have f: "find_visual v ds = Some j \<longleftrightarrow> j = v \<and> (\<exists>visuals \<in> set ds. v \<in> set visuals)" for v j ds
    by (induction v ds rule: find_visual.induct) (auto simp: find_Some_iff find_None_iff in_set_conv_nth split: option.splits)
  then have "find_visual v ds = None \<longleftrightarrow> \<not> (\<exists>visuals \<in> set ds. v \<in> set visuals)" for v ds
    by (metis not_None_eq)
  with f show ?thesis by (auto simp: xcb_visual_def notnull_def split: option.splits)
qed

lemma xcb_visual_error: "xcb_visual x = Inl e \<Longrightarrow> \<exists>msg. e = Runtime_error msg"
  by (auto simp: xcb_visual_def notnull_def split: option.splits)

definition xwindow_size :: "(nat \<times> nat) option \<Rightarrow> (nat \<times> nat) res" where
  "xwindow_size geometry = notnull ''xcb_get_geometry_reply'' geometry"

section \<open>Pixmaps\<close>

text \<open>A pixmap that was moved away has no connection left, and its destructor frees nothing.\<close>

record xpixmap =
  connected :: bool
  pixmap_id :: nat
  pixmap_size :: "nat \<times> nat"

datatype x_request = Create_pixmap nat "nat \<times> nat" | Free_pixmap nat | Present_pixmap nat nat nat

text \<open>The number that was generated, the geometry of the window, the answer to the request.\<close>

type_synonym pixmap_answers = "nat \<times> (nat \<times> nat) option \<times> nat option"

definition xpixmap_new :: "x_server \<Rightarrow> pixmap_answers \<Rightarrow> (xpixmap \<times> x_request list) res" where
  "xpixmap_new x a =
     (case a of (i, geometry, answer) \<Rightarrow>
        bindR (xcb_visual x) (\<lambda>_. bindR (xwindow_size geometry) (\<lambda>sz.
        bindR (check_noreply ''xcb_create_pixmap_checked'' answer) (\<lambda>_.
          Inr (\<lparr>connected = True, pixmap_id = i, pixmap_size = sz\<rparr>, [Create_pixmap i sz])))))"

text \<open>The destructor catches the error that the request may return.\<close>

definition xpixmap_destroy :: "xpixmap \<Rightarrow> x_request list" where
  "xpixmap_destroy p = (if connected p then [Free_pixmap (pixmap_id p)] else [])"

text \<open>The new object, and what is left of the one it was moved from.\<close>

definition xpixmap_move :: "xpixmap \<Rightarrow> xpixmap \<times> xpixmap" where
  "xpixmap_move other = (other, other\<lparr>connected := False\<rparr>)"

definition xpixmap_assign :: "xpixmap \<Rightarrow> xpixmap \<Rightarrow> xpixmap \<times> xpixmap \<times> x_request list" where
  "xpixmap_assign this other =
     (let (this', other') = xpixmap_move other in (this', other', xpixmap_destroy this))"

text \<open>
  Cairo reports the status of a surface and of a context, \<open>None\<close> when there is no error.  Both are
  asked for when they are made and once more when they are together.
\<close>

type_synonym statuses = "nat \<Rightarrow> string option"

definition check_surface :: "string option \<Rightarrow> unit res" where
  "check_surface status =
     (case status of None \<Rightarrow> Inr () | Some msg \<Rightarrow> Inl (Runtime_error (''cairo surface error: '' @ msg)))"

definition check_context :: "string option \<Rightarrow> unit res" where
  "check_context status =
     (case status of None \<Rightarrow> Inr () | Some msg \<Rightarrow> Inl (Runtime_error (''cairo context error: '' @ msg)))"

definition cairo_new :: "statuses \<Rightarrow> unit res" where
  "cairo_new status =
     bindR (check_surface (status 0)) (\<lambda>_. bindR (check_context (status 1)) (\<lambda>_.
     bindR (check_context (status 2)) (\<lambda>_. check_surface (status 3))))"

lemma cairo_new_error: "cairo_new status = Inl e \<Longrightarrow> \<exists>msg. e = Runtime_error msg"
  by (auto simp: cairo_new_def check_surface_def check_context_def res_simps split: option.splits)

text \<open>\<open>GraphicContext\<close>: a pixmap, and cairo on it.\<close>

definition graphic_context_new :: "x_server \<Rightarrow> pixmap_answers \<times> statuses \<Rightarrow> (xpixmap \<times> x_request list) res" where
  "graphic_context_new x a =
     (case a of (answers, status) \<Rightarrow> bindR (xpixmap_new x answers) (\<lambda>pr. bindR (cairo_new status) (\<lambda>_. Inr pr)))"

text \<open>\<open>current_gc() = GraphicContext( window_ )\<close>: a temporary, moved from and then destroyed.\<close>

definition replace_pixmap :: "x_server \<Rightarrow> pixmap_answers \<times> statuses \<Rightarrow> xpixmap \<Rightarrow> (xpixmap \<times> x_request list) res" where
  "replace_pixmap x a old =
     bindR (graphic_context_new x a) (\<lambda>(tmp, created).
       let (this', tmp', freed) = xpixmap_assign old tmp
       in Inr (this', created @ freed @ xpixmap_destroy tmp'))"

text \<open>The pixmaps that the server holds after some requests.\<close>

fun pixmaps_after :: "nat set \<Rightarrow> x_request list \<Rightarrow> nat set" where
  "pixmaps_after held [] = held"
| "pixmaps_after held (Create_pixmap i sz # rs) = pixmaps_after (insert i held) rs"
| "pixmaps_after held (Free_pixmap i # rs) = pixmaps_after (held - {i}) rs"
| "pixmaps_after held (Present_pixmap i d r # rs) = pixmaps_after held rs"

lemma pixmaps_after_append [simp]: "pixmaps_after held (rs @ ss) = pixmaps_after (pixmaps_after held rs) ss"
  by (induction held rs rule: pixmaps_after.induct) simp_all

lemma xpixmap_new_value:
  "xpixmap_new x (i, geometry, answer) = Inr (p, reqs) \<Longrightarrow>
   \<exists>sz. p = \<lparr>connected = True, pixmap_id = i, pixmap_size = sz\<rparr> \<and> reqs = [Create_pixmap i sz]"
  by (auto simp: xpixmap_new_def res_simps)

lemma xpixmap_new_error: "xpixmap_new x a = Inl e \<Longrightarrow> \<exists>msg. e = Runtime_error msg"
  by (auto simp: xpixmap_new_def xwindow_size_def res_simps split: prod.splits
      dest: xcb_visual_error notnull_error check_noreply_error)

lemma graphic_context_new_value:
  "graphic_context_new x ((i, geometry, answer), status) = Inr (p, reqs) \<Longrightarrow>
   \<exists>sz. p = \<lparr>connected = True, pixmap_id = i, pixmap_size = sz\<rparr> \<and> reqs = [Create_pixmap i sz]"
  by (auto simp: graphic_context_new_def res_simps dest: xpixmap_new_value)

lemma graphic_context_new_error: "graphic_context_new x a = Inl e \<Longrightarrow> \<exists>msg. e = Runtime_error msg"
  by (auto simp: graphic_context_new_def res_simps split: prod.splits dest: xpixmap_new_error cairo_new_error)

lemma replace_pixmap_value:
  "replace_pixmap x ((i, geometry, answer), status) old = Inr (p, reqs) \<Longrightarrow>
   \<exists>sz. p = \<lparr>connected = True, pixmap_id = i, pixmap_size = sz\<rparr> \<and>
     reqs = Create_pixmap i sz # (if connected old then [Free_pixmap (pixmap_id old)] else [])"
  by (auto simp: replace_pixmap_def xpixmap_assign_def xpixmap_move_def xpixmap_destroy_def res_simps
      dest!: graphic_context_new_value)

lemma replace_pixmap_error: "replace_pixmap x a old = Inl e \<Longrightarrow> \<exists>msg. e = Runtime_error msg"
  by (auto simp: replace_pixmap_def xpixmap_assign_def xpixmap_move_def res_simps dest: graphic_context_new_error)

section \<open>Presenting a pixmap\<close>

text \<open>The server's numbers of the two events are 32 bits wide; an event carries the lower half.\<close>

record xwindow =
  complete_event :: u32
  idle_event :: u32
  is_complete :: bool
  is_idle :: bool

datatype x_event = Null_event | Generic_event "16 word" | Other_event

definition xwindow_new :: "u32 \<Rightarrow> u32 \<Rightarrow> xwindow" where
  "xwindow_new complete_id idle_id =
     \<lparr>complete_event = complete_id, idle_event = idle_id, is_complete = True, is_idle = True\<rparr>"

text \<open>The constructor, which makes three requests, and the later ones of the graph.\<close>

definition xwindow_create :: "(nat \<Rightarrow> nat option) \<Rightarrow> u32 \<Rightarrow> u32 \<Rightarrow> xwindow res" where
  "xwindow_create answer complete_id idle_id =
     bindR (check_noreply ''xcb_create_window_checked'' (answer 0)) (\<lambda>_.
     bindR (check_noreply ''xcb_present_select_input_checked'' (answer 1)) (\<lambda>_.
     bindR (check_noreply ''xcb_present_select_input_checked'' (answer 2)) (\<lambda>_.
       Inr (xwindow_new complete_id idle_id))))"

definition set_name :: "nat option \<Rightarrow> unit res" where
  "set_name answer = check_noreply ''xcb_change_property_checked'' answer"

definition map_window :: "nat option \<Rightarrow> unit res" where
  "map_window answer = check_noreply ''xcb_map_window_checked'' answer"

definition flush :: "int \<Rightarrow> unit res" where
  "flush result = (if result \<le> 0 then Inl (Runtime_error ''xcb_flush: failed'') else Inr ())"

definition handle_event :: "x_event \<Rightarrow> xwindow \<Rightarrow> xwindow res" where
  "handle_event event w =
     (case event of
        Null_event \<Rightarrow> bindR (notnull ''xcb_wait_for_event'' None) Inr
      | Generic_event event_type \<Rightarrow>
          if event_type = ucast (complete_event w) then Inr (w\<lparr>is_complete := True\<rparr>)
          else if event_type = ucast (idle_event w) then Inr (w\<lparr>is_idle := True\<rparr>)
          else Inl (Runtime_error ''unexpected present event'')
      | Other_event \<Rightarrow> Inr w)"

text \<open>
  \<open>None\<close> is a wait that the events do not end.  The events that were not looked at are returned.
\<close>

fun wait_until :: "(xwindow \<Rightarrow> bool) \<Rightarrow> x_event list \<Rightarrow> xwindow \<Rightarrow> (xwindow \<times> x_event list) res option" where
  "wait_until P [] w = (if P w then Some (Inr (w, [])) else None)"
| "wait_until P (e # es) w =
     (if P w then Some (Inr (w, e # es))
      else case handle_event e w of Inl err \<Rightarrow> Some (Inl err) | Inr w' \<Rightarrow> wait_until P es w')"

definition present ::
  "nat option \<Rightarrow> x_event list \<Rightarrow> xpixmap \<Rightarrow> nat \<Rightarrow> nat \<Rightarrow> xwindow \<Rightarrow>
   (xwindow \<times> x_event list \<times> x_request list) res option" where
  "present answer es pixmap divisor remainder w =
     (case wait_until is_complete es w of
        None \<Rightarrow> None
      | Some (Inl err) \<Rightarrow> Some (Inl err)
      | Some (Inr (w1, es1)) \<Rightarrow>
          (case check_noreply ''xcb_present_pixmap_checked'' answer of
             Inl err \<Rightarrow> Some (Inl err)
           | Inr _ \<Rightarrow>
               (case wait_until is_idle es1 (w1\<lparr>is_complete := False, is_idle := False\<rparr>) of
                  None \<Rightarrow> None
                | Some (Inl err) \<Rightarrow> Some (Inl err)
                | Some (Inr (w2, es2)) \<Rightarrow>
                    Some (Inr (w2, es2, [Present_pixmap (pixmap_id pixmap) divisor remainder])))))"

subsection \<open>What a wait has seen\<close>

definition says_complete :: "xwindow \<Rightarrow> x_event \<Rightarrow> bool" where
  "says_complete w e \<longleftrightarrow> e = Generic_event (ucast (complete_event w))"

definition says_idle :: "xwindow \<Rightarrow> x_event \<Rightarrow> bool" where
  "says_idle w e \<longleftrightarrow> e = Generic_event (ucast (idle_event w)) \<and> \<not> says_complete w e"

definition same_ids :: "xwindow \<Rightarrow> xwindow \<Rightarrow> bool" where
  "same_ids w' w \<longleftrightarrow> complete_event w' = complete_event w \<and> idle_event w' = idle_event w"

lemma handle_event_flags:
  "handle_event e w = Inr w' \<Longrightarrow> same_ids w' w \<and>
     (is_complete w' \<longleftrightarrow> is_complete w \<or> says_complete w e) \<and> (is_idle w' \<longleftrightarrow> is_idle w \<or> says_idle w e)"
  by (auto simp: handle_event_def notnull_def same_ids_def says_complete_def says_idle_def split: x_event.splits if_splits)

lemma says_same_ids: "same_ids w' w \<Longrightarrow> says_complete w' = says_complete w \<and> says_idle w' = says_idle w"
  by (auto simp: same_ids_def says_complete_def says_idle_def fun_eq_iff)

lemma wait_until_seen:
  "wait_until P es w = Some (Inr (w', es')) \<Longrightarrow>
   \<exists>seen. es = seen @ es' \<and> P w' \<and> same_ids w' w \<and>
     (is_complete w' \<longleftrightarrow> is_complete w \<or> (\<exists>e \<in> set seen. says_complete w e)) \<and>
     (is_idle w' \<longleftrightarrow> is_idle w \<or> (\<exists>e \<in> set seen. says_idle w e))"
proof (induction P es w rule: wait_until.induct)
  case (1 P w)
  then show ?case by (auto simp: same_ids_def split: if_splits)
next
  case (2 P e es w)
  show ?case
  proof (cases "P w")
    case True
    with "2.prems" show ?thesis by (intro exI [of _ "[]"]) (simp add: same_ids_def)
  next
    case False
    with "2.prems" obtain w1 where w1: "handle_event e w = Inr w1" "wait_until P es w1 = Some (Inr (w', es'))"
      by (auto split: sum.splits)
    from "2.IH" [OF False w1] obtain seen where s: "es = seen @ es'" "P w'" "same_ids w' w1"
      "is_complete w' \<longleftrightarrow> is_complete w1 \<or> (\<exists>e \<in> set seen. says_complete w1 e)"
      "is_idle w' \<longleftrightarrow> is_idle w1 \<or> (\<exists>e \<in> set seen. says_idle w1 e)" by blast
    note f = handle_event_flags [OF w1(1)]
    then have "says_complete w1 = says_complete w" "says_idle w1 = says_idle w" by (simp_all add: says_same_ids)
    with s f show ?thesis by (intro exI [of _ "e # seen"]) (auto simp: same_ids_def)
  qed
qed

text \<open>A pixmap is presented when the one before is complete; the call returns when it is idle.\<close>

lemma present_in_turn:
  assumes "present answer es pixmap d r w = Some (Inr (w', es', reqs))"
  shows "\<exists>before after. es = before @ after @ es' \<and> same_ids w' w \<and> is_idle w' \<and>
    (is_complete w \<or> (\<exists>e \<in> set before. says_complete w e)) \<and> (\<exists>e \<in> set after. says_idle w e) \<and>
    (is_complete w' \<longleftrightarrow> (\<exists>e \<in> set after. says_complete w e)) \<and> reqs = [Present_pixmap (pixmap_id pixmap) d r]"
proof -
  from assms obtain w1 es1 where a: "wait_until is_complete es w = Some (Inr (w1, es1))"
    "wait_until is_idle es1 (w1\<lparr>is_complete := False, is_idle := False\<rparr>) = Some (Inr (w', es'))"
    "reqs = [Present_pixmap (pixmap_id pixmap) d r]"
    by (auto simp: present_def split: option.splits sum.splits)
  obtain before where b: "es = before @ es1" "is_complete w1" "same_ids w1 w"
    "is_complete w1 \<longleftrightarrow> is_complete w \<or> (\<exists>e \<in> set before. says_complete w e)"
    using wait_until_seen [OF a(1)] by blast
  let ?w = "w1\<lparr>is_complete := False, is_idle := False\<rparr>"
  have s: "same_ids ?w w" using b(3) by (simp add: same_ids_def)
  obtain after where c: "es1 = after @ es'" "is_idle w'" "same_ids w' ?w"
    "is_complete w' \<longleftrightarrow> is_complete ?w \<or> (\<exists>e \<in> set after. says_complete ?w e)"
    "is_idle w' \<longleftrightarrow> is_idle ?w \<or> (\<exists>e \<in> set after. says_idle ?w e)"
    using wait_until_seen [OF a(2)] by blast
  have "same_ids w' w" using c(3) s by (simp add: same_ids_def)
  then show ?thesis using a(3) b c says_same_ids [OF s]
    by (intro exI [of _ before] exI [of _ after]) simp
qed

lemma wait_until_ends:
  assumes "\<And>w e. same_ids w w0 \<Longrightarrow> R e \<Longrightarrow> \<exists>w'. handle_event e w = Inr w'"
    and "\<And>w e w'. same_ids w w0 \<Longrightarrow> Q e \<Longrightarrow> handle_event e w = Inr w' \<Longrightarrow> P w'"
    and "same_ids w w0" "\<forall>e \<in> set es. R e" "P w \<or> (\<exists>e \<in> set es. Q e)"
  shows "\<exists>w' es'. wait_until P (es @ rest) w = Some (Inr (w', es' @ rest))"
  using assms(3-)
proof (induction es arbitrary: w)
  case Nil
  then have "wait_until P rest w = Some (Inr (w, rest))" by (cases rest) simp_all
  then show ?case by (intro exI [of _ w] exI [of _ "[]"]) simp
next
  case (Cons e es)
  show ?case
  proof (cases "P w")
    case True
    then show ?thesis by (intro exI [of _ w] exI [of _ "e # es"]) simp
  next
    case False
    obtain w1 where w1: "handle_event e w = Inr w1" using assms(1) [OF Cons.prems(1)] Cons.prems(2) by fastforce
    have s: "same_ids w1 w0" using handle_event_flags [OF w1] Cons.prems(1) by (simp add: same_ids_def)
    have "P w1 \<or> (\<exists>e \<in> set es. Q e)" using Cons.prems(3) False assms(2) [OF Cons.prems(1) _ w1] by auto
    with Cons.IH [OF s] Cons.prems(2) w1 False show ?thesis by simp
  qed
qed

text \<open>
  If the pixmap before is complete or was said to be, and the server sends the two events for this one in either
  order, the call returns; then this pixmap is complete or was said to be.
\<close>

definition expected :: "xwindow \<Rightarrow> x_event \<Rightarrow> bool" where
  "expected w e \<longleftrightarrow> e = Other_event \<or> says_complete w e \<or> says_idle w e"

lemma expected_handled: "same_ids v w \<Longrightarrow> expected w e \<Longrightarrow> \<exists>w'. handle_event e v = Inr w'"
  by (auto simp: expected_def handle_event_def says_complete_def says_idle_def same_ids_def)

lemma present_returns:
  assumes "is_complete w \<or> (\<exists>e \<in> set before. says_complete w e)"
    and "\<forall>e \<in> set (before @ es). expected w e" "\<exists>e \<in> set es. says_idle w e" "\<exists>e \<in> set es. says_complete w e"
  shows "\<exists>w' es'. present None (before @ es) pixmap d r w = Some (Inr (w', es', [Present_pixmap (pixmap_id pixmap) d r])) \<and>
    same_ids w' w \<and> (is_complete w' \<or> (\<exists>e \<in> set es'. says_complete w e)) \<and> set es' \<subseteq> set (before @ es)"
proof -
  have "\<exists>w' es'. wait_until is_complete (before @ es) w = Some (Inr (w', es' @ es))"
  proof (rule wait_until_ends [where R = "expected w" and Q = "says_complete w" and ?w0.0 = w])
    show "is_complete w'" if "same_ids v w" "says_complete w e" "handle_event e v = Inr w'" for v e w'
      using handle_event_flags [OF that(3)] that(2) says_same_ids [OF that(1)] by simp
  qed (use assms(1,2) expected_handled in \<open>auto simp: same_ids_def\<close>)
  then obtain w1 es1 where w1: "wait_until is_complete (before @ es) w = Some (Inr (w1, es1 @ es))" by blast
  let ?w = "w1\<lparr>is_complete := False, is_idle := False\<rparr>"
  from wait_until_seen [OF w1] obtain seen where s1: "before = seen @ es1" "same_ids w1 w" by auto
  then have s: "same_ids ?w w" by (simp add: same_ids_def)
  have "\<exists>w' es'. wait_until is_idle ((es1 @ es) @ []) ?w = Some (Inr (w', es' @ []))"
  proof (rule wait_until_ends [where R = "expected w" and Q = "says_idle w" and ?w0.0 = w])
    show "is_idle w'" if "same_ids v w" "says_idle w e" "handle_event e v = Inr w'" for v e w'
      using handle_event_flags [OF that(3)] that(2) says_same_ids [OF that(1)] by simp
  qed (use assms(2,3) s s1(1) expected_handled in auto)
  then obtain w2 es2 where w2: "wait_until is_idle (es1 @ es) ?w = Some (Inr (w2, es2))" by auto
  from wait_until_seen [OF w2] obtain seen2 where s2: "es1 @ es = seen2 @ es2" "same_ids w2 ?w"
    "is_complete w2 \<longleftrightarrow> is_complete ?w \<or> (\<exists>e \<in> set seen2. says_complete ?w e)" by blast
  have "present None (before @ es) pixmap d r w = Some (Inr (w2, es2, [Present_pixmap (pixmap_id pixmap) d r]))"
    by (simp add: present_def w1 w2 check_noreply_def)
  moreover have "same_ids w2 w" using s s2(2) by (simp add: same_ids_def)
  moreover have sets: "set seen2 \<union> set es2 = set es1 \<union> set es" using s2(1) by (metis set_append)
  moreover have "is_complete w2 \<or> (\<exists>e \<in> set es2. says_complete w e)"
  proof -
    obtain e where "e \<in> set es" "says_complete w e" using assms(4) by blast
    with sets s2(3) says_same_ids [OF s] show ?thesis by auto
  qed
  ultimately show ?thesis using s1(1) by (intro exI [of _ w2] exI [of _ es2]) auto
qed

end
