(* ===== verification/Graph_Drawing.thy ===== *)
theory Graph_Drawing
  imports Live_Graph Float_Facts Display
begin

text \<open>
  \<open>src/graphing/graph.cc\<close>: what a graph shows.  A frame turns the data points and the graph's state
  (its scale and its labels) into new ones and a list of drawing instructions, the calls of cairo.
  What the drawing looks like is up to cairo; the texts of labels are given by what they stand for.
  The answers of the X server, the extents of a text (pango) and the effect of a rotation (cairo)
  are parameters.
\<close>

section \<open>State\<close>

text \<open>
  The estimate for the current bin is divided by the time since the bin began, which can be 0, so
  its value may be infinite or not a number.
\<close>

datatype flnum = Num rat | Infinite bool | Not_a_number

record y_label =
  label_height :: rat
  intensity :: rat

text \<open>A style: the colour, and whether the line is filled.\<close>

type_synonym style = "(rat \<times> rat \<times> rat \<times> rat) \<times> bool"

record graph =
  styles :: "style list"
  x_tick_labels :: "int list"
  y_tick_labels :: "y_label list"
  target_min_y :: rat
  target_max_y :: rat
  bottom_edge :: rat
  top_edge :: rat
  current_gc :: nat
  gcs :: "xpixmap list"

text \<open>
  Three pixmaps are made, then the window gets its name and is shown.  The answers of the server are
  those for each pixmap, for the name, for showing the window and for the flush.
\<close>

definition graph_new ::
  "x_server \<Rightarrow> (nat \<Rightarrow> pixmap_answers \<times> statuses) \<Rightarrow> nat option \<times> nat option \<times> int \<Rightarrow> rat \<Rightarrow> rat \<Rightarrow> style list \<Rightarrow>
   (graph \<times> x_request list) res" where
  "graph_new x answers window_answers min_y max_y stys =
     bindR (graphic_context_new x (answers 0)) (\<lambda>(p0, reqs0).
     bindR (graphic_context_new x (answers 1)) (\<lambda>(p1, reqs1).
     bindR (graphic_context_new x (answers 2)) (\<lambda>(p2, reqs2).
     case window_answers of (named, mapped, flushed) \<Rightarrow>
     bindR (set_name named) (\<lambda>_. bindR (map_window mapped) (\<lambda>_. bindR (flush flushed) (\<lambda>_.
       Inr (\<lparr>styles = stys, x_tick_labels = [], y_tick_labels = [], target_min_y = min_y, target_max_y = max_y,
              bottom_edge = min_y, top_edge = max_y, current_gc = 0, gcs = [p0, p1, p2]\<rparr>,
            reqs0 @ reqs1 @ reqs2)))))))"

section \<open>The data points that are still needed\<close>

definition cutoff :: "rat \<Rightarrow> rat \<Rightarrow> rat" where
  "cutoff t logical_width = flt (flt (t - logical_width) - 1)"

fun prune_line :: "rat \<Rightarrow> (rat \<times> rat) list \<Rightarrow> (rat \<times> rat) list" where
  "prune_line c (p # q # rest) = (if fst p < c \<and> fst q < c then prune_line c (q # rest) else p # q # rest)"
| "prune_line c line = line"

section \<open>The scale\<close>

text \<open>\<open>numeric_limits<float>::min()\<close> is the smallest positive normal number.\<close>

definition float_min :: rat where "float_min = 1 / 2 ^ 126"

definition larger :: "rat \<Rightarrow> rat \<Rightarrow> rat" where
  "larger m y = (if m < y then y else m)"

text \<open>An infinite scale cannot be converted to the integers between which the labels lie.\<close>

definition larger_value :: "rat \<Rightarrow> flnum \<Rightarrow> rat res" where
  "larger_value m v =
     (case v of
        Num y \<Rightarrow> Inr (larger m y)
      | Infinite True \<Rightarrow> Inl (Undefined_behaviour ''conversion of an infinity'')
      | _ \<Rightarrow> Inr m)"

fun scan_lines :: "rat \<Rightarrow> style list \<Rightarrow> (rat \<times> rat) list list \<Rightarrow> flnum list \<Rightarrow> rat \<Rightarrow> rat res" where
  "scan_lines weight (s # ss) (line # lines) (v # vs) m =
     (if snd s then scan_lines weight ss lines vs m
      else let m' = foldl larger m (map snd line)
           in bindR (if dbl (4 / 10) < weight then larger_value m' v else Inr m') (scan_lines weight ss lines vs))"
| "scan_lines weight [] (line # lines) vs m = Inl Out_of_range"
| "scan_lines weight ss lines vs m = Inr m"

definition smooth :: "rat \<Rightarrow> rat \<Rightarrow> rat" where
  "smooth x target = flt (dbl (dbl (x * dbl (95 / 100)) + dbl (target * dbl (5 / 100))))"

definition rescale :: "rat \<Rightarrow> graph \<Rightarrow> graph" where
  "rescale max_value g =
     (let t1 = (if target_max_y g < dbl (max_value * dbl (12 / 10))
                then max (flt (max_value * flt (14 / 10))) (flt (target_min_y g + 1)) else target_max_y g);
          t2 = (if dbl (max_value * dbl (18 / 10)) < t1
                then max (flt (max_value * flt (16 / 10))) (flt (target_min_y g + 1)) else t1)
      in g\<lparr>target_max_y := t2, top_edge := smooth (top_edge g) t2,
           bottom_edge := smooth (bottom_edge g) (target_min_y g)\<rparr>)"

section \<open>Labels of the x axis\<close>

text \<open>\<open>lrintf\<close> rounds to nearest even; the conversion of its result to \<open>int\<close> keeps 32 bits.\<close>

definition to_int :: "rat \<Rightarrow> int" where
  "to_int x = sint (of_int (round_even x) :: u32)"

lemma to_int_bounds: "- (2 ^ 31) \<le> to_int x" "to_int x < 2 ^ 31"
  using sint_ge [of "of_int (round_even x) :: u32"] sint_lt [of "of_int (round_even x) :: u32"] by (simp_all add: to_int_def)

definition drop_old_labels :: "rat \<Rightarrow> int list \<Rightarrow> int list" where
  "drop_old_labels c = dropWhile (\<lambda>n. flt (of_int n) < c)"

definition next_label :: "rat \<Rightarrow> int list \<Rightarrow> int res" where
  "next_label t ns =
     (if ns = [] then Inr (to_int t)
      else if last ns < 2 ^ 31 - 1 then Inr (last ns + 1) else Inl (Undefined_behaviour ''signed overflow''))"

function add_labels :: "rat \<Rightarrow> int list \<Rightarrow> int list res" where
  "add_labels t ns =
     (if ns = [] \<or> flt (of_int (last ns)) < flt (t + 1)
      then bindR (next_label t ns) (\<lambda>n. add_labels t (ns @ [n])) else Inr ns)"
  by pat_completeness auto
termination
proof (relation "measure (\<lambda>(t, ns). if ns = [] then 2 ^ 32 + 1 else nat (2 ^ 31 - last ns))")
  fix t ns n
  assume "next_label t ns = Inr n"
  then show "((t, ns @ [n]), t, ns) \<in> measure (\<lambda>(t, ns). if ns = [] then 2 ^ 32 + 1 else nat (2 ^ 31 - last ns))"
    using to_int_bounds [of t] by (auto simp: next_label_def split: if_splits)
qed simp

declare add_labels.simps [simp del]

section \<open>Labels of the y axis\<close>

definition project_height :: "graph \<Rightarrow> rat \<Rightarrow> rat" where
  "project_height g x = flt (flt (x - bottom_edge g) / flt (top_edge g - bottom_edge g))"

text \<open>Doubling is exact.\<close>

function label_spacing_from :: "rat \<Rightarrow> rat \<Rightarrow> rat" where
  "label_spacing_from spacing limit = (if 0 < spacing \<and> spacing < limit then label_spacing_from (2 * spacing) limit else spacing)"
  by pat_completeness auto
termination
proof (relation "measure (\<lambda>(s, l). nat \<lceil>l / s\<rceil>)")
  fix spacing limit :: rat
  assume a: "0 < spacing \<and> spacing < limit"
  define y where "y = limit / spacing"
  have y: "1 < y" using a by (simp add: y_def)
  have less: "\<lceil>y / 2\<rceil> < \<lceil>y\<rceil>"
  proof (cases "y \<le> 2")
    case True
    then have "\<lceil>y / 2\<rceil> \<le> 1" by (simp add: ceiling_le_iff)
    moreover have "1 < \<lceil>y\<rceil>" using y by (simp add: less_ceiling_iff)
    ultimately show ?thesis by (rule order_le_less_trans)
  next
    case False
    then have "y / 2 \<le> of_int (\<lceil>y\<rceil> - 1)" using le_of_int_ceiling [of y] by (simp del: le_of_int_ceiling)
    then show ?thesis by (simp only: ceiling_le_iff [symmetric])
  qed
  have "nat \<lceil>y / 2\<rceil> < nat \<lceil>y\<rceil>" using y less by (simp add: zless_nat_eq_int_zless)
  moreover have "limit / (2 * spacing) = y / 2" by (simp add: y_def)
  ultimately show "((2 * spacing, limit), spacing, limit) \<in> measure (\<lambda>(s, l). nat \<lceil>l / s\<rceil>)"
    unfolding in_measure prod.case by (simp only: y_def [symmetric])
qed simp

declare label_spacing_from.simps [simp del]

definition label_range :: "graph \<Rightarrow> int \<times> int" where
  "label_range g = (to_int (of_int \<lfloor>bottom_edge g\<rfloor>), to_int (of_int \<lceil>top_edge g\<rceil>))"

definition label_spacing :: "int \<Rightarrow> int \<Rightarrow> rat" where
  "label_spacing label_bottom label_top =
     label_spacing_from (1 / 4) (dbl (of_int (label_top - label_bottom) / 6))"

text \<open>
  The code divides and multiplies by the spacing, as if to round down to a multiple of it, but on
  numbers that are not integers.
\<close>

definition to_multiple :: "rat \<Rightarrow> rat \<Rightarrow> rat" where
  "to_multiple x spacing = dbl (dbl (x / spacing) * spacing)"

partial_function (option) heights_from :: "graph \<Rightarrow> rat \<Rightarrow> rat \<Rightarrow> rat \<Rightarrow> rat list option" where
  "heights_from g spacing label_top val =
     (if val \<le> label_top
      then Option.bind (heights_from g spacing label_top (dbl (val + spacing))) (\<lambda>vs.
             let ph = project_height g (flt val) in Some (if ph < 0 \<or> 1 < ph then vs else val # vs))
      else Some [])"

declare heights_from.simps [code]

definition labels_that_belong :: "graph \<Rightarrow> rat list option" where
  "labels_that_belong g =
     (let (b, t) = label_range g; spacing = label_spacing b t
      in heights_from g spacing (to_multiple (of_int t) spacing) (to_multiple (of_int b) spacing))"

text \<open>After a label was erased the next one is skipped.\<close>

fun cull :: "y_label list \<Rightarrow> y_label list" where
  "cull (l # ls) =
     (if intensity l < dbl (1 / 100) then (case ls of [] \<Rightarrow> [] | l' # ls' \<Rightarrow> l' # cull ls') else l # cull ls)"
| "cull [] = []"

text \<open>Looking for a height among those that belong, and marking it.\<close>

fun mark :: "rat \<Rightarrow> (rat \<times> bool) list \<Rightarrow> (bool \<times> (rat \<times> bool) list) res" where
  "mark h [] = Inr (False, [])"
| "mark h ((v, found) # ws) =
     (if h = v then assertR (\<not> found) (Inr (True, (v, True) # ws))
      else bindR (mark h ws) (\<lambda>(belongs, ws'). Inr (belongs, (v, found) # ws')))"

definition fade :: "bool \<Rightarrow> y_label \<Rightarrow> y_label" where
  "fade belongs l =
     l\<lparr>intensity := (if belongs then flt (dbl (dbl (dbl (95 / 100) * intensity l) + dbl (5 / 100)))
                     else flt (dbl (dbl (95 / 100) * intensity l)))\<rparr>"

fun adjust :: "y_label list \<Rightarrow> (rat \<times> bool) list \<Rightarrow> (y_label list \<times> (rat \<times> bool) list) res" where
  "adjust [] ws = Inr ([], ws)"
| "adjust (l # ls) ws =
     bindR (mark (label_height l) ws) (\<lambda>(belongs, ws').
     bindR (adjust ls ws') (\<lambda>(ls', ws''). Inr (fade belongs l # ls', ws'')))"

text \<open>The labels that were there before, and the new ones.\<close>

definition new_y_labels :: "rat list \<Rightarrow> y_label list \<Rightarrow> (y_label list \<times> y_label list) res" where
  "new_y_labels heights ls =
     bindR (adjust (cull ls) (map (\<lambda>h. (h, False)) heights)) (\<lambda>(ls', ws).
       Inr (ls', map (\<lambda>w. \<lparr>label_height = fst w, intensity = flt (5 / 100)\<rparr>) (filter (\<lambda>w. \<not> snd w) ws)))"

section \<open>Drawing\<close>

datatype caption = Second int | Quantity rat | X_label | Y_label | Info

datatype drawing =
    Identity_matrix
  | New_path
  | Rectangle rat rat nat nat
  | Source_rgba rat rat rat rat
  | Source_fadeout
  | Fill
  | Stroke
  | Line_width nat
  | Move_to rat flnum
  | Line_to rat flnum
  | Rotate rat
  | Scale rat rat
  | Translate_device rat rat
  | Layout_path caption
  | Append_path caption

subsection \<open>Texts\<close>

text \<open>The constructor lays out the text as the current path, of which it keeps a copy.\<close>

definition new_text :: "caption \<Rightarrow> drawing list" where
  "new_text txt = [Identity_matrix, New_path, Layout_path txt]"

text \<open>The left upper corner, the width and the height.\<close>

type_synonym extent = "rat \<times> rat \<times> rat \<times> rat"

definition to_device :: "(rat \<times> rat \<Rightarrow> rat \<times> rat) \<Rightarrow> extent \<Rightarrow> extent" where
  "to_device user_to_device e =
     (let (x, y, w, h) = e;
          (x1, y1) = user_to_device (x, y);
          (x2, y2) = user_to_device (dbl (x + w), dbl (y + h))
      in (x1, y1, dbl (x2 - x1), dbl (y2 - y1)))"

text \<open>
  The centre is found in the coordinates of the device; \<open>Translate_device\<close> stands for its conversion
  to those of the user and the translation to it.
\<close>

definition centre :: "rat \<Rightarrow> rat \<Rightarrow> rat \<Rightarrow> rat" where
  "centre x corner len = dbl (dbl (x - corner) - dbl (len / 2))"

definition draw_centered_at :: "(caption \<Rightarrow> extent) \<Rightarrow> caption \<Rightarrow> rat \<Rightarrow> rat \<Rightarrow> rat option \<Rightarrow> drawing list" where
  "draw_centered_at extent_of txt x y max_width =
     [Identity_matrix, New_path] @
     (let (ex, ey, w, h) = to_device id (extent_of txt)
      in case max_width of
           Some m \<Rightarrow>
             if m < w
             then let scale_factor = dbl (m / w)
                  in [Scale scale_factor scale_factor,
                      Translate_device (centre x ex (dbl (w * scale_factor))) (centre y ey (dbl (h * scale_factor)))]
             else [Translate_device (centre x ex w) (centre y ey h)]
         | None \<Rightarrow> [Translate_device (centre x ex w) (centre y ey h)]) @
     [Append_path txt]"

definition draw_centered_rotated_at ::
  "(rat \<times> rat \<Rightarrow> rat \<times> rat) \<Rightarrow> (caption \<Rightarrow> extent) \<Rightarrow> caption \<Rightarrow> rat \<Rightarrow> rat \<Rightarrow> drawing list" where
  "draw_centered_rotated_at user_to_device extent_of txt x y =
     (let (ex, ey, w, h) = to_device user_to_device (extent_of txt)
      in [Identity_matrix, New_path, Rotate (- dbl (dbl (31415926 / 10000000) / 2)),
          Translate_device (centre x ex w) (centre y ey h), Append_path txt])"

subsection \<open>Lines\<close>

definition x_position :: "nat \<Rightarrow> rat \<Rightarrow> rat \<Rightarrow> rat \<Rightarrow> rat" where
  "x_position width t x logical_width =
     flt (of_nat width - flt (flt (flt (t - x) * of_nat width) / logical_width))"

text \<open>The sizes of a window are unsigned, so below 40 pixels the difference wraps.\<close>

definition less_margin :: "nat \<Rightarrow> nat" where
  "less_margin len = unat (of_nat len - 40 :: u32)"

definition chart_height :: "graph \<Rightarrow> rat \<Rightarrow> nat \<Rightarrow> rat" where
  "chart_height g x window_height =
     flt (dbl (dbl (of_nat (less_margin window_height) *
                    dbl (dbl (dbl (825 / 1000) * flt (1 - project_height g x)) + dbl (25 / 1000))) +
               dbl (dbl (825 / 1000) * 40)))"

definition chart_position :: "graph \<Rightarrow> flnum \<Rightarrow> nat \<Rightarrow> flnum" where
  "chart_position g y window_height =
     (case y of
        Num x \<Rightarrow> Num (chart_height g x window_height)
      | Infinite positive \<Rightarrow> if less_margin window_height = 0 then Not_a_number else Infinite (\<not> positive)
      | Not_a_number \<Rightarrow> Not_a_number)"

text \<open>The frame's time, the width of the chart in seconds and the size of the drawing.\<close>

record frame =
  now_t :: rat
  span :: rat
  drawing_size :: "nat \<times> nat"

definition x_at :: "frame \<Rightarrow> rat \<Rightarrow> rat" where
  "x_at f x = x_position (fst (drawing_size f)) (now_t f) x (span f)"

definition y_at :: "graph \<Rightarrow> frame \<Rightarrow> flnum \<Rightarrow> flnum" where
  "y_at g f y = chart_position g y (snd (drawing_size f))"

definition begin_line :: "graph \<Rightarrow> frame \<Rightarrow> rat \<Rightarrow> rat \<Rightarrow> drawing list" where
  "begin_line g f x y = [Identity_matrix, Line_width 3, Move_to (x_at f x) (y_at g f (Num y))]"

definition add_segment :: "graph \<Rightarrow> frame \<Rightarrow> rat \<Rightarrow> flnum \<Rightarrow> drawing list" where
  "add_segment g f x y = [Line_to (x_at f x) (y_at g f y)]"

definition end_line :: "graph \<Rightarrow> frame \<Rightarrow> rat \<Rightarrow> bool \<Rightarrow> drawing list" where
  "end_line g f x fill =
     (if fill then [Line_to (of_nat (fst (drawing_size f))) (y_at g f (Num 0)), Line_to (x_at f x) (y_at g f (Num 0)), Fill]
      else [Stroke])"

text \<open>The points of a line; a pen that is down remembers the time of the last point.\<close>

fun draw_points :: "graph \<Rightarrow> frame \<Rightarrow> bool \<Rightarrow> (rat \<times> rat) list \<Rightarrow> rat option \<Rightarrow> drawing list \<times> rat option" where
  "draw_points g f fill [] pen = ([], pen)"
| "draw_points g f fill ((x, y) # pts) pen =
     (let (ds, pen') =
        (case pen of
           Some last_x \<Rightarrow> if 0 \<le> y then (add_segment g f x (Num y), Some x) else (end_line g f last_x fill, None)
         | None \<Rightarrow> if 0 \<le> y then (begin_line g f x y, Some x) else ([], None));
          (ds', pen'') = draw_points g f fill pts pen'
      in (ds @ ds', pen''))"

text \<open>The last segment leads to the estimate for the current bin, by its weight.\<close>

definition weighted :: "rat \<Rightarrow> flnum \<Rightarrow> rat \<Rightarrow> flnum" where
  "weighted weight v y =
     (case v of
        Num x \<Rightarrow> Num (flt (dbl (dbl (weight * x) + dbl (dbl (1 - weight) * y))))
      | Infinite s \<Rightarrow> if weight = 0 then Not_a_number else Infinite s
      | Not_a_number \<Rightarrow> Not_a_number)"

definition not_negative :: "flnum \<Rightarrow> bool" where
  "not_negative v = (case v of Num x \<Rightarrow> 0 \<le> x | Infinite positive \<Rightarrow> positive | Not_a_number \<Rightarrow> False)"

definition draw_line :: "graph \<Rightarrow> frame \<Rightarrow> rat \<Rightarrow> style \<times> (rat \<times> rat) list \<times> flnum \<Rightarrow> drawing list" where
  "draw_line g f weight l =
     (case l of (((r, gr, b, a), fill), line, v) \<Rightarrow>
        if line = [] then []
        else let (ds, pen) = draw_points g f fill line None
             in Source_rgba r gr b a # ds @
                (case pen of
                   None \<Rightarrow> []
                 | Some _ \<Rightarrow>
                     (if 0 \<le> snd (last line) \<and> not_negative v
                      then add_segment g f (now_t f) (weighted weight v (snd (last line))) else []) @
                     end_line g f (fst (hd line)) fill))"

definition dark_blue :: "rat \<Rightarrow> drawing" where
  "dark_blue a = Source_rgba 0 0 (dbl (4 / 10)) a"

definition draw_x_label :: "(caption \<Rightarrow> extent) \<Rightarrow> graph \<Rightarrow> frame \<Rightarrow> nat \<times> nat \<Rightarrow> int \<Rightarrow> drawing list" where
  "draw_x_label ext g f window n =
     (let x = x_position (fst window) (now_t f) (flt (of_int n)) (span f)
      in draw_centered_at ext (Second n) x (dbl (dbl (of_nat (snd window) * 9) / 10))
           (Some (dbl (dbl (dbl (85 / 100) * of_nat (fst window)) / span f))) @
         [dark_blue 1, Fill, Identity_matrix, Line_width 2,
          Move_to x (Num (chart_height g (bottom_edge g) (snd window))),
          Line_to x (Num (chart_height g (top_edge g) (snd window))), dark_blue (1 / 4), Stroke])"

definition draw_grid_line :: "graph \<Rightarrow> nat \<times> nat \<Rightarrow> y_label \<Rightarrow> drawing list" where
  "draw_grid_line g window l =
     (let y = chart_height g (flt (label_height l)) (snd window)
      in [Identity_matrix, Line_width 1, Move_to 0 (Num y), Line_to (of_nat (fst window)) (Num y),
          dark_blue (dbl (1 / 4 * intensity l)), Stroke])"

definition draw_y_label :: "(caption \<Rightarrow> extent) \<Rightarrow> graph \<Rightarrow> nat \<times> nat \<Rightarrow> y_label \<Rightarrow> drawing list" where
  "draw_y_label ext g window l =
     draw_centered_at ext (Quantity (label_height l)) 100 (chart_height g (flt (label_height l)) (snd window)) None @
     [dark_blue (intensity l), Fill]"

section \<open>A frame\<close>

text \<open>
  What surrounds a frame: the answers to the questions for the window's geometry, those for a pixmap
  that is made, the extents of texts and what a rotation makes of a point.
\<close>

record surroundings =
  server :: x_server
  geometry :: "nat \<Rightarrow> (nat \<times> nat) option"
  generated_id :: nat
  creation_answer :: "nat option"
  cairo_status :: statuses
  extent_of :: "caption \<Rightarrow> extent"
  rotated_to_device :: "rat \<times> rat \<Rightarrow> rat \<times> rat"

definition ended :: "'a option \<Rightarrow> 'a res" where
  "ended m = (case m of None \<Rightarrow> Inl (Undefined_behaviour ''loop without end'') | Some x \<Rightarrow> Inr x)"

text \<open>
  A new pixmap is made if the window has another size than the one whose turn it is; the size is
  then asked for again.
\<close>

definition fit_pixmap :: "surroundings \<Rightarrow> nat \<times> nat \<Rightarrow> graph \<Rightarrow> (xpixmap \<times> x_request list) res" where
  "fit_pixmap s window g =
     (let p = gcs g ! current_gc g
      in if window = pixmap_size p then Inr (p, [])
         else replace_pixmap (server s) ((generated_id s, geometry s 2, creation_answer s), cairo_status s) p)"

text \<open>Everything that one frame shows, once its scale and its labels are known.\<close>

definition draw_frame ::
  "surroundings \<Rightarrow> graph \<Rightarrow> frame \<Rightarrow> nat \<times> nat \<Rightarrow> rat \<Rightarrow> int list \<Rightarrow> int list \<Rightarrow> y_label list \<Rightarrow> y_label list \<Rightarrow>
   (style \<times> (rat \<times> rat) list \<times> flnum) list \<Rightarrow> drawing list" where
  "draw_frame s g f window current_weight new_xs xs ys new_ys lines =
     [New_path, Identity_matrix, Rectangle 0 0 (fst window) (snd window), Source_rgba 1 1 1 1, Fill] @
     concat (map (\<lambda>n. new_text (Second n)) new_xs) @
     concat (map (draw_x_label (extent_of s) g f window) xs) @
     draw_centered_at (extent_of s) X_label (of_nat (35 + fst window div 2))
       (dbl (dbl (of_nat (snd window) * dbl (96 / 10)) / 10)) None @
     [dark_blue 1, Fill] @
     concat (map (draw_line g f current_weight) lines) @
     concat (map (\<lambda>l. new_text (Quantity (label_height l))) new_ys) @
     concat (map (draw_grid_line g window) (ys @ new_ys)) @
     [New_path, Identity_matrix, Rectangle 0 0 190 (snd window), Source_fadeout, Fill] @
     draw_centered_at (extent_of s) Info (of_nat (fst window div 2)) 20 (Some (of_nat (less_margin (fst window)))) @
     [Source_rgba (dbl (4 / 10)) 0 0 1, Fill] @
     draw_centered_rotated_at (rotated_to_device s) (extent_of s) Y_label 25 (dbl (of_nat (snd window) * dbl (4375 / 10000))) @
     [dark_blue 1, Fill] @
     concat (map (draw_y_label (extent_of s) g window) (ys @ new_ys))"

text \<open>
  \<open>blocking_draw\<close> in two parts.  Under \<open>data_mutex_\<close>, the points that have left the chart are removed and the
  rest is copied; the frame is made of the copy alone.  Its result has the graph, what is drawn and on
  which pixmap, and the requests before the pixmap is presented.  The first answer about the window's size was
  used for the width of the chart.
\<close>

definition prune_points :: "rat \<Rightarrow> rat \<Rightarrow> (rat \<times> rat) list list \<Rightarrow> (rat \<times> rat) list list" where
  "prune_points t logical_width data = map (prune_line (cutoff t logical_width)) data"

definition draw_snapshot ::
  "surroundings \<Rightarrow> rat \<Rightarrow> rat \<Rightarrow> flnum list \<Rightarrow> rat \<Rightarrow> (rat \<times> rat) list list \<Rightarrow> graph \<Rightarrow>
   (graph \<times> drawing list \<times> x_request list) res" where
  "draw_snapshot s t logical_width current_values current_weight snapshot g =
     assertR (length snapshot = length current_values)
        (assertR (0 \<le> current_weight) (assertR (current_weight \<le> 1)
          (bindR (scan_lines current_weight (styles g) snapshot current_values float_min) (\<lambda>max_value.
           bindR (xwindow_size (geometry s 1)) (\<lambda>window. bindR (fit_pixmap s window g) (\<lambda>(p, reqs).
           let g1 = rescale max_value g;
               f = \<lparr>now_t = t, span = logical_width, drawing_size = pixmap_size p\<rparr>;
               kept = drop_old_labels (cutoff t logical_width) (x_tick_labels g)
           in bindR (add_labels t kept) (\<lambda>xs.
              bindR (ended (labels_that_belong g1)) (\<lambda>heights.
              bindR (new_y_labels heights (y_tick_labels g)) (\<lambda>(ys, new_ys).
                Inr (g1\<lparr>x_tick_labels := xs, y_tick_labels := ys @ new_ys, gcs := (gcs g)[current_gc g := p]\<rparr>,
                  draw_frame s g1 f window current_weight (drop (length kept) xs) xs ys new_ys
                    (zip (styles g) (zip snapshot current_values)),
                  reqs))))))))))"

text \<open>After the pixmap was presented it is the turn of the next.\<close>

definition next_gc :: "graph \<Rightarrow> graph" where
  "next_gc g = g\<lparr>current_gc := (current_gc g + 1) mod length (gcs g)\<rparr>"

end
