(* ===== verification/Graph_Frames.thy ===== *)
theory Graph_Frames
  imports Graph_Drawing
begin

text \<open>
  The state of a graph from frame to frame: the loops that lay out the labels end, no assertion
  fails, and the server holds the pixmaps of the graph and no others.
\<close>

section \<open>The scale\<close>

lemma larger_ge: "m \<le> larger m y"
  by (simp add: larger_def)

lemma foldl_larger_ge: "m \<le> foldl larger m ys"
  by (induction ys arbitrary: m) (auto intro: order_trans larger_ge)

definition finite_value :: "flnum \<Rightarrow> bool" where
  "finite_value v = (case v of Num _ \<Rightarrow> True | _ \<Rightarrow> False)"

lemma scan_lines_ok:
  assumes "length ls = length ss" "length vs = length ss" "dbl (4 / 10) < w \<Longrightarrow> list_all finite_value vs"
  shows "\<exists>m'. scan_lines w ss ls vs m = Inr m' \<and> m \<le> m'"
  using assms
proof (induction w ss ls vs m rule: scan_lines.induct)
  case (1 w s ss line lines v vs m)
  show ?case
  proof (cases "snd s")
    case False
    let ?m = "foldl larger m (map snd line)"
    have "\<exists>m2. (if dbl (4 / 10) < w then larger_value ?m v else Inr ?m) = Inr m2 \<and> ?m \<le> m2"
      using "1.prems"(3) by (auto simp: larger_value_def finite_value_def larger_ge split: flnum.splits)
    then obtain m2 where m2: "(if dbl (4 / 10) < w then larger_value ?m v else Inr ?m) = Inr m2" "?m \<le> m2" by blast
    moreover have "\<exists>m'. scan_lines w ss lines vs m2 = Inr m' \<and> m2 \<le> m'"
      using "1.prems" by (intro "1.IH"(2) [OF False refl m2(1)]) auto
    ultimately show ?thesis using False foldl_larger_ge [of m "map snd line"] by (auto simp: Let_def intro: order_trans)
  qed (use 1 in auto)
qed simp_all

lemma smooth_zero [simp]: "smooth 0 0 = 0"
  by (simp add: smooth_def flt_def dbl_def)

lemma smooth_one: "smooth 1 1 = 1"
  by code_simp

lemma flt_nonneg: "0 \<le> x \<Longrightarrow> 0 \<le> flt x"
  by (simp add: flt_def fl_nonneg)

lemma smooth_mono:
  assumes "0 \<le> x" "x \<le> x'" "0 \<le> y" "y \<le> y'"
  shows "smooth x y \<le> smooth x' y'"
  using assms unfolding smooth_def
  by (intro flt_mono dbl_mono add_mono mult_mono add_nonneg_nonneg dbl_nonneg mult_nonneg_nonneg) simp_all

lemma smooth_ge_one: "1 \<le> x \<Longrightarrow> 1 \<le> y \<Longrightarrow> 1 \<le> smooth x y"
  using smooth_mono [of 1 x 1 y] by (simp add: smooth_one)

lemma flt_one [simp]: "flt 1 = 1"
  by code_simp

definition scale_ok :: "graph \<Rightarrow> bool" where
  "scale_ok g \<longleftrightarrow> target_min_y g = 0 \<and> bottom_edge g = 0 \<and> 1 \<le> target_max_y g \<and> 1 \<le> top_edge g"

lemma rescale_scale_ok: "scale_ok g \<Longrightarrow> scale_ok (rescale m g)"
  by (auto simp: scale_ok_def rescale_def Let_def smooth_ge_one)

lemma rescale_same [simp]:
  "styles (rescale m g) = styles g" "x_tick_labels (rescale m g) = x_tick_labels g"
  "y_tick_labels (rescale m g) = y_tick_labels g" "current_gc (rescale m g) = current_gc g" "gcs (rescale m g) = gcs g"
  by (simp_all add: rescale_def Let_def)

section \<open>The labels of the x axis\<close>

abbreviation steps_by_one :: "int list \<Rightarrow> bool" where
  "steps_by_one \<equiv> successively (\<lambda>a b. b = a + 1)"

lemma successively_dropWhile: "successively P xs \<Longrightarrow> successively P (dropWhile Q xs)"
  by (induction xs) (auto simp: successively_Cons)

text \<open>The greatest time that leaves the seconds below the range of an \<open>int\<close>.\<close>

lemma flt_max_int: "flt (2 ^ 31 - 1) = 2 ^ 31"
  by code_simp

lemma last_label_small:
  assumes "flt (of_int n) < flt (t + 1)" "flt (t + 1) < 2 ^ 31"
  shows "n < 2 ^ 31 - 1"
proof (rule ccontr)
  assume "\<not> ?thesis"
  then have "(of_int (2 ^ 31 - 1) :: rat) \<le> of_int n" by (simp only: of_int_le_iff not_less)
  then have "flt (2 ^ 31 - 1) \<le> flt (of_int n)" by (intro flt_mono) simp_all
  with assms show False by (simp only: flt_max_int)
qed

lemma add_labels_ok:
  assumes "flt (t + 1) < 2 ^ 31" "steps_by_one ns"
  shows "\<exists>new. add_labels t ns = Inr (ns @ new) \<and> steps_by_one (ns @ new) \<and> ns @ new \<noteq> [] \<and>
    flt (t + 1) \<le> flt (of_int (last (ns @ new)))"
  using assms
proof (induction t ns rule: add_labels.induct)
  case (1 t ns)
  show ?case
  proof (cases "ns = [] \<or> flt (of_int (last ns)) < flt (t + 1)")
    case True
    have "\<exists>n. next_label t ns = Inr n \<and> steps_by_one (ns @ [n])"
      using True "1.prems" last_label_small [of "last ns" t]
      by (cases "ns = []") (simp_all add: next_label_def successively_append_iff)
    then obtain n where n: "next_label t ns = Inr n" "steps_by_one (ns @ [n])" by blast
    from "1.IH" [OF True n(1) "1.prems"(1) n(2)] obtain new where
      "add_labels t (ns @ [n]) = Inr ((ns @ [n]) @ new)" "steps_by_one ((ns @ [n]) @ new)"
      "flt (t + 1) \<le> flt (of_int (last ((ns @ [n]) @ new)))" by blast
    with True n show ?thesis by (intro exI [of _ "n # new"]) (simp add: add_labels.simps [of t ns])
  next
    case False
    with "1.prems" show ?thesis by (intro exI [of _ "[]"]) (simp add: add_labels.simps [of t ns])
  qed
qed

section \<open>The labels of the y axis\<close>

lemma mark_ok:
  assumes "distinct (map fst ws)" "\<forall>w \<in> set ws. snd w \<longrightarrow> fst w \<noteq> h"
  shows "\<exists>b ws'. mark h ws = Inr (b, ws') \<and> map fst ws' = map fst ws \<and>
    (\<forall>v. (v, False) \<in> set ws' \<longleftrightarrow> (v, False) \<in> set ws \<and> v \<noteq> h)"
  using assms
proof (induction h ws rule: mark.induct)
  case (1 h)
  show ?case by (intro exI [of _ False] exI [of _ "[]"]) simp
next
  case (2 h v found ws)
  show ?case
  proof (cases "h = v")
    case True
    then have "(v, False) \<notin> set ws" "\<not> found" using "2.prems" by force+
    with True show ?thesis by (intro exI [of _ True] exI [of _ "(v, True) # ws"]) auto
  next
    case False
    with 2 obtain b ws' where "mark h ws = Inr (b, ws')" "map fst ws' = map fst ws"
      "\<forall>v. (v, False) \<in> set ws' \<longleftrightarrow> (v, False) \<in> set ws \<and> v \<noteq> h" by auto
    with False show ?thesis by auto
  qed
qed

lemma mark_found:
  assumes "mark h ws = Inr (b, ws')" "distinct (map fst ws)" "(v, True) \<in> set ws'"
  shows "(v, True) \<in> set ws \<or> v = h"
  using assms
  by (induction h ws arbitrary: b ws' rule: mark.induct)
    (auto simp: res_simps split: if_splits)

lemma adjust_ok:
  assumes "distinct (map fst ws)" "distinct (map label_height ls)"
    "\<forall>w \<in> set ws. snd w \<longrightarrow> fst w \<notin> label_height ` set ls"
  shows "\<exists>ls' ws'. adjust ls ws = Inr (ls', ws') \<and> map label_height ls' = map label_height ls \<and>
    map fst ws' = map fst ws \<and> (\<forall>v. (v, False) \<in> set ws' \<longleftrightarrow> (v, False) \<in> set ws \<and> v \<notin> label_height ` set ls) \<and>
    list_all2 (\<lambda>l' l. l' = fade True l \<or> l' = fade False l) ls' ls"
  using assms
proof (induction ls arbitrary: ws)
  case (Cons l ls)
  obtain b ws1 where m: "mark (label_height l) ws = Inr (b, ws1)" "map fst ws1 = map fst ws"
    "\<forall>v. (v, False) \<in> set ws1 \<longleftrightarrow> (v, False) \<in> set ws \<and> v \<noteq> label_height l"
    using mark_ok [of ws "label_height l"] Cons.prems by auto
  have f: "\<forall>w \<in> set ws1. snd w \<longrightarrow> fst w \<notin> label_height ` set ls"
  proof (intro ballI impI)
    fix w assume w: "w \<in> set ws1" "snd w"
    from w(2) have "w = (fst w, True)" by (simp add: prod_eq_iff)
    with w(1) have "(fst w, True) \<in> set ws1" by metis
    then have "(fst w, True) \<in> set ws \<or> fst w = label_height l" by (rule mark_found [OF m(1) Cons.prems(1)])
    then show "fst w \<notin> label_height ` set ls"
      using Cons.prems(2) bspec [OF Cons.prems(3), of "(fst w, True)"] by auto
  qed
  have "distinct (map fst ws1)" "distinct (map label_height ls)" using Cons.prems(1,2) m(2) by simp_all
  from Cons.IH [OF this f] obtain ls' ws' where r: "adjust ls ws1 = Inr (ls', ws')"
    "map label_height ls' = map label_height ls" "map fst ws' = map fst ws1"
    "\<forall>v. (v, False) \<in> set ws' \<longleftrightarrow> (v, False) \<in> set ws1 \<and> v \<notin> label_height ` set ls"
    "list_all2 (\<lambda>l' l. l' = fade True l \<or> l' = fade False l) ls' ls" by blast
  have "adjust (l # ls) ws = Inr (fade b l # ls', ws')" using m(1) r(1) by simp
  moreover have "label_height (fade b l) = label_height l" by (simp add: fade_def)
  moreover have "fade b l = fade True l \<or> fade b l = fade False l" by (cases b) simp_all
  ultimately show ?case using m(2,3) r(2-5) by (intro exI [of _ "fade b l # ls'"] exI [of _ ws']) simp
qed simp

definition intensity_ok :: "y_label \<Rightarrow> bool" where
  "intensity_ok l \<longleftrightarrow> 0 \<le> intensity l \<and> intensity l \<le> 1"

lemma fade_ok:
  assumes "intensity_ok l"
  shows "intensity_ok (fade b l)"
proof -
  let ?up = "\<lambda>x. flt (dbl (dbl (dbl (95 / 100) * x) + dbl (5 / 100)))" and ?down = "\<lambda>x. flt (dbl (dbl (95 / 100) * x))"
  have i: "0 \<le> intensity l" "intensity l \<le> 1" using assms by (simp_all add: intensity_ok_def)
  have c: "0 \<le> dbl (95 / 100)" "0 \<le> dbl (5 / 100)" by (simp_all add: dbl_nonneg)
  have "?up (intensity l) \<le> ?up 1" "?down (intensity l) \<le> ?down 1"
    using i c by (intro flt_mono dbl_mono add_mono mult_mono add_nonneg_nonneg dbl_nonneg mult_nonneg_nonneg order_refl; simp)+
  moreover have "?up 1 = 1" by code_simp
  moreover have "?down 1 \<le> 1" by code_simp
  moreover have "0 \<le> ?up (intensity l)" "0 \<le> ?down (intensity l)"
    using i c by (intro flt_nonneg dbl_nonneg add_nonneg_nonneg mult_nonneg_nonneg; simp)+
  ultimately show ?thesis by (auto simp: intensity_ok_def fade_def)
qed

lemma cull_sub: "set (cull ls) \<subseteq> set ls"
  by (induction ls rule: cull.induct) (auto split: list.splits)

lemma cull_distinct: "distinct (map label_height ls) \<Longrightarrow> distinct (map label_height (cull ls))"
proof (induction ls rule: cull.induct)
  case (1 l ls)
  then show ?case using cull_sub [of ls] by (cases ls) (auto dest!: subsetD [OF cull_sub])
qed simp

definition y_labels_ok :: "y_label list \<Rightarrow> bool" where
  "y_labels_ok ls \<longleftrightarrow> distinct (map label_height ls) \<and> list_all intensity_ok ls"

lemma new_y_labels_ok:
  assumes "distinct heights" "y_labels_ok ls"
  shows "\<exists>ys new_ys. new_y_labels heights ls = Inr (ys, new_ys) \<and> y_labels_ok (ys @ new_ys) \<and>
    set heights \<subseteq> label_height ` set (ys @ new_ys)"
proof -
  let ?ws = "map (\<lambda>h. (h, False)) heights"
  have d: "distinct (map label_height (cull ls))" using assms(2) by (simp add: y_labels_ok_def cull_distinct)
  have w: "map fst ?ws = heights" "\<forall>w \<in> set ?ws. snd w \<longrightarrow> fst w \<notin> label_height ` set (cull ls)"
    "\<And>v. (v, False) \<in> set ?ws \<longleftrightarrow> v \<in> set heights" by (simp_all add: comp_def image_iff)
  from adjust_ok [of ?ws "cull ls", unfolded w(1,3), OF assms(1) d w(2)]
  obtain ys ws where a: "adjust (cull ls) ?ws = Inr (ys, ws)" "map label_height ys = map label_height (cull ls)"
    "map fst ws = heights" "\<forall>v. (v, False) \<in> set ws \<longleftrightarrow> v \<in> set heights \<and> v \<notin> label_height ` set (cull ls)"
    "list_all2 (\<lambda>l' l. l' = fade True l \<or> l' = fade False l) ys (cull ls)" by (elim exE conjE)
  let ?new = "map (\<lambda>w. \<lparr>label_height = fst w, intensity = flt (5 / 100)\<rparr>) (filter (\<lambda>w. \<not> snd w) ws)"
  have "list_all intensity_ok (cull ls)" using assms(2) cull_sub by (fastforce simp: y_labels_ok_def list_all_iff)
  with a(5) have "list_all intensity_ok ys"
    by (induction rule: list_all2_induct) (auto simp: fade_ok)
  moreover have "intensity_ok \<lparr>label_height = h, intensity = flt (5 / 100)\<rparr>" for h
    by (simp add: intensity_ok_def) code_simp
  moreover have im: "label_height ` set ys = label_height ` set (cull ls)" using a(2) by (metis list.set_map)
  moreover have "distinct (map fst (filter (\<lambda>w. \<not> snd w) ws))" using a(3) assms(1) by (metis distinct_map_filter)
  ultimately have "y_labels_ok (ys @ ?new)"
    using a(2,4) d by (auto simp: y_labels_ok_def list_all_iff comp_def)
  moreover have "set heights \<subseteq> label_height ` set (ys @ ?new)"
  proof
    fix h assume h: "h \<in> set heights"
    show "h \<in> label_height ` set (ys @ ?new)"
    proof (cases "h \<in> label_height ` set (cull ls)")
      case False
      with h a(4) have "(h, False) \<in> set ws" by simp
      then show ?thesis by force
    qed (use im in auto)
  qed
  ultimately show ?thesis using a(1) by (auto simp: new_y_labels_def)
qed

section \<open>The heights of the labels\<close>

text \<open>The spacing of the labels is a power of two, so that its multiples are exact.\<close>

lemma label_spacing_from_power:
  assumes "0 < spacing"
  shows "\<exists>k. label_spacing_from spacing limit = 2 ^ k * spacing \<and> (k = 0 \<or> 2 ^ (k - 1) * spacing < limit)"
  using assms
proof (induction spacing limit rule: label_spacing_from.induct)
  case (1 spacing limit)
  show ?case
  proof (cases "spacing < limit")
    case True
    with 1 obtain k where k: "label_spacing_from (2 * spacing) limit = 2 ^ k * (2 * spacing)"
      "k = 0 \<or> 2 ^ (k - 1) * (2 * spacing) < limit" by auto
    then have "2 ^ k * spacing < limit" using True by (cases k) simp_all
    with k(1) True "1.prems" show ?thesis
      by (intro exI [of _ "Suc k"]) (simp add: label_spacing_from.simps [of spacing])
  next
    case False
    then show ?thesis by (intro exI [of _ 0]) (simp add: label_spacing_from.simps [of spacing])
  qed
qed

lemma to_int_zero [simp]: "to_int 0 = 0"
  by code_simp

lemma dbl_int: "\<bar>n\<bar> < 2 ^ 53 \<Longrightarrow> - 1074 \<le> j \<Longrightarrow> dbl (of_int n * 2 powi j) = of_int n * 2 powi j"
  unfolding dbl_def by (rule fl_exact [OF refl]) simp_all

lemma label_spacing_power:
  assumes "0 \<le> b" "b < 2 ^ 31" "- (2 ^ 31) \<le> t" "t < 2 ^ 31"
  obtains j where "label_spacing b t = 2 powi j" "- 2 \<le> j" "j \<le> 30"
proof -
  define limit where "limit = dbl (of_int (t - b) / 6)"
  obtain k where k: "label_spacing b t = 2 ^ k * (1 / 4)" "k = 0 \<or> 2 ^ (k - 1) * (1 / 4) < limit"
    using label_spacing_from_power [of "1 / 4" limit] by (auto simp: label_spacing_def limit_def)
  have l: "limit \<le> 2 ^ 29"
  proof (cases "0 \<le> t - b")
    case True
    have "(of_int (t - b) :: rat) \<le> of_int (2 ^ 31)" using assms by (simp only: of_int_le_iff)
    then have "limit \<le> dbl (2 ^ 29)" using True unfolding limit_def by (intro dbl_mono) simp_all
    also have "dbl (2 ^ 29) = 2 ^ 29" by code_simp
    finally show ?thesis .
  next
    case False
    then have "limit \<le> 0" unfolding limit_def dbl_def by (intro fl_nonpos) simp
    then show ?thesis by (rule order_trans) simp
  qed
  have "k \<le> 32"
  proof (rule ccontr)
    assume big: "\<not> ?thesis"
    then have "(2 :: rat) ^ 32 \<le> 2 ^ (k - 1)" by (intro power_increasing) simp_all
    moreover have "2 ^ (k - 1) < 4 * limit" using k(2) big by auto
    ultimately show False using l by simp
  qed
  moreover have "2 ^ k * (1 / 4 :: rat) = 2 powi (int k - 2)" by (simp add: power_int_diff)
  ultimately show ?thesis using k(1) by (intro that [of "int k - 2"]) simp_all
qed

lemma to_multiple_same:
  assumes "- (2 ^ 31) \<le> n" "n < 2 ^ 31" "- 2 \<le> j" "j \<le> 30"
  shows "to_multiple (of_int n) (2 powi j) = of_int n"
proof -
  have n: "\<bar>n\<bar> < 2 ^ 53" using assms(1,2) by (simp add: abs_less_iff)
  have "(of_int n :: rat) / 2 powi j = of_int n * 2 powi (- j)" by (simp add: power_int_minus field_simps)
  then have "dbl (of_int n / 2 powi j) = of_int n * 2 powi (- j)" using n assms by (simp add: dbl_int)
  then have "dbl (of_int n / 2 powi j) * 2 powi j = of_int n * 2 powi 0" by (simp add: power_int_minus)
  moreover have "dbl (of_int n * 2 powi 0) = of_int n * 2 powi 0" using n by (intro dbl_int) simp_all
  ultimately show ?thesis by (simp add: to_multiple_def)
qed

lemma heights_from_ok:
  assumes "s = 2 powi j" "- 1074 \<le> j" "label_top < of_nat N * s" "int N < 2 ^ 53" "i + d = N"
  shows "\<exists>vs. heights_from g s label_top (of_nat i * s) = Some vs \<and> distinct vs \<and> (\<forall>v \<in> set vs. of_nat i * s \<le> v)"
  using assms(5)
proof (induction d arbitrary: i)
  case 0
  with assms(3) have "\<not> of_nat i * s \<le> label_top" by simp
  then show ?case by (simp add: heights_from.simps)
next
  case (Suc d)
  have s: "0 < s" by (simp add: assms(1))
  show ?case
  proof (cases "of_nat i * s \<le> label_top")
    case True
    have "of_nat i * s + s = of_int (int (Suc i)) * 2 powi j" by (simp add: assms(1) algebra_simps)
    also have "dbl \<dots> = of_int (int (Suc i)) * 2 powi j"
    proof (rule dbl_int)
      have "Suc i \<le> N" using Suc.prems by simp
      then show "\<bar>int (Suc i)\<bar> < 2 ^ 53" using assms(4) by linarith
    qed (rule assms(2))
    finally have e: "dbl (of_nat i * s + s) = of_nat (Suc i) * s" by (simp add: assms(1) algebra_simps)
    obtain vs where vs: "heights_from g s label_top (of_nat (Suc i) * s) = Some vs" "distinct vs"
      "\<forall>v \<in> set vs. of_nat (Suc i) * s \<le> v" using Suc.IH [of "Suc i"] Suc.prems by auto
    have less: "of_nat i * s < of_nat (Suc i) * s" using s by simp
    have new: "of_nat i * s \<notin> set vs" using bspec [OF vs(3)] less by (meson not_less)
    have ge: "\<forall>v \<in> set vs. of_nat i * s \<le> v" using vs(3) less by (meson less_imp_le order_trans)
    have "heights_from g s label_top (of_nat i * s) =
        Option.bind (heights_from g s label_top (of_nat (Suc i) * s)) (\<lambda>vs.
          let ph = project_height g (flt (of_nat i * s)) in
          Some (if ph < 0 \<or> 1 < ph then vs else of_nat i * s # vs))"
      using True by (subst heights_from.simps) (simp only: if_True e)
    then show ?thesis using vs(1,2) new ge by (simp add: Let_def)
  next
    case False
    then show ?thesis by (simp add: heights_from.simps)
  qed
qed

lemma labels_that_belong_ok:
  assumes "scale_ok g"
  shows "\<exists>heights. labels_that_belong g = Some heights \<and> distinct heights"
proof -
  obtain t where r: "label_range g = (0, t)" "- (2 ^ 31) \<le> t" "t < 2 ^ 31"
    using assms to_int_bounds by (auto simp: label_range_def scale_ok_def)
  obtain j where j: "label_spacing 0 t = 2 powi j" "- 2 \<le> j" "j \<le> 30" using label_spacing_power [of 0 t] r by auto
  have top: "to_multiple (of_int t) (label_spacing 0 t) = of_int t" using to_multiple_same [OF r(2,3) j(2,3)] j(1) by simp
  have bottom: "to_multiple (of_int 0) (label_spacing 0 t) = of_nat 0 * label_spacing 0 t" by (simp add: to_multiple_def)
  have "(of_int t :: rat) < of_int (2 ^ 31)" using r(3) by (simp only: of_int_less_iff)
  also have "(of_int (2 ^ 31) :: rat) = of_nat (2 ^ 33) * 2 powi (- 2)" by simp
  also have "\<dots> \<le> of_nat (2 ^ 33) * 2 powi j"
    using j(2) by (intro mult_left_mono power_int_increasing) simp_all
  finally have "\<exists>vs. heights_from g (label_spacing 0 t) (of_int t) (of_nat 0 * label_spacing 0 t) = Some vs \<and> distinct vs"
    using heights_from_ok [OF j(1), of "of_int t" "2 ^ 33" 0 "2 ^ 33" g] j(1,2) by auto
  then show ?thesis by (simp only: labels_that_belong_def r(1) prod.case Let_def top bottom)
qed

section \<open>What is drawn\<close>

text \<open>A drawing instruction whose coordinates are numbers.\<close>

definition finite_drawing :: "drawing \<Rightarrow> bool" where
  "finite_drawing d = (case d of Move_to _ y \<Rightarrow> finite_value y | Line_to _ y \<Rightarrow> finite_value y | _ \<Rightarrow> True)"

abbreviation finite_drawings :: "drawing list \<Rightarrow> bool" where
  "finite_drawings \<equiv> list_all finite_drawing"

named_theorems drawing_defs

lemmas [drawing_defs] = finite_drawing_def finite_value_def y_at_def chart_position_def begin_line_def add_segment_def
  end_line_def dark_blue_def new_text_def draw_grid_line_def Let_def

lemma finite_weighted: "finite_value v \<Longrightarrow> finite_value (weighted w v y)"
  by (auto simp: finite_value_def weighted_def split: flnum.splits)

lemma finite_y_at: "finite_value v \<Longrightarrow> finite_value (y_at g f v)"
  by (auto simp: finite_value_def y_at_def chart_position_def split: flnum.splits)

lemma finite_segments [simp]:
  "finite_drawings (begin_line g f x y)" "finite_drawings (end_line g f x fill)"
  "finite_value v \<Longrightarrow> finite_drawings (add_segment g f x v)"
  by (simp_all add: drawing_defs) (auto simp: drawing_defs split: flnum.splits)

lemma draw_points_finite: "finite_drawings (fst (draw_points g f fill pts pen))"
proof (induction g f fill pts pen rule: draw_points.induct)
  case (2 g f fill x y pts pen)
  then show ?case
    by (auto simp: finite_value_def split: option.splits prod.splits)
qed simp

lemma draw_line_finite:
  assumes "finite_value (snd (snd l))"
  shows "finite_drawings (draw_line g f w l)"
proof -
  obtain r gr b a fill line v where l: "l = (((r, gr, b, a), fill), line, v)" by (metis prod.exhaust)
  obtain ds pen where p: "draw_points g f fill line None = (ds, pen)" by fastforce
  have "finite_drawings ds" using draw_points_finite [of g f fill line None] by (simp add: p)
  then show ?thesis using assms
    by (auto simp: draw_line_def l p finite_weighted finite_drawing_def split: option.split)
qed

lemma draw_centered_at_finite [simp]: "finite_drawings (draw_centered_at ext txt x y m)"
  by (simp add: draw_centered_at_def finite_drawing_def Let_def split: prod.split option.split)

lemma draw_centered_rotated_at_finite [simp]: "finite_drawings (draw_centered_rotated_at dev ext txt x y)"
  by (simp add: draw_centered_rotated_at_def finite_drawing_def Let_def split: prod.split)

lemma draw_parts_finite [simp]:
  "finite_drawings (new_text txt)" "finite_drawings (draw_x_label ext g f window n)"
  "finite_drawings (draw_grid_line g window l)" "finite_drawings (draw_y_label ext g window l)"
  by (simp_all add: draw_x_label_def draw_y_label_def drawing_defs)

lemma finite_drawings_concat: "list_all finite_drawings dss \<Longrightarrow> finite_drawings (concat dss)"
  by (induction dss) simp_all

lemma finite_concat_map [simp]: "(\<And>x. x \<in> set xs \<Longrightarrow> finite_drawings (h x)) \<Longrightarrow> finite_drawings (concat (map h xs))"
  by (rule finite_drawings_concat) (simp add: list_all_iff)

lemma draw_frame_finite:
  assumes "\<And>l. l \<in> set lines \<Longrightarrow> finite_value (snd (snd l))"
  shows "finite_drawings (draw_frame s g f window w new_xs xs ys new_ys lines)"
  unfolding draw_frame_def list_all_append
  by (intro conjI finite_concat_map draw_line_finite assms; simp add: finite_drawing_def dark_blue_def)

section \<open>The pixmaps\<close>

definition pixmaps_ok :: "graph \<Rightarrow> bool" where
  "pixmaps_ok g \<longleftrightarrow> current_gc g < length (gcs g) \<and> list_all connected (gcs g) \<and> distinct (map pixmap_id (gcs g))"

definition held_by :: "graph \<Rightarrow> nat set" where
  "held_by g = pixmap_id ` set (gcs g)"

lemma fit_pixmap_error: "fit_pixmap s window g = Inl e \<Longrightarrow> \<exists>msg. e = Runtime_error msg"
  by (auto simp: fit_pixmap_def Let_def split: if_splits dest: replace_pixmap_error)

lemma fit_pixmap_ok:
  assumes "pixmaps_ok g" "generated_id s \<notin> held_by g" "fit_pixmap s window g = Inr (p, reqs)"
  shows "pixmaps_ok (g\<lparr>gcs := (gcs g)[current_gc g := p]\<rparr>)"
    "pixmaps_after (held_by g) reqs = held_by (g\<lparr>gcs := (gcs g)[current_gc g := p]\<rparr>)"
    "held_by (g\<lparr>gcs := (gcs g)[current_gc g := p]\<rparr>) \<subseteq> insert (generated_id s) (held_by g)"
proof -
  let ?i = "current_gc g" and ?old = "gcs g ! current_gc g"
  have i: "?i < length (gcs g)" "connected ?old" "distinct (map pixmap_id (gcs g))" "list_all connected (gcs g)"
    using assms(1) by (auto simp: pixmaps_ok_def list_all_length)
  have "pixmaps_ok (g\<lparr>gcs := (gcs g)[?i := p]\<rparr>) \<and>
    pixmaps_after (held_by g) reqs = held_by (g\<lparr>gcs := (gcs g)[?i := p]\<rparr>) \<and>
    held_by (g\<lparr>gcs := (gcs g)[?i := p]\<rparr>) \<subseteq> insert (generated_id s) (held_by g)"
  proof (cases "window = pixmap_size ?old")
    case True
    with assms(1,3) show ?thesis by (auto simp: fit_pixmap_def)
  next
    case False
    with assms(3) i(2) obtain sz where p: "pixmap_id p = generated_id s" "connected p"
      "reqs = [Create_pixmap (generated_id s) sz, Free_pixmap (pixmap_id ?old)]"
      by (auto simp: fit_pixmap_def dest!: replace_pixmap_value)
    let ?ids = "map pixmap_id (gcs g)"
    have set: "set (?ids[?i := generated_id s]) = insert (generated_id s) (set ?ids - {pixmap_id ?old})"
      using i(1,3) set_update_distinct [of ?ids ?i "generated_id s"] by simp
    have "distinct (?ids[?i := generated_id s])"
      using assms(2) i(3) by (intro distinct_list_update) (auto simp: held_by_def)
    moreover have "generated_id s \<noteq> pixmap_id ?old" using assms(2) i(1) by (auto simp: held_by_def)
    moreover have "list_all connected ((gcs g)[?i := p])" using i(4) p(2) by (auto simp: list_all_iff dest: set_update_subset_insert [THEN subsetD])
    moreover have "held_by (g\<lparr>gcs := (gcs g)[?i := p]\<rparr>) = insert (generated_id s) (held_by g - {pixmap_id ?old})"
    proof -
      have "held_by (g\<lparr>gcs := (gcs g)[?i := p]\<rparr>) = set (map pixmap_id ((gcs g)[?i := p]))" by (simp add: held_by_def)
      also have "\<dots> = set (?ids[?i := generated_id s])" by (simp only: map_update p(1))
      finally show ?thesis by (simp only: set) (simp add: held_by_def)
    qed
    ultimately show ?thesis using i(1) p by (auto simp: pixmaps_ok_def map_update)
  qed
  then show "pixmaps_ok (g\<lparr>gcs := (gcs g)[current_gc g := p]\<rparr>)"
    "pixmaps_after (held_by g) reqs = held_by (g\<lparr>gcs := (gcs g)[current_gc g := p]\<rparr>)"
    "held_by (g\<lparr>gcs := (gcs g)[current_gc g := p]\<rparr>) \<subseteq> insert (generated_id s) (held_by g)" by simp_all
qed

section \<open>A frame\<close>

definition frame_ok :: "graph \<Rightarrow> bool" where
  "frame_ok g \<longleftrightarrow> scale_ok g \<and> steps_by_one (x_tick_labels g) \<and> y_labels_ok (y_tick_labels g) \<and> pixmaps_ok g"

text \<open>The X server answers every question and grants every request of a frame.\<close>

definition answers_well :: "surroundings \<Rightarrow> bool" where
  "answers_well s \<longleftrightarrow> \<not> isl (xcb_visual (server s)) \<and> list_all (\<lambda>n. geometry s n \<noteq> None) [0, 1, 2] \<and>
     creation_answer s = None \<and> list_all (\<lambda>n. cairo_status s n = None) [0, 1, 2, 3]"

lemma xwindow_size_answered: "a \<noteq> None \<Longrightarrow> \<exists>window. xwindow_size a = Inr window"
  by (auto simp: xwindow_size_def notnull_def)

lemma fit_pixmap_answered: "answers_well s \<Longrightarrow> \<exists>r. fit_pixmap s window g = Inr r"
  using xwindow_size_answered [of "geometry s 2"]
  by (cases "xcb_visual (server s)") (auto simp: answers_well_def numeral_eq_Suc fit_pixmap_def replace_pixmap_def graphic_context_new_def xpixmap_new_def
      cairo_new_def check_surface_def check_context_def check_noreply_def Let_def split_def)

lemma draw_snapshot_ok:
  assumes g: "frame_ok g" "generated_id s \<notin> held_by g"
    and len: "length data = length (styles g)" "length vals = length (styles g)"
    and w: "0 \<le> w" "w \<le> 1" "dbl (4 / 10) < w \<Longrightarrow> list_all finite_value vals"
    and t: "flt (t + 1) < 2 ^ 31"
  shows "(\<exists>msg. draw_snapshot s t width vals w data g = Inl (Runtime_error msg) \<and> \<not> answers_well s) \<or>
    (\<exists>g' ds reqs. draw_snapshot s t width vals w data g = Inr (g', ds, reqs) \<and>
    frame_ok g' \<and> styles g' = styles g \<and>
    pixmaps_after (held_by g) reqs = held_by g' \<and> held_by g' \<subseteq> insert (generated_id s) (held_by g) \<and>
    x_tick_labels g' \<noteq> [] \<and> flt (t + 1) \<le> flt (of_int (last (x_tick_labels g'))) \<and>
    (list_all finite_value vals \<longrightarrow> finite_drawings ds))"
proof -
  let ?kept = "drop_old_labels (cutoff t width) (x_tick_labels g)"
  obtain m where m: "scan_lines w (styles g) data vals float_min = Inr m"
    using scan_lines_ok [of data "styles g" vals w float_min] len w(3) by auto
  let ?g1 = "rescale m g"
  note start = draw_snapshot_def [of s t width vals w data g]
  show ?thesis
  proof (cases "bindR (xwindow_size (geometry s 1)) (\<lambda>window. fit_pixmap s window g)")
    case (Inl e)
    then have "\<exists>msg. e = Runtime_error msg"
      by (auto simp: xwindow_size_def res_simps dest: notnull_error fit_pixmap_error)
    moreover have "draw_snapshot s t width vals w data g = Inl e"
      using Inl len w(1,2) by (auto simp: start Let_def m res_simps)
    moreover have "\<not> answers_well s"
    proof
      assume a: "answers_well s"
      then have "geometry s 1 \<noteq> None" by (simp add: answers_well_def)
      then obtain window where "xwindow_size (geometry s 1) = Inr window" using xwindow_size_answered by blast
      moreover obtain r where "fit_pixmap s window g = Inr r" using fit_pixmap_answered [OF a] by blast
      ultimately show False using Inl by simp
    qed
    ultimately show ?thesis by blast
  next
    case (Inr pr)
    then obtain window p reqs where f: "xwindow_size (geometry s 1) = Inr window" "fit_pixmap s window g = Inr (p, reqs)"
      by (cases pr) (auto simp: res_simps)
    have "pixmaps_ok g" using g(1) by (simp add: frame_ok_def)
    note fit = fit_pixmap_ok [OF this g(2) f(2)]
    obtain new where x: "add_labels t ?kept = Inr (?kept @ new)" "steps_by_one (?kept @ new)"
      "?kept @ new \<noteq> []" "flt (t + 1) \<le> flt (of_int (last (?kept @ new)))"
      using add_labels_ok [OF t, of ?kept] g(1) by (auto simp: frame_ok_def drop_old_labels_def successively_dropWhile)
    have sc: "scale_ok ?g1" using g(1) by (simp add: frame_ok_def rescale_scale_ok)
    from labels_that_belong_ok [OF this] obtain heights where h: "labels_that_belong ?g1 = Some heights" "distinct heights" by blast
    obtain ys new_ys where y: "new_y_labels heights (y_tick_labels g) = Inr (ys, new_ys)" "y_labels_ok (ys @ new_ys)"
      using new_y_labels_ok [OF h(2), of "y_tick_labels g"] g(1) by (auto simp: frame_ok_def)
    let ?g' = "?g1\<lparr>x_tick_labels := ?kept @ new, y_tick_labels := ys @ new_ys, gcs := (gcs g)[current_gc g := p]\<rparr>"
    let ?f = "\<lparr>now_t = t, span = width, drawing_size = pixmap_size p\<rparr>"
    let ?ds = "draw_frame s ?g1 ?f window w new (?kept @ new) ys new_ys (zip (styles g) (zip data vals))"
    have "draw_snapshot s t width vals w data g = Inr (?g', ?ds, reqs)"
      using len w(1,2) by (simp add: start Let_def m f(1) [unfolded One_nat_def] f(2) x(1) h(1) y(1) ended_def)
    moreover have "frame_ok ?g'" using sc x(2) y(2) fit(1) by (simp add: frame_ok_def scale_ok_def pixmaps_ok_def)
    moreover have "held_by ?g' = held_by (g\<lparr>gcs := (gcs g)[current_gc g := p]\<rparr>)" by (simp add: held_by_def)
    moreover have "list_all finite_value vals \<longrightarrow> finite_drawings ?ds"
      by (intro impI draw_frame_finite) (auto simp: list_all_iff dest!: set_zip_rightD)
    ultimately show ?thesis using fit(2,3) x(3,4)
      by (intro disjI2 exI [of _ ?g'] exI [of _ ?ds] exI [of _ reqs] conjI) simp_all
  qed
qed

end
