(* ===== verification/Graph_Animation.thy ===== *)
theory Graph_Animation
  imports Graph_Frames
begin

text \<open>
  The two threads of \<open>src/graphing/binned_livegraph.cc\<close> on a graph that has been constructed: the one that
  draws (\<open>animation_loop\<close>), and the one that counts (\<open>add_value_now\<close>, \<open>set_max_value_now\<close>).  A
  scheduler lets them make one step at a time, in any order.  The steps are as fine as the accesses to
  what the threads share: taking and giving back \<open>mutex_\<close>, a reading of the clock, a comparison with the
  current bin, a point added under \<open>data_mutex_\<close>, one element of \<open>value_this_bin_\<close> read or written,
  the points pruned and copied under \<open>data_mutex_\<close>.  The thread that draws reads \<open>value_this_bin_\<close> one
  element at a time and without the mutex, so the other may change it in between; reading or
  writing one \<open>int\<close> is taken to be indivisible.  What only one thread can see (the frame made of the copied points, the
  talk with the X server) is one step.
\<close>

section \<open>The estimates\<close>

definition logical_width :: "nat \<times> nat \<Rightarrow> rat" where
  "logical_width window = max 5 (dbl (of_nat (fst window) / 100))"

text \<open>The estimate for a bin that has lasted for some milliseconds, none at its boundary.\<close>

definition current_estimate :: "live_graph \<Rightarrow> nat \<Rightarrow> u32 \<Rightarrow> flnum" where
  "current_estimate lg so_far x =
     (let estimate = dbl (of_int (sint x) * multiplier lg)
      in if rate_quantity lg
         then if so_far = 0
              then if estimate = 0 then Not_a_number else Infinite (0 < estimate)
              else Num (flt (dbl (estimate / dbl (of_nat so_far / 1000))))
         else Num (flt estimate))"

definition bin_width_so_far :: "live_graph \<Rightarrow> u64 \<Rightarrow> nat" where
  "bin_width_so_far lg ts = unat ts mod unat (bin_width_ms lg)"

definition seconds :: "u64 \<Rightarrow> rat" where
  "seconds ts = flt (dbl (dbl (of_nat (unat ts)) / 1000))"

text \<open>The cosine is the C library's: how much the estimate weighs, given the part of the bin that is over.\<close>

definition weight_at :: "(rat \<Rightarrow> rat) \<Rightarrow> live_graph \<Rightarrow> u64 \<Rightarrow> rat" where
  "weight_at confidence lg ts = confidence (dbl (of_nat (bin_width_so_far lg ts) / of_nat (unat (bin_width_ms lg))))"

section \<open>Where the threads are\<close>

datatype actor = Drawer | Counter

text \<open>In \<open>advance\<close>: the time once it has been read, and the value of the bin that is being closed.\<close>

datatype advance_pc =
  At_lock | At_clock | At_test u64 | At_point u64 nat | At_init u64 nat | At_unlock u64

datatype count = Add_value nat u32 | Set_max_value nat u32

datatype count_pc =
  Between_calls | Count_advances count advance_pc | Update_lock count | Update count | Update_unlock | Count_failed exn

datatype draw_pc =
  Between_frames | Draw_advances advance_pc | Reading u64 "flnum list" | Asking u64 "flnum list" |
  Pruning u64 "flnum list" rat | Composing u64 "flnum list" rat "(rat \<times> rat) list list" | Presenting | Draw_failed exn

text \<open>A frame is what the X server answers while it is drawn and presented, and the events that it sends.\<close>

type_synonym frame_answers = "surroundings \<times> nat option \<times> x_event list"

text \<open>
  The owner of \<open>mutex_\<close>, what the threads share, and the state of each: the frames until \<open>halt_\<close> is set
  and the calls that are left to make, what was drawn at which time, the requests to the X server.
\<close>

record plotting =
  owner :: "actor option"
  ticks :: clock
  bins :: live_graph
  drawer :: draw_pc
  frames :: "frame_answers list"
  chart :: graph
  chart_window :: xwindow
  unhandled :: "x_event list"
  drawn :: "(u64 \<times> drawing list) list"
  requests :: "x_request list"
  counter :: count_pc
  calls :: "count list"

section \<open>The steps\<close>

text \<open>A step of \<open>advance\<close>, which goes on or returns the time.\<close>

fun advance_step :: "actor \<Rightarrow> advance_pc \<Rightarrow> plotting \<Rightarrow> ((advance_pc + u64) \<times> plotting) res" where
  "advance_step t At_lock s =
     Inr (if owner s = None then (Inl At_clock, s\<lparr>owner := Some t\<rparr>) else (Inl At_lock, s))"
| "advance_step t At_clock s = (let (now, c) = timestamp (ticks s) in Inr (Inl (At_test now), s\<lparr>ticks := c\<rparr>))"
| "advance_step t (At_test now) s =
     Inr (Inl (if current_bin (bins s) < now div ucast (bin_width_ms (bins s)) then At_point now 0 else At_unlock now), s)"
| "advance_step t (At_point now i) s =
     (if i < length (value_this_bin (bins s))
      then bindR (plot_value i (bins s)) (\<lambda>b. Inr (Inl (At_init now i), s\<lparr>bins := b\<rparr>))
      else Inr (Inl (At_test now), s\<lparr>bins := (bins s)\<lparr>current_bin := current_bin (bins s) + 1\<rparr>\<rparr>))"
| "advance_step t (At_init now i) s = Inr (Inl (At_point now (Suc i)), s\<lparr>bins := fresh_value i (bins s)\<rparr>)"
| "advance_step t (At_unlock now) s = Inr (Inr now, s\<lparr>owner := None\<rparr>)"

text \<open>An exception gives the mutex back.\<close>

definition release :: "actor \<Rightarrow> plotting \<Rightarrow> plotting" where
  "release t s = (if owner s = Some t then s\<lparr>owner := None\<rparr> else s)"

definition update_bin :: "count \<Rightarrow> live_graph \<Rightarrow> live_graph res" where
  "update_bin k lg =
     (case k of Add_value num amount \<Rightarrow> add_to_bin num amount lg | Set_max_value num amount \<Rightarrow> set_max_in_bin num amount lg)"

definition counter_step :: "plotting \<Rightarrow> plotting" where
  "counter_step s =
     (case counter s of
        Between_calls \<Rightarrow>
          (case calls s of [] \<Rightarrow> s | k # ks \<Rightarrow> s\<lparr>calls := ks, counter := Count_advances k At_lock\<rparr>)
      | Count_advances k pc \<Rightarrow>
          (case advance_step Counter pc s of
             Inl e \<Rightarrow> (release Counter s)\<lparr>counter := Count_failed e\<rparr>
           | Inr (Inl pc', s') \<Rightarrow> s'\<lparr>counter := Count_advances k pc'\<rparr>
           | Inr (Inr now, s') \<Rightarrow> s'\<lparr>counter := Update_lock k\<rparr>)
      | Update_lock k \<Rightarrow> (if owner s = None then s\<lparr>owner := Some Counter, counter := Update k\<rparr> else s)
      | Update k \<Rightarrow>
          (case update_bin k (bins s) of
             Inl e \<Rightarrow> (release Counter s)\<lparr>counter := Count_failed e\<rparr>
           | Inr b \<Rightarrow> s\<lparr>bins := b, counter := Update_unlock\<rparr>)
      | Update_unlock \<Rightarrow> s\<lparr>owner := None, counter := Between_calls\<rparr>
      | Count_failed e \<Rightarrow> s)"

text \<open>
  The thread that draws ends with its last exception, which the destructor reports.  A wait for an
  event that the server does not send leaves it where it is.  The pixmap is presented as one of as many
  as there are, when it is its turn.
\<close>

definition drawer_step :: "(rat \<Rightarrow> rat) \<Rightarrow> plotting \<Rightarrow> plotting" where
  "drawer_step confidence s =
     (case frames s of
        [] \<Rightarrow> s
      | (srv, answer, sent_events) # fs \<Rightarrow>
       (case drawer s of
          Between_frames \<Rightarrow> s\<lparr>drawer := Draw_advances At_lock\<rparr>
        | Draw_advances pc \<Rightarrow>
            (case advance_step Drawer pc s of
               Inl e \<Rightarrow> (release Drawer s)\<lparr>drawer := Draw_failed e\<rparr>
             | Inr (Inl pc', s') \<Rightarrow> s'\<lparr>drawer := Draw_advances pc'\<rparr>
             | Inr (Inr ts, s') \<Rightarrow> s'\<lparr>drawer := Reading ts []\<rparr>)
        | Reading ts estimates \<Rightarrow>
            if length estimates < length (value_this_bin (bins s))
            then s\<lparr>drawer := Reading ts (estimates @ [current_estimate (bins s) (bin_width_so_far (bins s) ts)
                     (value_this_bin (bins s) ! length estimates)])\<rparr>
            else s\<lparr>drawer := Asking ts estimates\<rparr>
        | Asking ts estimates \<Rightarrow>
            (case xwindow_size (geometry srv 0) of
               Inl e \<Rightarrow> s\<lparr>drawer := Draw_failed e\<rparr>
             | Inr window \<Rightarrow> s\<lparr>drawer := Pruning ts estimates (flt (logical_width window))\<rparr>)
        | Pruning ts estimates width \<Rightarrow>
            let points = prune_points (seconds ts) width (data_points (bins s))
            in s\<lparr>bins := (bins s)\<lparr>data_points := points\<rparr>, drawer := Composing ts estimates width points\<rparr>
        | Composing ts estimates width points \<Rightarrow>
            (case draw_snapshot srv (seconds ts) width estimates (weight_at confidence (bins s) ts) points (chart s) of
               Inl e \<Rightarrow> s\<lparr>drawer := Draw_failed e\<rparr>
             | Inr (g, ds, reqs) \<Rightarrow>
                 s\<lparr>chart := g, drawn := drawn s @ [(ts, ds)], requests := requests s @ reqs, drawer := Presenting\<rparr>)
        | Presenting \<Rightarrow>
            (case present answer (unhandled s @ sent_events) (gcs (chart s) ! current_gc (chart s)) (length (gcs (chart s)))
                    (current_gc (chart s)) (chart_window s) of
               None \<Rightarrow> s
             | Some (Inl e) \<Rightarrow> s\<lparr>drawer := Draw_failed e\<rparr>
             | Some (Inr (w, es, reqs)) \<Rightarrow>
                 s\<lparr>chart := next_gc (chart s), chart_window := w, unhandled := es, requests := requests s @ reqs,
                   frames := fs, drawer := Between_frames\<rparr>)
        | Draw_failed e \<Rightarrow> s))"

definition plot_step :: "(rat \<Rightarrow> rat) \<Rightarrow> actor \<Rightarrow> plotting \<Rightarrow> plotting" where
  "plot_step confidence t s = (case t of Drawer \<Rightarrow> drawer_step confidence s | Counter \<Rightarrow> counter_step s)"

fun plot_run :: "(rat \<Rightarrow> rat) \<Rightarrow> actor list \<Rightarrow> plotting \<Rightarrow> plotting" where
  "plot_run confidence [] s = s"
| "plot_run confidence (t # ts) s = plot_run confidence ts (plot_step confidence t s)"

text \<open>Both threads before their first step, the graph and the window as their constructors left them.\<close>

definition plotting_new ::
  "live_graph \<Rightarrow> clock \<Rightarrow> graph \<Rightarrow> x_request list \<Rightarrow> xwindow \<Rightarrow> frame_answers list \<Rightarrow> count list \<Rightarrow> plotting" where
  "plotting_new lg c g reqs w fs ks =
     \<lparr>owner = None, ticks = c, bins = lg, drawer = Between_frames, frames = fs, chart = g, chart_window = w,
      unhandled = [], drawn = [], requests = reqs, counter = Between_calls, calls = ks\<rparr>"

lemma plot_run_append [simp]: "plot_run confidence (ts @ us) s = plot_run confidence us (plot_run confidence ts s)"
  by (induction confidence ts s rule: plot_run.induct) simp_all

end
