(* ===== verification/Graph_Threads.thy ===== *)
theory Graph_Threads
  imports Graph_Animation
begin

text \<open>
  What holds of the two threads of a graph after any steps (\<open>plot_ok\<close>), and that they get
  ahead: each step is a wait or brings the work that is left nearer to its end (\<open>work_left\<close>), and never do both threads
  wait for each other.
\<close>

section \<open>The parts of a frame\<close>

text \<open>The lines of the chart are those of the bins.\<close>

definition charted :: "live_graph \<Rightarrow> graph \<Rightarrow> bool" where
  "charted lg g \<longleftrightarrow> graph_wf lg \<and> length (data_points lg) = length (styles g) \<and> frame_ok g"

text \<open>A weight between 0 and 1, which is 0 at the boundary of a bin.\<close>

definition weighs :: "(rat \<Rightarrow> rat) \<Rightarrow> bool" where
  "weighs confidence \<longleftrightarrow> confidence 0 = 0 \<and> (\<forall>x. 0 \<le> x \<longrightarrow> x \<le> 1 \<longrightarrow> 0 \<le> confidence x \<and> confidence x \<le> 1)"

lemma current_estimate_finite: "so_far \<noteq> 0 \<Longrightarrow> finite_value (current_estimate lg so_far x)"
  by (simp add: current_estimate_def finite_value_def Let_def)

text \<open>
  A frame at the very boundary of a bin, after something was counted: the estimate is infinite and
  its weight is 0, so that the last coordinate of the line is not a number.
\<close>

lemma estimate_at_boundary:
  assumes "rate_quantity lg" "0 < dbl (of_int (sint x) * multiplier lg)" "confidence 0 = 0"
  shows "not_negative (current_estimate lg 0 x)" "weighted (confidence 0) (current_estimate lg 0 x) y = Not_a_number"
  using assms by (auto simp: current_estimate_def not_negative_def weighted_def)

text \<open>Some thirty years of milliseconds.\<close>

lemma time_bound:
  assumes "(ts :: u64) < 2 ^ 40"
  shows "flt (seconds ts + 1) < 2 ^ 31"
proof -
  define n where "n = unat ts"
  have "n \<le> 2 ^ 40" using assms by (simp add: n_def word_less_nat_alt)
  then have "(of_nat n :: rat) \<le> of_nat (2 ^ 40)" by (simp only: of_nat_le_iff)
  then have "flt (flt (dbl (dbl (of_nat n) / 1000)) + 1) \<le> flt (flt (dbl (dbl (2 ^ 40) / 1000)) + 1)"
    by (intro flt_mono dbl_mono add_mono divide_right_mono order_refl add_nonneg_nonneg flt_nonneg dbl_nonneg
        divide_nonneg_nonneg) simp_all
  also have "\<dots> < 2 ^ 31" by code_simp
  finally show ?thesis by (simp only: n_def seconds_def)
qed

lemma part_of_whole:
  fixes n w :: nat
  shows "0 \<le> (of_nat (n mod w) / of_nat w :: rat)" "(of_nat (n mod w) / of_nat w :: rat) \<le> 1"
proof -
  show "(of_nat (n mod w) / of_nat w :: rat) \<le> 1"
  proof (cases "w = 0")
    case False
    then have "(of_nat (n mod w) :: rat) \<le> of_nat w" by (simp only: of_nat_le_iff) (simp add: less_imp_le)
    with False show ?thesis by (simp add: divide_le_eq_1)
  qed simp
qed simp

lemma weight_at_ok:
  assumes "weighs confidence"
  shows "0 \<le> weight_at confidence lg ts" "weight_at confidence lg ts \<le> 1"
    "bin_width_so_far lg ts = 0 \<Longrightarrow> weight_at confidence lg ts = 0"
proof -
  let ?x = "dbl (of_nat (bin_width_so_far lg ts) / of_nat (unat (bin_width_ms lg)))"
  have "0 \<le> ?x \<and> ?x \<le> 1" unfolding bin_width_so_far_def by (rule dbl_unit [OF part_of_whole])
  with assms show "0 \<le> weight_at confidence lg ts" "weight_at confidence lg ts \<le> 1"
    by (simp_all add: weighs_def weight_at_def)
  show "bin_width_so_far lg ts = 0 \<Longrightarrow> weight_at confidence lg ts = 0"
    using assms by (simp add: weighs_def weight_at_def)
qed

lemma next_gc_same [simp]: "held_by (next_gc g) = held_by g" "styles (next_gc g) = styles g"
  by (simp_all add: held_by_def next_gc_def)

lemma next_gc_ok: "frame_ok g \<Longrightarrow> frame_ok (next_gc g)"
  by (auto simp: frame_ok_def scale_ok_def pixmaps_ok_def next_gc_def intro!: mod_less_divisor)

lemma wait_until_error: "wait_until P es w = Some (Inl e) \<Longrightarrow> \<exists>msg. e = Runtime_error msg"
  by (induction P es w rule: wait_until.induct)
    (auto simp: handle_event_def notnull_def split: if_splits sum.splits x_event.splits)

lemma present_error: "present answer es p d r w = Some (Inl e) \<Longrightarrow> \<exists>msg. e = Runtime_error msg"
  by (auto simp: present_def split: option.splits sum.splits dest: check_noreply_error wait_until_error)

lemma present_pixmaps: "present answer es p d r w = Some (Inr (w', es', reqs)) \<Longrightarrow> pixmaps_after held reqs = held"
  by (auto dest!: present_in_turn)

section \<open>The invariant\<close>

definition advance_holds :: "advance_pc \<Rightarrow> bool" where
  "advance_holds pc \<longleftrightarrow> pc \<noteq> At_lock"

definition drawer_holds :: "draw_pc \<Rightarrow> bool" where
  "drawer_holds p = (case p of Draw_advances pc \<Rightarrow> advance_holds pc | _ \<Rightarrow> False)"

definition counter_holds :: "count_pc \<Rightarrow> bool" where
  "counter_holds p = (case p of Count_advances k pc \<Rightarrow> advance_holds pc | Update k \<Rightarrow> True | Update_unlock \<Rightarrow> True | _ \<Rightarrow> False)"

text \<open>\<open>mutex_\<close> is held by the thread that is between taking it and giving it back.\<close>

definition mutex_ok :: "plotting \<Rightarrow> bool" where
  "mutex_ok s \<longleftrightarrow> (owner s = Some Drawer \<longleftrightarrow> drawer_holds (drawer s)) \<and> (owner s = Some Counter \<longleftrightarrow> counter_holds (counter s))"

definition lines_of :: "live_graph \<Rightarrow> nat" where
  "lines_of lg = length (value_this_bin lg)"

definition advance_ok_at :: "live_graph \<Rightarrow> advance_pc \<Rightarrow> bool" where
  "advance_ok_at lg pc =
     (case pc of
        At_test now \<Rightarrow> now < 2 ^ 40
      | At_point now i \<Rightarrow> now < 2 ^ 40 \<and> i \<le> lines_of lg \<and> current_bin lg < now div ucast (bin_width_ms lg)
      | At_init now i \<Rightarrow> now < 2 ^ 40 \<and> i < lines_of lg \<and> current_bin lg < now div ucast (bin_width_ms lg)
      | At_unlock now \<Rightarrow> now < 2 ^ 40
      | _ \<Rightarrow> True)"

definition in_range :: "nat \<Rightarrow> count \<Rightarrow> bool" where
  "in_range n k = (case k of Add_value num _ \<Rightarrow> num < n | Set_max_value num _ \<Rightarrow> num < n)"

definition is_runtime_error :: "exn \<Rightarrow> bool" where
  "is_runtime_error e \<longleftrightarrow> (\<exists>msg. e = Runtime_error msg)"

definition counter_ok :: "live_graph \<Rightarrow> count_pc \<Rightarrow> bool" where
  "counter_ok lg p =
     (case p of
        Count_advances k pc \<Rightarrow> in_range (lines_of lg) k \<and> advance_ok_at lg pc
      | Update_lock k \<Rightarrow> in_range (lines_of lg) k
      | Update k \<Rightarrow> in_range (lines_of lg) k
      | Count_failed e \<Rightarrow> is_runtime_error e
      | _ \<Rightarrow> True)"

definition estimates_ok :: "live_graph \<Rightarrow> u64 \<Rightarrow> flnum list \<Rightarrow> bool" where
  "estimates_ok lg ts estimates \<longleftrightarrow> ts < 2 ^ 40 \<and> length estimates = lines_of lg \<and>
     (bin_width_so_far lg ts \<noteq> 0 \<longrightarrow> list_all finite_value estimates)"

definition drawer_ok :: "live_graph \<Rightarrow> draw_pc \<Rightarrow> bool" where
  "drawer_ok lg p =
     (case p of
        Draw_advances pc \<Rightarrow> advance_ok_at lg pc
      | Reading ts estimates \<Rightarrow> ts < 2 ^ 40 \<and> length estimates \<le> lines_of lg \<and>
          (bin_width_so_far lg ts \<noteq> 0 \<longrightarrow> list_all finite_value estimates)
      | Asking ts estimates \<Rightarrow> estimates_ok lg ts estimates
      | Pruning ts estimates width \<Rightarrow> estimates_ok lg ts estimates
      | Composing ts estimates width points \<Rightarrow> estimates_ok lg ts estimates \<and> length points = lines_of lg
      | Draw_failed e \<Rightarrow> is_runtime_error e
      | _ \<Rightarrow> True)"

text \<open>The numbers of the pixmaps that may still be made.\<close>

definition ids_to_come :: "plotting \<Rightarrow> nat list" where
  "ids_to_come s = map (generated_id \<circ> fst) (case drawer s of Presenting \<Rightarrow> tl (frames s) | Draw_failed e \<Rightarrow> [] | _ \<Rightarrow> frames s)"

definition drawn_ok :: "nat \<Rightarrow> (u64 \<times> drawing list) list \<Rightarrow> bool" where
  "drawn_ok width ds \<longleftrightarrow> (\<forall>(ts, d) \<in> set ds. unat ts mod width \<noteq> 0 \<longrightarrow> finite_drawings d)"

definition frames_ok :: "plotting \<Rightarrow> bool" where
  "frames_ok s \<longleftrightarrow> distinct (ids_to_come s) \<and> set (ids_to_come s) \<inter> held_by (chart s) = {} \<and>
     (frames s = [] \<longrightarrow> drawer s = Between_frames)"

text \<open>They depend on no more of the bins than this.\<close>

lemma advance_ok_at_same:
  assumes "lines_of b' = lines_of b" "bin_width_ms b' = bin_width_ms b" "current_bin b' = current_bin b"
  shows "advance_ok_at b' pc = advance_ok_at b pc"
  using assms by (cases pc) (simp_all add: advance_ok_at_def)

lemma drawer_ok_same:
  assumes "lines_of b' = lines_of b" "bin_width_ms b' = bin_width_ms b" "current_bin b' = current_bin b"
  shows "drawer_ok b' p = drawer_ok b p"
  using assms advance_ok_at_same [OF assms]
  by (cases p) (simp_all add: drawer_ok_def estimates_ok_def bin_width_so_far_def)

lemma counter_ok_same:
  assumes "lines_of b' = lines_of b" "bin_width_ms b' = bin_width_ms b" "current_bin b' = current_bin b"
  shows "counter_ok b' p = counter_ok b p"
  using assms advance_ok_at_same [OF assms] by (cases p) (simp_all add: counter_ok_def)

text \<open>The current bin matters to the thread only while it holds the mutex.\<close>

lemma drawer_ok_outside:
  assumes "\<not> drawer_holds p" "lines_of b' = lines_of b" "bin_width_ms b' = bin_width_ms b"
  shows "drawer_ok b' p = drawer_ok b p"
  using assms
  by (cases p) (simp_all add: drawer_ok_def estimates_ok_def bin_width_so_far_def drawer_holds_def advance_holds_def
      advance_ok_at_def)

lemma counter_ok_outside:
  assumes "\<not> counter_holds p" "lines_of b' = lines_of b" "bin_width_ms b' = bin_width_ms b"
  shows "counter_ok b' p = counter_ok b p"
  using assms by (cases p) (simp_all add: counter_ok_def counter_holds_def advance_holds_def advance_ok_at_def)

section \<open>The work that is left\<close>

definition bin_work :: "nat \<Rightarrow> nat" where
  "bin_work lines = 2 * lines + 3"

definition advance_work :: "nat \<Rightarrow> advance_pc \<Rightarrow> nat" where
  "advance_work lines pc =
     (case pc of
        At_lock \<Rightarrow> bin_work lines + 4 | At_clock \<Rightarrow> bin_work lines + 3 | At_test now \<Rightarrow> bin_work lines + 2
      | At_point now i \<Rightarrow> 3 + 2 * (lines - i) | At_init now i \<Rightarrow> 2 + 2 * (lines - i) | At_unlock now \<Rightarrow> 1)"

definition drawer_work :: "nat \<Rightarrow> draw_pc \<Rightarrow> nat" where
  "drawer_work lines p =
     (case p of
        Between_frames \<Rightarrow> bin_work lines + lines + 11
      | Draw_advances pc \<Rightarrow> advance_work lines pc + lines + 6
      | Reading ts estimates \<Rightarrow> lines - length estimates + 5
      | Asking ts estimates \<Rightarrow> 4
      | Pruning ts estimates width \<Rightarrow> 3
      | Composing ts estimates width points \<Rightarrow> 2
      | Presenting \<Rightarrow> 1
      | Draw_failed e \<Rightarrow> 0)"

definition frames_work :: "nat \<Rightarrow> draw_pc \<Rightarrow> nat \<Rightarrow> nat" where
  "frames_work lines p n = (if n = 0 then 0 else drawer_work lines p + (n - 1) * drawer_work lines Between_frames)"

definition counter_work :: "nat \<Rightarrow> count_pc \<Rightarrow> nat" where
  "counter_work lines p =
     (case p of
        Between_calls \<Rightarrow> 0
      | Count_advances k pc \<Rightarrow> advance_work lines pc + 4
      | Update_lock k \<Rightarrow> 3 | Update k \<Rightarrow> 2 | Update_unlock \<Rightarrow> 1
      | Count_failed e \<Rightarrow> 0)"

text \<open>The clock stays below its bound, so only so many bins can be closed.\<close>

definition bins_left :: "live_graph \<Rightarrow> nat" where
  "bins_left lg = 2 ^ 40 - unat (current_bin lg)"

definition work_left :: "plotting \<Rightarrow> nat" where
  "work_left s =
     (let lines = lines_of (bins s)
      in bins_left (bins s) * bin_work lines + frames_work lines (drawer s) (length (frames s)) +
         (counter_work lines (counter s) + length (calls s) * (bin_work lines + 9)))"

lemmas pc_defs = advance_holds_def drawer_holds_def counter_holds_def mutex_ok_def advance_ok_at_def counter_ok_def
  drawer_ok_def advance_work_def drawer_work_def counter_work_def frames_work_def

section \<open>A step of \<open>advance\<close>\<close>

lemma bin_before_horizon:
  assumes "(now :: u64) < 2 ^ 40" "cb < now div w"
  shows "unat cb < 2 ^ 40" "unat (cb + 1) = unat cb + 1"
proof -
  show "unat (cb + 1) = unat cb + 1" using assms(2) by (rule unat_suc)
  have "now div w \<le> now" by (simp add: word_le_nat_alt unat_div div_le_dividend)
  with assms show "unat cb < 2 ^ 40" by (simp add: word_less_nat_alt word_le_nat_alt)
qed

lemma plot_value_ok:
  assumes "graph_wf b" "i < lines_of b"
  obtains data where "plot_value i b = Inr (b\<lparr>data_points := data\<rparr>)" "length data = length (data_points b)"
  using assms by (auto simp: plot_value_def add_data_point_def Let_def graph_wf_def lines_of_def)

text \<open>What a step of \<open>advance\<close> makes of the owner, and of where the thread is.\<close>

definition advanced :: "actor \<Rightarrow> advance_pc \<Rightarrow> plotting \<Rightarrow> (advance_pc + u64) \<Rightarrow> actor option \<Rightarrow> live_graph \<Rightarrow> bool" where
  "advanced t pc s r own b \<longleftrightarrow>
     graph_wf b \<and> lines_of b = lines_of (bins s) \<and> length (data_points b) = length (data_points (bins s)) \<and>
     bin_width_ms b = bin_width_ms (bins s) \<and>
     (case r of
        Inl pc' \<Rightarrow> advance_ok_at b pc' \<and> own = (if pc = At_lock \<and> owner s = None then Some t else owner s) \<and>
          (pc' = At_lock \<longleftrightarrow> pc = At_lock \<and> owner s \<noteq> None) \<and>
          (pc' = At_lock \<or>
           bins_left b * bin_work (lines_of b) + advance_work (lines_of b) pc'
             < bins_left (bins s) * bin_work (lines_of b) + advance_work (lines_of b) pc)
      | Inr now \<Rightarrow> now < 2 ^ 40 \<and> own = None \<and> pc \<noteq> At_lock \<and> b = bins s \<and> advance_work (lines_of b) pc = 1) \<and>
     (pc = At_lock \<longrightarrow> b = bins s)"

lemma advance_step_ok:
  assumes "graph_wf (bins s)" "advance_ok_at (bins s) pc" "\<And>i. ticks s i < 2 ^ 40"
  shows "\<exists>r b c own. advance_step t pc s = Inr (r, s\<lparr>owner := own, ticks := c, bins := b\<rparr>) \<and> advanced t pc s r own b \<and>
    (\<forall>i. c i < 2 ^ 40) \<and> (pc = At_lock \<longrightarrow> owner s \<noteq> None \<longrightarrow> s\<lparr>owner := own, ticks := c, bins := b\<rparr> = s)" (is ?thesis)
proof -
  have that: ?thesis
    if "advance_step t pc s = Inr (r, s\<lparr>owner := own, ticks := c, bins := b\<rparr>)" "advanced t pc s r own b"
      "\<And>i. c i < 2 ^ 40" "pc = At_lock \<Longrightarrow> owner s \<noteq> None \<Longrightarrow> s\<lparr>owner := own, ticks := c, bins := b\<rparr> = s" for r b c own
    using that by blast
  show ?thesis
  proof (cases pc)
  case At_lock
  then show ?thesis using assms
    by (intro that [where r = "Inl (if owner s = None then At_clock else At_lock)" and own = "if owner s = None then Some t else owner s" and c = "ticks s" and b = "bins s"])
      (simp_all add: advanced_def advance_ok_at_def advance_work_def)
next
  case At_clock
  then show ?thesis using assms
    by (intro that [where r = "Inl (At_test (ticks s 0))" and own = "owner s" and c = "\<lambda>n. ticks s (Suc n)" and b = "bins s"])
      (simp_all add: advanced_def timestamp_def advance_ok_at_def advance_work_def)
next
  case (At_test now)
  then show ?thesis using assms
    by (intro that [where r = "Inl (if current_bin (bins s) < now div ucast (bin_width_ms (bins s)) then At_point now 0 else At_unlock now)" and own = "owner s" and c = "ticks s" and b = "bins s"])
      (simp_all add: advanced_def advance_ok_at_def advance_work_def bin_work_def)
next
  case (At_point now i)
  show ?thesis
  proof (cases "i < lines_of (bins s)")
    case True
    then obtain data where d: "plot_value i (bins s) = Inr ((bins s)\<lparr>data_points := data\<rparr>)"
      "length data = length (data_points (bins s))"
      using assms(1) by (blast intro: plot_value_ok)
    show ?thesis using assms At_point True d
      by (intro that [where r = "Inl (At_init now i)" and own = "owner s" and c = "ticks s" and b = "(bins s)\<lparr>data_points := data\<rparr>"])
        (simp_all add: advanced_def advance_ok_at_def advance_work_def bins_left_def lines_of_def graph_wf_def)
  next
    case False
    let ?b = "(bins s)\<lparr>current_bin := current_bin (bins s) + 1\<rparr>"
    have n: "now < 2 ^ 40" "current_bin (bins s) < now div ucast (bin_width_ms (bins s))"
      using assms(2) At_point by (simp_all add: advance_ok_at_def)
    note h = bin_before_horizon [OF n]
    have "bins_left (bins s) = Suc (bins_left ?b)" using h by (simp add: bins_left_def)
    with assms At_point False n show ?thesis
      by (intro that [where r = "Inl (At_test now)" and own = "owner s" and c = "ticks s" and b = ?b])
        (simp_all add: advanced_def advance_ok_at_def advance_work_def lines_of_def graph_wf_def bin_work_def)
  qed
next
  case (At_init now i)
  then show ?thesis using assms
    by (intro that [where r = "Inl (At_point now (Suc i))" and own = "owner s" and c = "ticks s" and b = "fresh_value i (bins s)"])
      (simp_all add: advanced_def advance_ok_at_def advance_work_def bins_left_def lines_of_def graph_wf_def fresh_value_def,
        elim conjE, arith)
next
  case (At_unlock now)
  then show ?thesis using assms
    by (intro that [where r = "Inr now" and own = None and c = "ticks s" and b = "bins s"])
      (simp_all add: advanced_def advance_ok_at_def advance_work_def)
qed
qed

section \<open>A step of the thread that counts\<close>

lemma update_bin_ok:
  assumes "graph_wf b" "in_range (lines_of b) k"
  shows "(\<exists>e. update_bin k b = Inl e \<and> is_runtime_error e) \<or>
    (\<exists>vs. update_bin k b = Inr (b\<lparr>value_this_bin := vs\<rparr>) \<and> length vs = lines_of b)"
  using assms
  by (auto simp: update_bin_def add_to_bin_def set_max_in_bin_def in_range_def lines_of_def is_runtime_error_def Let_def
      split: count.splits)

definition counter_stuck :: "plotting \<Rightarrow> bool" where
  "counter_stuck s \<longleftrightarrow> counter s = Between_calls \<and> calls s = [] \<or> (\<exists>e. counter s = Count_failed e) \<or>
     owner s \<noteq> None \<and> (\<exists>k. counter s = Count_advances k At_lock \<or> counter s = Update_lock k)"

text \<open>What a step of the one thread leaves as it is for the other.\<close>

definition same_for_drawer :: "plotting \<Rightarrow> plotting \<Rightarrow> bool" where
  "same_for_drawer s' s \<longleftrightarrow> drawer s' = drawer s \<and> frames s' = frames s \<and> chart s' = chart s \<and>
     chart_window s' = chart_window s \<and> unhandled s' = unhandled s \<and> drawn s' = drawn s \<and> requests s' = requests s"

definition same_lines :: "live_graph \<Rightarrow> live_graph \<Rightarrow> bool" where
  "same_lines b' b \<longleftrightarrow> lines_of b' = lines_of b \<and> length (data_points b') = length (data_points b) \<and>
     bin_width_ms b' = bin_width_ms b"

definition counter_goes_on :: "plotting \<Rightarrow> plotting \<Rightarrow> bool" where
  "counter_goes_on s s' \<longleftrightarrow>
     same_for_drawer s' s \<and> graph_wf (bins s') \<and> same_lines (bins s') (bins s) \<and>
     (current_bin (bins s') = current_bin (bins s) \<or> counter_holds (counter s)) \<and>
     (\<forall>i. ticks s' i < 2 ^ 40) \<and> counter_ok (bins s') (counter s') \<and>
     list_all (in_range (lines_of (bins s'))) (calls s') \<and>
     (owner s' = Some Counter \<longleftrightarrow> counter_holds (counter s')) \<and>
     (owner s' = Some Drawer \<longleftrightarrow> owner s = Some Drawer) \<and>
     (s' = s \<and> counter_stuck s \<or>
      bins_left (bins s') * bin_work (lines_of (bins s)) +
        (counter_work (lines_of (bins s)) (counter s') + length (calls s') * (bin_work (lines_of (bins s)) + 9))
      < bins_left (bins s) * bin_work (lines_of (bins s)) +
        (counter_work (lines_of (bins s)) (counter s) + length (calls s) * (bin_work (lines_of (bins s)) + 9)))"

lemmas counter_goal = counter_goes_on_def same_for_drawer_def same_lines_def counter_holds_def counter_ok_def
  counter_work_def counter_stuck_def

lemma counter_step_goes_on:
  assumes "graph_wf (bins s)" "counter_ok (bins s) (counter s)" "list_all (in_range (lines_of (bins s))) (calls s)"
    "\<And>i. ticks s i < 2 ^ 40" "owner s = Some Counter \<longleftrightarrow> counter_holds (counter s)"
  shows "counter_goes_on s (counter_step s)"
proof (cases "counter s")
  case Between_calls
  then show ?thesis using assms
    by (cases "calls s") (simp_all add: counter_step_def counter_goal advance_ok_at_def advance_work_def advance_holds_def)
next
  case (Count_advances k pc)
  have pc: "advance_ok_at (bins s) pc" "in_range (lines_of (bins s)) k"
    using assms(2) by (simp_all add: Count_advances counter_ok_def)
  have own: "owner s = Some Counter \<longleftrightarrow> pc \<noteq> At_lock"
    using assms(5) by (simp add: Count_advances counter_holds_def advance_holds_def)
  obtain r own' c b where a: "advance_step Counter pc s = Inr (r, s\<lparr>owner := own', ticks := c, bins := b\<rparr>)" "advanced Counter pc s r own' b"
      "\<And>i. c i < 2 ^ 40" "pc = At_lock \<Longrightarrow> owner s \<noteq> None \<Longrightarrow> s\<lparr>owner := own', ticks := c, bins := b\<rparr> = s"
    using advance_step_ok [OF assms(1) pc(1) assms(4), where t = Counter] by blast
  show ?thesis
  proof (cases r)
    case (Inl pc')
    show ?thesis
    proof (cases "pc = At_lock \<and> owner s \<noteq> None")
      case True
      with a(2) Inl have "pc' = At_lock" by (simp add: advanced_def)
      with a(1) a(4) True Inl Count_advances have "counter_step s = s" by (simp add: counter_step_def)
      with assms Count_advances True show ?thesis by (auto simp: counter_goal)
    next
      case False
      with a(2) Inl own have "pc' \<noteq> At_lock" "own' = Some Counter" "advance_ok_at b pc'"
        "bins_left b * bin_work (lines_of b) + advance_work (lines_of b) pc'
           < bins_left (bins s) * bin_work (lines_of b) + advance_work (lines_of b) pc"
        by (auto simp: advanced_def split: if_splits)
      moreover have "pc \<noteq> At_lock \<or> b = bins s" using a(2) by (auto simp: advanced_def)
      ultimately show ?thesis using a(1-3) Inl Count_advances pc assms(3) False own
        by (auto simp: counter_step_def counter_goal advanced_def advance_holds_def)
    qed
  next
    case (Inr now)
    with a pc assms(3) Count_advances own show ?thesis
      by (auto simp: counter_step_def counter_goal advanced_def advance_holds_def)
  qed
next
  case (Update_lock k)
  then show ?thesis using assms by (auto simp: counter_step_def counter_goal)
next
  case (Update k)
  then have k: "in_range (lines_of (bins s)) k" using assms(2) by (simp add: counter_ok_def)
  from update_bin_ok [OF assms(1) k] show ?thesis
    using assms Update by (auto simp: counter_step_def counter_goal release_def graph_wf_def lines_of_def bins_left_def)
next
  case Update_unlock
  then show ?thesis using assms by (auto simp: counter_step_def counter_goal)
next
  case (Count_failed e)
  then show ?thesis using assms by (auto simp: counter_step_def counter_goal)
qed

section \<open>A step of the thread that draws\<close>

definition awaited :: "plotting \<Rightarrow> bool" where
  "awaited s \<longleftrightarrow> (case frames s of [] \<Rightarrow> False | (srv, answer, sent_events) # fs \<Rightarrow>
     present answer (unhandled s @ sent_events) (gcs (chart s) ! current_gc (chart s)) (length (gcs (chart s)))
       (current_gc (chart s)) (chart_window s) = None)"

definition drawer_stuck :: "plotting \<Rightarrow> bool" where
  "drawer_stuck s \<longleftrightarrow> frames s = [] \<or> (\<exists>e. drawer s = Draw_failed e) \<or>
     owner s \<noteq> None \<and> drawer s = Draw_advances At_lock \<or> drawer s = Presenting \<and> awaited s"

text \<open>What of the invariant is up to the thread that draws.\<close>

definition drawer_inv :: "style list \<Rightarrow> nat \<Rightarrow> plotting \<Rightarrow> bool" where
  "drawer_inv stys n s \<longleftrightarrow>
     charted (bins s) (chart s) \<and> styles (chart s) = stys \<and>
     pixmaps_after {} (requests s) = held_by (chart s) \<and> (\<forall>i. ticks s i < 2 ^ 40) \<and>
     drawer_ok (bins s) (drawer s) \<and> frames_ok s \<and> drawn_ok (unat (bin_width_ms (bins s))) (drawn s) \<and>
     ((\<forall>e. drawer s \<noteq> Draw_failed e) \<longrightarrow>
      length (drawn s) + length (frames s) = n + (if drawer s = Presenting then 1 else 0))"

definition drawer_goes_on :: "style list \<Rightarrow> nat \<Rightarrow> plotting \<Rightarrow> plotting \<Rightarrow> bool" where
  "drawer_goes_on stys n s s' \<longleftrightarrow>
     drawer_inv stys n s' \<and> counter s' = counter s \<and> calls s' = calls s \<and> same_lines (bins s') (bins s) \<and>
     (current_bin (bins s') = current_bin (bins s) \<or> drawer_holds (drawer s)) \<and>
     (owner s' = Some Drawer \<longleftrightarrow> drawer_holds (drawer s')) \<and>
     (owner s' = Some Counter \<longleftrightarrow> owner s = Some Counter) \<and>
     (s' = s \<and> drawer_stuck s \<or>
      bins_left (bins s') * bin_work (lines_of (bins s)) + frames_work (lines_of (bins s)) (drawer s') (length (frames s'))
      < bins_left (bins s) * bin_work (lines_of (bins s)) + frames_work (lines_of (bins s)) (drawer s) (length (frames s)))"

lemma release_same [simp]: "owner s \<noteq> Some t \<Longrightarrow> release t s = s"
  by (simp add: release_def)

lemma charted_same_lines:
  "charted b g \<Longrightarrow> graph_wf b' \<Longrightarrow> same_lines b' b \<Longrightarrow> charted b' g"
  by (simp add: charted_def same_lines_def)

lemma drawer_advances:
  assumes inv: "drawer_inv stys n s" and own: "owner s = Some Drawer \<longleftrightarrow> drawer_holds (drawer s)"
    and fs: "frames s = (srv, answer, sent_events) # fs" and at: "drawer s = Draw_advances pc"
  shows "drawer_goes_on stys n s (drawer_step confidence s)"
proof -
  have pc: "graph_wf (bins s)" "advance_ok_at (bins s) pc" "\<And>i. ticks s i < 2 ^ 40"
    using inv by (simp_all add: drawer_inv_def drawer_ok_def at charted_def)
  have o: "owner s = Some Drawer \<longleftrightarrow> pc \<noteq> At_lock"
    using own by (simp add: at drawer_holds_def advance_holds_def)
  obtain r own' c b where a: "advance_step Drawer pc s = Inr (r, s\<lparr>owner := own', ticks := c, bins := b\<rparr>)"
      "advanced Drawer pc s r own' b" "\<And>i. c i < 2 ^ 40"
      "pc = At_lock \<Longrightarrow> owner s \<noteq> None \<Longrightarrow> s\<lparr>owner := own', ticks := c, bins := b\<rparr> = s"
    using advance_step_ok [OF pc, where t = Drawer] by blast
  have b: "graph_wf b" "same_lines b (bins s)" using a(2) by (auto simp: advanced_def same_lines_def)
  have ch: "charted b (chart s)" using inv charted_same_lines [OF _ b] by (simp add: drawer_inv_def)
  have ids: "ids_to_come (s\<lparr>owner := own', ticks := c, bins := b, drawer := p\<rparr>) = ids_to_come s"
    if "p \<noteq> Presenting" "\<forall>e. p \<noteq> Draw_failed e" for p
    using that by (auto simp: ids_to_come_def at split: draw_pc.splits)
  have keeps: "drawer_inv stys n (s\<lparr>owner := own', ticks := c, bins := b, drawer := p\<rparr>)"
    if "p \<noteq> Presenting" "\<forall>e. p \<noteq> Draw_failed e" "drawer_ok b p" for p
    using inv that ch a(3) b(2) ids [OF that(1,2)] fs at by (auto simp: drawer_inv_def frames_ok_def same_lines_def)
  show ?thesis
  proof (cases r)
    case (Inl pc')
    show ?thesis
    proof (cases "pc = At_lock \<and> owner s \<noteq> None")
      case True
      with a(2) Inl have "pc' = At_lock" by (simp add: advanced_def)
      with a(1) a(4) True Inl at fs have "drawer_step confidence s = s" by (simp add: drawer_step_def)
      with inv at True own show ?thesis by (auto simp: drawer_goes_on_def drawer_stuck_def same_lines_def)
    next
      case False
      with a(2) Inl o have n: "pc' \<noteq> At_lock" "own' = Some Drawer" "advance_ok_at b pc'"
        "bins_left b * bin_work (lines_of b) + advance_work (lines_of b) pc'
           < bins_left (bins s) * bin_work (lines_of b) + advance_work (lines_of b) pc"
        by (auto simp: advanced_def split: if_splits)
      have "pc \<noteq> At_lock \<or> b = bins s" using a(2) by (auto simp: advanced_def)
      moreover have "drawer_step confidence s = s\<lparr>owner := own', ticks := c, bins := b, drawer := Draw_advances pc'\<rparr>"
        using a(1) Inl at fs by (simp add: drawer_step_def)
      ultimately show ?thesis using n b(2) at fs False o keeps [of "Draw_advances pc'"]
        by (auto simp: drawer_goes_on_def drawer_ok_def drawer_holds_def advance_holds_def same_lines_def frames_work_def
            drawer_work_def)
    qed
  next
    case (Inr now)
    have r: "now < 2 ^ 40" "own' = None" "pc \<noteq> At_lock" "b = bins s" "advance_work (lines_of b) pc = 1"
      using a(2) Inr by (auto simp: advanced_def)
    have "drawer_step confidence s = s\<lparr>owner := own', ticks := c, bins := b, drawer := Reading now []\<rparr>"
      using a(1) Inr at fs by (simp add: drawer_step_def)
    then show ?thesis using r at fs o keeps [of "Reading now []"]
      by (auto simp: drawer_goes_on_def drawer_ok_def drawer_holds_def advance_holds_def same_lines_def frames_work_def
          drawer_work_def)
  qed
qed

text \<open>A step outside \<open>advance\<close>, which touches neither the mutex nor the clock nor the bin.\<close>

lemma drawer_outside:
  assumes inv: "drawer_inv stys n s" and own: "owner s \<noteq> Some Drawer"
    and fs: "frames s \<noteq> []" and at: "drawer s \<noteq> Presenting" "\<forall>e. drawer s \<noteq> Draw_failed e"
    and p: "p \<noteq> Presenting" "\<not> drawer_holds p" "drawer_ok (bins s) p"
      "drawer_work (lines_of (bins s)) p < drawer_work (lines_of (bins s)) (drawer s)"
    and b: "length points = length (data_points (bins s))"
  shows "drawer_goes_on stys n s (s\<lparr>bins := (bins s)\<lparr>data_points := points\<rparr>, drawer := p\<rparr>)"
    "drawer_goes_on stys n s (s\<lparr>drawer := p\<rparr>)"
proof -
  have *: "drawer_goes_on stys n s (s\<lparr>bins := (bins s)\<lparr>data_points := points\<rparr>, drawer := p\<rparr>)"
    if "length points = length (data_points (bins s))" for points
  proof -
    let ?s = "s\<lparr>bins := (bins s)\<lparr>data_points := points\<rparr>, drawer := p\<rparr>"
    have ok: "drawer_ok (bins ?s) p"
      using p(3) drawer_ok_same [of "bins ?s" "bins s" p] by (simp add: lines_of_def)
    have "ids_to_come ?s = ids_to_come s \<or> ids_to_come ?s = []"
      using at p(1) by (auto simp: ids_to_come_def split: draw_pc.splits)
    with inv that fs at p(1) ok have "drawer_inv stys n ?s"
      by (auto simp: drawer_inv_def frames_ok_def charted_def graph_wf_def)
    with that own fs p(2,4) show ?thesis
      by (simp add: drawer_goes_on_def same_lines_def lines_of_def bins_left_def frames_work_def)
  qed
  show "drawer_goes_on stys n s (s\<lparr>bins := (bins s)\<lparr>data_points := points\<rparr>, drawer := p\<rparr>)" by (rule * [OF b])
  from * [of "data_points (bins s)"] show "drawer_goes_on stys n s (s\<lparr>drawer := p\<rparr>)" by simp
qed

lemma drawer_composes:
  assumes inv: "drawer_inv stys n s" and own: "owner s \<noteq> Some Drawer" and k: "weighs confidence"
    and fs: "frames s = (srv, answer, sent_events) # fs" and at: "drawer s = Composing ts estimates width points"
  shows "drawer_goes_on stys n s (drawer_step confidence s)"
    "(\<exists>e. drawer (drawer_step confidence s) = Draw_failed e) \<longrightarrow> \<not> answers_well srv"
proof -
  let ?w = "weight_at confidence (bins s) ts" and ?so_far = "bin_width_so_far (bins s) ts"
  have e: "ts < 2 ^ 40" "length estimates = lines_of (bins s)" "?so_far \<noteq> 0 \<Longrightarrow> list_all finite_value estimates"
    "length points = lines_of (bins s)" "charted (bins s) (chart s)"
    using inv by (simp_all add: drawer_inv_def drawer_ok_def estimates_ok_def at)
  then have len: "length points = length (styles (chart s))" "length estimates = length (styles (chart s))"
    by (simp_all add: charted_def graph_wf_def lines_of_def)
  have heavy: "list_all finite_value estimates" if "dbl (4 / 10) < ?w"
  proof (rule e(3), rule notI)
    assume "?so_far = 0"
    with weight_at_ok(3) [OF k] that have "dbl (4 / 10) < 0" by metis
    then show False using dbl_nonneg [of "4 / 10"] by simp
  qed
  have new: "generated_id srv \<notin> held_by (chart s)" using inv fs at by (simp add: drawer_inv_def frames_ok_def ids_to_come_def)
  have ok: "frame_ok (chart s)" using e(5) by (simp add: charted_def)
  let ?r = "draw_snapshot srv (seconds ts) width estimates ?w points (chart s)"
  from draw_snapshot_ok [OF ok new len weight_at_ok(1,2) [OF k] heavy time_bound [OF e(1)], where width = width]
  consider msg where "?r = Inl (Runtime_error msg)" "\<not> answers_well srv"
    | g' ds reqs where "?r = Inr (g', ds, reqs)" "frame_ok g'" "styles g' = styles (chart s)"
      "pixmaps_after (held_by (chart s)) reqs = held_by g'" "held_by g' \<subseteq> insert (generated_id srv) (held_by (chart s))"
      "list_all finite_value estimates \<longrightarrow> finite_drawings ds"
    by blast
  then have "drawer_goes_on stys n s (drawer_step confidence s) \<and>
    ((\<exists>e. drawer (drawer_step confidence s) = Draw_failed e) \<longrightarrow> \<not> answers_well srv)"
  proof cases
    case 1
    then have "drawer_step confidence s = s\<lparr>drawer := Draw_failed (Runtime_error msg)\<rparr>"
      using at fs by (simp add: drawer_step_def)
    with 1(2) drawer_outside(2) [OF inv own, of "Draw_failed (Runtime_error msg)"] fs at show ?thesis
      by (simp add: drawer_ok_def is_runtime_error_def drawer_holds_def drawer_work_def)
  next
    case 2
    let ?s = "s\<lparr>chart := g', drawn := drawn s @ [(ts, ds)], requests := requests s @ reqs, drawer := Presenting\<rparr>"
    have step: "drawer_step confidence s = ?s" using at fs 2(1) by (simp add: drawer_step_def)
    have "ids_to_come s = generated_id srv # ids_to_come ?s" using fs at by (simp add: ids_to_come_def)
    moreover have "distinct (ids_to_come s)" "set (ids_to_come s) \<inter> held_by (chart s) = {}"
      using inv by (simp_all add: drawer_inv_def frames_ok_def)
    ultimately have "set (ids_to_come ?s) \<inter> held_by g' = {}" "distinct (ids_to_come ?s)" using 2(5) by auto
    moreover have "drawn_ok (unat (bin_width_ms (bins s))) (drawn ?s)"
      using inv 2(6) e(3) by (auto simp: drawer_inv_def drawn_ok_def bin_width_so_far_def)
    moreover have "charted (bins s) g'" using e(5) 2(2,3) by (simp add: charted_def)
    moreover have "\<not> drawer_holds (drawer s)" by (simp add: at drawer_holds_def)
    ultimately have "drawer_inv stys n ?s"
      using inv 2(3,4) fs at by (simp add: drawer_inv_def frames_ok_def drawer_ok_def)
    then show ?thesis using own fs at
      by (simp add: step drawer_goes_on_def same_lines_def drawer_holds_def frames_work_def drawer_work_def)
  qed
  then show "drawer_goes_on stys n s (drawer_step confidence s)"
    "(\<exists>e. drawer (drawer_step confidence s) = Draw_failed e) \<longrightarrow> \<not> answers_well srv" by blast+
qed

lemma drawer_presents:
  assumes inv: "drawer_inv stys n s" and own: "owner s \<noteq> Some Drawer"
    and fs: "frames s = (srv, answer, sent_events) # fs" and at: "drawer s = Presenting"
  shows "drawer_goes_on stys n s (drawer_step confidence s)"
proof -
  let ?r = "present answer (unhandled s @ sent_events) (gcs (chart s) ! current_gc (chart s)) (length (gcs (chart s)))
    (current_gc (chart s)) (chart_window s)"
  consider "?r = None" | e where "?r = Some (Inl e)" | w es reqs where "?r = Some (Inr (w, es, reqs))"
    by (metis (no_types) option.exhaust sum.exhaust prod.exhaust)
  then show ?thesis
  proof cases
    case 1
    then have "drawer_step confidence s = s" "drawer_stuck s" using fs at by (simp_all add: drawer_step_def drawer_stuck_def awaited_def)
    with inv own show ?thesis by (simp add: drawer_goes_on_def same_lines_def at drawer_holds_def)
  next
    case 2
    have "is_runtime_error e" using present_error [OF 2] by (simp add: is_runtime_error_def)
    moreover have "drawer_step confidence s = s\<lparr>drawer := Draw_failed e\<rparr>" using 2 fs at by (simp add: drawer_step_def)
    moreover have "charted (bins s) (chart s)" using inv by (simp add: drawer_inv_def)
    ultimately show ?thesis using inv own fs at
      by (simp add: drawer_goes_on_def drawer_inv_def frames_ok_def ids_to_come_def same_lines_def drawer_ok_def
          drawer_holds_def frames_work_def drawer_work_def)
  next
    case 3
    let ?s = "s\<lparr>chart := next_gc (chart s), chart_window := w, unhandled := es, requests := requests s @ reqs,
      frames := fs, drawer := Between_frames\<rparr>"
    have step: "drawer_step confidence s = ?s" using 3 fs at by (simp add: drawer_step_def)
    have "charted (bins s) (next_gc (chart s))" using inv by (simp add: drawer_inv_def charted_def next_gc_ok)
    with inv fs at present_pixmaps [OF 3] have "drawer_inv stys n ?s"
      by (simp add: drawer_inv_def frames_ok_def ids_to_come_def drawer_ok_def)
    then show ?thesis using own fs at
      by (cases "length fs") (simp_all add: step drawer_goes_on_def same_lines_def drawer_holds_def frames_work_def drawer_work_def)
  qed
qed

text \<open>A step whatever comes of it; with an X server that answers, no exception.\<close>

lemma drawer_step_goes_on:
  assumes inv: "drawer_inv stys n s" and own: "owner s = Some Drawer \<longleftrightarrow> drawer_holds (drawer s)" and k: "weighs confidence"
  shows "drawer_goes_on stys n s (drawer_step confidence s)"
proof (cases "frames s")
  case Nil
  with inv own show ?thesis
    by (simp add: drawer_step_def drawer_goes_on_def drawer_stuck_def same_lines_def)
next
  case (Cons f fs)
  obtain srv answer sent_events where f: "frames s = (srv, answer, sent_events) # fs" using Cons by (metis prod.exhaust)
  have ne: "frames s \<noteq> []" using f by simp
  have lines: "lines_of (bins s) = length (data_points (bins s))"
    using inv by (simp add: drawer_inv_def charted_def graph_wf_def lines_of_def)
  show ?thesis
  proof (cases "drawer s")
    case Between_frames
    with own have o: "owner s \<noteq> Some Drawer" by (simp add: drawer_holds_def)
    have "drawer_step confidence s = s\<lparr>drawer := Draw_advances At_lock\<rparr>" using Between_frames f by (simp add: drawer_step_def)
    with drawer_outside(2) [OF inv o ne, of "Draw_advances At_lock"] Between_frames show ?thesis
      by (simp add: drawer_ok_def advance_ok_at_def drawer_holds_def advance_holds_def drawer_work_def advance_work_def)
  next
    case (Draw_advances pc)
    from drawer_advances [OF inv own f this] show ?thesis .
  next
    case (Reading ts estimates)
    with own have o: "owner s \<noteq> Some Drawer" by (simp add: drawer_holds_def)
    have e: "ts < 2 ^ 40" "length estimates \<le> lines_of (bins s)"
      "bin_width_so_far (bins s) ts \<noteq> 0 \<Longrightarrow> list_all finite_value estimates"
      using inv by (simp_all add: drawer_inv_def drawer_ok_def Reading)
    let ?x = "current_estimate (bins s) (bin_width_so_far (bins s) ts) (value_this_bin (bins s) ! length estimates)"
    let ?p = "if length estimates < lines_of (bins s) then Reading ts (estimates @ [?x]) else Asking ts estimates"
    have "drawer_step confidence s = s\<lparr>drawer := ?p\<rparr>" using Reading f by (simp add: drawer_step_def lines_of_def)
    with drawer_outside(2) [OF inv o ne, of ?p] Reading e show ?thesis
      by (simp add: drawer_ok_def estimates_ok_def drawer_holds_def drawer_work_def current_estimate_finite
          split: if_split_asm)
  next
    case (Asking ts estimates)
    with own have o: "owner s \<noteq> Some Drawer" by (simp add: drawer_holds_def)
    let ?p = "case xwindow_size (geometry srv 0) of Inl e \<Rightarrow> Draw_failed e
      | Inr window \<Rightarrow> Pruning ts estimates (flt (logical_width window))"
    have "drawer_step confidence s = s\<lparr>drawer := ?p\<rparr>" using Asking f by (simp add: drawer_step_def split: sum.split)
    moreover have "drawer_ok (bins s) ?p"
      using inv by (auto simp: drawer_inv_def drawer_ok_def Asking xwindow_size_def is_runtime_error_def
          split: sum.split dest!: notnull_error)
    ultimately show ?thesis using drawer_outside(2) [OF inv o ne, of ?p] Asking
      by (simp add: drawer_holds_def drawer_work_def split: sum.split_asm)
  next
    case (Pruning ts estimates width)
    with own have o: "owner s \<noteq> Some Drawer" by (simp add: drawer_holds_def)
    let ?points = "prune_points (seconds ts) width (data_points (bins s))"
    have "drawer_step confidence s = s\<lparr>bins := (bins s)\<lparr>data_points := ?points\<rparr>, drawer := Composing ts estimates width ?points\<rparr>"
      using Pruning f by (simp add: drawer_step_def Let_def)
    moreover have "estimates_ok (bins s) ts estimates" using inv by (simp add: drawer_inv_def drawer_ok_def Pruning)
    ultimately show ?thesis using drawer_outside(1) [OF inv o ne, of "Composing ts estimates width ?points" ?points] Pruning lines
      by (simp add: prune_points_def drawer_ok_def drawer_holds_def drawer_work_def)
  next
    case (Composing ts estimates width points)
    with own have o: "owner s \<noteq> Some Drawer" by (simp add: drawer_holds_def)
    from drawer_composes(1) [OF inv o k f Composing] show ?thesis .
  next
    case Presenting
    with own have o: "owner s \<noteq> Some Drawer" by (simp add: drawer_holds_def)
    from drawer_presents [OF inv o f Presenting] show ?thesis .
  next
    case (Draw_failed e)
    with inv own f show ?thesis by (simp add: drawer_step_def drawer_goes_on_def drawer_stuck_def same_lines_def)
  qed
qed

section \<open>Both threads\<close>

definition plot_ok :: "u32 \<Rightarrow> style list \<Rightarrow> nat \<Rightarrow> plotting \<Rightarrow> bool" where
  "plot_ok width stys n s \<longleftrightarrow>
     drawer_inv stys n s \<and> bin_width_ms (bins s) = width \<and> mutex_ok s \<and>
     counter_ok (bins s) (counter s) \<and> list_all (in_range (lines_of (bins s))) (calls s)"

definition stuck :: "actor \<Rightarrow> plotting \<Rightarrow> bool" where
  "stuck t s = (case t of Drawer \<Rightarrow> drawer_stuck s | Counter \<Rightarrow> counter_stuck s)"

lemma drawer_step_ok:
  assumes "plot_ok width stys n s" "weighs confidence"
  shows "plot_ok width stys n (drawer_step confidence s)"
    "drawer_step confidence s = s \<and> drawer_stuck s \<or> work_left (drawer_step confidence s) < work_left s"
proof -
  let ?s = "drawer_step confidence s"
  have m: "owner s = Some Drawer \<longleftrightarrow> drawer_holds (drawer s)" "owner s = Some Counter \<longleftrightarrow> counter_holds (counter s)"
    using assms(1) by (simp_all add: plot_ok_def mutex_ok_def)
  have "drawer_inv stys n s" using assms(1) by (simp add: plot_ok_def)
  note d = drawer_step_goes_on [OF this m(1) assms(2), unfolded drawer_goes_on_def]
  have "counter_ok (bins ?s) (counter s) = counter_ok (bins s) (counter s)"
  proof (cases "drawer_holds (drawer s)")
    case True
    with m have "\<not> counter_holds (counter s)" by auto
    with d show ?thesis by (intro counter_ok_outside) (simp_all add: same_lines_def)
  next
    case False
    with d show ?thesis by (intro counter_ok_same) (simp_all add: same_lines_def)
  qed
  with d assms(1) m show "plot_ok width stys n ?s" by (simp add: plot_ok_def mutex_ok_def same_lines_def)
  show "?s = s \<and> drawer_stuck s \<or> work_left ?s < work_left s"
    using d by (auto simp: work_left_def Let_def same_lines_def)
qed

lemma counter_step_ok:
  assumes "plot_ok width stys n s"
  shows "plot_ok width stys n (counter_step s)"
    "counter_step s = s \<and> counter_stuck s \<or> work_left (counter_step s) < work_left s"
proof -
  let ?s = "counter_step s"
  have m: "owner s = Some Drawer \<longleftrightarrow> drawer_holds (drawer s)" "owner s = Some Counter \<longleftrightarrow> counter_holds (counter s)"
    using assms by (simp_all add: plot_ok_def mutex_ok_def)
  have i: "graph_wf (bins s)" "counter_ok (bins s) (counter s)" "list_all (in_range (lines_of (bins s))) (calls s)"
      "\<And>i. ticks s i < 2 ^ 40" "charted (bins s) (chart s)"
    using assms by (simp_all add: plot_ok_def drawer_inv_def charted_def)
  note c = counter_step_goes_on [OF i(1-4) m(2), unfolded counter_goes_on_def]
  have ch: "charted (bins ?s) (chart s)" using charted_same_lines [OF i(5)] c by blast
  have "drawer_ok (bins ?s) (drawer s) = drawer_ok (bins s) (drawer s)"
  proof (cases "counter_holds (counter s)")
    case True
    with m have "\<not> drawer_holds (drawer s)" by auto
    with c show ?thesis by (intro drawer_ok_outside) (simp_all add: same_lines_def)
  next
    case False
    with c show ?thesis by (intro drawer_ok_same) (simp_all add: same_lines_def)
  qed
  moreover have "ids_to_come ?s = ids_to_come s"
  proof -
    have "frames ?s = frames s" "drawer ?s = drawer s" using c by (simp_all add: same_for_drawer_def)
    then show ?thesis by (simp only: ids_to_come_def)
  qed
  moreover have "drawer ?s = drawer s" "frames ?s = frames s" "chart ?s = chart s" "drawn ?s = drawn s" "requests ?s = requests s"
    "bin_width_ms (bins ?s) = bin_width_ms (bins s)" "\<forall>i. ticks ?s i < 2 ^ 40"
    using c by (simp_all add: same_for_drawer_def same_lines_def)
  ultimately have "drawer_inv stys n ?s"
    using assms ch by (auto simp: plot_ok_def drawer_inv_def frames_ok_def)
  with c assms m show "plot_ok width stys n ?s"
    by (auto simp: plot_ok_def mutex_ok_def same_for_drawer_def same_lines_def)
  show "?s = s \<and> counter_stuck s \<or> work_left ?s < work_left s"
    using c by (auto simp: work_left_def Let_def same_lines_def same_for_drawer_def)
qed

lemma plot_step_ok:
  assumes "plot_ok width stys n s" "weighs confidence"
  shows "plot_ok width stys n (plot_step confidence t s)"
    "plot_step confidence t s = s \<and> stuck t s \<or> work_left (plot_step confidence t s) < work_left s"
  using drawer_step_ok [OF assms] counter_step_ok [OF assms(1)]
  by (cases t; simp add: plot_step_def stuck_def)+

lemma plot_run_ok:
  assumes "plot_ok width stys n s" "weighs confidence"
  shows "plot_ok width stys n (plot_run confidence ts s)" "work_left (plot_run confidence ts s) \<le> work_left s"
proof -
  have "plot_ok width stys n (plot_run confidence ts s) \<and> work_left (plot_run confidence ts s) \<le> work_left s"
    using assms
  proof (induction ts arbitrary: s)
    case (Cons t ts)
    from Cons.IH [OF plot_step_ok(1) [OF Cons.prems, of t] Cons.prems(2)] plot_step_ok(2) [OF Cons.prems, of t]
    show ?case by auto
  qed simp
  then show "plot_ok width stys n (plot_run confidence ts s)" "work_left (plot_run confidence ts s) \<le> work_left s" by blast+
qed

text \<open>They never wait for each other, and when one ends it does not keep the mutex.\<close>

definition both_done :: "plotting \<Rightarrow> bool" where
  "both_done s \<longleftrightarrow> (frames s = [] \<or> (\<exists>e. drawer s = Draw_failed e) \<or> drawer s = Presenting \<and> awaited s) \<and>
     (counter s = Between_calls \<and> calls s = [] \<or> (\<exists>e. counter s = Count_failed e))"

lemma no_deadlock:
  assumes "plot_ok width stys n s" "stuck Drawer s" "stuck Counter s"
  shows "both_done s"
proof -
  have m: "owner s = Some Drawer \<longleftrightarrow> drawer_holds (drawer s)" "owner s = Some Counter \<longleftrightarrow> counter_holds (counter s)"
    and f: "frames s = [] \<longrightarrow> drawer s = Between_frames"
    using assms(1) by (simp_all add: plot_ok_def mutex_ok_def drawer_inv_def frames_ok_def)
  have "\<not> drawer_holds (drawer s)" using assms(2) f by (auto simp: stuck_def drawer_stuck_def drawer_holds_def advance_holds_def)
  moreover have "\<not> counter_holds (counter s)"
    using assms(3) by (auto simp: stuck_def counter_stuck_def counter_holds_def advance_holds_def)
  ultimately have "owner s = None" using m by (metis (full_types) actor.exhaust option.exhaust)
  with assms(2,3) show ?thesis by (auto simp: both_done_def stuck_def drawer_stuck_def counter_stuck_def)
qed

text \<open>A round in which each thread has a turn brings the end nearer.\<close>

definition fair :: "actor list \<Rightarrow> bool" where
  "fair ts \<longleftrightarrow> {Drawer, Counter} \<subseteq> set ts"

lemma round_progress:
  assumes "plot_ok width stys n s" "weighs confidence" "fair ts" "\<not> both_done s"
  shows "work_left (plot_run confidence ts s) < work_left s"
proof -
  obtain t where t: "t \<in> set ts" "\<not> stuck t s"
    using assms(3) no_deadlock [OF assms(1)] assms(4) by (auto simp: fair_def)
  then show ?thesis using assms(1)
  proof (induction ts)
    case (Cons u us)
    from plot_step_ok(2) [OF Cons.prems(3) assms(2), of u] show ?case
    proof
      assume *: "plot_step confidence u s = s \<and> stuck u s"
      with Cons.prems(1,2) have "t \<in> set us" by auto
      from Cons.IH [OF this Cons.prems(2,3)] * show ?thesis by simp
    next
      assume "work_left (plot_step confidence u s) < work_left s"
      with plot_run_ok(2) [OF plot_step_ok(1) [OF Cons.prems(3) assms(2), of u] assms(2), of us] show ?thesis
        by simp
    qed
  qed simp
qed

lemma both_done_stays: "both_done s \<Longrightarrow> plot_run confidence ts s = s"
proof (induction ts)
  case (Cons t ts)
  then have "plot_step confidence t s = s"
    by (cases t) (auto simp: both_done_def plot_step_def drawer_step_def counter_step_def awaited_def split: list.splits)
  with Cons show ?case by simp
qed simp

lemma fair_rounds_end:
  assumes "plot_ok width stys n s" "weighs confidence" "\<forall>ts \<in> set rounds. fair ts" "work_left s \<le> length rounds"
  shows "both_done (plot_run confidence (concat rounds) s)"
  using assms
proof (induction rounds arbitrary: s)
  case Nil
  have "both_done s"
  proof (rule ccontr)
    assume "\<not> both_done s"
    then have "work_left (plot_run confidence [Drawer, Counter] s) < work_left s"
      using Nil.prems(1,2) by (intro round_progress) (auto simp: fair_def)
    with Nil.prems(4) show False by simp
  qed
  then show ?case by simp
next
  case (Cons ts rounds)
  show ?case
  proof (cases "both_done s")
    case True
    then show ?thesis by (simp add: both_done_stays)
  next
    case False
    let ?s = "plot_run confidence ts s"
    have "work_left ?s < work_left s" using Cons.prems False by (intro round_progress) auto
    then have "work_left ?s \<le> length rounds" using Cons.prems(4) by simp
    from Cons.IH [OF plot_run_ok(1) [OF Cons.prems(1,2)] Cons.prems(2) _ this] Cons.prems(3)
    show ?thesis by simp
  qed
qed

section \<open>A server that answers\<close>

text \<open>It grants what a frame asks for and sends the two events for every pixmap that is presented.\<close>

definition served :: "xwindow \<Rightarrow> frame_answers \<Rightarrow> bool" where
  "served w f = (case f of (srv, answer, sent_events) \<Rightarrow>
     answers_well srv \<and> answer = None \<and> list_all (expected w) sent_events \<and>
     list_ex (says_idle w) sent_events \<and> list_ex (says_complete w) sent_events)"

definition served_so_far :: "plotting \<Rightarrow> bool" where
  "served_so_far s \<longleftrightarrow> list_all (served (chart_window s)) (frames s) \<and> list_all (expected (chart_window s)) (unhandled s) \<and>
     (is_complete (chart_window s) \<or> list_ex (says_complete (chart_window s)) (unhandled s)) \<and>
     (\<forall>e. drawer s \<noteq> Draw_failed e)"

lemma served_present:
  assumes "served_so_far s" "frames s = (srv, answer, sent_events) # fs"
  shows "\<exists>w es reqs. present answer (unhandled s @ sent_events) p d r (chart_window s) = Some (Inr (w, es, reqs)) \<and>
    same_ids w (chart_window s) \<and> (is_complete w \<or> list_ex (says_complete (chart_window s)) es) \<and>
    list_all (expected (chart_window s)) es"
proof -
  have a: "answer = None" "is_complete (chart_window s) \<or> (\<exists>e \<in> set (unhandled s). says_complete (chart_window s) e)"
    "\<forall>e \<in> set (unhandled s @ sent_events). expected (chart_window s) e"
    "\<exists>e \<in> set sent_events. says_idle (chart_window s) e" "\<exists>e \<in> set sent_events. says_complete (chart_window s) e"
    using assms by (auto simp: served_so_far_def served_def list_all_iff list_ex_iff)
  from present_returns [OF a(2-5), of p d r] a(1,3) show ?thesis
    by (fastforce simp: list_all_iff list_ex_iff)
qed

lemma served_not_awaited:
  assumes "served_so_far s"
  shows "\<not> awaited s"
proof (cases "frames s")
  case (Cons f fs)
  obtain srv answer sent_events where f: "frames s = (srv, answer, sent_events) # fs" using Cons by (metis prod.exhaust)
  from served_present [OF assms f, of "gcs (chart s) ! current_gc (chart s)" "length (gcs (chart s))" "current_gc (chart s)"]
  show ?thesis by (auto simp: awaited_def f)
qed (simp add: awaited_def)

lemma served_same_ids:
  assumes "same_ids w' w"
  shows "served w' = served w \<and> expected w' = expected w \<and> says_complete w' = says_complete w"
proof -
  have i: "says_complete w' = says_complete w" "says_idle w' = says_idle w" using says_same_ids [OF assms] by simp_all
  then have e: "expected w' = expected w" by (simp add: expected_def fun_eq_iff)
  then have "served w' f = served w f" for f by (simp only: served_def i)
  with i e show ?thesis by (simp add: fun_eq_iff)
qed

lemma served_drawer_step:
  assumes "plot_ok width stys n s" "weighs confidence" "served_so_far s"
  shows "served_so_far (drawer_step confidence s)"
proof (cases "frames s")
  case Nil
  with assms(3) show ?thesis by (simp add: drawer_step_def)
next
  case (Cons f fs)
  obtain srv answer sent_events where f: "frames s = (srv, answer, sent_events) # fs" using Cons by (metis prod.exhaust)
  have inv: "drawer_inv stys n s" "owner s = Some Drawer \<longleftrightarrow> drawer_holds (drawer s)"
    using assms(1) by (simp_all add: plot_ok_def mutex_ok_def)
  have a: "answers_well srv" using assms(3) f by (simp add: served_so_far_def served_def)
  show ?thesis
  proof (cases "drawer s")
    case (Draw_advances pc)
    have "graph_wf (bins s)" "advance_ok_at (bins s) pc" "\<And>i. ticks s i < 2 ^ 40"
      using inv(1) by (simp_all add: drawer_inv_def drawer_ok_def Draw_advances charted_def)
    from advance_step_ok [OF this, where t = Drawer] f Draw_advances assms(3) show ?thesis
      by (auto simp: drawer_step_def served_so_far_def split: sum.split)
  next
    case (Asking ts estimates)
    have "geometry srv 0 \<noteq> None" using a by (simp add: answers_well_def)
    from xwindow_size_answered [OF this] f Asking assms(3) show ?thesis
      by (auto simp: drawer_step_def served_so_far_def)
  next
    case (Composing ts estimates width points)
    with inv(2) have o: "owner s \<noteq> Some Drawer" by (simp add: drawer_holds_def)
    from drawer_composes(2) [OF inv(1) o assms(2) f Composing] a f Composing assms(3) show ?thesis
      by (auto simp: drawer_step_def served_so_far_def split: sum.splits prod.splits)
  next
    case Presenting
    obtain w es reqs where p: "present answer (unhandled s @ sent_events) (gcs (chart s) ! current_gc (chart s))
        (length (gcs (chart s))) (current_gc (chart s)) (chart_window s) = Some (Inr (w, es, reqs))"
      "same_ids w (chart_window s)" "is_complete w \<or> list_ex (says_complete (chart_window s)) es"
      "list_all (expected (chart_window s)) es"
      using served_present [OF assms(3) f] by blast
    with served_same_ids [OF p(2)] f Presenting assms(3) show ?thesis
      by (simp add: drawer_step_def served_so_far_def)
  qed (use f assms(3) in \<open>simp_all add: drawer_step_def served_so_far_def Let_def\<close>)
qed

lemma served_counter_step:
  assumes "plot_ok width stys n s" "served_so_far s"
  shows "served_so_far (counter_step s)"
proof -
  have "graph_wf (bins s)" "counter_ok (bins s) (counter s)" "list_all (in_range (lines_of (bins s))) (calls s)"
      "\<And>i. ticks s i < 2 ^ 40" "owner s = Some Counter \<longleftrightarrow> counter_holds (counter s)"
    using assms(1) by (simp_all add: plot_ok_def drawer_inv_def charted_def mutex_ok_def)
  from counter_step_goes_on [OF this] assms(2) show ?thesis
    by (simp add: counter_goes_on_def same_for_drawer_def served_so_far_def)
qed

lemma served_run:
  assumes "plot_ok width stys n s" "weighs confidence" "served_so_far s"
  shows "served_so_far (plot_run confidence ts s)"
  using assms
proof (induction ts arbitrary: s)
  case (Cons t ts)
  have "served_so_far (plot_step confidence t s)"
    using served_drawer_step [OF Cons.prems] served_counter_step [OF Cons.prems(1,3)]
    by (simp add: plot_step_def split: actor.split)
  from Cons.IH [OF plot_step_ok(1) [OF Cons.prems(1,2)] Cons.prems(2) this] show ?case by simp
qed simp

end
