(* ===== verification/Graph_Properties.thy ===== *)
theory Graph_Properties
  imports Graph_Threads
begin

text \<open>What the graphs of the shells promise.\<close>

lemma add_data_point_lengths:
  "add_data_point i t y g = Inr g' \<Longrightarrow> length (data_points g') = length (data_points g) \<and>
     value_this_bin g' = value_this_bin g \<and> bin_width_ms g' = bin_width_ms g"
  by (auto simp: add_data_point_def split: if_splits)

lemma live_graph_new_wf:
  assumes "live_graph_new c n mult rate width init = Inr (lg, c')"
  shows "graph_wf lg" "length (data_points lg) = n" "bin_width_ms lg = width" "c' = (\<lambda>n. c (Suc n))"
proof -
  define lg0 where "lg0 = \<lparr>bin_width_ms = width, value_this_bin = replicate n (0 :: u32),
    current_bin = fst (timestamp c) div ucast width, multiplier = mult, rate_quantity = rate,
    initialize_new_bin = init, data_points = replicate n []\<rparr>"
  have lg0: "fold_res (\<lambda>i. add_data_point i 0 0) [0..<n] lg0 = Inr lg" "length (data_points lg0) = n"
      "length (value_this_bin lg0) = n" "bin_width_ms lg0 = width" and c': "c' = (\<lambda>n. c (Suc n))"
    using assms by (auto simp: live_graph_new_def lg0_def timestamp_def res_simps split: if_splits)
  have "length (data_points lg) = length (data_points lg0) \<and> value_this_bin lg = value_this_bin lg0 \<and>
      bin_width_ms lg = bin_width_ms lg0"
    using lg0(1) by (rule fold_res_preserves) (auto dest: add_data_point_lengths)
  with lg0 show "graph_wf lg" "length (data_points lg) = n" "bin_width_ms lg = width" by (simp_all add: graph_wf_def)
  show "c' = (\<lambda>n. c (Suc n))" by (rule c')
qed

text \<open>The graph as the constructor leaves it.\<close>

lemma graph_new_ok:
  assumes "graph_new x answers window_answers 0 1 stys = Inr (g, reqs)"
    "distinct (map (\<lambda>i. fst (fst (answers i))) [0, 1, 2])"
  shows "frame_ok g" "styles g = stys" "pixmaps_after {} reqs = held_by g" "held_by g = (\<lambda>i. fst (fst (answers i))) ` {0, 1, 2}"
proof -
  obtain i0 g0 a0 s0 i1 g1 a1 s1 i2 g2 a2 s2 named mapped flushed
    where a: "answers 0 = ((i0, g0, a0), s0)" "answers 1 = ((i1, g1, a1), s1)" "answers 2 = ((i2, g2, a2), s2)"
      "window_answers = (named, mapped, flushed)"
    by (metis prod.exhaust)
  show "frame_ok g" "styles g = stys" "pixmaps_after {} reqs = held_by g" "held_by g = (\<lambda>i. fst (fst (answers i))) ` {0, 1, 2}"
    using assms a [unfolded One_nat_def]
    by (auto simp: graph_new_def res_simps frame_ok_def scale_ok_def y_labels_ok_def pixmaps_ok_def held_by_def
        dest!: graphic_context_new_value)
qed

lemma plotting_new_ok:
  assumes "live_graph_new c0 (length stys) mult rate width init = Inr (lg, c)"
    and "graph_new x answers window_answers 0 1 stys = Inr (g, reqs)" "distinct (map (\<lambda>i. fst (fst (answers i))) [0, 1, 2])"
    and "\<And>n. c n < 2 ^ 40" "list_all (in_range (length stys)) ks"
    and "distinct (map (generated_id \<circ> fst) fs)"
      "set (map (generated_id \<circ> fst) fs) \<inter> (\<lambda>i. fst (fst (answers i))) ` {0, 1, 2} = {}"
  shows "plot_ok width stys (length fs) (plotting_new lg c g reqs w fs ks)"
proof -
  note lg = live_graph_new_wf [OF assms(1)]
  note g = graph_new_ok [OF assms(2,3)]
  have "charted lg g" "lines_of lg = length stys" using lg(1,2) g(1,2) by (simp_all add: charted_def graph_wf_def lines_of_def)
  with assms(4-7) lg(3) g(2-4) show ?thesis
    by (simp add: plot_ok_def plotting_new_def drawer_inv_def drawer_ok_def counter_ok_def mutex_ok_def frames_ok_def
        drawn_ok_def ids_to_come_def drawer_holds_def counter_holds_def)
qed

text \<open>C24.  From the end of its construction on, a graph can be drawn however the steps of the thread that draws and of
  the thread that counts are interleaved, within some thirty years of the start.  A step is one access to what
  the threads share, or what one of them does alone: the mutex taken or given back, the clock read, the current bin
  looked at, a point added, one element of \<open>value_this_bin_\<close> read (by the thread that draws: without the mutex) or written, the
  points pruned and copied, the copy drawn, the pixmap presented; each access is taken to be indivisible.  After any
  steps: a thread has ended at most with the exception for an answer of the X server or for counting in a bin
  that has its default value, so no assertion of the drawing code failed and its loops ended; the
  labels of the x axis are consecutive seconds, no two labels of the y axis have the same height, their
  intensities lie between 0 and 1; the X server holds exactly the pixmaps of the graph, across every change of the window's
  size; and in a frame whose time is not on the boundary of a bin, every coordinate that was drawn is a number.  The
  threads do not wait for each other for ever: there is a number of rounds, in each of which both threads have at
  least one turn, after which all values are counted (or counting threw) and all frames are presented, unless the
  drawing failed on an answer or waits for an event that the X server does not send; with a server that grants what is
  asked and sends both events for each pixmap every frame is presented.\<close>

theorem plots_go_on:
  assumes "live_graph_new c0 (length stys) mult rate width init = Inr (lg, c)"
    and "graph_new x answers window_answers 0 1 stys = Inr (g, reqs)" "distinct (map (\<lambda>i. fst (fst (answers i))) [0, 1, 2])"
    and "weighs confidence" "\<And>n. c n < 2 ^ 40" "list_all (in_range (length stys)) ks"
    and "distinct (map (generated_id \<circ> fst) fs)"
      "set (map (generated_id \<circ> fst) fs) \<inter> (\<lambda>i. fst (fst (answers i))) ` {0, 1, 2} = {}"
  shows "(\<forall>ts. let s = plot_run confidence ts (plotting_new lg c g reqs w fs ks) in
        (\<forall>e. drawer s = Draw_failed e \<or> counter s = Count_failed e \<longrightarrow> is_runtime_error e) \<and>
        frame_ok (chart s) \<and> pixmaps_after {} (requests s) = held_by (chart s) \<and>
        (\<forall>(now, ds) \<in> set (drawn s). unat now mod unat width \<noteq> 0 \<longrightarrow> finite_drawings ds)) \<and>
     (\<exists>n. \<forall>rounds. n \<le> length rounds \<and> (\<forall>ts \<in> set rounds. fair ts) \<longrightarrow>
        (let s = plot_run confidence (concat rounds) (plotting_new lg c g reqs w fs ks) in
          both_done s \<and> (is_complete w \<and> list_all (served w) fs \<longrightarrow> frames s = [] \<and> length (drawn s) = length fs)))"
proof (intro conjI allI)
  let ?s0 = "plotting_new lg c g reqs w fs ks"
  have ok: "plot_ok width stys (length fs) ?s0" by (rule plotting_new_ok [OF assms(1-3,5-8)])
  note run = plot_run_ok(1) [OF ok assms(4)]
  show "let s = plot_run confidence ts ?s0 in
        (\<forall>e. drawer s = Draw_failed e \<or> counter s = Count_failed e \<longrightarrow> is_runtime_error e) \<and>
        frame_ok (chart s) \<and> pixmaps_after {} (requests s) = held_by (chart s) \<and>
        (\<forall>(now, ds) \<in> set (drawn s). unat now mod unat width \<noteq> 0 \<longrightarrow> finite_drawings ds)" for ts
    using run [of ts]
    by (auto simp: Let_def plot_ok_def drawer_inv_def drawer_ok_def counter_ok_def charted_def drawn_ok_def split: prod.splits)
  have "both_done s \<and> (is_complete w \<and> list_all (served w) fs \<longrightarrow> frames s = [] \<and> length (drawn s) = length fs)"
    if "work_left ?s0 \<le> length rounds \<and> (\<forall>ts \<in> set rounds. fair ts)" "s = plot_run confidence (concat rounds) ?s0"
    for rounds s
  proof (intro conjI impI)
    show b: "both_done s" using fair_rounds_end [OF ok assms(4)] that by blast
    assume "is_complete w \<and> list_all (served w) fs"
    then have "served_so_far ?s0" by (simp add: served_so_far_def plotting_new_def)
    from served_run [OF ok assms(4) this, of "concat rounds"] have s: "served_so_far s" by (simp add: that(2))
    with b served_not_awaited [OF s] show e: "frames s = []" by (auto simp: both_done_def served_so_far_def)
    with run [of "concat rounds"] s show "length (drawn s) = length fs"
      by (auto simp: that(2) plot_ok_def drawer_inv_def frames_ok_def served_so_far_def)
  qed
  then show "\<exists>n. \<forall>rounds. n \<le> length rounds \<and> (\<forall>ts \<in> set rounds. fair ts) \<longrightarrow>
      (let s = plot_run confidence (concat rounds) ?s0 in
        both_done s \<and> (is_complete w \<and> list_all (served w) fs \<longrightarrow> frames s = [] \<and> length (drawn s) = length fs))"
    unfolding Let_def by blast
qed

definition sample_clock :: clock where "sample_clock n = (if n < 10 then 700 + 300 * of_nat n else 4000)"

definition sample_server :: x_server where
  "sample_server = \<lparr>window_visual = Some 33, depths = [[32], [33, 34]]\<rparr>"

definition sample_surroundings :: "nat \<Rightarrow> surroundings" where
  "sample_surroundings i = \<lparr>server = sample_server, geometry = (\<lambda>n. Some (if i = 0 then (640, 480) else (800, 600))),
     generated_id = 10 + i, creation_answer = None, cairo_status = (\<lambda>_. None),
     extent_of = (\<lambda>txt. (0, - 20, 60, 25)), rotated_to_device = (\<lambda>(x, y). (y, - x))\<rparr>"

definition sample_frames :: "frame_answers list" where
  "sample_frames = [(sample_surroundings 0, None, [Generic_event 7, Other_event, Generic_event 8]),
     (sample_surroundings 1, None, [Generic_event 8, Generic_event 7])]"

definition sample_counts :: "count list" where
  "sample_counts = [Add_value 0 1500, Set_max_value 0 3000]"

definition sample_styles :: "style list" where
  "sample_styles = [((0, 0, 4 / 10, 1), False)]"

definition sample_live :: "live_graph \<times> clock" where
  "sample_live = projr (live_graph_new sample_clock (length sample_styles) (8 / 1000000) True 500 (\<lambda>_ _. 0))"

definition sample_graph :: "graph \<times> x_request list" where
  "sample_graph = projr (graph_new sample_server (\<lambda>i. ((i, Some (640, 480), None), \<lambda>_. None)) (None, None, 1) 0 1 sample_styles)"

lemma sample_live_eq:
  "live_graph_new sample_clock (length sample_styles) (8 / 1000000) True 500 (\<lambda>_ _. 0) = Inr (fst sample_live, snd sample_live)"
proof -
  have "\<not> isl (live_graph_new sample_clock (length sample_styles) (8 / 1000000) True 500 (\<lambda>_ _. 0))" by code_simp
  then show ?thesis by (simp add: sample_live_def)
qed

lemma sample_clock_bound: "snd sample_live n < 2 ^ 40"
proof -
  have "sample_clock m < 2 ^ 40" for m
  proof (cases "m < 10")
    case True
    then have "m \<in> {0, 1, 2, 3, 4, 5, 6, 7, 8, 9}" by auto
    then show ?thesis by (auto simp: sample_clock_def)
  qed (simp add: sample_clock_def)
  then show ?thesis by (simp add: live_graph_new_wf(4) [OF sample_live_eq])
qed

lemma sample_weight: "weighs (\<lambda>x. x * x)"
  by (simp add: weighs_def mult_le_one)

lemma sample_graph_eq:
  "graph_new sample_server (\<lambda>i. ((i, Some (640, 480), None), \<lambda>_. None)) (None, None, 1) 0 1 sample_styles =
    Inr (fst sample_graph, snd sample_graph)"
proof -
  have "\<not> isl (graph_new sample_server (\<lambda>i. ((i, Some (640, 480), None), \<lambda>_. None)) (None, None, 1) 0 1 sample_styles)" by code_simp
  then show ?thesis by (simp add: sample_graph_def)
qed

definition sample_plotting :: plotting where
  "sample_plotting = plotting_new (fst sample_live) (snd sample_live) (fst sample_graph) (snd sample_graph) (xwindow_new 7 8)
     sample_frames sample_counts"

text \<open>Two counts and two frames, before the second of which the window grows; all is counted and drawn.\<close>

lemma sample_served: "is_complete (xwindow_new 7 8) \<and> list_all (served (xwindow_new 7 8)) sample_frames"
  by code_simp

theorem plots_go_on_witness:
  "\<exists>rounds. let s = plot_run (\<lambda>x. x * x) (concat rounds) sample_plotting in
     both_done s \<and> frames s = [] \<and> length (drawn s) = 2 \<and> frame_ok (chart s) \<and>
     pixmaps_after {} (requests s) = held_by (chart s) \<and>
     (\<forall>(now, ds) \<in> set (drawn s). unat now mod unat (500 :: u32) \<noteq> 0 \<longrightarrow> finite_drawings ds)"
proof -
  have c: "list_all (in_range (length sample_styles)) sample_counts"
    "distinct (map (generated_id \<circ> fst) sample_frames)"
    "set (map (generated_id \<circ> fst) sample_frames) \<inter> (\<lambda>i :: nat. fst (fst ((i, Some (640 :: nat, 480 :: nat), None :: nat option), \<lambda>_ :: nat. None :: string option))) ` {0, 1, 2} = {}"
    by (auto simp: sample_styles_def sample_counts_def sample_frames_def sample_surroundings_def in_range_def)
  note go = plots_go_on [OF sample_live_eq sample_graph_eq _ sample_weight sample_clock_bound c, of "xwindow_new 7 8", folded sample_plotting_def]
  obtain n where n: "\<And>rounds. n \<le> length rounds \<and> (\<forall>ts \<in> set rounds. fair ts) \<Longrightarrow>
      (let s = plot_run (\<lambda>x. x * x) (concat rounds) sample_plotting in
        both_done s \<and> (is_complete (xwindow_new 7 8) \<and> list_all (served (xwindow_new 7 8)) sample_frames \<longrightarrow>
          frames s = [] \<and> length (drawn s) = length sample_frames))"
    using go by auto
  let ?rounds = "replicate n [Counter, Drawer]"
  have "\<forall>ts \<in> set ?rounds. fair ts" by (simp add: fair_def)
  with n [of ?rounds] go sample_served show ?thesis
    by (intro exI [of _ ?rounds]) (simp add: Let_def sample_frames_def)
qed

end
