(* ===== verification/Packet_Info.thy ===== *)
theory Packet_Info
  imports Adv_Delay_Queue
begin

text \<open>
  \<open>src/util/pktinfo.cc\<close>: what is printed about a packet, whose IP header begins at an offset of the
  given bytes.  The four bits of the version are the upper half of the first byte.
\<close>

definition ip_version :: "string \<Rightarrow> nat \<Rightarrow> nat res" where
  "ip_version s off = bindR (peek s off) (\<lambda>b. Inr (b div 16))"

definition print_src_dst_ips :: "string \<Rightarrow> nat \<Rightarrow> string res" where
  "print_src_dst_ips s off =
     bindR (ip_version s off) (\<lambda>version.
       if version \<noteq> 4 then Inr []
       else bindR (peek_ip s (off + 12)) (\<lambda>saddr. bindR (peek_ip s (off + 16)) (\<lambda>daddr.
              Inr (''#- '' @ inet_ntop saddr @ '' => '' @ inet_ntop daddr @ [CHR 0x0A]))))"

text \<open>The port numbers of \<open>tcphdr\<close>, and those of \<open>udphdr\<close>, are the first four bytes of the header.\<close>

definition print_tcp_endpoints :: "string \<Rightarrow> nat \<Rightarrow> u64 \<Rightarrow> string res" where
  "print_tcp_endpoints s off delay =
     bindR (peek s off) (\<lambda>b.
       if b div 16 \<noteq> 4 then Inr []
       else let tcph = off + b mod 16 * 4
            in bindR (peek_ip s (off + 12)) (\<lambda>saddr. bindR (peek16 s tcph) (\<lambda>sport.
               bindR (peek_ip s (off + 16)) (\<lambda>daddr. bindR (peek16 s (tcph + 2)) (\<lambda>dport.
                 Inr (''#- '' @ inet_ntop saddr @ '':'' @ dec (unat sport) @ '' => '' @
                      inet_ntop daddr @ '':'' @ dec (unat dport) @ ''  '' @ dec (unat delay) @ '' ms'' @ [CHR 0x0A]))))))"

definition print_udp_endpoints :: "string \<Rightarrow> nat \<Rightarrow> u64 \<Rightarrow> string res" where
  "print_udp_endpoints s off delay =
     bindR (peek s off) (\<lambda>b.
       if b div 16 \<noteq> 4 then Inr []
       else let udph = off + b mod 16 * 4
            in bindR (peek_ip s (off + 12)) (\<lambda>saddr. bindR (peek16 s udph) (\<lambda>sport.
               bindR (peek_ip s (off + 16)) (\<lambda>daddr. bindR (peek16 s (udph + 2)) (\<lambda>dport.
                 Inr (''#- '' @ inet_ntop saddr @ '':'' @ dec (unat sport) @ '' => '' @
                      inet_ntop daddr @ '':'' @ dec (unat dport) @ ''  '' @ dec (unat delay) @ '' ms'' @ [CHR 0x0A]))))))"

text \<open>The bytes of a packet decide what is printed only through its headers.\<close>

lemma peek_append: "i < length s \<Longrightarrow> peek (s @ t) i = peek s i"
  by (simp add: peek_def nth_append)

lemma headers_suffice:
  assumes "off < length s" "off + 20 \<le> length s" "off + of_char (s ! off) mod 16 * 4 + 4 \<le> length s"
  shows "print_src_dst_ips (s @ body) off = print_src_dst_ips s off"
    "print_tcp_endpoints (s @ body) off delay = print_tcp_endpoints s off delay"
    "print_udp_endpoints (s @ body) off delay = print_udp_endpoints s off delay"
proof -
  have p: "peek s off = Inr (of_char (s ! off))" using assms(1) by (simp add: peek_def)
  have ip: "peek_ip (s @ body) (off + 12) = peek_ip s (off + 12)" "peek_ip (s @ body) (off + 16) = peek_ip s (off + 16)"
    using assms(2) by (simp_all add: peek_ip_def peek_append)
  have port: "peek16 (s @ body) i = peek16 s i" if "i + 2 \<le> length s" for i
    using that by (simp add: peek16_def peek_append)
  show "print_src_dst_ips (s @ body) off = print_src_dst_ips s off"
    "print_tcp_endpoints (s @ body) off delay = print_tcp_endpoints s off delay"
    "print_udp_endpoints (s @ body) off delay = print_udp_endpoints s off delay"
    using assms
    by (simp_all add: print_src_dst_ips_def print_tcp_endpoints_def print_udp_endpoints_def ip_version_def
        peek_append p ip port Let_def)
qed

text \<open>The two kinds of header agree in what is read of them.\<close>

lemma print_endpoints_same: "print_udp_endpoints = print_tcp_endpoints"
  by (simp add: fun_eq_iff print_udp_endpoints_def print_tcp_endpoints_def)

lemma not_ipv4_silent:
  assumes "off < length s" "of_char (s ! off) div 16 \<noteq> (4 :: nat)"
  shows "print_src_dst_ips s off = Inr []" "print_tcp_endpoints s off delay = Inr []"
  using assms by (simp_all add: print_src_dst_ips_def print_tcp_endpoints_def ip_version_def peek_def)

end
