(* ===== verification/Spec2Isabelle.thy ===== *)
theory Spec2Isabelle
  imports Link_Properties Queue_Properties Frontend_Properties Http_Properties
    Proxy_Properties System_Properties Shell_Properties Container_Properties Program_Properties
    Recording_Properties Graph_Properties Packet_Info
begin

text \<open>
  Mahimahi runs programs behind emulated network conditions, and records and replays web traffic.
  This is a model of its C++ sources (\<open>src/\<close> below is \<open>src/src/\<close> of the repository) and a proof
  of what they promise.  Each theory follows one part of the program; the theories named
  \<open>..._Properties\<close> hold the statements, numbered C1, C2, ..., with a concrete instance of each.

  \<^bold>\<open>The program.\<close>  A \<^emph>\<open>shell\<close> (\<open>src/frontend/delayshell.cc\<close>, \<open>lossshell.cc\<close>, \<open>linkshell.cc\<close> and
  others) starts a command in a network namespace of its own.  \<open>PacketShell\<close>
  (\<open>src/packet/packetshell.cc\<close>) joins the two namespaces by TUN devices and runs, for each
  direction, a process whose event loop (\<open>src/util/event_loop.cc\<close>, over \<open>poller.cc\<close>) reads
  datagrams from one device, gives them to a \<^emph>\<open>ferry queue\<close> (a delay, a loss, an emulated link)
  and writes to the other device what the queue releases.  The emulated link
  (\<open>src/frontend/link_queue.cc\<close>) serves a \<^emph>\<open>packet queue\<close> (\<open>src/packet\<close>) at the times that a trace
  gives.  The recording shells put a proxy (\<open>src/httpserver/http_proxy.cc\<close>) between the command
  and the network: it parses both byte streams (\<open>src/http\<close>), passes on what it parsed and stores
  every exchange; the replay server (\<open>src/frontend/replayserver.cc\<close>) answers from the store.

  \<^bold>\<open>Conventions.\<close>  Machine integers are words of their width (\<open>Mahi_Prelude\<close>); a \<open>double\<close> is a
  rational rounded to 53 bits after every operation (\<open>Floating\<close>); a \<open>std::string\<close> is a list of
  characters (\<open>Cpp_String\<close>), a \<open>std::map\<close> an ordered association list (\<open>Cpp_Map\<close>).  An operation
  that can throw, fail an assertion or run into undefined behaviour returns \<open>exn + 'a\<close>.  What
  the kernel decides is a parameter: the clock is the sequence of the values it will show,
  \<open>reads\<close> and \<open>writes\<close> what system calls will return, \<open>kernel\<close> the answer of one call of \<open>poll(2)\<close>,
  \<open>os\<close> what waiting and signalling give, \<open>credentials\<close> the system calls on identities.  Nothing is
  assumed of them but where a statement says so.  Random engines are a state with a function that draws.

  \<^bold>\<open>Loops.\<close>  A loop that ends by its own means is a terminating \<open>function\<close>.  One that may not is a
  \<open>partial_function (option)\<close>, whose value \<open>None\<close> is a loop without end; that it ends is proved where
  it does (\<open>rationalize\<close>, \<open>parse_loop\<close>, \<open>switch_until\<close>, \<open>calculate_drop_prob\<close>, \<open>destroy_loop\<close>).  The
  event loops run until a callback or a signal ends them; \<open>poll_loop\<close> and \<open>loop_rounds\<close> take the
  answers of the kernel as a list, one for each round, and the statements hold for every list,
  that is after any number of rounds.

  \<^bold>\<open>The theories.\<close>

  \<^item> \<^emph>\<open>Packet queues.\<close>  \<open>Packet_Queue\<close> states the interface \<open>AbstractPacketQueue\<close> as the locales
    \<open>packet_queue\<close> and \<open>reliable_packet_queue\<close>; \<open>Infinite_Queue\<close>, \<open>Dropping_Queue\<close> (drop-tail and
    drop-head), \<open>CoDel_Queue\<close> and \<open>Pie_Queue\<close> model the disciplines and interpret it, and
    \<open>Any_Queue\<close> the choice among them that the command line makes.  Drop-head is not reliable: its
    \<open>enqueue\<close> can fail an assertion (see the findings of the manifest).
  \<^item> \<^emph>\<open>Ferry queues.\<close>  \<open>Ferry_Queues\<close> has the interface the packet shell uses (locale \<open>ferry_queue\<close>)
    with the delay, loss, on/off and meter queues; \<open>Link_Queue\<close> the emulated link with its log and
    its graphs (\<open>Live_Graph\<close>), \<open>Link_Ferry\<close> shows that over every reliable packet queue it is a
    ferry queue; \<open>Delay_Rules\<close> and \<open>Adv_Delay_Queue\<close> the delays chosen by rules, \<open>Packet_Info\<close> what is printed of a packet; \<open>Ferry_Loop\<close>
    the loop that moves the packets (locale \<open>open_ferry_queue\<close>).
  \<^item> \<^emph>\<open>Graphs.\<close>  \<open>Live_Graph\<close> counts in bins; \<open>Graph_Drawing\<close> is a frame of the chart, from the data to
    the calls of cairo as a list of instructions, \<open>Display\<close> the window and the pixmaps of the X
    server, \<open>Graph_Frames\<close> the invariant of the frames (over facts on rounding in \<open>Float_Facts\<close>),
    \<open>Graph_Animation\<close> the thread that draws, interleaved with the one that counts.
  \<^item> \<^emph>\<open>Processes and events.\<close>  \<open>File_Descriptor\<close>, \<open>Poller\<close> (locale \<open>poller_client\<close> and its
    extensions: every callback finds what it needs although all interests are evaluated before
    the first one runs), \<open>Child_Process\<close>, \<open>Event_Loop\<close>, \<open>System_Runner\<close> (commands, address
    translation, virtual devices), \<open>Util\<close> (privileges, environment, directories), \<open>Address\<close> with
    \<open>Ipv4_Text\<close>, \<open>Command_Line\<close> (quoting, options).
  \<^item> \<^emph>\<open>HTTP.\<close>  \<open>Http_Message\<close> and \<open>Http_Parser\<close> model messages and the incremental parsers;
    \<open>Http_Incremental\<close> and \<open>Http_Sequence\<close> prove in the locale \<open>message_type\<close> that the division of
    the input does not matter, \<open>Http_Parsers\<close> interprets it for requests and responses;
    \<open>Backing_Store\<close> the files of a recording, \<open>Time_Logger\<close> its timers, \<open>Well_Defined\<close> that no
    input leads these parts to undefined behaviour; \<open>Secure_Socket\<close> TLS over a socket and the interface
    of sockets that the proxy is a template over (locale \<open>stream_socket\<close>, interpreted for TCP and
    TLS), \<open>Http_Proxy\<close> the two proxy loops over such a socket and the thread of a connection,
    \<open>Proxy_Exchange\<close> a run of them on concrete bytes, \<open>Replay_Server\<close> the programs that answer.
  \<^item> \<^emph>\<open>DNS.\<close>  \<open>Bytestream_Queue\<close> is the ring buffer, \<open>Dns_Proxy\<close> the relay of a TCP connection,
    \<open>Dns_Service\<close> that of a datagram and the start of dnsmasq.
  \<^item> \<^emph>\<open>Containers.\<close>  \<open>Socket\<close> and \<open>Netdevice\<close> are the sockets and TUN devices, \<open>Packet_Shell\<close> the
    construction of a packet shell and its processes, each with its credentials, its environment
    and what it asks of the kernel; \<open>Shells\<close> the programs, from their command lines on.
  \<^item> \<^emph>\<open>Recording and replay.\<close>  \<open>Web_Server\<close> models the web servers that answer for recorded hosts,
    their configuration and the vector that owns them, \<open>Replay_Shell\<close> the programs that serve a
    recording, \<open>Record_Shell\<close> those that make one or only proxy, with the container they start.
    These programs run commands; a computation that may run some is \<open>('a, runner) run\<close>, and the
    rules and servers that a run leaves are read off the commands it has executed.  \<open>Signals\<close> are
    the masks and the loops around a child, \<open>Time_Report\<close> the times that the program \<open>proxyshell\<close>
    measures in its proxy and prints at its end.

  \<^bold>\<open>Not modelled.\<close>  What cairo, pango and the X server make of the calls, and the wrappers that own
  their objects; what OpenSSL does (its answers are parameters); the code that protoc
  generates (the fields the program reads and writes are a record); the locking of the time log (its
  operations are steps that exclude each other);
  the conversion of floating-point text, which is the C library's (\<open>strtod\<close>, a parameter).
\<close>

end
